(* ===== verification/Connect_Prelude.thy ===== *)
theory Connect_Prelude
  imports Main "HOL-Library.Word" "HOL-Library.Multiset" "HOL-Library.Monad_Syntax"
begin

text \<open>
  The shared vocabulary of the development: the machine integers of the Go code, the store
  addresses of its pointers, and the list, map and arithmetic facts that several components use.

  A Go panic is the value \<^term>\<open>None\<close> of an \<open>option\<close> result (the goroutine does not return), so
  that "does not panic" is a statement about the model and not an assumption. Errors that Go returns
  as values stay values.
\<close>

section \<open>Types of the Go program\<close>

type_synonym byte = "8 word"
type_synonym u16 = "16 word"
type_synonym u64 = "64 word"

text \<open>
  A pointer is an address. Times are nanoseconds since an epoch and durations are nanoseconds
  (\<open>time.Time\<close>, \<open>time.Duration\<close>).
\<close>

type_synonym ptr = nat
type_synonym time = int
type_synonym duration = int

text \<open>Two's complement wrap-around of a 64 bit signed integer (\<open>ByteCount = int64\<close> in connect.go).\<close>

definition int64 :: "int \<Rightarrow> int" where
  "int64 x = (x + 2 ^ 63) mod 2 ^ 64 - 2 ^ 63"

type_synonym ByteCount = int

named_theorems wrap_simps "normalisation of nested int64 wrap-around"
named_theorems queue_frame "fields that a queue operation leaves alone"
named_theorems queue_inv "invariants that a queue operation keeps"

lemma int64_cong:
  assumes "(a - b) mod 2 ^ 64 = 0"
  shows "int64 a = int64 b"
proof -
  have "(a + 2 ^ 63) mod 2 ^ 64 = (b + 2 ^ 63) mod 2 ^ 64"
    using assms by (simp add: mod_eq_dvd_iff dvd_eq_mod_eq_0)
  then show ?thesis by (simp add: int64_def)
qed

lemma int64_minus_self: "(int64 a - a) mod 2 ^ 64 = 0"
proof -
  have "int64 a - a = - ((a + 2 ^ 63) div 2 ^ 64) * 2 ^ 64"
    unfolding int64_def by (simp add: minus_div_mult_eq_mod [symmetric])
  then show ?thesis by simp
qed

lemma int64_add_left [wrap_simps]: "int64 (int64 a + b) = int64 (a + b)"
  by (rule int64_cong) (use int64_minus_self [of a] in simp)

lemma int64_add_right [wrap_simps]: "int64 (a + int64 b) = int64 (a + b)"
  by (rule int64_cong) (use int64_minus_self [of b] in simp)

lemma int64_diff_left [wrap_simps]: "int64 (int64 a - b) = int64 (a - b)"
  by (rule int64_cong) (use int64_minus_self [of a] in simp)

lemma int64_idem [simp]: "int64 (int64 a) = int64 a"
  by (rule int64_cong) (rule int64_minus_self)

lemma int64_id [simp]: "- (2 ^ 63) \<le> a \<Longrightarrow> a < 2 ^ 63 \<Longrightarrow> int64 a = a"
  by (simp add: int64_def)

lemma int64_0 [simp]: "int64 0 = 0"
  by (simp add: int64_def)

lemma int64_range: "- (2 ^ 63) \<le> int64 a" "int64 a < 2 ^ 63"
  unfolding int64_def by simp_all

lemma unat_byte_less: "unat (b :: byte) < 256"
  using unsigned_less [of b, where ?'a = nat] by simp

lemma unat_u64 [simp]: "a < 2 ^ 64 \<Longrightarrow> unat (of_nat a :: u64) = a"
  by (simp add: unat_of_nat)

lemma u64_of_nat_eq: "a < 2 ^ 64 \<Longrightarrow> b < 2 ^ 64 \<Longrightarrow> (of_nat a :: u64) = of_nat b \<longleftrightarrow> a = b"
  by (metis unat_u64)

lemma u64_of_nat_le: "a < 2 ^ 64 \<Longrightarrow> b < 2 ^ 64 \<Longrightarrow> (of_nat a :: u64) \<le> of_nat b \<longleftrightarrow> a \<le> b"
  by (simp add: word_le_nat_alt)

lemma u64_of_nat_less: "a < 2 ^ 64 \<Longrightarrow> b < 2 ^ 64 \<Longrightarrow> (of_nat a :: u64) < of_nat b \<longleftrightarrow> a < b"
  by (simp add: word_less_nat_alt)

section \<open>Lists\<close>

text \<open>Exchanging two elements of an array, as \<open>sort.Interface.Swap\<close> does.\<close>

definition list_swap :: "'a list \<Rightarrow> nat \<Rightarrow> nat \<Rightarrow> 'a list" where
  "list_swap xs i j = xs[i := xs ! j, j := xs ! i]"

lemma length_list_swap [simp]: "length (list_swap xs i j) = length xs"
  by (simp add: list_swap_def)

lemma mset_list_swap [simp]:
  "i < length xs \<Longrightarrow> j < length xs \<Longrightarrow> mset (list_swap xs i j) = mset xs"
  unfolding list_swap_def by (metis mset_swap)

lemma set_list_swap [simp]:
  "i < length xs \<Longrightarrow> j < length xs \<Longrightarrow> set (list_swap xs i j) = set xs"
  by (metis mset_list_swap set_mset_mset)

lemma distinct_list_swap [simp]:
  "i < length xs \<Longrightarrow> j < length xs \<Longrightarrow> distinct (list_swap xs i j) = distinct xs"
  by (metis mset_list_swap mset_eq_imp_distinct_iff)

lemma nth_list_swap:
  "i < length xs \<Longrightarrow> j < length xs \<Longrightarrow> k < length xs \<Longrightarrow>
   list_swap xs i j ! k = (if k = j then xs ! i else if k = i then xs ! j else xs ! k)"
  by (simp add: list_swap_def nth_list_update)

lemma mset_butlast_last: "xs \<noteq> [] \<Longrightarrow> mset xs = add_mset (last xs) (mset (butlast xs))"
  by (metis append_butlast_last_id mset.simps(2) mset_append union_mset_add_mset_right
      add.right_neutral mset.simps(1))

lemma distinct_mset_eq_set:
  "distinct xs \<Longrightarrow> mset ys = mset xs \<Longrightarrow> distinct ys \<and> set ys = set xs"
  by (metis mset_eq_imp_distinct_iff set_mset_mset)

lemma set_remove1_mset:
  "distinct xs \<Longrightarrow> mset ys = mset xs - {#x#} \<Longrightarrow> distinct ys \<and> set ys = set xs - {x}"
  by (metis distinct_remove1 mset_eq_imp_distinct_iff mset_remove1 set_mset_mset set_remove1_eq)

lemma sum_set_remove:
  fixes f :: "'a \<Rightarrow> int"
  shows "finite A \<Longrightarrow> x \<in> A \<Longrightarrow> (\<Sum>y\<in>A - {x}. f y) = (\<Sum>y\<in>A. f y) - f x"
  by (simp add: sum_diff1)

section \<open>Maps that index a set of objects by a key\<close>

lemma index_map_insert:
  assumes "\<forall>k x. m k = Some x \<longleftrightarrow> x \<in> A \<and> key x = k" "m (key p) = None"
  shows "(m(key p \<mapsto> p)) k = Some x \<longleftrightarrow> x \<in> insert p A \<and> key x = k"
proof -
  have "key x \<noteq> key p" if "x \<in> A" for x
    using assms that by force
  then show ?thesis using assms(1) by auto
qed

lemma index_map_remove:
  assumes "\<forall>k x. m k = Some x \<longleftrightarrow> x \<in> A \<and> key x = k" "p \<in> A"
  shows "(m(key p := None)) k = Some x \<longleftrightarrow> x \<in> A - {p} \<and> key x = k"
proof -
  have "x = p" if "x \<in> A" "key x = key p" for x
    using assms that by (metis option.inject)
  then show ?thesis using assms by auto
qed

section \<open>Maps of Go\<close>

text \<open>Go iterates over a map in an order of its own; what depends on it takes the order as an argument.\<close>

definition order_ok :: "('a list \<Rightarrow> 'a list) \<Rightarrow> bool" where
  "order_ok order \<longleftrightarrow> (\<forall>xs. mset (order xs) = mset xs)"

lemma order_ok_set: "order_ok order \<Longrightarrow> set (order xs) = set xs"
  unfolding order_ok_def by (metis set_mset_mset)

lemma order_ok_hd: "order_ok order \<Longrightarrow> xs \<noteq> [] \<Longrightarrow> hd (order xs) \<in> set xs"
  using order_ok_set [of order xs] by (metis hd_in_set set_empty)

end
