(* ===== verification/Go_Heap.thy ===== *)
theory Go_Heap
  imports Connect_Prelude
begin

text \<open>
  The binary heap of Go's standard library package \<open>container/heap\<close>, which every queue of the
  program is built on (transfer_queue.go, transfer_rtt.go, transport_pt_queue.go). The package works
  on an interface of five methods over a mutable object; here the methods are the fields of a record
  of functions over an explicit state \<open>'s\<close>, and the package's routines are functions over such a
  record.

  The locale \<open>heap_interface\<close> states what a queue promises of its five methods (the array view, the
  preorder that \<open>Less\<close> decides, a well-formedness predicate of its own). The lemmas of the locale
  are the correctness of \<open>Push\<close>, \<open>Remove\<close> and \<open>Fix\<close>: the heap order is restored, the
  contents change by exactly one element, the root is a least element. Every queue of the program is an
  interpretation. \<open>Less\<close> need not be strict: the max heap of transfer_queue.go uses a reflexive one.
\<close>

section \<open>The routines of container/heap\<close>

record ('s, 'x) heap_ops =
  h_len :: "'s \<Rightarrow> nat"
  h_less :: "'s \<Rightarrow> nat \<Rightarrow> nat \<Rightarrow> bool"
  h_swap :: "'s \<Rightarrow> nat \<Rightarrow> nat \<Rightarrow> 's"
  h_push :: "'s \<Rightarrow> 'x \<Rightarrow> 's"
  h_pop :: "'s \<Rightarrow> 's \<times> 'x"

text \<open>\<open>func up(h Interface, j int)\<close>: exchange with the parent while it is larger.\<close>

function heap_up :: "('s, 'x) heap_ops \<Rightarrow> 's \<Rightarrow> nat \<Rightarrow> 's" where
  "heap_up H s j =
     (let i = (j - 1) div 2 in
      if i = j \<or> \<not> h_less H s j i then s else heap_up H (h_swap H s i j) i)"
  by pat_completeness auto
termination
  by (relation "measure (\<lambda>(H, s, j). j)") auto

text \<open>
  \<open>func down(h Interface, i0, n int) bool\<close>: exchange with the least child while it is smaller. The
  final position is returned; the Go result is whether it is beyond the first one.
\<close>

function heap_down :: "('s, 'x) heap_ops \<Rightarrow> 's \<Rightarrow> nat \<Rightarrow> nat \<Rightarrow> 's \<times> nat" where
  "heap_down H s i n =
     (let j1 = 2 * i + 1 in
      if n \<le> j1 then (s, i)
      else let j = (if j1 + 1 < n \<and> h_less H s (j1 + 1) j1 then j1 + 1 else j1) in
        if \<not> h_less H s j i then (s, i) else heap_down H (h_swap H s i j) j n)"
  by pat_completeness auto
termination
  by (relation "measure (\<lambda>(H, s, i, n). n - i)") (auto split: if_splits)

declare heap_up.simps [simp del] heap_down.simps [simp del]

definition heap_Init :: "('s, 'x) heap_ops \<Rightarrow> 's \<Rightarrow> 's" where
  "heap_Init H s = (let n = h_len H s in
     fold (\<lambda>i s. fst (heap_down H s i n)) (rev [0..<n div 2]) s)"

definition heap_Push :: "('s, 'x) heap_ops \<Rightarrow> 's \<Rightarrow> 'x \<Rightarrow> 's" where
  "heap_Push H s x = (let s = h_push H s x in heap_up H s (h_len H s - 1))"

definition heap_sift :: "('s, 'x) heap_ops \<Rightarrow> 's \<Rightarrow> nat \<Rightarrow> nat \<Rightarrow> 's" where
  "heap_sift H s i n = (case heap_down H s i n of (s, k) \<Rightarrow> if i < k then s else heap_up H s i)"

text \<open>\<open>Remove\<close> panics (index out of range) exactly when the index is not below \<open>Len\<close>.\<close>

definition heap_Remove :: "('s, 'x) heap_ops \<Rightarrow> 's \<Rightarrow> nat \<Rightarrow> ('s \<times> 'x) option" where
  "heap_Remove H s i =
     (if h_len H s \<le> i then None
      else let n = h_len H s - 1 in
        Some (h_pop H (if n \<noteq> i then heap_sift H (h_swap H s i n) i n else s)))"

text \<open>\<open>Fix\<close> re-establishes the order after the element at the index has changed its value.\<close>

definition heap_Fix :: "('s, 'x) heap_ops \<Rightarrow> 's \<Rightarrow> nat \<Rightarrow> 's option" where
  "heap_Fix H s i = (if h_len H s \<le> i then None else Some (heap_sift H s i (h_len H s)))"

section \<open>Whatever a swap keeps, the routines keep\<close>

lemma heap_up_keeps:
  assumes "P s" and "\<And>s i j. P s \<Longrightarrow> P (h_swap H s i j)"
  shows "P (heap_up H s j)"
  using assms
proof (induction H s j rule: heap_up.induct)
  case (1 H s j)
  then show ?case
    by (subst heap_up.simps) (simp add: Let_def)
qed

lemma heap_down_keeps:
  assumes "P s" and "\<And>s i j. P s \<Longrightarrow> P (h_swap H s i j)"
  shows "P (fst (heap_down H s i n))"
  using assms
proof (induction H s i n rule: heap_down.induct)
  case (1 H s i n)
  then show ?case
    by (subst heap_down.simps) (simp add: Let_def)
qed

lemma heap_sift_keeps:
  assumes "P s" and "\<And>s i j. P s \<Longrightarrow> P (h_swap H s i j)"
  shows "P (heap_sift H s i n)"
proof -
  have "P (fst (heap_down H s i n))"
    by (rule heap_down_keeps) (use assms in auto)
  then show ?thesis
    unfolding heap_sift_def
    by (auto split: prod.splits intro: heap_up_keeps [where P = P] assms(2))
qed

lemma heap_Push_keeps:
  assumes "P (h_push H s x)" and "\<And>s i j. P s \<Longrightarrow> P (h_swap H s i j)"
  shows "P (heap_Push H s x)"
  unfolding heap_Push_def Let_def by (rule heap_up_keeps) (use assms in auto)

lemma heap_Remove_keeps:
  assumes "heap_Remove H s i = Some (s', x)" and "P s"
    and "\<And>s i j. P s \<Longrightarrow> P (h_swap H s i j)" and "\<And>s. P s \<Longrightarrow> P (fst (h_pop H s))"
  shows "P s'"
proof -
  let ?t = "if h_len H s - 1 \<noteq> i then heap_sift H (h_swap H s i (h_len H s - 1)) i (h_len H s - 1) else s"
  have "P ?t" using assms(2,3) by (auto intro: heap_sift_keeps [where P = P])
  then have "P (fst (h_pop H ?t))" by (rule assms(4))
  with assms(1) show ?thesis
    by (auto simp: heap_Remove_def Let_def split: if_splits)
qed

section \<open>Heap order on arrays\<close>

definition parent :: "nat \<Rightarrow> nat" where
  "parent k = (k - 1) div 2"

definition heap_upto :: "('p \<Rightarrow> 'p \<Rightarrow> bool) \<Rightarrow> 'p list \<Rightarrow> nat \<Rightarrow> bool" where
  "heap_upto le xs n \<longleftrightarrow> (\<forall>k. 0 < k \<longrightarrow> k < n \<longrightarrow> le (xs ! parent k) (xs ! k))"

text \<open>
  The order may fail around position \<open>i\<close> only, and the parent of \<open>i\<close> is below the children of
  \<open>i\<close>: the state of the array while \<open>up\<close> and \<open>down\<close> run.
\<close>

definition heap_hole :: "('p \<Rightarrow> 'p \<Rightarrow> bool) \<Rightarrow> 'p list \<Rightarrow> nat \<Rightarrow> nat \<Rightarrow> bool" where
  "heap_hole le xs n i \<longleftrightarrow>
     (\<forall>k. 0 < k \<longrightarrow> k < n \<longrightarrow> k \<noteq> i \<longrightarrow> parent k \<noteq> i \<longrightarrow> le (xs ! parent k) (xs ! k)) \<and>
     (\<forall>k. 0 < k \<longrightarrow> k < n \<longrightarrow> parent k = i \<longrightarrow> 0 < i \<longrightarrow> le (xs ! parent i) (xs ! k))"

definition below_children :: "('p \<Rightarrow> 'p \<Rightarrow> bool) \<Rightarrow> 'p list \<Rightarrow> nat \<Rightarrow> nat \<Rightarrow> bool" where
  "below_children le xs n i \<longleftrightarrow> (\<forall>k. 0 < k \<longrightarrow> k < n \<longrightarrow> parent k = i \<longrightarrow> le (xs ! i) (xs ! k))"

definition above_parent :: "('p \<Rightarrow> 'p \<Rightarrow> bool) \<Rightarrow> 'p list \<Rightarrow> nat \<Rightarrow> bool" where
  "above_parent le xs i \<longleftrightarrow> (0 < i \<longrightarrow> le (xs ! parent i) (xs ! i))"

lemma parent_less: "0 < k \<Longrightarrow> parent k < k"
  by (simp add: parent_def div_less_iff_less_mult)

lemma parent_cases: "0 < k \<Longrightarrow> parent k = i \<Longrightarrow> k = 2 * i + 1 \<or> k = 2 * i + 2"
  by (cases "even k") (auto simp: parent_def elim!: evenE oddE)

lemma heap_upto_iff_hole:
  "heap_upto le xs n \<longleftrightarrow> heap_hole le xs n i \<and> below_children le xs n i \<and> (i < n \<longrightarrow> above_parent le xs i)"
  if "transp le"
proof
  assume h: "heap_upto le xs n"
  have "le (xs ! parent i) (xs ! k)" if k: "0 < k" "k < n" "parent k = i" "0 < i" for k
  proof -
    have "i < n" using k parent_less [of k] by simp
    then have "le (xs ! parent i) (xs ! i)" using h k by (simp add: heap_upto_def)
    moreover have "le (xs ! i) (xs ! k)" using h k by (auto simp: heap_upto_def)
    ultimately show ?thesis using \<open>transp le\<close> by (blast dest: transpD)
  qed
  then show "heap_hole le xs n i \<and> below_children le xs n i \<and> (i < n \<longrightarrow> above_parent le xs i)"
    using h by (auto simp: heap_hole_def below_children_def above_parent_def heap_upto_def)
next
  assume h: "heap_hole le xs n i \<and> below_children le xs n i \<and> (i < n \<longrightarrow> above_parent le xs i)"
  show "heap_upto le xs n"
    unfolding heap_upto_def
  proof (intro allI impI)
    fix k assume k: "0 < k" "k < n"
    consider "k = i" | "parent k = i" | "k \<noteq> i" "parent k \<noteq> i" by blast
    then show "le (xs ! parent k) (xs ! k)"
      by cases (use h k in \<open>simp_all add: heap_hole_def below_children_def above_parent_def\<close>)
  qed
qed

lemma heap_upto_root:
  assumes "transp le" "reflp le" "heap_upto le xs n"
  shows "k < n \<Longrightarrow> le (xs ! 0) (xs ! k)"
proof (induction k rule: less_induct)
  case (less k)
  show ?case
  proof (cases "k = 0")
    case True
    then show ?thesis using assms(2) by (simp add: reflpD)
  next
    case False
    then have "le (xs ! 0) (xs ! parent k)"
      using less parent_less [of k] by simp
    moreover have "le (xs ! parent k) (xs ! k)"
      using False less.prems assms(3) by (simp add: heap_upto_def)
    ultimately show ?thesis using assms(1) by (blast dest: transpD)
  qed
qed

lemma heap_upto_mono: "heap_upto le xs n \<Longrightarrow> m \<le> n \<Longrightarrow> heap_upto le xs m"
  by (simp add: heap_upto_def)

lemma heap_upto_cong:
  "\<forall>k<n. xs ! k = ys ! k \<Longrightarrow> heap_upto le xs n \<Longrightarrow> heap_upto le ys n"
  unfolding heap_upto_def by (metis less_trans parent_less)

lemma below_children_leaf: "n \<le> 2 * i + 1 \<Longrightarrow> below_children le xs n i"
  unfolding below_children_def by (auto dest!: parent_cases)

lemma heap_hole_append:
  assumes "heap_upto le xs n"
  shows "heap_hole le xs (Suc n) n" "below_children le xs (Suc n) n"
proof -
  have kid: "parent k \<noteq> n" if "0 < k" "k < Suc n" for k
    using that parent_less [of k] by simp
  then show "heap_hole le xs (Suc n) n"
    using assms unfolding heap_hole_def heap_upto_def by (metis less_antisym)
  show "below_children le xs (Suc n) n"
    using kid unfolding below_children_def by blast
qed

text \<open>Replacing the element at \<open>i\<close> of a heap leaves a hole at \<open>i\<close>.\<close>

lemma heap_hole_replace:
  assumes "transp le" "heap_upto le xs n" "\<forall>k<n. k \<noteq> i \<longrightarrow> ys ! k = xs ! k" "i < n"
  shows "heap_hole le ys n i"
proof -
  have *: "heap_hole le xs n i" using assms by (simp add: heap_upto_iff_hole [of le xs n i])
  have parent_ys: "ys ! parent k = xs ! parent k" if "0 < k" "k < n" "parent k \<noteq> i" for k
    using that parent_less [of k] assms(3) by auto
  have kid: "parent k \<noteq> k \<and> k \<noteq> i" if "0 < k" "parent k = i" for k
    using that parent_less [of k] by auto
  have grand: "ys ! parent i = xs ! parent i" if "0 < i"
    using that assms(3,4) parent_less [of i] by auto
  show ?thesis
    using * assms(3) parent_ys kid grand unfolding heap_hole_def by (metis (no_types, lifting))
qed

text \<open>One step of \<open>down\<close>: the hole moves to the child that was exchanged.\<close>

lemma heap_hole_down:
  assumes hole: "heap_hole le xs n i" and n: "n \<le> length xs"
    and j: "0 < j" "j < n" "parent j = i"
    and least: "\<forall>k. 0 < k \<longrightarrow> k < n \<longrightarrow> parent k = i \<longrightarrow> le (xs ! j) (xs ! k)"
    and le: "le (xs ! j) (xs ! i)"
  shows "heap_hole le (list_swap xs i j) n j \<and> above_parent le (list_swap xs i j) j"
proof -
  have ij: "i < j" using j parent_less [of j] by simp
  then have len: "i < length xs" "j < length xs" using j n by auto
  note nth = nth_list_swap [OF len]
  have pairs: "le (list_swap xs i j ! parent k) (list_swap xs i j ! k)"
    if k: "0 < k" "k < n" "k \<noteq> j" "parent k \<noteq> j" for k
  proof -
    have kl: "k < length xs" "parent k < length xs" using k n parent_less [of k] by auto
    consider "parent k = i" | "k = i" "parent k \<noteq> i" | "k \<noteq> i" "parent k \<noteq> i" by blast
    then show ?thesis
    proof cases
      case 1
      then have "k \<noteq> i" using k parent_less [of k] by auto
      then show ?thesis using 1 k least ij by (simp add: nth [OF kl(1)] nth [OF len(1)])
    next
      case 2
      then have "le (xs ! parent i) (xs ! j)"
        using hole j k by (auto simp: heap_hole_def)
      then show ?thesis using 2 ij k kl len by (simp add: nth)
    next
      case 3
      then show ?thesis using hole k by (simp add: nth [OF kl(1)] nth [OF kl(2)] heap_hole_def)
    qed
  qed
  have grand: "le (list_swap xs i j ! parent j) (list_swap xs i j ! k)"
    if k: "0 < k" "k < n" "parent k = j" for k
  proof -
    have kl: "k < length xs" "k \<noteq> j" "k \<noteq> i" using k n parent_less [of k] ij by auto
    have "parent k \<noteq> i" using k ij by simp
    then have "le (xs ! j) (xs ! k)" using hole k kl by (auto simp: heap_hole_def)
    then show ?thesis using kl j ij len by (simp add: nth)
  qed
  have "le (list_swap xs i j ! parent j) (list_swap xs i j ! j)"
    using le j ij len by (simp add: nth)
  with pairs grand show ?thesis
    by (auto simp: heap_hole_def above_parent_def)
qed

text \<open>One step of \<open>up\<close>: the hole moves to the parent.\<close>

lemma heap_hole_up:
  assumes tr: "transp le" and hole: "heap_hole le xs n i" and n: "n \<le> length xs" "i < n"
    and bc: "below_children le xs n i" and i: "0 < i"
    and le: "le (xs ! i) (xs ! parent i)"
  shows "heap_hole le (list_swap xs (parent i) i) n (parent i) \<and>
    below_children le (list_swap xs (parent i) i) n (parent i)"
proof -
  let ?p = "parent i"
  let ?ys = "list_swap xs ?p i"
  have pi: "?p < i" using i by (rule parent_less)
  have len: "?p < length xs" "i < length xs" using n pi by auto
  note nth = nth_list_swap [OF len]
  have up: "le (xs ! ?p) (xs ! k)" if "0 < k" "k < n" "parent k = ?p" "k \<noteq> i" for k
  proof -
    have "parent k \<noteq> i" using that pi by simp
    with hole that show ?thesis unfolding heap_hole_def by metis
  qed
  have gp: "le (xs ! parent ?p) (xs ! ?p)" if "0 < ?p"
  proof -
    have "parent ?p \<noteq> i" "?p < n" "?p \<noteq> i" using pi n parent_less [OF that] by auto
    then show ?thesis using hole that by (auto simp: heap_hole_def)
  qed
  have pairs: "le (?ys ! parent k) (?ys ! k)"
    if k: "0 < k" "k < n" "k \<noteq> ?p" "parent k \<noteq> ?p" for k
  proof (cases "parent k = i")
    case True
    then have "k \<noteq> i" using k parent_less [of k] by auto
    moreover have "le (xs ! ?p) (xs ! k)" using hole k True i by (auto simp: heap_hole_def)
    ultimately show ?thesis using True k n pi by (simp add: nth)
  next
    case False
    then have "k \<noteq> i" using k by auto
    with False k n pi hole parent_less [of k] show ?thesis
      by (simp add: nth heap_hole_def)
  qed
  have kids: "le (?ys ! ?p) (?ys ! k)" if k: "0 < k" "k < n" "parent k = ?p" for k
  proof (cases "k = i")
    case True
    then show ?thesis using le pi n by (simp add: nth)
  next
    case False
    then have "le (xs ! i) (xs ! k)" using up [OF k] le tr by (blast dest: transpD)
    moreover have "k \<noteq> ?p" using k parent_less [of k] by auto
    ultimately show ?thesis using False k n pi by (simp add: nth)
  qed
  have grand: "le (?ys ! parent ?p) (?ys ! k)"
    if k: "0 < k" "k < n" "parent k = ?p" "0 < ?p" for k
  proof -
    have pp: "parent ?p < ?p" using k by (intro parent_less) simp
    have "le (xs ! parent ?p) (xs ! k)" if "k \<noteq> i"
      using gp [OF k(4)] up [OF k(1-3) that] tr by (blast dest: transpD)
    moreover have "k \<noteq> ?p" using k parent_less [of k] by auto
    ultimately show ?thesis using gp [OF k(4)] k n pi pp by (cases "k = i") (simp_all add: nth)
  qed
  show ?thesis
    using pairs kids grand by (auto simp: heap_hole_def below_children_def)
qed

section \<open>The interface of a queue, and the correctness of the routines over it\<close>

text \<open>
  \<open>arr\<close> is the array the interface works on, \<open>le\<close> the preorder that \<open>Less\<close> decides (it may
  depend on the objects that the array points to), \<open>wf\<close> what the queue keeps true of itself besides
  the order, and \<open>pre\<close> what it asks of an element that is pushed.
\<close>

locale heap_interface =
  fixes H :: "('s, 'x) heap_ops"
    and arr :: "'s \<Rightarrow> 'x list"
    and le :: "'s \<Rightarrow> 'x \<Rightarrow> 'x \<Rightarrow> bool"
    and wf :: "'s \<Rightarrow> bool"
  assumes h_len: "h_len H s = length (arr s)"
    and h_swap: "\<lbrakk>wf s; i < length (arr s); j < length (arr s); i \<noteq> j\<rbrakk> \<Longrightarrow>
        arr (h_swap H s i j) = list_swap (arr s) i j \<and> wf (h_swap H s i j) \<and> le (h_swap H s i j) = le s"
    and h_less: "\<lbrakk>wf s; i < length (arr s); j < length (arr s); h_less H s i j\<rbrakk> \<Longrightarrow>
        le s (arr s ! i) (arr s ! j)"
    and h_not_less: "\<lbrakk>wf s; i < length (arr s); j < length (arr s); \<not> h_less H s i j\<rbrakk> \<Longrightarrow>
        le s (arr s ! j) (arr s ! i)"
    and h_push: "\<lbrakk>wf s; x \<notin> set (arr s)\<rbrakk> \<Longrightarrow>
        arr (h_push H s x) = arr s @ [x] \<and> wf (h_push H s x) \<and> le (h_push H s x) = le s"
    and h_pop: "\<lbrakk>wf s; arr s \<noteq> []\<rbrakk> \<Longrightarrow> snd (h_pop H s) = last (arr s) \<and>
        arr (fst (h_pop H s)) = butlast (arr s) \<and> wf (fst (h_pop H s)) \<and> le (fst (h_pop H s)) = le s"
    and le_refl: "wf s \<Longrightarrow> reflp (le s)"
    and le_trans: "wf s \<Longrightarrow> transp (le s)"
begin

text \<open>What every routine keeps: well-formedness, the preorder and the elements.\<close>

definition same :: "'s \<Rightarrow> 's \<Rightarrow> bool" where
  "same s t \<longleftrightarrow> wf t \<and> le t = le s \<and> mset (arr t) = mset (arr s)"

definition is_heap :: "'s \<Rightarrow> bool" where
  "is_heap s \<longleftrightarrow> heap_upto (le s) (arr s) (length (arr s))"

lemma same_refl: "wf s \<Longrightarrow> same s s"
  by (simp add: same_def)

lemma same_trans: "same s t \<Longrightarrow> same t u \<Longrightarrow> same s u"
  by (simp add: same_def)

lemma same_length: "same s t \<Longrightarrow> length (arr t) = length (arr s)"
  unfolding same_def by (metis size_mset)

lemma same_swap:
  "\<lbrakk>wf s; i < length (arr s); j < length (arr s); i \<noteq> j\<rbrakk> \<Longrightarrow> same s (h_swap H s i j)"
  using h_swap by (simp add: same_def)

lemma up_correct:
  assumes "wf s" "n \<le> length (arr s)" "j < n" "heap_hole (le s) (arr s) n j"
    "below_children (le s) (arr s) n j"
  shows "same s (heap_up H s j) \<and> heap_upto (le s) (arr (heap_up H s j)) n \<and>
    (\<forall>m\<ge>n. m < length (arr s) \<longrightarrow> arr (heap_up H s j) ! m = arr s ! m)"
  using assms
proof (induction j arbitrary: s rule: less_induct)
  case (less j)
  note tr = le_trans [OF \<open>wf s\<close>]
  have unfold: "heap_up H s j =
    (if parent j = j \<or> \<not> h_less H s j (parent j) then s else heap_up H (h_swap H s (parent j) j) (parent j))"
    by (subst heap_up.simps) (simp add: parent_def Let_def)
  show ?case
  proof (cases "parent j = j \<or> \<not> h_less H s j (parent j)")
    case True
    then have "above_parent (le s) (arr s) j"
      using less.prems parent_less [of j] h_not_less [of s j "parent j"]
      by (auto simp: above_parent_def)
    then have "heap_upto (le s) (arr s) n"
      using less.prems tr by (simp add: heap_upto_iff_hole [of _ _ _ j])
    with True unfold less.prems show ?thesis by (simp add: same_refl)
  next
    case False
    then have j: "0 < j" by (cases j) (auto simp: parent_def)
    have p: "parent j < j" using j by (rule parent_less)
    let ?t = "h_swap H s (parent j) j"
    have len: "parent j < length (arr s)" "j < length (arr s)" using p less.prems by auto
    have t: "arr ?t = list_swap (arr s) (parent j) j" "wf ?t" "le ?t = le s"
      using h_swap [OF less.prems(1) len] p by auto
    have hole: "heap_hole (le s) (arr ?t) n (parent j) \<and> below_children (le s) (arr ?t) n (parent j)"
      unfolding t using False h_less [OF less.prems(1) len(2,1)]
      by (intro heap_hole_up [OF tr less.prems(4,2,3,5) j]) auto
    have IH: "same ?t (heap_up H ?t (parent j)) \<and> heap_upto (le s) (arr (heap_up H ?t (parent j))) n \<and>
      (\<forall>m\<ge>n. m < length (arr s) \<longrightarrow> arr (heap_up H ?t (parent j)) ! m = arr ?t ! m)"
      using less.IH [OF p, of ?t] hole t less.prems p by simp
    have "same s ?t" using same_swap [OF less.prems(1) len] p by simp
    moreover have "arr ?t ! m = arr s ! m" if "n \<le> m" "m < length (arr s)" for m
      using that t(1) p less.prems(3) by (simp add: nth_list_swap [OF len])
    ultimately show ?thesis using IH unfold False same_trans by auto
  qed
qed

lemma down_correct:
  assumes "wf s" "n \<le> length (arr s)" "i < n" "heap_hole (le s) (arr s) n i"
  shows "case heap_down H s i n of (t, k) \<Rightarrow> same s t \<and> i \<le> k \<and>
    (i < k \<or> above_parent (le s) (arr s) i \<longrightarrow> heap_upto (le s) (arr t) n) \<and>
    (k = i \<longrightarrow> t = s \<and> below_children (le s) (arr s) n i) \<and>
    (\<forall>m\<ge>n. m < length (arr s) \<longrightarrow> arr t ! m = arr s ! m)"
  using assms
proof (induction "n - i" arbitrary: s i rule: less_induct)
  case less
  note tr = le_trans [OF \<open>wf s\<close>] and rf = le_refl [OF \<open>wf s\<close>]
  define j where "j = (if 2 * i + 2 < n \<and> h_less H s (2 * i + 2) (2 * i + 1) then 2 * i + 2 else 2 * i + 1)"
  have unfold: "heap_down H s i n = (if n \<le> 2 * i + 1 \<or> \<not> h_less H s j i then (s, i)
      else heap_down H (h_swap H s i j) j n)"
    by (subst heap_down.simps) (simp add: j_def Let_def)
  have stop: ?case if "heap_down H s i n = (s, i)" "below_children (le s) (arr s) n i"
    using that less.prems tr by (simp add: same_refl heap_upto_iff_hole [of _ _ _ i])
  show ?case
  proof (cases "n \<le> 2 * i + 1")
    case True
    have "below_children (le s) (arr s) n i"
      using True by (rule below_children_leaf)
    then show ?thesis using stop unfold True by simp
  next
    case False
    have j: "0 < j" "j < n" "parent j = i" "i < j"
      using False by (auto simp: j_def parent_def)
    have len: "i < length (arr s)" "j < length (arr s)" using j less.prems by auto
    have least: "\<forall>k. 0 < k \<longrightarrow> k < n \<longrightarrow> parent k = i \<longrightarrow> le s (arr s ! j) (arr s ! k)"
    proof (intro allI impI)
      fix k assume k: "0 < k" "k < n" "parent k = i"
      have kl: "k < length (arr s)" using k less.prems by simp
      show "le s (arr s ! j) (arr s ! k)"
        using parent_cases [OF k(1,3)] h_less [OF less.prems(1) kl len(2)] k
          h_less [OF less.prems(1) len(2) kl] h_not_less [OF less.prems(1) kl len(2)] reflpD [OF rf]
        by (auto simp: j_def split: if_splits)
    qed
    show ?thesis
    proof (cases "h_less H s j i")
      case True
      let ?t = "h_swap H s i j"
      have t: "arr ?t = list_swap (arr s) i j" "wf ?t" "le ?t = le s"
        using h_swap [OF less.prems(1) len] j by auto
      have hole: "heap_hole (le s) (arr ?t) n j \<and> above_parent (le s) (arr ?t) j"
        unfolding t using heap_hole_down [OF less.prems(4,2) j(1-3) least]
          h_less [OF less.prems(1) len(2,1) True] by simp
      have IH: "case heap_down H ?t j n of (u, k) \<Rightarrow> same ?t u \<and> j \<le> k \<and> heap_upto (le s) (arr u) n \<and>
          (\<forall>m\<ge>n. m < length (arr s) \<longrightarrow> arr u ! m = arr ?t ! m)"
        using less.hyps [of j ?t] hole t j less.prems by (auto split: prod.splits)
      have "same s ?t" using same_swap [OF less.prems(1) len] j by simp
      moreover have "arr ?t ! m = arr s ! m" if "n \<le> m" "m < length (arr s)" for m
        using that t(1) j by (simp add: nth_list_swap [OF len])
      ultimately show ?thesis
        using IH j unfolding unfold using True False by (auto split: prod.splits intro: same_trans)
    next
      case ge: False
      have "below_children (le s) (arr s) n i"
        using h_not_less [OF less.prems(1) len(2,1) ge] least tr
        unfolding below_children_def by (blast dest: transpD)
      then show ?thesis using stop unfold ge by simp
    qed
  qed
qed

lemma sift_correct:
  assumes "wf s" "n \<le> length (arr s)" "i < n" "heap_hole (le s) (arr s) n i"
  shows "same s (heap_sift H s i n) \<and> heap_upto (le s) (arr (heap_sift H s i n)) n \<and>
    (\<forall>m\<ge>n. m < length (arr s) \<longrightarrow> arr (heap_sift H s i n) ! m = arr s ! m)"
proof -
  obtain t k where d: "heap_down H s i n = (t, k)" by fastforce
  note down = down_correct [OF assms, unfolded d]
  show ?thesis
  proof (cases "i < k")
    case True
    with down show ?thesis by (simp add: heap_sift_def d)
  next
    case False
    with down have "t = s" "below_children (le s) (arr s) n i" by auto
    then show ?thesis using False up_correct [OF assms] by (simp add: heap_sift_def d)
  qed
qed

theorem Push_correct:
  assumes "wf s" "is_heap s" "x \<notin> set (arr s)"
  shows "wf (heap_Push H s x) \<and> is_heap (heap_Push H s x) \<and> le (heap_Push H s x) = le s \<and>
    mset (arr (heap_Push H s x)) = add_mset x (mset (arr s))"
proof -
  let ?t = "h_push H s x" and ?n = "length (arr s)"
  have t: "arr ?t = arr s @ [x]" "wf ?t" "le ?t = le s" using h_push [OF assms(1,3)] by auto
  have tr: "transp (le s)" using le_trans [OF assms(1)] .
  have "heap_upto (le s) (arr ?t) ?n"
    using assms(2) unfolding is_heap_def by (rule heap_upto_cong [rotated]) (simp add: t nth_append)
  note heap_hole_append [OF this]
  then have "same ?t (heap_up H ?t ?n) \<and> heap_upto (le s) (arr (heap_up H ?t ?n)) (Suc ?n)"
    using up_correct [of ?t "Suc ?n" ?n] t by simp
  then show ?thesis
    using same_length [of ?t "heap_up H ?t ?n"] t
    by (simp add: heap_Push_def h_len same_def is_heap_def)
qed

theorem Remove_correct:
  assumes "wf s" "is_heap s" "i < length (arr s)"
  shows "\<exists>t. heap_Remove H s i = Some (t, arr s ! i) \<and> wf t \<and> is_heap t \<and> le t = le s \<and>
    mset (arr s) = add_mset (arr s ! i) (mset (arr t))"
proof -
  define n where "n = length (arr s) - 1"
  let ?u = "if n \<noteq> i then heap_sift H (h_swap H s i n) i n else s"
  have tr: "transp (le s)" using le_trans [OF assms(1)] .
  have "same s ?u \<and> heap_upto (le s) (arr ?u) n \<and> arr ?u ! n = arr s ! i"
  proof (cases "n = i")
    case True
    then show ?thesis using assms by (auto simp: same_refl is_heap_def n_def intro: heap_upto_mono)
  next
    case False
    then have len: "i < length (arr s)" "n < length (arr s)" "i < n" using assms(3) by (auto simp: n_def)
    let ?t = "h_swap H s i n"
    have t: "arr ?t = list_swap (arr s) i n" "wf ?t" "le ?t = le s"
      using h_swap [OF assms(1) len(1,2)] len by auto
    have "heap_upto (le s) (arr s) n"
      using assms(2) unfolding is_heap_def by (rule heap_upto_mono) (simp add: n_def)
    then have "heap_hole (le s) (arr ?t) n i"
      by (rule heap_hole_replace [OF tr]) (use len t in \<open>simp_all add: nth_list_swap [OF len(1,2)]\<close>)
    then have "same ?t (heap_sift H ?t i n) \<and> heap_upto (le s) (arr (heap_sift H ?t i n)) n \<and>
      arr (heap_sift H ?t i n) ! n = arr ?t ! n"
      using sift_correct [of ?t n i] t len by simp
    moreover have "same s ?t" using same_swap [OF assms(1) len(1,2)] len by simp
    moreover have "arr ?t ! n = arr s ! i" using t len by (simp add: nth_list_swap [OF len(1,2)])
    ultimately show ?thesis using False by (auto intro: same_trans)
  qed
  then have u: "same s ?u" "heap_upto (le s) (arr ?u) n" "arr ?u ! n = arr s ! i" by auto
  have lu: "length (arr ?u) = length (arr s)" using same_length [OF u(1)] .
  then have ne: "arr ?u \<noteq> []" using assms(3) by auto
  have wu: "wf ?u" using u(1) by (simp add: same_def)
  let ?v = "fst (h_pop H ?u)"
  have v: "snd (h_pop H ?u) = arr s ! i" "arr ?v = butlast (arr ?u)" "wf ?v" "le ?v = le s"
    using h_pop [OF wu ne] u ne lu by (auto simp: last_conv_nth same_def n_def)
  have "heap_upto (le s) (arr ?v) n"
    using u(2) by (rule heap_upto_cong [rotated]) (metis v(2) nth_butlast length_butlast lu n_def)
  then have "is_heap ?v" using v lu by (simp add: is_heap_def n_def)
  moreover have "mset (arr s) = add_mset (arr s ! i) (mset (arr ?v))"
    using mset_butlast_last [OF ne] u lu ne v by (simp add: same_def last_conv_nth n_def)
  moreover have "heap_Remove H s i = Some (?v, arr s ! i)"
    using assms(3) v(1) unfolding heap_Remove_def h_len Let_def n_def [symmetric]
    by (metis leD prod.collapse)
  ultimately show ?thesis using v by blast
qed

theorem Fix_correct:
  assumes "wf s" "i < length (arr s)" "heap_hole (le s) (arr s) (length (arr s)) i"
  shows "\<exists>t. heap_Fix H s i = Some t \<and> wf t \<and> is_heap t \<and> le t = le s \<and> mset (arr t) = mset (arr s)"
proof -
  let ?t = "heap_sift H s i (length (arr s))"
  have "same s ?t" "heap_upto (le s) (arr ?t) (length (arr s))"
    using sift_correct [OF assms(1) order_refl assms(2,3)] by auto
  moreover have "heap_Fix H s i = Some ?t"
    using assms(2) by (simp add: heap_Fix_def h_len)
  ultimately show ?thesis
    using same_length [of s ?t] by (simp add: same_def is_heap_def)
qed

theorem root_least:
  assumes "wf s" "is_heap s" "x \<in> set (arr s)"
  shows "le s (arr s ! 0) x"
  using heap_upto_root [OF le_trans [OF assms(1)] le_refl [OF assms(1)] assms(2) [unfolded is_heap_def]]
    assms(3) by (auto simp: in_set_conv_nth)

lemma Init_empty: "arr s = [] \<Longrightarrow> heap_Init H s = s \<and> is_heap s"
  by (simp add: heap_Init_def h_len is_heap_def heap_upto_def)

end

end
