(* ===== verification/Connect_Ids.thy ===== *)
theory Connect_Ids
  imports Connect_Prelude
begin

text \<open>
  Identifiers and transfer paths (connect.go): 16 byte ids and their textual form, transfer paths with
  their masks and their wire form, and multi hop ids. An \<open>Id\<close> (\<open>[16]byte\<close>) is its list of
  bytes, with \<open>id_ok\<close> for the length; the nil byte slice of the wire format is \<^term>\<open>None\<close>.
\<close>

section \<open>Ids\<close>

type_synonym Id = "byte list"

definition zeroId :: Id where
  "zeroId = replicate 16 0"

definition id_ok :: "Id \<Rightarrow> bool" where
  "id_ok i \<longleftrightarrow> length i = 16"

definition ControlId :: Id where
  "ControlId = zeroId"

datatype id_error = BadIdLength | BadUuidLength | BadHexByte | MultihopTooLong

definition IdFromBytes :: "byte list \<Rightarrow> id_error + Id" where
  "IdFromBytes bs = (if length bs \<noteq> 16 then Inl BadIdLength else Inr bs)"

text \<open>\<open>RequireIdFromBytes\<close> panics on the error.\<close>

definition RequireIdFromBytes :: "byte list \<Rightarrow> Id option" where
  "RequireIdFromBytes bs = (case IdFromBytes bs of Inl _ \<Rightarrow> None | Inr i \<Rightarrow> Some i)"

definition Id_Bytes :: "Id \<Rightarrow> byte list" where
  "Id_Bytes i = take 16 i"

text \<open>\<open>Cmp\<close>: the loop over the bytes of the two arrays.\<close>

fun Id_Cmp :: "Id \<Rightarrow> Id \<Rightarrow> int" where
  "Id_Cmp (v # a) (w # b) = (if v < w then -1 else if w < v then 1 else Id_Cmp a b)"
| "Id_Cmp _ _ = 0"

definition Id_LessThan :: "Id \<Rightarrow> Id \<Rightarrow> bool" where
  "Id_LessThan a b = (Id_Cmp a b < 0)"

lemma zeroId_ok [simp]: "id_ok zeroId"
  by (simp add: id_ok_def zeroId_def)

lemma Id_Bytes_ok [simp]: "id_ok i \<Longrightarrow> Id_Bytes i = i"
  by (simp add: Id_Bytes_def id_ok_def)

lemma IdFromBytes_ok [simp]: "id_ok i \<Longrightarrow> IdFromBytes i = Inr i"
  by (simp add: IdFromBytes_def id_ok_def)

lemma IdFromBytes_Inr: "IdFromBytes bs = Inr i \<Longrightarrow> i = bs \<and> id_ok i"
  by (auto simp: IdFromBytes_def id_ok_def split: if_splits)

lemma Id_Cmp_refl [simp]: "Id_Cmp a a = 0"
  by (induction a) auto

lemma Id_Cmp_antisym: "Id_Cmp b a = - Id_Cmp a b"
  by (induction a b rule: Id_Cmp.induct) (auto simp: not_less)

lemma Id_Cmp_eq: "length a = length b \<Longrightarrow> Id_Cmp a b = 0 \<longleftrightarrow> a = b"
  by (induction a b rule: Id_Cmp.induct) (auto simp: not_less)

lemma Id_Cmp_range: "Id_Cmp a b \<in> {-1, 0, 1}"
  by (induction a b rule: Id_Cmp.induct) auto

lemma Id_Cmp_trans:
  "length a = length b \<Longrightarrow> length b = length c \<Longrightarrow> Id_Cmp a b < 0 \<Longrightarrow> Id_Cmp b c < 0 \<Longrightarrow> Id_Cmp a c < 0"
proof (induction a b arbitrary: c rule: Id_Cmp.induct)
  case (1 v a w b)
  then obtain x d where "c = x # d" by (cases c) auto
  with 1 show ?case by (auto split: if_splits)
qed auto

section \<open>The textual form of an id\<close>

definition hexDigit :: "nat \<Rightarrow> char" where
  "hexDigit n = ''0123456789abcdef'' ! n"

definition hexByte :: "byte \<Rightarrow> string" where
  "hexByte b = [hexDigit (unat b div 16), hexDigit (unat b mod 16)]"

text \<open>\<open>fmt\<close>'s \<open>%x\<close> of a byte slice.\<close>

definition hexBytes :: "byte list \<Rightarrow> string" where
  "hexBytes bs = concat (map hexByte bs)"

text \<open>\<open>encodeUuid\<close>: \<open>%x-%x-%x-%x-%x\<close> of the five groups of bytes.\<close>

definition encodeUuid :: "Id \<Rightarrow> string" where
  "encodeUuid src = hexBytes (take 4 src) @ ''-'' @ hexBytes (take 2 (drop 4 src)) @ ''-'' @
     hexBytes (take 2 (drop 6 src)) @ ''-'' @ hexBytes (take 2 (drop 8 src)) @ ''-'' @
     hexBytes (take 6 (drop 10 src))"

definition Id_String :: "Id \<Rightarrow> string" where
  "Id_String i = encodeUuid i"

definition fromHexChar :: "char \<Rightarrow> nat option" where
  "fromHexChar c = (let n = (of_char c :: nat) in
     if 48 \<le> n \<and> n \<le> 57 then Some (n - 48)
     else if 97 \<le> n \<and> n \<le> 102 then Some (n - 87)
     else if 65 \<le> n \<and> n \<le> 70 then Some (n - 55)
     else None)"

text \<open>\<open>hex.DecodeString\<close>: two digits per byte; an odd length is an error as well.\<close>

fun hexDecodeString :: "string \<Rightarrow> byte list option" where
  "hexDecodeString [] = Some []"
| "hexDecodeString [c] = None"
| "hexDecodeString (c # d # cs) =
     (case (fromHexChar c, fromHexChar d) of
        (Some h, Some l) \<Rightarrow> map_option (\<lambda>bs. of_nat (16 * h + l) # bs) (hexDecodeString cs)
      | _ \<Rightarrow> None)"

text \<open>
  \<open>parseUuid\<close>: 36 characters lose the four at the dash positions (which are not compared with a
  dash), 32 are taken as they are, any other length is an error. \<open>copy(dst[:], buf)\<close> fills the array.
\<close>

definition parseUuid :: "string \<Rightarrow> id_error + Id" where
  "parseUuid src =
     (let digits = (\<lambda>s. case hexDecodeString s of
          None \<Rightarrow> Inl BadHexByte
        | Some buf \<Rightarrow> Inr (take 16 (buf @ drop (length buf) zeroId)))
      in if length src = 36 then
           digits (take 8 src @ take 4 (drop 9 src) @ take 4 (drop 14 src) @ take 4 (drop 19 src) @ drop 24 src)
         else if length src = 32 then digits src
         else Inl BadUuidLength)"

definition ParseId :: "string \<Rightarrow> id_error + Id" where
  "ParseId idStr = parseUuid idStr"

definition Id_MarshalJSON :: "Id \<Rightarrow> string" where
  "Id_MarshalJSON i = [CHR 0x22] @ encodeUuid i @ [CHR 0x22]"

text \<open>\<open>UnmarshalJSON\<close> strips the first and the last byte without looking at them.\<close>

definition Id_UnmarshalJSON :: "string \<Rightarrow> id_error + Id" where
  "Id_UnmarshalJSON src =
     (if length src \<noteq> 38 then Inl BadUuidLength else parseUuid (butlast (tl src)))"

lemma fromHexChar_hexDigit: "n < 16 \<Longrightarrow> fromHexChar (hexDigit n) = Some n"
proof -
  assume "n < 16"
  then have "n \<in> set [0..<16]" by simp
  moreover have "list_all (\<lambda>n. fromHexChar (hexDigit n) = Some n) [0..<16]"
    by code_simp
  ultimately show ?thesis unfolding list_all_iff by blast
qed

lemma length_hexBytes [simp]: "length (hexBytes bs) = 2 * length bs"
  by (induction bs) (auto simp: hexBytes_def hexByte_def)

lemma hexBytes_append: "hexBytes (as @ bs) = hexBytes as @ hexBytes bs"
  by (simp add: hexBytes_def)

lemma hexDecode_hexBytes [simp]: "hexDecodeString (hexBytes bs) = Some bs"
proof (induction bs)
  case Nil
  then show ?case by (simp add: hexBytes_def)
next
  case (Cons b bs)
  have "unat b < 256" by (rule unat_byte_less)
  then have "fromHexChar (hexDigit (unat b div 16)) = Some (unat b div 16)"
    "fromHexChar (hexDigit (unat b mod 16)) = Some (unat b mod 16)"
    by (auto intro!: fromHexChar_hexDigit)
  moreover have "(of_nat (16 * (unat b div 16) + unat b mod 16) :: byte) = b"
    by (simp only: mult_div_mod_eq) simp
  moreover have "hexBytes (b # bs) = hexDigit (unat b div 16) # hexDigit (unat b mod 16) # hexBytes bs"
    by (simp add: hexBytes_def hexByte_def)
  ultimately show ?case using Cons.IH by simp
qed

text \<open>The digits of the five groups, once the dashes are gone.\<close>

lemma split_16:
  fixes i :: Id
  assumes "id_ok i"
  shows "take 4 i @ take 2 (drop 4 i) @ take 2 (drop 6 i) @ take 2 (drop 8 i) @ take 6 (drop 10 i) = i"
proof -
  have "drop 10 (take 16 i) = take 6 (drop 10 i)" by (simp add: drop_take)
  then have 1: "take 6 (drop 10 i) = drop 10 i" using assms by (simp add: id_ok_def)
  have "take 2 (drop 8 i) @ drop 10 i = drop 8 i" "take 2 (drop 6 i) @ drop 8 i = drop 6 i"
    "take 2 (drop 4 i) @ drop 6 i = drop 4 i"
    using append_take_drop_id [of 2 "drop 8 i"] append_take_drop_id [of 2 "drop 6 i"]
      append_take_drop_id [of 2 "drop 4 i"] by simp_all
  then show ?thesis unfolding 1 by simp
qed

lemma parseUuid_hexBytes: "id_ok i \<Longrightarrow> parseUuid (hexBytes i) = Inr i"
  by (simp add: parseUuid_def id_ok_def)

lemma length_encodeUuid: "id_ok i \<Longrightarrow> length (encodeUuid i) = 36"
  by (simp add: encodeUuid_def id_ok_def)

lemma parseUuid_encodeUuid:
  assumes "id_ok i"
  shows "parseUuid (encodeUuid i) = Inr i"
proof -
  let ?s = "encodeUuid i"
  have "take 8 ?s @ take 4 (drop 9 ?s) @ take 4 (drop 14 ?s) @ take 4 (drop 19 ?s) @ drop 24 ?s
    = hexBytes (take 4 i @ take 2 (drop 4 i) @ take 2 (drop 6 i) @ take 2 (drop 8 i) @ take 6 (drop 10 i))"
    using assms by (simp add: encodeUuid_def hexBytes_append id_ok_def drop_Cons')
  also have "\<dots> = hexBytes i" by (simp only: split_16 [OF assms])
  finally show ?thesis
    using assms by (simp add: parseUuid_def length_encodeUuid id_ok_def)
qed

section \<open>Transfer paths\<close>

record TransferPath =
  sourceId :: Id
  destinationId :: Id
  streamId :: Id

definition emptyPath :: TransferPath where
  "emptyPath = \<lparr>sourceId = zeroId, destinationId = zeroId, streamId = zeroId\<rparr>"

definition DestinationId :: "Id \<Rightarrow> TransferPath" where
  "DestinationId i = emptyPath\<lparr>destinationId := i\<rparr>"

definition SourceId :: "Id \<Rightarrow> TransferPath" where
  "SourceId i = emptyPath\<lparr>sourceId := i\<rparr>"

definition StreamId :: "Id \<Rightarrow> TransferPath" where
  "StreamId i = emptyPath\<lparr>streamId := i\<rparr>"

definition NewTransferPath :: "Id \<Rightarrow> Id \<Rightarrow> Id \<Rightarrow> TransferPath" where
  "NewTransferPath sid did stid =
     (let path = emptyPath\<lparr>streamId := stid\<rparr> in
      if streamId path = zeroId then path\<lparr>sourceId := sid, destinationId := did\<rparr> else path)"

definition optionalId :: "byte list option \<Rightarrow> Id \<Rightarrow> id_error + Id" where
  "optionalId bs i = (case bs of None \<Rightarrow> Inr i | Some bs \<Rightarrow> IdFromBytes bs)"

text \<open>
  \<open>TransferPathFromBytes\<close>: the stream id first; only a zero stream id lets the source and the
  destination be read at all.
\<close>

definition TransferPathFromBytes ::
    "byte list option \<Rightarrow> byte list option \<Rightarrow> byte list option \<Rightarrow> id_error + TransferPath" where
  "TransferPathFromBytes sourceBytes destinationBytes streamBytes =
     (case optionalId streamBytes zeroId of Inl e \<Rightarrow> Inl e | Inr st \<Rightarrow>
        let path = emptyPath\<lparr>streamId := st\<rparr> in
        if st = zeroId then
          (case optionalId sourceBytes zeroId of Inl e \<Rightarrow> Inl e | Inr s \<Rightarrow>
            (case optionalId destinationBytes zeroId of Inl e \<Rightarrow> Inl e | Inr d \<Rightarrow>
               Inr (path\<lparr>sourceId := s, destinationId := d\<rparr>)))
        else Inr path)"

definition IsStream :: "TransferPath \<Rightarrow> bool" where
  "IsStream p = (streamId p \<noteq> zeroId)"

definition IsSourceMask :: "TransferPath \<Rightarrow> bool" where
  "IsSourceMask p =
     (if IsStream p then sourceId p = zeroId \<and> destinationId p = zeroId else destinationId p = zeroId)"

definition IsDestinationMask :: "TransferPath \<Rightarrow> bool" where
  "IsDestinationMask p =
     (if IsStream p then sourceId p = zeroId \<and> destinationId p = zeroId else sourceId p = zeroId)"

definition IsControlSource :: "TransferPath \<Rightarrow> bool" where
  "IsControlSource p = (IsSourceMask p \<and> \<not> IsStream p \<and> sourceId p = ControlId)"

definition IsControlDestination :: "TransferPath \<Rightarrow> bool" where
  "IsControlDestination p = (IsDestinationMask p \<and> \<not> IsStream p \<and> destinationId p = ControlId)"

definition SourceMask :: "TransferPath \<Rightarrow> TransferPath" where
  "SourceMask p = emptyPath\<lparr>sourceId := sourceId p, streamId := streamId p\<rparr>"

definition DestinationMask :: "TransferPath \<Rightarrow> TransferPath" where
  "DestinationMask p = emptyPath\<lparr>destinationId := destinationId p, streamId := streamId p\<rparr>"

definition Reverse :: "TransferPath \<Rightarrow> TransferPath" where
  "Reverse p = \<lparr>sourceId = destinationId p, destinationId = sourceId p, streamId = streamId p\<rparr>"

definition AddSource :: "TransferPath \<Rightarrow> Id \<Rightarrow> TransferPath" where
  "AddSource p i = (if IsStream p then p
     else emptyPath\<lparr>sourceId := i, destinationId := destinationId p\<rparr>)"

definition AddDestination :: "TransferPath \<Rightarrow> Id \<Rightarrow> TransferPath" where
  "AddDestination p i = (if IsStream p then p
     else emptyPath\<lparr>sourceId := sourceId p, destinationId := i\<rparr>)"

definition TransferPath_String :: "TransferPath \<Rightarrow> string" where
  "TransferPath_String p = (if streamId p \<noteq> zeroId then ''s('' @ Id_String (streamId p) @ '')''
     else Id_String (sourceId p) @ ''->'' @ Id_String (destinationId p))"

text \<open>The message of the wire format: its three fields are byte slices, nil when unset.\<close>

record ProtoTransferPath =
  p_SourceId :: "byte list option"
  p_DestinationId :: "byte list option"
  p_StreamId :: "byte list option"

definition TransferPath_ToProtobuf :: "TransferPath \<Rightarrow> ProtoTransferPath" where
  "TransferPath_ToProtobuf p =
     (let m = \<lparr>p_SourceId = None, p_DestinationId = None, p_StreamId = None\<rparr> in
      if IsStream p then m\<lparr>p_StreamId := Some (Id_Bytes (streamId p))\<rparr>
      else m\<lparr>p_SourceId := Some (Id_Bytes (sourceId p)), p_DestinationId := Some (Id_Bytes (destinationId p))\<rparr>)"

definition TransferPathFromProtobuf :: "ProtoTransferPath \<Rightarrow> id_error + TransferPath" where
  "TransferPathFromProtobuf m = TransferPathFromBytes (p_SourceId m) (p_DestinationId m) (p_StreamId m)"

text \<open>What the comment on \<open>TransferPath\<close> asks of a path: a stream, or a source and a destination.\<close>

definition path_ok :: "TransferPath \<Rightarrow> bool" where
  "path_ok p \<longleftrightarrow> id_ok (sourceId p) \<and> id_ok (destinationId p) \<and> id_ok (streamId p) \<and>
     (IsStream p \<longrightarrow> sourceId p = zeroId \<and> destinationId p = zeroId)"

lemmas path_defs = path_ok_def IsStream_def SourceMask_def DestinationMask_def Reverse_def AddSource_def
  AddDestination_def IsSourceMask_def IsDestinationMask_def emptyPath_def

lemma path_ok_ops:
  assumes "path_ok p"
  shows "path_ok (SourceMask p)" "path_ok (DestinationMask p)" "path_ok (Reverse p)"
    "id_ok i \<Longrightarrow> path_ok (AddSource p i)" "id_ok i \<Longrightarrow> path_ok (AddDestination p i)"
  using assms by (auto simp: path_defs)

lemma path_ok_NewTransferPath:
  "id_ok s \<Longrightarrow> id_ok d \<Longrightarrow> id_ok st \<Longrightarrow> path_ok (NewTransferPath s d st)"
  by (auto simp: NewTransferPath_def path_defs Let_def)

lemma path_ok_TransferPathFromBytes: "TransferPathFromBytes s d st = Inr p \<Longrightarrow> path_ok p"
  by (auto simp: TransferPathFromBytes_def optionalId_def Let_def path_defs
      split: sum.splits if_splits option.splits dest: IdFromBytes_Inr)

lemma path_roundtrip: "path_ok p \<Longrightarrow> TransferPathFromProtobuf (TransferPath_ToProtobuf p) = Inr p"
  by (auto simp: TransferPathFromProtobuf_def TransferPath_ToProtobuf_def TransferPathFromBytes_def
      optionalId_def Let_def path_defs)

section \<open>Multi hop ids\<close>

definition MaxMultihopLength :: nat where
  "MaxMultihopLength = 8"

record MultiHopId =
  mh_ids :: "Id list"
  mh_len :: nat

definition emptyMultiHopId :: MultiHopId where
  "emptyMultiHopId = \<lparr>mh_ids = replicate MaxMultihopLength zeroId, mh_len = 0\<rparr>"

definition NewMultiHopId :: "Id list \<Rightarrow> id_error + MultiHopId" where
  "NewMultiHopId is =
     (if MaxMultihopLength < length is then Inl MultihopTooLong
      else Inr \<lparr>mh_ids = is @ drop (length is) (mh_ids emptyMultiHopId), mh_len = length is\<rparr>)"

definition MultiHopIdFromBytes :: "byte list list \<Rightarrow> id_error + MultiHopId" where
  "MultiHopIdFromBytes bss =
     (if \<exists>bs\<in>set bss. length bs \<noteq> 16 then Inl BadIdLength else NewMultiHopId bss)"

definition MultiHop_Len :: "MultiHopId \<Rightarrow> nat" where
  "MultiHop_Len m = mh_len m"

definition MultiHop_Ids :: "MultiHopId \<Rightarrow> Id list" where
  "MultiHop_Ids m = take (mh_len m) (mh_ids m)"

definition MultiHop_Bytes :: "MultiHopId \<Rightarrow> byte list list" where
  "MultiHop_Bytes m = map (\<lambda>i. Id_Bytes (mh_ids m ! i)) [0..<mh_len m]"

text \<open>\<open>Tail\<close> and \<open>SplitTail\<close> panic on the empty path.\<close>

definition MultiHop_Tail :: "MultiHopId \<Rightarrow> Id option" where
  "MultiHop_Tail m = (if mh_len m = 0 then None else Some (mh_ids m ! (mh_len m - 1)))"

definition MultiHop_SplitTail :: "MultiHopId \<Rightarrow> (MultiHopId \<times> Id) option" where
  "MultiHop_SplitTail m =
     (if mh_len m = 0 then None
      else if mh_len m = 1 then Some (emptyMultiHopId, mh_ids m ! 0)
      else Some (\<lparr>mh_ids = take (mh_len m - 1) (mh_ids m) @ drop (mh_len m - 1) (mh_ids emptyMultiHopId),
                  mh_len = mh_len m - 1\<rparr>, mh_ids m ! (mh_len m - 1)))"

definition multihop_ok :: "MultiHopId \<Rightarrow> bool" where
  "multihop_ok m \<longleftrightarrow> length (mh_ids m) = MaxMultihopLength \<and> mh_len m \<le> MaxMultihopLength \<and>
     (\<forall>i\<in>set (mh_ids m). id_ok i) \<and> (\<forall>k<MaxMultihopLength. mh_len m \<le> k \<longrightarrow> mh_ids m ! k = zeroId)"

lemma multihop_ok_New: "NewMultiHopId is = Inr m \<Longrightarrow> \<forall>i\<in>set is. id_ok i \<Longrightarrow> multihop_ok m"
  by (auto simp: NewMultiHopId_def multihop_ok_def emptyMultiHopId_def nth_append split: if_splits)

lemma MultiHop_Bytes_eq: "multihop_ok m \<Longrightarrow> MultiHop_Bytes m = MultiHop_Ids m"
  by (rule nth_equalityI) (auto simp: MultiHop_Bytes_def MultiHop_Ids_def multihop_ok_def)

lemma multihop_eqI: "multihop_ok m \<Longrightarrow> multihop_ok n \<Longrightarrow> MultiHop_Ids m = MultiHop_Ids n \<Longrightarrow> m = n"
proof -
  assume ok: "multihop_ok m" "multihop_ok n" and eq: "MultiHop_Ids m = MultiHop_Ids n"
  have len: "mh_len m = mh_len n"
    using arg_cong [OF eq, of length] ok by (simp add: MultiHop_Ids_def multihop_ok_def)
  have "mh_ids m ! k = mh_ids n ! k" if "k < MaxMultihopLength" for k
  proof (cases "k < mh_len n")
    case True
    then show ?thesis using arg_cong [OF eq, of "\<lambda>xs. xs ! k"] len by (simp add: MultiHop_Ids_def)
  next
    case False
    then show ?thesis using ok that len by (simp add: multihop_ok_def)
  qed
  then have "mh_ids m = mh_ids n" using ok by (intro nth_equalityI) (auto simp: multihop_ok_def)
  with len show "m = n" by simp
qed

lemma multihop_split:
  assumes "multihop_ok m" "MultiHop_SplitTail m = Some (front, t)"
  shows "multihop_ok front \<and> MultiHop_Ids m = MultiHop_Ids front @ [t] \<and> MultiHop_Tail m = Some t"
proof -
  from assms have "mh_len m \<noteq> 0" by (auto simp: MultiHop_SplitTail_def split: if_splits)
  then obtain k where k: "mh_len m = Suc k" by (cases "mh_len m") auto
  then have len: "k < length (mh_ids m)" using assms(1) by (simp add: multihop_ok_def)
  then have t: "take (Suc k) (mh_ids m) = take k (mh_ids m) @ [mh_ids m ! k]"
    by (rule take_Suc_conv_app_nth)
  show ?thesis
    using assms k len t
    by (auto simp: MultiHop_SplitTail_def MultiHop_Tail_def MultiHop_Ids_def multihop_ok_def
        emptyMultiHopId_def nth_append split: if_splits dest!: in_set_takeD)
qed

section \<open>Byte counts\<close>

definition kib :: "ByteCount \<Rightarrow> ByteCount" where
  "kib c = int64 (c * 1024)"

definition mib :: "ByteCount \<Rightarrow> ByteCount" where
  "mib c = int64 (int64 (c * 1024) * 1024)"

definition gib :: "ByteCount \<Rightarrow> ByteCount" where
  "gib c = int64 (int64 (int64 (c * 1024) * 1024) * 1024)"

section \<open>Properties\<close>

definition example_id :: Id where
  "example_id = map of_nat [0..<16]"

lemma example_id_ok [simp]: "id_ok example_id"
  by (simp add: example_id_def id_ok_def)

text \<open>
  C39: An id survives its three textual forms: the UUID string, the same without dashes, and the JSON
  string are all parsed back to the same sixteen bytes.
\<close>

theorem id_text_roundtrip:
  assumes "id_ok i"
  shows "ParseId (Id_String i) = Inr i \<and> ParseId (hexBytes i) = Inr i \<and> Id_UnmarshalJSON (Id_MarshalJSON i) = Inr i"
  using assms parseUuid_encodeUuid parseUuid_hexBytes
  by (simp add: ParseId_def Id_String_def Id_UnmarshalJSON_def Id_MarshalJSON_def length_encodeUuid)

theorem id_text_roundtrip_witness: "Id_UnmarshalJSON (Id_MarshalJSON example_id) = Inr example_id"
  using id_text_roundtrip [of example_id] by simp

text \<open>
  C40: A well-formed transfer path (a stream, or a source and a destination) survives the protobuf
  message, and whatever parses is well-formed.
\<close>

theorem path_protobuf_roundtrip:
  assumes "path_ok p"
  shows "TransferPathFromProtobuf (TransferPath_ToProtobuf p) = Inr p \<and>
    (\<forall>m p'. TransferPathFromProtobuf m = Inr p' \<longrightarrow> path_ok p' \<and> path_ok (Reverse p') \<and>
       Reverse (Reverse p') = p' \<and> SourceMask (Reverse p') = Reverse (DestinationMask p'))"
  using path_roundtrip [OF assms] path_ok_TransferPathFromBytes path_ok_ops(3)
  unfolding TransferPathFromProtobuf_def by (auto simp: Reverse_def SourceMask_def DestinationMask_def emptyPath_def)

theorem path_protobuf_witness:
  "TransferPathFromProtobuf (TransferPath_ToProtobuf (StreamId example_id)) = Inr (StreamId example_id)"
proof -
  have "path_ok (StreamId example_id)" by (simp add: StreamId_def path_defs)
  then show ?thesis using path_protobuf_roundtrip by blast
qed

text \<open>
  Splitting the last hop off a multi hop path gives the front path and the tail whose concatenation is
  the path; it panics exactly on the empty path, and the bytes of the result parse back to it.
\<close>

theorem multihop_split_tail:
  assumes "multihop_ok m"
  shows "(case MultiHop_SplitTail m of
      None \<Rightarrow> MultiHop_Ids m = []
    | Some (front, t) \<Rightarrow> multihop_ok front \<and> MultiHop_Ids m = MultiHop_Ids front @ [t] \<and>
        MultiHop_Tail m = Some t \<and> MultiHopIdFromBytes (MultiHop_Bytes front) = Inr front)"
proof (cases "MultiHop_SplitTail m")
  case None
  then show ?thesis by (auto simp: MultiHop_SplitTail_def MultiHop_Ids_def split: if_splits)
next
  case (Some ft)
  obtain front t where ft: "ft = (front, t)" by force
  note split = multihop_split [OF assms Some [unfolded ft]]
  then have ok: "multihop_ok front" by simp
  have len: "length (MultiHop_Ids front) = mh_len front" "mh_len front \<le> MaxMultihopLength"
    using ok by (simp_all add: MultiHop_Ids_def multihop_ok_def)
  have ids: "\<forall>i\<in>set (MultiHop_Ids front). id_ok i"
    using ok by (auto simp: MultiHop_Ids_def multihop_ok_def dest: in_set_takeD)
  then obtain n where n: "MultiHopIdFromBytes (MultiHop_Ids front) = Inr n" "NewMultiHopId (MultiHop_Ids front) = Inr n"
    using len by (auto simp: MultiHopIdFromBytes_def NewMultiHopId_def id_ok_def)
  have "MultiHop_Ids n = MultiHop_Ids front"
    using n(2) len by (auto simp: NewMultiHopId_def MultiHop_Ids_def min_def split: if_splits)
  then have "n = front" using multihop_eqI [OF multihop_ok_New [OF n(2) ids] ok] by simp
  then show ?thesis using split n Some ft MultiHop_Bytes_eq [OF ok] by simp
qed

theorem multihop_split_tail_witness:
  "case NewMultiHopId [example_id, zeroId] of Inl e \<Rightarrow> False
   | Inr m \<Rightarrow> (case MultiHop_SplitTail m of None \<Rightarrow> False
       | Some (front, t) \<Rightarrow> MultiHop_Ids m = MultiHop_Ids front @ [t] \<and> t = zeroId)"
proof -
  obtain m where m: "NewMultiHopId [example_id, zeroId] = Inr m"
    by (auto simp: NewMultiHopId_def MaxMultihopLength_def)
  then have "multihop_ok m" using multihop_ok_New [of "[example_id, zeroId]"] by simp
  then show ?thesis
    using multihop_split_tail [of m] m
    by (auto simp: NewMultiHopId_def MultiHop_Ids_def MultiHop_SplitTail_def split: option.splits if_splits)
qed

end
