(* ===== verification/Transfer_Queue.thy ===== *)
theory Transfer_Queue
  imports Go_Heap Connect_Ids
begin

text \<open>
  The priority queue of pending transfer items (transfer_queue.go), used by a send sequence for its
  resends and by a receive sequence for out of order messages. A queue holds pointers to items in a min
  heap and in a max heap and in two hash maps; the items carry their positions in the two heaps. The
  store \<open>mem\<close> maps a pointer to its item. The Go type parameter is the record extension: a struct that
  embeds \<open>transferItem\<close> is a record that extends \<open>transferItem\<close>.

  The main facts: the representation invariant \<open>tq_inv\<close> (both heaps ordered, positions right, maps and
  byte count in step with the contents) is kept by every operation, no operation panics under it, and the
  operations implement insertion and deletion in a finite map from message ids to items.
\<close>

section \<open>State\<close>

record transferItem =
  messageId :: Id
  messageByteCount :: ByteCount
  sequenceNumber :: u64
  heapIndex :: nat
  maxHeapIndex :: nat

record 'i transferQueue =
  mem :: "ptr \<Rightarrow> 'i"
  orderedItems :: "ptr list"
  maxHeap :: "ptr list"
  messageIdItems :: "Id \<rightharpoonup> ptr"
  sequenceNumberItems :: "u64 \<rightharpoonup> ptr"
  byteCount :: ByteCount
  cmp :: "'i \<Rightarrow> 'i \<Rightarrow> int"

type_synonym 'a tqueue = "'a transferItem_scheme transferQueue"

definition SetHeapIndex :: "'a tqueue \<Rightarrow> ptr \<Rightarrow> nat \<Rightarrow> 'a tqueue" where
  "SetHeapIndex q p i = q\<lparr>mem := (mem q)(p := (mem q p)\<lparr>heapIndex := i\<rparr>)\<rparr>"

definition SetMaxHeapIndex :: "'a tqueue \<Rightarrow> ptr \<Rightarrow> nat \<Rightarrow> 'a tqueue" where
  "SetMaxHeapIndex q p i = q\<lparr>mem := (mem q)(p := (mem q p)\<lparr>maxHeapIndex := i\<rparr>)\<rparr>"

section \<open>heap.Interface of the queue\<close>

definition tq_Len :: "'a tqueue \<Rightarrow> nat" where
  "tq_Len q = length (orderedItems q)"

definition tq_Less :: "'a tqueue \<Rightarrow> nat \<Rightarrow> nat \<Rightarrow> bool" where
  "tq_Less q i j = (cmp q (mem q (orderedItems q ! i)) (mem q (orderedItems q ! j)) < 0)"

definition tq_Swap :: "'a tqueue \<Rightarrow> nat \<Rightarrow> nat \<Rightarrow> 'a tqueue" where
  "tq_Swap q i j =
     (let a = orderedItems q ! i; b = orderedItems q ! j;
          q = SetHeapIndex q b i; q = q\<lparr>orderedItems := (orderedItems q)[i := b]\<rparr>;
          q = SetHeapIndex q a j
      in q\<lparr>orderedItems := (orderedItems q)[j := a]\<rparr>)"

definition tq_Push :: "'a tqueue \<Rightarrow> ptr \<Rightarrow> 'a tqueue" where
  "tq_Push q item =
     (let q = SetHeapIndex q item (length (orderedItems q))
      in q\<lparr>orderedItems := orderedItems q @ [item]\<rparr>)"

definition tq_Pop :: "'a tqueue \<Rightarrow> 'a tqueue \<times> ptr" where
  "tq_Pop q = (let n = length (orderedItems q); item = orderedItems q ! (n - 1)
     in (q\<lparr>orderedItems := take (n - 1) (orderedItems q)\<rparr>, item))"

definition tq_heap :: "('a tqueue, ptr) heap_ops" where
  "tq_heap = \<lparr>h_len = tq_Len, h_less = tq_Less, h_swap = tq_Swap, h_push = tq_Push, h_pop = tq_Pop\<rparr>"

section \<open>heap.Interface of the max heap\<close>

definition mh_Len :: "'a tqueue \<Rightarrow> nat" where
  "mh_Len q = length (maxHeap q)"

definition mh_Less :: "'a tqueue \<Rightarrow> nat \<Rightarrow> nat \<Rightarrow> bool" where
  "mh_Less q i j = (0 \<le> cmp q (mem q (maxHeap q ! i)) (mem q (maxHeap q ! j)))"

definition mh_Swap :: "'a tqueue \<Rightarrow> nat \<Rightarrow> nat \<Rightarrow> 'a tqueue" where
  "mh_Swap q i j =
     (let a = maxHeap q ! i; b = maxHeap q ! j;
          q = SetMaxHeapIndex q b i; q = q\<lparr>maxHeap := (maxHeap q)[i := b]\<rparr>;
          q = SetMaxHeapIndex q a j
      in q\<lparr>maxHeap := (maxHeap q)[j := a]\<rparr>)"

definition mh_Push :: "'a tqueue \<Rightarrow> ptr \<Rightarrow> 'a tqueue" where
  "mh_Push q item =
     (let q = SetMaxHeapIndex q item (length (maxHeap q))
      in q\<lparr>maxHeap := maxHeap q @ [item]\<rparr>)"

definition mh_Pop :: "'a tqueue \<Rightarrow> 'a tqueue \<times> ptr" where
  "mh_Pop q = (let n = length (maxHeap q); item = maxHeap q ! (n - 1)
     in (q\<lparr>maxHeap := take (n - 1) (maxHeap q)\<rparr>, item))"

definition mh_heap :: "('a tqueue, ptr) heap_ops" where
  "mh_heap = \<lparr>h_len = mh_Len, h_less = mh_Less, h_swap = mh_Swap, h_push = mh_Push, h_pop = mh_Pop\<rparr>"

section \<open>Operations\<close>

definition newTransferQueue ::
    "(ptr \<Rightarrow> 'a transferItem_scheme) \<Rightarrow> ('a transferItem_scheme \<Rightarrow> 'a transferItem_scheme \<Rightarrow> int) \<Rightarrow> 'a tqueue" where
  "newTransferQueue m c =
     heap_Init tq_heap (heap_Init mh_heap
       \<lparr>mem = m, orderedItems = [], maxHeap = [], messageIdItems = Map.empty,
        sequenceNumberItems = Map.empty, byteCount = 0, cmp = c\<rparr>)"

definition QueueSize :: "'a tqueue \<Rightarrow> nat \<times> ByteCount" where
  "QueueSize q = (length (orderedItems q), byteCount q)"

definition Add :: "'a tqueue \<Rightarrow> ptr \<Rightarrow> 'a tqueue" where
  "Add q item =
     (let q = q\<lparr>messageIdItems := (messageIdItems q)(messageId (mem q item) \<mapsto> item)\<rparr>;
          q = q\<lparr>sequenceNumberItems := (sequenceNumberItems q)(sequenceNumber (mem q item) \<mapsto> item)\<rparr>;
          q = heap_Push tq_heap q item;
          q = heap_Push mh_heap q item
      in q\<lparr>byteCount := int64 (byteCount q + messageByteCount (mem q item))\<rparr>)"

definition ContainsMessageId :: "'a tqueue \<Rightarrow> Id \<Rightarrow> u64 option" where
  "ContainsMessageId q m =
     (case messageIdItems q m of None \<Rightarrow> None | Some item \<Rightarrow> Some (sequenceNumber (mem q item)))"

text \<open>\<open>remove\<close> panics when the item that leaves the heap is not the one asked for.\<close>

definition tq_remove :: "'a tqueue \<Rightarrow> ptr \<Rightarrow> ('a tqueue \<times> ptr) option" where
  "tq_remove q item =
     do {
       let q = q\<lparr>messageIdItems := (messageIdItems q)(messageId (mem q item) := None)\<rparr>;
       let q = q\<lparr>sequenceNumberItems := (sequenceNumberItems q)(sequenceNumber (mem q item) := None)\<rparr>;
       (q, item') \<leftarrow> heap_Remove tq_heap q (heapIndex (mem q item));
       if item \<noteq> item' then None
       else do {
         (q, _) \<leftarrow> heap_Remove mh_heap q (maxHeapIndex (mem q item));
         Some (q\<lparr>byteCount := int64 (byteCount q - messageByteCount (mem q item))\<rparr>, item)
       }
     }"

text \<open>A missing key returns the nil item and leaves the queue alone.\<close>

definition RemoveByMessageId :: "'a tqueue \<Rightarrow> Id \<Rightarrow> ('a tqueue \<times> ptr option) option" where
  "RemoveByMessageId q m =
     (case messageIdItems q m of
        None \<Rightarrow> Some (q, None)
      | Some item \<Rightarrow> map_option (\<lambda>(q, p). (q, Some p)) (tq_remove q item))"

definition RemoveBySequenceNumber :: "'a tqueue \<Rightarrow> u64 \<Rightarrow> ('a tqueue \<times> ptr option) option" where
  "RemoveBySequenceNumber q n =
     (case sequenceNumberItems q n of
        None \<Rightarrow> Some (q, None)
      | Some item \<Rightarrow> map_option (\<lambda>(q, p). (q, Some p)) (tq_remove q item))"

definition GetByMessageId :: "'a tqueue \<Rightarrow> Id \<Rightarrow> ptr option" where
  "GetByMessageId q m = messageIdItems q m"

definition GetBySequenceNumber :: "'a tqueue \<Rightarrow> u64 \<Rightarrow> ptr option" where
  "GetBySequenceNumber q n = sequenceNumberItems q n"

definition RemoveFirst :: "'a tqueue \<Rightarrow> ('a tqueue \<times> ptr option) option" where
  "RemoveFirst q =
     (if length (orderedItems q) = 0 then Some (q, None)
      else do {
        (q, item) \<leftarrow> heap_Remove tq_heap q 0;
        (q, _) \<leftarrow> heap_Remove mh_heap q (maxHeapIndex (mem q item));
        let q = q\<lparr>messageIdItems := (messageIdItems q)(messageId (mem q item) := None)\<rparr>;
        let q = q\<lparr>sequenceNumberItems := (sequenceNumberItems q)(sequenceNumber (mem q item) := None)\<rparr>;
        Some (q\<lparr>byteCount := int64 (byteCount q - messageByteCount (mem q item))\<rparr>, Some item)
      })"

definition PeekFirst :: "'a tqueue \<Rightarrow> ptr option" where
  "PeekFirst q = (if length (orderedItems q) = 0 then None else Some (orderedItems q ! 0))"

definition mh_PeekFirst :: "'a tqueue \<Rightarrow> ptr option" where
  "mh_PeekFirst q = (if length (maxHeap q) = 0 then None else Some (maxHeap q ! 0))"

definition PeekLast :: "'a tqueue \<Rightarrow> ptr option" where
  "PeekLast q = mh_PeekFirst q"

section \<open>Contents, up to the heap positions\<close>

definition strip :: "'a transferItem_scheme \<Rightarrow> 'a transferItem_scheme" where
  "strip x = x\<lparr>heapIndex := 0, maxHeapIndex := 0\<rparr>"

definition contents :: "'a tqueue \<Rightarrow> ptr \<Rightarrow> 'a transferItem_scheme" where
  "contents q p = strip (mem q p)"

lemma strip_simps [simp]:
  "messageId (strip x) = messageId x" "messageByteCount (strip x) = messageByteCount x"
  "sequenceNumber (strip x) = sequenceNumber x" "transferItem.more (strip x) = transferItem.more x"
  "strip (strip x) = strip x" "strip (x\<lparr>heapIndex := i\<rparr>) = strip x" "strip (x\<lparr>maxHeapIndex := i\<rparr>) = strip x"
  by (simp_all add: strip_def)

lemma contents_fields:
  "messageId (contents q p) = messageId (mem q p)"
  "messageByteCount (contents q p) = messageByteCount (mem q p)"
  "sequenceNumber (contents q p) = sequenceNumber (mem q p)"
  "transferItem.more (contents q p) = transferItem.more (mem q p)"
  by (simp_all add: contents_def)

lemma mem_fields_cong:
  assumes "contents q = contents r"
  shows "messageId (mem q p) = messageId (mem r p)"
    and "messageByteCount (mem q p) = messageByteCount (mem r p)"
    and "sequenceNumber (mem q p) = sequenceNumber (mem r p)"
    and "transferItem.more (mem q p) = transferItem.more (mem r p)"
  using assms by (metis contents_fields)+

text \<open>A comparison function is a total preorder that does not look at the heap positions.\<close>

definition cmp_ok :: "('a transferItem_scheme \<Rightarrow> 'a transferItem_scheme \<Rightarrow> int) \<Rightarrow> bool" where
  "cmp_ok c \<longleftrightarrow> (\<forall>x y. c x y = c (strip x) (strip y)) \<and> (\<forall>x y. c x y < 0 \<longleftrightarrow> 0 < c y x) \<and>
     (\<forall>x y z. c x y \<le> 0 \<longrightarrow> c y z \<le> 0 \<longrightarrow> c x z \<le> 0)"

definition le_min :: "'a tqueue \<Rightarrow> ptr \<Rightarrow> ptr \<Rightarrow> bool" where
  "le_min q p p' \<longleftrightarrow> cmp q (contents q p) (contents q p') \<le> 0"

definition le_max :: "'a tqueue \<Rightarrow> ptr \<Rightarrow> ptr \<Rightarrow> bool" where
  "le_max q p p' \<longleftrightarrow> le_min q p' p"

definition min_wf :: "'a tqueue \<Rightarrow> bool" where
  "min_wf q \<longleftrightarrow> cmp_ok (cmp q) \<and> distinct (orderedItems q) \<and>
     (\<forall>i<length (orderedItems q). heapIndex (mem q (orderedItems q ! i)) = i)"

definition max_wf :: "'a tqueue \<Rightarrow> bool" where
  "max_wf q \<longleftrightarrow> cmp_ok (cmp q) \<and> distinct (maxHeap q) \<and>
     (\<forall>i<length (maxHeap q). maxHeapIndex (mem q (maxHeap q ! i)) = i)"

lemma cmp_mem: "cmp_ok (cmp q) \<Longrightarrow> cmp q (mem q p) (mem q p') = cmp q (contents q p) (contents q p')"
  unfolding cmp_ok_def contents_def by blast

lemma le_min_total: "cmp_ok (cmp q) \<Longrightarrow> \<not> le_min q p p' \<Longrightarrow> le_min q p' p"
  unfolding cmp_ok_def le_min_def by (metis linorder_not_less nle_le)

lemma le_min_trans: "cmp_ok (cmp q) \<Longrightarrow> transp (le_min q)"
  unfolding cmp_ok_def le_min_def transp_def by blast

lemma le_min_refl: "cmp_ok (cmp q) \<Longrightarrow> reflp (le_min q)"
  unfolding reflp_def using le_min_total by blast

lemma le_max_trans: "cmp_ok (cmp q) \<Longrightarrow> transp (le_max q)"
  using le_min_trans unfolding le_max_def transp_def by blast

lemma le_max_refl: "cmp_ok (cmp q) \<Longrightarrow> reflp (le_max q)"
  using le_min_refl unfolding le_max_def reflp_def by blast

section \<open>The two heaps are heaps\<close>

lemma contents_Set [simp]:
  "contents (SetHeapIndex q p i) = contents q" "contents (SetMaxHeapIndex q p i) = contents q"
  by (auto simp: SetHeapIndex_def SetMaxHeapIndex_def contents_def)

lemma contents_upd [simp]:
  "contents (q\<lparr>orderedItems := xs\<rparr>) = contents q" "contents (q\<lparr>maxHeap := xs\<rparr>) = contents q"
  "contents (q\<lparr>messageIdItems := m\<rparr>) = contents q" "contents (q\<lparr>sequenceNumberItems := sm\<rparr>) = contents q"
  "contents (q\<lparr>byteCount := b\<rparr>) = contents q"
  by (simp_all add: contents_def fun_eq_iff)

lemma Set_fields [simp]:
  "orderedItems (SetHeapIndex q p i) = orderedItems q" "maxHeap (SetHeapIndex q p i) = maxHeap q"
  "messageIdItems (SetHeapIndex q p i) = messageIdItems q"
  "sequenceNumberItems (SetHeapIndex q p i) = sequenceNumberItems q"
  "byteCount (SetHeapIndex q p i) = byteCount q" "cmp (SetHeapIndex q p i) = cmp q"
  "orderedItems (SetMaxHeapIndex q p i) = orderedItems q" "maxHeap (SetMaxHeapIndex q p i) = maxHeap q"
  "messageIdItems (SetMaxHeapIndex q p i) = messageIdItems q"
  "sequenceNumberItems (SetMaxHeapIndex q p i) = sequenceNumberItems q"
  "byteCount (SetMaxHeapIndex q p i) = byteCount q" "cmp (SetMaxHeapIndex q p i) = cmp q"
  by (simp_all add: SetHeapIndex_def SetMaxHeapIndex_def)

lemma Set_index [simp]:
  "heapIndex (mem (SetHeapIndex q p i) p') = (if p' = p then i else heapIndex (mem q p'))"
  "maxHeapIndex (mem (SetHeapIndex q p i) p') = maxHeapIndex (mem q p')"
  "maxHeapIndex (mem (SetMaxHeapIndex q p i) p') = (if p' = p then i else maxHeapIndex (mem q p'))"
  "heapIndex (mem (SetMaxHeapIndex q p i) p') = heapIndex (mem q p')"
  by (simp_all add: SetHeapIndex_def SetMaxHeapIndex_def)

lemma le_cong:
  assumes "contents q = contents r" "cmp q = cmp r"
  shows "le_min q = le_min r" "le_max q = le_max r"
  using assms by (simp_all add: le_min_def le_max_def fun_eq_iff)

lemma swap_index:
  assumes "distinct xs" "i < length xs" "j < length xs" "i \<noteq> j"
    and "\<forall>k<length xs. f (xs ! k) = k" and "k < length xs"
  shows "(if list_swap xs i j ! k = xs ! i then j else if list_swap xs i j ! k = xs ! j then i
    else f (list_swap xs i j ! k)) = k"
  using assms by (auto simp: nth_list_swap nth_eq_iff_index_eq)

lemma tq_Swap_fields:
  "orderedItems (tq_Swap q i j) = list_swap (orderedItems q) i j" "maxHeap (tq_Swap q i j) = maxHeap q"
  "contents (tq_Swap q i j) = contents q" "cmp (tq_Swap q i j) = cmp q"
  "messageIdItems (tq_Swap q i j) = messageIdItems q"
  "sequenceNumberItems (tq_Swap q i j) = sequenceNumberItems q" "byteCount (tq_Swap q i j) = byteCount q"
  "maxHeapIndex (mem (tq_Swap q i j) p) = maxHeapIndex (mem q p)"
  "heapIndex (mem (tq_Swap q i j) p) =
    (if p = orderedItems q ! i then j else if p = orderedItems q ! j then i else heapIndex (mem q p))"
  by (simp_all add: tq_Swap_def Let_def list_swap_def)

lemma mh_Swap_fields:
  "maxHeap (mh_Swap q i j) = list_swap (maxHeap q) i j" "orderedItems (mh_Swap q i j) = orderedItems q"
  "contents (mh_Swap q i j) = contents q" "cmp (mh_Swap q i j) = cmp q"
  "messageIdItems (mh_Swap q i j) = messageIdItems q"
  "sequenceNumberItems (mh_Swap q i j) = sequenceNumberItems q" "byteCount (mh_Swap q i j) = byteCount q"
  "heapIndex (mem (mh_Swap q i j) p) = heapIndex (mem q p)"
  "maxHeapIndex (mem (mh_Swap q i j) p) =
    (if p = maxHeap q ! i then j else if p = maxHeap q ! j then i else maxHeapIndex (mem q p))"
  by (simp_all add: mh_Swap_def Let_def list_swap_def)

lemma tq_Push_fields:
  "orderedItems (tq_Push q p) = orderedItems q @ [p]" "maxHeap (tq_Push q p) = maxHeap q"
  "contents (tq_Push q p) = contents q" "cmp (tq_Push q p) = cmp q"
  "messageIdItems (tq_Push q p) = messageIdItems q"
  "sequenceNumberItems (tq_Push q p) = sequenceNumberItems q" "byteCount (tq_Push q p) = byteCount q"
  "maxHeapIndex (mem (tq_Push q p) p') = maxHeapIndex (mem q p')"
  "heapIndex (mem (tq_Push q p) p') = (if p' = p then length (orderedItems q) else heapIndex (mem q p'))"
  by (simp_all add: tq_Push_def Let_def)

lemma mh_Push_fields:
  "maxHeap (mh_Push q p) = maxHeap q @ [p]" "orderedItems (mh_Push q p) = orderedItems q"
  "contents (mh_Push q p) = contents q" "cmp (mh_Push q p) = cmp q"
  "messageIdItems (mh_Push q p) = messageIdItems q"
  "sequenceNumberItems (mh_Push q p) = sequenceNumberItems q" "byteCount (mh_Push q p) = byteCount q"
  "heapIndex (mem (mh_Push q p) p') = heapIndex (mem q p')"
  "maxHeapIndex (mem (mh_Push q p) p') = (if p' = p then length (maxHeap q) else maxHeapIndex (mem q p'))"
  by (simp_all add: mh_Push_def Let_def)

lemma tq_Pop_fields:
  "orderedItems (fst (tq_Pop q)) = take (length (orderedItems q) - 1) (orderedItems q)"
  "maxHeap (fst (tq_Pop q)) = maxHeap q" "mem (fst (tq_Pop q)) = mem q"
  "contents (fst (tq_Pop q)) = contents q" "cmp (fst (tq_Pop q)) = cmp q"
  "messageIdItems (fst (tq_Pop q)) = messageIdItems q"
  "sequenceNumberItems (fst (tq_Pop q)) = sequenceNumberItems q" "byteCount (fst (tq_Pop q)) = byteCount q"
  "snd (tq_Pop q) = orderedItems q ! (length (orderedItems q) - 1)"
  by (simp_all add: tq_Pop_def Let_def)

lemma mh_Pop_fields:
  "maxHeap (fst (mh_Pop q)) = take (length (maxHeap q) - 1) (maxHeap q)"
  "orderedItems (fst (mh_Pop q)) = orderedItems q" "mem (fst (mh_Pop q)) = mem q"
  "contents (fst (mh_Pop q)) = contents q" "cmp (fst (mh_Pop q)) = cmp q"
  "messageIdItems (fst (mh_Pop q)) = messageIdItems q"
  "sequenceNumberItems (fst (mh_Pop q)) = sequenceNumberItems q" "byteCount (fst (mh_Pop q)) = byteCount q"
  "snd (mh_Pop q) = maxHeap q ! (length (maxHeap q) - 1)"
  by (simp_all add: mh_Pop_def Let_def)

lemmas heap_method_fields = tq_Swap_fields mh_Swap_fields tq_Push_fields mh_Push_fields tq_Pop_fields mh_Pop_fields

interpretation minq: heap_interface tq_heap orderedItems le_min min_wf
proof unfold_locales
  fix q :: "'a tqueue" and i j :: nat and p :: ptr
  show "h_len tq_heap q = length (orderedItems q)" by (simp add: tq_heap_def tq_Len_def)
  show "reflp (le_min q)" "transp (le_min q)" if "min_wf q"
    using that by (auto simp: min_wf_def intro: le_min_refl le_min_trans)
  show "orderedItems (h_swap tq_heap q i j) = list_swap (orderedItems q) i j \<and>
      min_wf (h_swap tq_heap q i j) \<and> le_min (h_swap tq_heap q i j) = le_min q"
    if "min_wf q" "i < length (orderedItems q)" "j < length (orderedItems q)" "i \<noteq> j"
    using that swap_index [of "orderedItems q" i j "\<lambda>p. heapIndex (mem q p)"] le_cong(1) [of "tq_Swap q i j" q]
    by (simp add: tq_heap_def tq_Swap_fields min_wf_def)
  show "le_min q (orderedItems q ! i) (orderedItems q ! j)"
    if "min_wf q" "i < length (orderedItems q)" "j < length (orderedItems q)" "h_less tq_heap q i j"
    using that by (simp add: tq_heap_def tq_Less_def min_wf_def cmp_mem le_min_def)
  show "le_min q (orderedItems q ! j) (orderedItems q ! i)"
    if "min_wf q" "i < length (orderedItems q)" "j < length (orderedItems q)" "\<not> h_less tq_heap q i j"
    using that by (auto simp: tq_heap_def tq_Less_def min_wf_def cmp_mem le_min_def cmp_ok_def not_less)
  show "orderedItems (h_push tq_heap q p) = orderedItems q @ [p] \<and>
      min_wf (h_push tq_heap q p) \<and> le_min (h_push tq_heap q p) = le_min q"
    if "min_wf q" "p \<notin> set (orderedItems q)"
    using that le_cong(1) [of "tq_Push q p" q]
    by (auto simp: tq_heap_def tq_Push_fields min_wf_def nth_append less_Suc_eq)
  show "snd (h_pop tq_heap q) = last (orderedItems q) \<and>
      orderedItems (fst (h_pop tq_heap q)) = butlast (orderedItems q) \<and>
      min_wf (fst (h_pop tq_heap q)) \<and> le_min (fst (h_pop tq_heap q)) = le_min q"
    if "min_wf q" "orderedItems q \<noteq> []"
    using that le_cong(1) [of "fst (tq_Pop q)" q]
    by (auto simp: tq_heap_def tq_Pop_fields min_wf_def last_conv_nth butlast_conv_take)
qed

interpretation maxq: heap_interface mh_heap maxHeap le_max max_wf
proof unfold_locales
  fix q :: "'a tqueue" and i j :: nat and p :: ptr
  show "h_len mh_heap q = length (maxHeap q)" by (simp add: mh_heap_def mh_Len_def)
  show "reflp (le_max q)" "transp (le_max q)" if "max_wf q"
    using that by (auto simp: max_wf_def intro: le_max_refl le_max_trans)
  show "maxHeap (h_swap mh_heap q i j) = list_swap (maxHeap q) i j \<and>
      max_wf (h_swap mh_heap q i j) \<and> le_max (h_swap mh_heap q i j) = le_max q"
    if "max_wf q" "i < length (maxHeap q)" "j < length (maxHeap q)" "i \<noteq> j"
    using that swap_index [of "maxHeap q" i j "\<lambda>p. maxHeapIndex (mem q p)"] le_cong(2) [of "mh_Swap q i j" q]
    by (simp add: mh_heap_def mh_Swap_fields max_wf_def)
  show "le_max q (maxHeap q ! i) (maxHeap q ! j)"
    if "max_wf q" "i < length (maxHeap q)" "j < length (maxHeap q)" "h_less mh_heap q i j"
    using that by (auto simp: mh_heap_def mh_Less_def max_wf_def cmp_mem le_min_def le_max_def cmp_ok_def not_less [symmetric])
  show "le_max q (maxHeap q ! j) (maxHeap q ! i)"
    if "max_wf q" "i < length (maxHeap q)" "j < length (maxHeap q)" "\<not> h_less mh_heap q i j"
    using that by (auto simp: mh_heap_def mh_Less_def max_wf_def cmp_mem le_min_def le_max_def)
  show "maxHeap (h_push mh_heap q p) = maxHeap q @ [p] \<and>
      max_wf (h_push mh_heap q p) \<and> le_max (h_push mh_heap q p) = le_max q"
    if "max_wf q" "p \<notin> set (maxHeap q)"
    using that le_cong(2) [of "mh_Push q p" q]
    by (auto simp: mh_heap_def mh_Push_fields max_wf_def nth_append less_Suc_eq)
  show "snd (h_pop mh_heap q) = last (maxHeap q) \<and>
      maxHeap (fst (h_pop mh_heap q)) = butlast (maxHeap q) \<and>
      max_wf (fst (h_pop mh_heap q)) \<and> le_max (fst (h_pop mh_heap q)) = le_max q"
    if "max_wf q" "maxHeap q \<noteq> []"
    using that le_cong(2) [of "fst (mh_Pop q)" q]
    by (auto simp: mh_heap_def mh_Pop_fields max_wf_def last_conv_nth butlast_conv_take)
qed

section \<open>What the operations of one heap leave alone\<close>

definition min_frame :: "'a tqueue \<Rightarrow> 'a tqueue \<Rightarrow> bool" where
  "min_frame q r \<longleftrightarrow> contents r = contents q \<and> cmp r = cmp q \<and> maxHeap r = maxHeap q \<and>
     messageIdItems r = messageIdItems q \<and> sequenceNumberItems r = sequenceNumberItems q \<and>
     byteCount r = byteCount q \<and> (\<forall>p. maxHeapIndex (mem r p) = maxHeapIndex (mem q p))"

definition max_frame :: "'a tqueue \<Rightarrow> 'a tqueue \<Rightarrow> bool" where
  "max_frame q r \<longleftrightarrow> contents r = contents q \<and> cmp r = cmp q \<and> orderedItems r = orderedItems q \<and>
     messageIdItems r = messageIdItems q \<and> sequenceNumberItems r = sequenceNumberItems q \<and>
     byteCount r = byteCount q \<and> (\<forall>p. heapIndex (mem r p) = heapIndex (mem q p))"

lemma min_frame_Push: "min_frame q (heap_Push tq_heap q p)"
  by (rule heap_Push_keeps [where P = "min_frame q"])
    (simp_all add: min_frame_def tq_heap_def heap_method_fields)

lemma max_frame_Push: "max_frame q (heap_Push mh_heap q p)"
  by (rule heap_Push_keeps [where P = "max_frame q"])
    (simp_all add: max_frame_def mh_heap_def heap_method_fields)

lemma min_frame_Remove: "heap_Remove tq_heap q i = Some (r, p) \<Longrightarrow> min_frame q r"
  by (erule heap_Remove_keeps [where P = "min_frame q"])
    (simp_all add: min_frame_def tq_heap_def heap_method_fields)

lemma max_frame_Remove: "heap_Remove mh_heap q i = Some (r, p) \<Longrightarrow> max_frame q r"
  by (erule heap_Remove_keeps [where P = "max_frame q"])
    (simp_all add: max_frame_def mh_heap_def heap_method_fields)

abbreviation min_heap :: "'a tqueue \<Rightarrow> bool" where
  "min_heap q \<equiv> heap_upto (le_min q) (orderedItems q) (length (orderedItems q))"

abbreviation max_heap :: "'a tqueue \<Rightarrow> bool" where
  "max_heap q \<equiv> heap_upto (le_max q) (maxHeap q) (length (maxHeap q))"

lemma min_frame_max: "min_frame q r \<Longrightarrow> max_wf q \<Longrightarrow> max_heap q \<Longrightarrow> max_wf r \<and> max_heap r"
  using le_cong [of r q] by (simp add: min_frame_def max_wf_def)

lemma max_frame_min: "max_frame q r \<Longrightarrow> min_wf q \<Longrightarrow> min_heap q \<Longrightarrow> min_wf r \<and> min_heap r"
  using le_cong [of r q] by (simp add: max_frame_def min_wf_def)

lemma min_heap_Push:
  "min_wf q \<Longrightarrow> min_heap q \<Longrightarrow> p \<notin> set (orderedItems q) \<Longrightarrow> min_wf (heap_Push tq_heap q p) \<and>
   min_heap (heap_Push tq_heap q p) \<and> mset (orderedItems (heap_Push tq_heap q p)) = add_mset p (mset (orderedItems q))"
  using minq.Push_correct [of q p] unfolding minq.is_heap_def by blast

lemma max_heap_Push:
  "max_wf q \<Longrightarrow> max_heap q \<Longrightarrow> p \<notin> set (maxHeap q) \<Longrightarrow> max_wf (heap_Push mh_heap q p) \<and>
   max_heap (heap_Push mh_heap q p) \<and> mset (maxHeap (heap_Push mh_heap q p)) = add_mset p (mset (maxHeap q))"
  using maxq.Push_correct [of q p] unfolding maxq.is_heap_def by blast

text \<open>Removing an item through the position it carries removes that item.\<close>

lemma min_heap_Remove:
  assumes "min_wf q" "min_heap q" "p \<in> set (orderedItems q)"
  shows "\<exists>r. heap_Remove tq_heap q (heapIndex (mem q p)) = Some (r, p) \<and> min_wf r \<and> min_heap r \<and>
    mset (orderedItems q) = add_mset p (mset (orderedItems r)) \<and> min_frame q r"
proof -
  obtain i where i: "i < length (orderedItems q)" "orderedItems q ! i = p"
    using assms(3) by (auto simp: in_set_conv_nth)
  then have "heapIndex (mem q p) = i" using assms(1) by (auto simp: min_wf_def)
  then show ?thesis
    using minq.Remove_correct [of q i, unfolded minq.is_heap_def, OF assms(1,2) i(1)] i min_frame_Remove
    by metis
qed

lemma max_heap_Remove:
  assumes "max_wf q" "max_heap q" "p \<in> set (maxHeap q)"
  shows "\<exists>r. heap_Remove mh_heap q (maxHeapIndex (mem q p)) = Some (r, p) \<and> max_wf r \<and> max_heap r \<and>
    mset (maxHeap q) = add_mset p (mset (maxHeap r)) \<and> max_frame q r"
proof -
  obtain i where i: "i < length (maxHeap q)" "maxHeap q ! i = p"
    using assms(3) by (auto simp: in_set_conv_nth)
  then have "maxHeapIndex (mem q p) = i" using assms(1) by (auto simp: max_wf_def)
  then show ?thesis
    using maxq.Remove_correct [of q i, unfolded maxq.is_heap_def, OF assms(1,2) i(1)] i max_frame_Remove
    by metis
qed

section \<open>The representation invariant\<close>

text \<open>The two hash maps hold exactly the items of the queue, and the byte count is their sum.\<close>

definition maps_ok :: "'a tqueue \<Rightarrow> ptr set \<Rightarrow> bool" where
  "maps_ok q A \<longleftrightarrow>
     (\<forall>m p. messageIdItems q m = Some p \<longleftrightarrow> p \<in> A \<and> messageId (mem q p) = m) \<and>
     (\<forall>n p. sequenceNumberItems q n = Some p \<longleftrightarrow> p \<in> A \<and> sequenceNumber (mem q p) = n) \<and>
     byteCount q = int64 (\<Sum>p\<in>A. messageByteCount (mem q p))"

definition tq_inv :: "'a tqueue \<Rightarrow> bool" where
  "tq_inv q \<longleftrightarrow> min_wf q \<and> min_heap q \<and> max_wf q \<and> max_heap q \<and>
     mset (maxHeap q) = mset (orderedItems q) \<and> maps_ok q (set (orderedItems q))"

abbreviation tq_items :: "'a tqueue \<Rightarrow> ptr set" where
  "tq_items q \<equiv> set (orderedItems q)"

lemma maps_ok_cong:
  "contents r = contents q \<Longrightarrow> messageIdItems r = messageIdItems q \<Longrightarrow>
   sequenceNumberItems r = sequenceNumberItems q \<Longrightarrow> byteCount r = byteCount q \<Longrightarrow> maps_ok r A = maps_ok q A"
  using mem_fields_cong [of r q] by (simp add: maps_ok_def)

lemma maps_ok_insert:
  assumes "maps_ok q A" "finite A" "p \<notin> A"
    and "messageIdItems q (messageId (mem q p)) = None" "sequenceNumberItems q (sequenceNumber (mem q p)) = None"
    and "contents r = contents q"
    and "messageIdItems r = (messageIdItems q)(messageId (mem q p) \<mapsto> p)"
    and "sequenceNumberItems r = (sequenceNumberItems q)(sequenceNumber (mem q p) \<mapsto> p)"
    and "byteCount r = int64 (byteCount q + messageByteCount (mem q p))"
  shows "maps_ok r (insert p A)"
proof -
  note fields = mem_fields_cong [OF assms(6)]
  have "messageIdItems r m = Some p' \<longleftrightarrow> p' \<in> insert p A \<and> messageId (mem q p') = m" for m p'
    unfolding assms(7) by (rule index_map_insert) (use assms(1,4) in \<open>simp_all add: maps_ok_def\<close>)
  moreover have "sequenceNumberItems r n = Some p' \<longleftrightarrow> p' \<in> insert p A \<and> sequenceNumber (mem q p') = n" for n p'
    unfolding assms(8) by (rule index_map_insert) (use assms(1,5) in \<open>simp_all add: maps_ok_def\<close>)
  moreover have "byteCount r = int64 (\<Sum>p\<in>insert p A. messageByteCount (mem q p))"
    using assms(1,2,3,9) by (simp add: maps_ok_def wrap_simps add.commute)
  ultimately show ?thesis by (simp add: maps_ok_def fields)
qed

lemma maps_ok_remove:
  assumes "maps_ok q A" "finite A" "p \<in> A" "contents r = contents q"
    and "messageIdItems r = (messageIdItems q)(messageId (mem q p) := None)"
    and "sequenceNumberItems r = (sequenceNumberItems q)(sequenceNumber (mem q p) := None)"
    and "byteCount r = int64 (byteCount q - messageByteCount (mem q p))"
  shows "maps_ok r (A - {p})"
proof -
  note fields = mem_fields_cong [OF assms(4)]
  have "messageIdItems r m = Some p' \<longleftrightarrow> p' \<in> A - {p} \<and> messageId (mem q p') = m" for m p'
    unfolding assms(5) by (rule index_map_remove) (use assms(1,3) in \<open>simp_all add: maps_ok_def\<close>)
  moreover have "sequenceNumberItems r n = Some p' \<longleftrightarrow> p' \<in> A - {p} \<and> sequenceNumber (mem q p') = n" for n p'
    unfolding assms(6) by (rule index_map_remove) (use assms(1,3) in \<open>simp_all add: maps_ok_def\<close>)
  moreover have "byteCount r = int64 (\<Sum>p\<in>A - {p}. messageByteCount (mem q p))"
    using assms(1,2,3,7) by (simp add: maps_ok_def wrap_simps sum_set_remove)
  ultimately show ?thesis by (simp add: maps_ok_def fields)
qed

lemma tq_inv_new: "cmp_ok c \<Longrightarrow> tq_inv (newTransferQueue m c)"
  by (simp add: newTransferQueue_def minq.Init_empty maxq.Init_empty tq_inv_def min_wf_def max_wf_def
      maps_ok_def heap_upto_def)

lemma new_fields [simp]:
  "orderedItems (newTransferQueue m c) = []" "mem (newTransferQueue m c) = m" "cmp (newTransferQueue m c) = c"
  "byteCount (newTransferQueue m c) = 0" "messageIdItems (newTransferQueue m c) = Map.empty"
  "sequenceNumberItems (newTransferQueue m c) = Map.empty"
  by (simp_all add: newTransferQueue_def minq.Init_empty maxq.Init_empty)

theorem Add_correct:
  assumes inv: "tq_inv q" and fresh: "p \<notin> tq_items q"
    "messageIdItems q (messageId (mem q p)) = None" "sequenceNumberItems q (sequenceNumber (mem q p)) = None"
  shows "tq_inv (Add q p) \<and> tq_items (Add q p) = insert p (tq_items q) \<and>
    contents (Add q p) = contents q \<and> cmp (Add q p) = cmp q"
proof -
  define q1 where "q1 = q\<lparr>messageIdItems := (messageIdItems q)(messageId (mem q p) \<mapsto> p),
    sequenceNumberItems := (sequenceNumberItems q)(sequenceNumber (mem q p) \<mapsto> p)\<rparr>"
  define q2 where "q2 = heap_Push tq_heap q1 p"
  define q3 where "q3 = heap_Push mh_heap q2 p"
  define r where "r = q3\<lparr>byteCount := int64 (byteCount q3 + messageByteCount (mem q3 p))\<rparr>"
  have r: "Add q p = r" by (simp add: Add_def Let_def r_def q3_def q2_def q1_def)
  have q1: "min_wf q1" "min_heap q1" "max_wf q1" "max_heap q1" "p \<notin> set (orderedItems q1)"
    using inv fresh le_cong [of q1 q] by (simp_all add: tq_inv_def min_wf_def max_wf_def q1_def)
  have f2: "min_frame q1 q2" and f3: "max_frame q2 q3"
    unfolding q2_def q3_def by (rule min_frame_Push max_frame_Push)+
  have q2: "min_wf q2" "min_heap q2" "mset (orderedItems q2) = add_mset p (mset (orderedItems q1))"
    using min_heap_Push [OF q1(1,2,5)] by (auto simp: q2_def)
  have mx: "max_wf q2" "max_heap q2" using min_frame_max [OF f2 q1(3,4)] by auto
  have maxH: "maxHeap q2 = maxHeap q" "orderedItems q3 = orderedItems q2" "orderedItems q1 = orderedItems q"
    using f2 f3 by (simp_all add: min_frame_def max_frame_def q1_def)
  have pm: "p \<notin> set (maxHeap q2)"
    using fresh(1) inv mset_eq_setD [of "maxHeap q" "orderedItems q"] by (simp add: maxH tq_inv_def)
  have q3: "max_wf q3" "max_heap q3" "mset (maxHeap q3) = add_mset p (mset (maxHeap q2))"
    using max_heap_Push [OF mx pm] by (auto simp: q3_def)
  have mn: "min_wf q3" "min_heap q3" using max_frame_min [OF f3 q2(1,2)] by auto
  have fields: "contents r = contents q" "cmp r = cmp q" "contents q3 = contents q"
    using f2 f3 by (simp_all add: min_frame_def max_frame_def r_def q1_def)
  have msets: "mset (orderedItems r) = add_mset p (mset (orderedItems q))" "mset (maxHeap r) = mset (orderedItems r)"
    using q2(3) q3(3) inv by (simp_all add: r_def maxH tq_inv_def)
  have items: "tq_items r = insert p (tq_items q)"
    using arg_cong [OF msets(1), of set_mset] by simp
  have "maps_ok r (insert p (tq_items q))"
    by (rule maps_ok_insert [of q])
      (use inv fresh f2 f3 fields mem_fields_cong [OF fields(3)] in
        \<open>simp_all add: r_def q1_def tq_inv_def min_frame_def max_frame_def\<close>)
  moreover have "min_wf r" "min_heap r" "max_wf r" "max_heap r"
    using mn q3 le_cong [of r q3] by (simp_all add: r_def min_wf_def max_wf_def)
  ultimately show ?thesis
    using fields items msets by (simp add: tq_inv_def r)
qed

theorem tq_remove_correct:
  assumes inv: "tq_inv q" and p: "p \<in> tq_items q"
  shows "\<exists>r. tq_remove q p = Some (r, p) \<and> tq_inv r \<and> tq_items r = tq_items q - {p} \<and>
    contents r = contents q \<and> cmp r = cmp q"
proof -
  define q1 where "q1 = q\<lparr>messageIdItems := (messageIdItems q)(messageId (mem q p) := None),
    sequenceNumberItems := (sequenceNumberItems q)(sequenceNumber (mem q p) := None)\<rparr>"
  have q1: "min_wf q1" "min_heap q1" "max_wf q1" "max_heap q1" "p \<in> set (orderedItems q1)" "mem q1 = mem q"
    using inv p le_cong [of q1 q] by (simp_all add: tq_inv_def min_wf_def max_wf_def q1_def)
  obtain q2 where q2: "heap_Remove tq_heap q1 (heapIndex (mem q1 p)) = Some (q2, p)" "min_wf q2" "min_heap q2"
      "mset (orderedItems q1) = add_mset p (mset (orderedItems q2))" "min_frame q1 q2"
    using min_heap_Remove [OF q1(1,2,5)] by auto
  have mx: "max_wf q2" "max_heap q2" using min_frame_max [OF q2(5) q1(3,4)] by auto
  have arrays: "maxHeap q2 = maxHeap q" "orderedItems q1 = orderedItems q"
    using q2(5) by (simp_all add: min_frame_def q1_def)
  have pm: "p \<in> set (maxHeap q2)"
    using p inv mset_eq_setD [of "maxHeap q" "orderedItems q"] by (simp add: arrays tq_inv_def)
  obtain q3 where q3: "heap_Remove mh_heap q2 (maxHeapIndex (mem q2 p)) = Some (q3, p)" "max_wf q3" "max_heap q3"
      "mset (maxHeap q2) = add_mset p (mset (maxHeap q3))" "max_frame q2 q3"
    using max_heap_Remove [OF mx pm] by auto
  define r where "r = q3\<lparr>byteCount := int64 (byteCount q3 - messageByteCount (mem q3 p))\<rparr>"
  have r: "tq_remove q p = Some (r, p)"
    using q2(1) q3(1) by (simp add: tq_remove_def r_def q1_def)
  have mn: "min_wf q3" "min_heap q3" using max_frame_min [OF q3(5) q2(2,3)] by auto
  have fields: "contents r = contents q" "cmp r = cmp q" "contents q3 = contents q"
    using q2(5) q3(5) by (simp_all add: min_frame_def max_frame_def r_def q1_def)
  have msets: "mset (orderedItems q) = add_mset p (mset (orderedItems r))" "mset (maxHeap r) = mset (orderedItems r)"
    using q2(4) q3(4,5) inv by (simp_all add: r_def arrays tq_inv_def max_frame_def)
  have items: "tq_items r = tq_items q - {p}"
    using set_remove1_mset [of "orderedItems q" "orderedItems r" p] msets(1) inv
    by (simp add: tq_inv_def min_wf_def)
  have "maps_ok r (tq_items q - {p})"
    by (rule maps_ok_remove [of q])
      (use inv p q2(5) q3(5) fields mem_fields_cong [OF fields(3)] in
        \<open>simp_all add: r_def q1_def tq_inv_def min_frame_def max_frame_def\<close>)
  moreover have "min_wf r" "min_heap r" "max_wf r" "max_heap r"
    using mn q3 le_cong [of r q3] by (simp_all add: r_def min_wf_def max_wf_def)
  ultimately show ?thesis
    using fields items msets r by (simp add: tq_inv_def)
qed

section \<open>Lookups, and the operations by key\<close>

lemma tq_inv_message: "tq_inv q \<Longrightarrow> messageIdItems q m = Some p \<longleftrightarrow> p \<in> tq_items q \<and> messageId (mem q p) = m"
  by (simp add: tq_inv_def maps_ok_def)

lemma tq_inv_sequence:
  "tq_inv q \<Longrightarrow> sequenceNumberItems q n = Some p \<longleftrightarrow> p \<in> tq_items q \<and> sequenceNumber (mem q p) = n"
  by (simp add: tq_inv_def maps_ok_def)

lemma tq_inv_bytes: "tq_inv q \<Longrightarrow> byteCount q = int64 (\<Sum>p\<in>tq_items q. messageByteCount (mem q p))"
  by (simp add: tq_inv_def maps_ok_def)

lemma tq_inv_distinct: "tq_inv q \<Longrightarrow> distinct (orderedItems q)"
  by (simp add: tq_inv_def min_wf_def)

lemma tq_inv_cmp: "tq_inv q \<Longrightarrow> cmp_ok (cmp q)"
  by (simp add: tq_inv_def min_wf_def)

text \<open>The queue without the item \<open>p\<close>, every other item as it was.\<close>

definition removed :: "'a tqueue \<Rightarrow> ptr \<Rightarrow> 'a tqueue \<Rightarrow> bool" where
  "removed q p r \<longleftrightarrow> tq_inv r \<and> tq_items r = tq_items q - {p} \<and> contents r = contents q \<and> cmp r = cmp q"

lemma RemoveByMessageId_Some:
  "tq_inv q \<Longrightarrow> messageIdItems q m = Some p \<Longrightarrow> \<exists>r. RemoveByMessageId q m = Some (r, Some p) \<and> removed q p r"
  using tq_remove_correct [of q p] tq_inv_message [of q m p] by (auto simp: RemoveByMessageId_def removed_def)

lemma RemoveByMessageId_None: "messageIdItems q m = None \<Longrightarrow> RemoveByMessageId q m = Some (q, None)"
  by (simp add: RemoveByMessageId_def)

lemma RemoveBySequenceNumber_Some:
  "tq_inv q \<Longrightarrow> sequenceNumberItems q n = Some p \<Longrightarrow>
   \<exists>r. RemoveBySequenceNumber q n = Some (r, Some p) \<and> removed q p r"
  using tq_remove_correct [of q p] tq_inv_sequence [of q n p]
  by (auto simp: RemoveBySequenceNumber_def removed_def)

lemma RemoveBySequenceNumber_None: "sequenceNumberItems q n = None \<Longrightarrow> RemoveBySequenceNumber q n = Some (q, None)"
  by (simp add: RemoveBySequenceNumber_def)

text \<open>In one form for clients: an item that was found is gone, otherwise nothing changes.\<close>

lemma RemoveByMessageId_cases:
  assumes "tq_inv q"
  obtains (missing) "RemoveByMessageId q m = Some (q, None)" "\<forall>p\<in>tq_items q. messageId (mem q p) \<noteq> m"
  | (found) p r where "RemoveByMessageId q m = Some (r, Some p)" "removed q p r" "p \<in> tq_items q"
      "messageId (mem q p) = m"
proof (cases "messageIdItems q m")
  case None
  then have "\<not> (\<exists>p. messageIdItems q m = Some p)" by simp
  then show ?thesis
    using missing RemoveByMessageId_None [OF None] unfolding tq_inv_message [OF assms] by blast
next
  case (Some p)
  then show ?thesis
    using found RemoveByMessageId_Some [OF assms Some] tq_inv_message [OF assms, of m p] by blast
qed

lemma RemoveBySequenceNumber_cases:
  assumes "tq_inv q"
  obtains (missing) "RemoveBySequenceNumber q n = Some (q, None)" "\<forall>p\<in>tq_items q. sequenceNumber (mem q p) \<noteq> n"
  | (found) p r where "RemoveBySequenceNumber q n = Some (r, Some p)" "removed q p r" "p \<in> tq_items q"
      "sequenceNumber (mem q p) = n"
proof (cases "sequenceNumberItems q n")
  case None
  then have "\<not> (\<exists>p. sequenceNumberItems q n = Some p)" by simp
  then show ?thesis
    using missing RemoveBySequenceNumber_None [OF None] unfolding tq_inv_sequence [OF assms] by blast
next
  case (Some p)
  then show ?thesis
    using found RemoveBySequenceNumber_Some [OF assms Some] tq_inv_sequence [OF assms, of n p] by blast
qed

lemma PeekFirst_None: "PeekFirst q = None \<longleftrightarrow> tq_items q = {}"
  by (simp add: PeekFirst_def)

lemma PeekFirst_in: "PeekFirst q = Some p \<Longrightarrow> p \<in> tq_items q"
  by (auto simp: PeekFirst_def split: if_splits)

lemma PeekFirst_least:
  assumes "tq_inv q" "PeekFirst q = Some p" "p' \<in> tq_items q"
  shows "cmp q (mem q p) (mem q p') \<le> 0"
proof -
  have "p = orderedItems q ! 0" using assms(2) by (auto simp: PeekFirst_def split: if_splits)
  then have "le_min q p p'"
    using minq.root_least [of q p'] assms by (simp add: tq_inv_def minq.is_heap_def)
  then show ?thesis using assms(1) by (simp add: le_min_def cmp_mem tq_inv_cmp)
qed

lemma PeekLast_None: "tq_inv q \<Longrightarrow> PeekLast q = None \<longleftrightarrow> tq_items q = {}"
  unfolding tq_inv_def PeekLast_def mh_PeekFirst_def
  by (metis length_0_conv mset_eq_length option.distinct(1) set_empty)

lemma PeekLast_in: "tq_inv q \<Longrightarrow> PeekLast q = Some p \<Longrightarrow> p \<in> tq_items q"
  unfolding tq_inv_def PeekLast_def mh_PeekFirst_def
  by (metis length_greater_0_conv mset_eq_setD nth_mem option.distinct(1) option.inject list.size(3))

lemma PeekLast_greatest:
  assumes "tq_inv q" "PeekLast q = Some p" "p' \<in> tq_items q"
  shows "cmp q (mem q p') (mem q p) \<le> 0"
proof -
  have "p = maxHeap q ! 0"
    using assms(2) by (auto simp: PeekLast_def mh_PeekFirst_def split: if_splits)
  moreover have "set (maxHeap q) = tq_items q"
    using assms(1) mset_eq_setD by (auto simp: tq_inv_def)
  ultimately have "le_max q p p'"
    using maxq.root_least [of q p'] assms by (simp add: tq_inv_def maxq.is_heap_def)
  then show ?thesis using assms(1) by (simp add: le_max_def le_min_def cmp_mem tq_inv_cmp)
qed

lemma heap_position: "tq_inv q \<Longrightarrow> orderedItems q \<noteq> [] \<Longrightarrow> heapIndex (mem q (orderedItems q ! 0)) = 0"
  by (simp add: tq_inv_def min_wf_def)

theorem RemoveFirst_correct:
  assumes inv: "tq_inv q" and ne: "tq_items q \<noteq> {}"
  shows "\<exists>p r. PeekFirst q = Some p \<and> RemoveFirst q = Some (r, Some p) \<and> removed q p r"
proof -
  define p where "p = orderedItems q ! 0"
  have p: "p \<in> set (orderedItems q)" "PeekFirst q = Some p" "heapIndex (mem q p) = 0"
    using ne heap_position [OF inv] by (auto simp: p_def PeekFirst_def)
  obtain q2 where q2: "heap_Remove tq_heap q 0 = Some (q2, p)" "min_wf q2" "min_heap q2"
      "mset (orderedItems q) = add_mset p (mset (orderedItems q2))" "min_frame q q2"
    using min_heap_Remove [of q p] p inv by (auto simp: tq_inv_def)
  have mx: "max_wf q2" "max_heap q2" using min_frame_max [OF q2(5)] inv by (auto simp: tq_inv_def)
  have pm: "p \<in> set (maxHeap q2)"
    using p inv q2(5) mset_eq_setD [of "maxHeap q" "orderedItems q"] by (simp add: min_frame_def tq_inv_def)
  obtain q3 where q3: "heap_Remove mh_heap q2 (maxHeapIndex (mem q2 p)) = Some (q3, p)" "max_wf q3" "max_heap q3"
      "mset (maxHeap q2) = add_mset p (mset (maxHeap q3))" "max_frame q2 q3"
    using max_heap_Remove [OF mx pm] by auto
  define r where "r = q3\<lparr>messageIdItems := (messageIdItems q3)(messageId (mem q3 p) := None),
    sequenceNumberItems := (sequenceNumberItems q3)(sequenceNumber (mem q3 p) := None),
    byteCount := int64 (byteCount q3 - messageByteCount (mem q3 p))\<rparr>"
  have r: "RemoveFirst q = Some (r, Some p)"
    using q2(1) q3(1) ne by (simp add: RemoveFirst_def r_def)
  have mn: "min_wf q3" "min_heap q3" using max_frame_min [OF q3(5) q2(2,3)] by auto
  have fields: "contents r = contents q" "cmp r = cmp q" "contents q3 = contents q"
    using q2(5) q3(5) by (simp_all add: min_frame_def max_frame_def r_def)
  have msets: "mset (orderedItems q) = add_mset p (mset (orderedItems r))" "mset (maxHeap r) = mset (orderedItems r)"
    using q2(4,5) q3(4,5) inv by (simp_all add: r_def tq_inv_def max_frame_def min_frame_def)
  have items: "tq_items r = tq_items q - {p}"
    using set_remove1_mset [of "orderedItems q" "orderedItems r" p] msets(1) inv
    by (simp add: tq_inv_def min_wf_def)
  have "maps_ok r (tq_items q - {p})"
    by (rule maps_ok_remove [of q])
      (use inv p q2(5) q3(5) fields mem_fields_cong [OF fields(3)] in
        \<open>simp_all add: r_def tq_inv_def min_frame_def max_frame_def\<close>)
  moreover have "min_wf r" "min_heap r" "max_wf r" "max_heap r"
    using mn q3 le_cong [of r q3] by (simp_all add: r_def min_wf_def max_wf_def)
  ultimately show ?thesis
    using fields items msets r p(2) by (simp add: tq_inv_def removed_def)
qed

lemma RemoveFirst_empty: "tq_items q = {} \<Longrightarrow> RemoveFirst q = Some (q, None)"
  by (simp add: RemoveFirst_def)

section \<open>Queues that are drained from the front\<close>

text \<open>
  What a client that drains a queue relies on: an empty queue answers nil, any other gives up a least
  item. \<open>drain\<close> calls \<open>RemoveFirst\<close> a number of times.
\<close>

primrec drain :: "('q \<Rightarrow> ('q \<times> 'p option) option) \<Rightarrow> nat \<Rightarrow> 'q \<Rightarrow> ('q \<times> 'p list) option" where
  "drain f 0 q = Some (q, [])"
| "drain f (Suc n) q = do {
     (q, item) \<leftarrow> f q;
     case item of None \<Rightarrow> Some (q, [])
     | Some p \<Rightarrow> do { (q, ps) \<leftarrow> drain f n q; Some (q, p # ps) }
   }"

locale drained_queue =
  fixes take_first :: "'q \<Rightarrow> ('q \<times> 'p option) option" and qinv :: "'q \<Rightarrow> bool"
    and view :: "'q \<Rightarrow> 'p set" and le :: "'q \<Rightarrow> 'p \<Rightarrow> 'p \<Rightarrow> bool"
  assumes first_law: "qinv q \<Longrightarrow> view q \<noteq> {} \<Longrightarrow> \<exists>r p. take_first q = Some (r, Some p) \<and> qinv r \<and>
      p \<in> view q \<and> view r = view q - {p} \<and> le r = le q \<and> (\<forall>p'\<in>view q. le q p p')"
    and view_finite: "finite (view q)"
begin

lemma drain_all:
  "qinv q \<Longrightarrow> n = card (view q) \<Longrightarrow> \<exists>r ps. drain take_first n q = Some (r, ps) \<and> qinv r \<and> view r = {} \<and>
     set ps = view q \<and> distinct ps \<and> sorted_wrt (le q) ps"
proof (induction n arbitrary: q)
  case 0
  then show ?case using view_finite [of q] by simp
next
  case (Suc n)
  then have "view q \<noteq> {}" by auto
  then obtain r p where r: "take_first q = Some (r, Some p)" "qinv r" "p \<in> view q" "view r = view q - {p}"
      "le r = le q" "\<forall>p'\<in>view q. le q p p'"
    using first_law Suc.prems(1) by blast
  moreover have "n = card (view r)" using Suc.prems(2) r(3,4) by simp
  ultimately obtain r' ps where "drain take_first n r = Some (r', ps)" "qinv r'" "view r' = {}"
      "set ps = view r" "distinct ps" "sorted_wrt (le q) ps"
    using Suc.IH [of r] by auto
  then show ?case using r by auto
qed

end

lemma removed_le: "removed q p r \<Longrightarrow> le_min r = le_min q"
  using le_cong [of r q] by (simp add: removed_def)

interpretation tqd: drained_queue RemoveFirst tq_inv tq_items le_min
proof unfold_locales
  fix q :: "'a tqueue"
  assume a: "tq_inv q" "tq_items q \<noteq> {}"
  then obtain p r where r: "PeekFirst q = Some p" "RemoveFirst q = Some (r, Some p)" "removed q p r"
    using RemoveFirst_correct by blast
  moreover have "\<forall>p'\<in>tq_items q. le_min q p p'"
    using PeekFirst_least [OF a(1) r(1)] a(1) by (simp add: le_min_def cmp_mem tq_inv_cmp)
  ultimately show "\<exists>r p. RemoveFirst q = Some (r, Some p) \<and> tq_inv r \<and> p \<in> tq_items q \<and>
      tq_items r = tq_items q - {p} \<and> le_min r = le_min q \<and> (\<forall>p'\<in>tq_items q. le_min q p p')"
    using removed_le [OF r(3)] PeekFirst_in by (auto simp: removed_def)
qed simp

section \<open>Writes to the store\<close>

text \<open>A client may write to items that are not queued, and to queued items in fields the order ignores.\<close>

lemma tq_inv_cong:
  assumes inv: "tq_inv q" and arrays: "r = q\<lparr>mem := m\<rparr>"
    and same: "\<And>p. p \<in> tq_items q \<Longrightarrow> messageId (m p) = messageId (mem q p) \<and>
      messageByteCount (m p) = messageByteCount (mem q p) \<and> sequenceNumber (m p) = sequenceNumber (mem q p) \<and>
      heapIndex (m p) = heapIndex (mem q p) \<and> maxHeapIndex (m p) = maxHeapIndex (mem q p)"
    and order: "\<And>p p'. p \<in> tq_items q \<Longrightarrow> p' \<in> tq_items q \<Longrightarrow> cmp q (m p) (m p') = cmp q (mem q p) (mem q p')"
  shows "tq_inv r"
proof -
  have ms: "set (maxHeap q) = tq_items q" using inv mset_eq_setD by (auto simp: tq_inv_def)
  have c: "cmp_ok (cmp q)" "cmp_ok (cmp r)" using inv arrays by (auto simp: tq_inv_def min_wf_def)
  have le: "le_min r p p' = le_min q p p'" if "p \<in> tq_items q" "p' \<in> tq_items q" for p p'
    using order [OF that] cmp_mem [OF c(1), of p p'] cmp_mem [OF c(2), of p p'] arrays by (simp add: le_min_def)
  have "min_wf r" "max_wf r"
    using inv same ms nth_mem unfolding tq_inv_def min_wf_def max_wf_def arrays by (simp, fastforce)+
  moreover have "min_heap r"
    using inv le unfolding tq_inv_def heap_upto_def arrays by (auto simp: arrays parent_def)
  moreover have "max_heap r"
    using inv le unfolding tq_inv_def heap_upto_def arrays by (auto simp: arrays parent_def le_max_def ms [symmetric])
  moreover have "maps_ok r (tq_items q)"
    using inv same unfolding tq_inv_def maps_ok_def arrays by (auto cong: sum.cong)
  ultimately show ?thesis using inv by (simp add: tq_inv_def arrays)
qed

lemma tq_inv_alloc: "tq_inv q \<Longrightarrow> p \<notin> tq_items q \<Longrightarrow> tq_inv (q\<lparr>mem := (mem q)(p := x)\<rparr>)"
  by (rule tq_inv_cong [of q, OF _ refl]) auto

section \<open>The order by sequence number\<close>

definition compareSequenceNumber :: "'a transferItem_scheme \<Rightarrow> 'a transferItem_scheme \<Rightarrow> int" where
  "compareSequenceNumber a b =
     (if sequenceNumber a < sequenceNumber b then -1 else if sequenceNumber b < sequenceNumber a then 1 else 0)"

lemma compareSequenceNumber_le: "compareSequenceNumber a b \<le> 0 \<longleftrightarrow> sequenceNumber a \<le> sequenceNumber b"
  by (auto simp: compareSequenceNumber_def)

lemma compareSequenceNumber_ok [simp]: "cmp_ok compareSequenceNumber"
  by (auto simp: cmp_ok_def compareSequenceNumber_def strip_def)

section \<open>Refinement: a finite map from message ids to items\<close>

definition tq_view :: "'a tqueue \<Rightarrow> Id \<Rightarrow> 'a transferItem_scheme option" where
  "tq_view q m = map_option (contents q) (messageIdItems q m)"

lemma tq_view_Add:
  assumes "tq_inv q" "p \<notin> tq_items q" "messageIdItems q (messageId (mem q p)) = None"
    "sequenceNumberItems q (sequenceNumber (mem q p)) = None"
  shows "tq_view (Add q p) = (tq_view q)(messageId (mem q p) \<mapsto> contents q p)"
proof
  fix m
  note A = Add_correct [OF assms]
  have f: "messageId (mem (Add q p) x) = messageId (mem q x)" for x
    using mem_fields_cong(1) A by blast
  show "tq_view (Add q p) m = ((tq_view q)(messageId (mem q p) \<mapsto> contents q p)) m"
  proof (cases "messageIdItems (Add q p) m")
    case None
    then have "m \<noteq> messageId (mem q p)" "messageIdItems q m = None"
      using tq_inv_message [of "Add q p" m] tq_inv_message [OF assms(1), of m] A f
      by (metis insertI1 option.distinct(1), metis insertI2 not_None_eq)
    then show ?thesis using None by (simp add: tq_view_def)
  next
    case (Some x)
    then have x: "x \<in> insert p (tq_items q)" "messageId (mem q x) = m"
      using tq_inv_message [of "Add q p" m x] A f by auto
    show ?thesis
    proof (cases "x = p")
      case True
      then show ?thesis using Some x A by (simp add: tq_view_def)
    next
      case False
      then have "messageIdItems q m = Some x" using x tq_inv_message [OF assms(1), of m x] by simp
      then show ?thesis using Some x A assms(3) by (auto simp: tq_view_def)
    qed
  qed
qed

lemma tq_view_removed:
  assumes "tq_inv q" "removed q p r" "p \<in> tq_items q"
  shows "tq_view r = (tq_view q)(messageId (mem q p) := None)"
proof
  fix m
  have f: "messageId (mem r x) = messageId (mem q x)" for x
    using mem_fields_cong(1) assms(2) unfolding removed_def by blast
  have *: "messageIdItems r m = Some x \<longleftrightarrow> messageIdItems q m = Some x \<and> x \<noteq> p" for x
    using tq_inv_message [OF assms(1), of m x] tq_inv_message [of r m x] assms(2) f by (auto simp: removed_def)
  have pm: "messageIdItems q (messageId (mem q p)) = Some p"
    using tq_inv_message [OF assms(1)] assms(3) by simp
  show "tq_view r m = ((tq_view q)(messageId (mem q p) := None)) m"
  proof (cases "messageIdItems q m")
    case None
    then have "messageIdItems r m = None" using * by (cases "messageIdItems r m") auto
    then show ?thesis using None by (simp add: tq_view_def)
  next
    case (Some x)
    then have "messageId (mem q x) = m" using tq_inv_message [OF assms(1)] by blast
    moreover have "messageIdItems r m = (if x = p then None else Some x)"
    proof (cases "messageIdItems r m")
      case None
      then show ?thesis using * [of x] Some by simp
    next
      case (Some y)
      then have "y = x" "y \<noteq> p" using * [of y] \<open>messageIdItems q m = Some x\<close> by simp_all
      then show ?thesis using Some by simp
    qed
    moreover have "contents r = contents q" using assms(2) by (simp add: removed_def)
    moreover have "x = p \<longleftrightarrow> m = messageId (mem q p)"
      using pm Some \<open>messageId (mem q x) = m\<close> by (metis option.inject)
    ultimately show ?thesis using Some by (simp add: tq_view_def)
  qed
qed

lemma Add_maps:
  "messageIdItems (Add q p) = (messageIdItems q)(messageId (mem q p) \<mapsto> p)"
  "sequenceNumberItems (Add q p) = (sequenceNumberItems q)(sequenceNumber (mem q p) \<mapsto> p)"
proof -
  define q1 where "q1 = q\<lparr>messageIdItems := (messageIdItems q)(messageId (mem q p) \<mapsto> p),
    sequenceNumberItems := (sequenceNumberItems q)(sequenceNumber (mem q p) \<mapsto> p)\<rparr>"
  define q2 where "q2 = heap_Push tq_heap q1 p"
  define q3 where "q3 = heap_Push mh_heap q2 p"
  have f: "min_frame q1 q2" "max_frame q2 q3"
    unfolding q2_def q3_def by (rule min_frame_Push max_frame_Push)+
  have "messageIdItems (Add q p) = messageIdItems q3" "sequenceNumberItems (Add q p) = sequenceNumberItems q3"
    by (simp_all add: Add_def Let_def q3_def q2_def q1_def)
  with f show "messageIdItems (Add q p) = (messageIdItems q)(messageId (mem q p) \<mapsto> p)"
    "sequenceNumberItems (Add q p) = (sequenceNumberItems q)(sequenceNumber (mem q p) \<mapsto> p)"
    by (simp_all add: min_frame_def max_frame_def q1_def)
qed

section \<open>Properties\<close>

text \<open>The example queue of the witnesses: three items, added out of order.\<close>

definition example_item :: "nat \<Rightarrow> transferItem" where
  "example_item n = \<lparr>messageId = replicate 16 (of_nat n), messageByteCount = int n, sequenceNumber = of_nat n,
     heapIndex = 0, maxHeapIndex = 0\<rparr>"

definition example_queue :: "unit tqueue" where
  "example_queue = Add (Add (newTransferQueue example_item compareSequenceNumber) 7) 5"

text \<open>
  C37: Adding an item whose message id and sequence number are new keeps the representation invariant
  (both heaps ordered, every item knowing its two positions, hash maps and byte count in step), never
  touches another item, and is insertion in the abstract map from message ids to items.
\<close>

theorem queue_add_refines_map_update:
  assumes "tq_inv q" "p \<notin> tq_items q" "GetByMessageId q (messageId (mem q p)) = None"
    "GetBySequenceNumber q (sequenceNumber (mem q p)) = None"
  shows "tq_inv (Add q p) \<and> tq_items (Add q p) = insert p (tq_items q) \<and>
    tq_view (Add q p) = (tq_view q)(messageId (mem q p) \<mapsto> contents q p) \<and>
    snd (QueueSize (Add q p)) = int64 (snd (QueueSize q) + messageByteCount (mem q p))"
proof -
  note A = Add_correct [OF assms(1,2)] tq_view_Add [OF assms(1,2)]
  have "mem (Add q p) x = mem (Add q p) x" for x ..
  then have "(\<Sum>x\<in>tq_items (Add q p). messageByteCount (mem (Add q p) x)) =
      messageByteCount (mem q p) + (\<Sum>x\<in>tq_items q. messageByteCount (mem q x))"
    using A assms mem_fields_cong(2) [of "Add q p" q] by (simp add: GetByMessageId_def GetBySequenceNumber_def)
  then show ?thesis
    using A assms tq_inv_bytes [of q] tq_inv_bytes [of "Add q p"]
    by (simp add: GetByMessageId_def GetBySequenceNumber_def QueueSize_def wrap_simps add.commute)
qed

lemma example_inv:
  "tq_inv example_queue" "tq_items example_queue = {5, 7}" "contents example_queue = example_item"
  "messageIdItems example_queue = [messageId (example_item 7) \<mapsto> 7, messageId (example_item 5) \<mapsto> 5]"
  "sequenceNumberItems example_queue = [7 \<mapsto> 7, 5 \<mapsto> 5]" "cmp example_queue = compareSequenceNumber"
proof -
  define q0 where "q0 = newTransferQueue example_item (compareSequenceNumber :: transferItem \<Rightarrow> _)"
  define q1 where "q1 = Add q0 7"
  have e: "example_queue = Add q1 5" by (simp add: example_queue_def q1_def q0_def)
  have q0: "tq_inv q0" "orderedItems q0 = []" "contents q0 = example_item" "mem q0 = example_item"
      "messageIdItems q0 = Map.empty" "sequenceNumberItems q0 = Map.empty" "cmp q0 = compareSequenceNumber"
    using tq_inv_new [OF compareSequenceNumber_ok] by (simp_all add: q0_def contents_def strip_def example_item_def fun_eq_iff)
  have q1: "tq_inv q1" "tq_items q1 = {7}" "contents q1 = example_item" "cmp q1 = compareSequenceNumber"
    using Add_correct [of q0 7] q0 by (simp_all add: q1_def)
  have f: "messageId (mem q1 5) = replicate 16 5" "sequenceNumber (mem q1 5) = 5"
    using q1(3) contents_fields(1,3) [of q1 5] by (simp_all add: example_item_def)
  have m1: "messageIdItems q1 = [replicate 16 7 \<mapsto> 7]" "sequenceNumberItems q1 = [7 \<mapsto> 7]"
    by (simp_all add: q1_def Add_maps q0) (simp_all add: example_item_def)
  have "replicate 16 (5::byte) \<noteq> replicate 16 7" by (simp add: replicate_eqI)
  then show "tq_inv example_queue" "tq_items example_queue = {5, 7}" "contents example_queue = example_item"
    "cmp example_queue = compareSequenceNumber"
    "messageIdItems example_queue = [messageId (example_item 7) \<mapsto> 7, messageId (example_item 5) \<mapsto> 5]"
    "sequenceNumberItems example_queue = [7 \<mapsto> 7, 5 \<mapsto> 5]"
    unfolding e using Add_correct [OF q1(1), of 5] q1 f m1
    by (simp_all add: Add_maps) (simp_all add: example_item_def)
qed

theorem queue_add_witness:
  "tq_inv (Add example_queue 6) \<and> tq_items (Add example_queue 6) = insert 6 {5, 7}"
proof -
  have "GetByMessageId example_queue (messageId (mem example_queue 6)) = None" by code_simp
  moreover have "GetBySequenceNumber example_queue (sequenceNumber (mem example_queue 6)) = None" by code_simp
  ultimately show ?thesis
    using queue_add_refines_map_update [of example_queue 6] example_inv by simp
qed

text \<open>
  C38: Removing by message id never panics (no heap index out of range, no "Heap invariant broken"), hands
  back the item stored under the id, keeps the invariant, leaves all other items alone, and is deletion in
  the abstract map; an unknown id returns nil and changes nothing.
\<close>

theorem queue_remove_refines_map_delete:
  assumes "tq_inv q"
  shows "\<exists>r. RemoveByMessageId q m = Some (r, GetByMessageId q m) \<and> tq_inv r \<and> tq_view r = (tq_view q)(m := None) \<and>
    tq_items r = {p \<in> tq_items q. messageId (mem q p) \<noteq> m}"
proof (cases "messageIdItems q m")
  case None
  have "messageId (mem q p) \<noteq> m" if "p \<in> tq_items q" for p
    using tq_inv_message [OF assms, of m p] that None by auto
  then show ?thesis
    using RemoveByMessageId_None [OF None] None assms
    by (auto simp: GetByMessageId_def tq_view_def fun_eq_iff)
next
  case (Some p)
  have p: "p \<in> tq_items q" "messageId (mem q p) = m" using tq_inv_message [OF assms, of m p] Some by blast+
  have u: "p' = p" if "p' \<in> tq_items q" "messageId (mem q p') = m" for p'
  proof -
    have "messageIdItems q m = Some p'" using tq_inv_message [OF assms, of m p'] that by blast
    then show ?thesis using Some by simp
  qed
  obtain r where r: "RemoveByMessageId q m = Some (r, Some p)" "removed q p r"
    using RemoveByMessageId_Some [OF assms Some] by blast
  moreover have "tq_items q - {p} = {p \<in> tq_items q. messageId (mem q p) \<noteq> m}" using p u by blast
  moreover have "tq_view r = (tq_view q)(m := None)" using tq_view_removed [OF assms r(2) p(1)] p(2) by simp
  moreover have "GetByMessageId q m = Some p" using Some by (simp add: GetByMessageId_def)
  ultimately show ?thesis unfolding removed_def by metis
qed

theorem queue_remove_witness:
  "\<exists>r. RemoveByMessageId example_queue (replicate 16 7) = Some (r, Some 7) \<and> tq_items r = {5}"
proof -
  have "GetByMessageId example_queue (replicate 16 7) = Some 7" by code_simp
  moreover have "messageId (mem example_queue 7) = replicate 16 7" "messageId (mem example_queue 5) \<noteq> replicate 16 7"
    by code_simp+
  then have "{p \<in> {5, 7}. messageId (mem example_queue p) \<noteq> replicate 16 7} = {5::ptr}" by auto
  ultimately show ?thesis
    using queue_remove_refines_map_delete [of example_queue "replicate 16 7"] example_inv(1,2) by auto
qed

text \<open>
  Emptying a queue by \<open>RemoveFirst\<close> never panics and delivers every queued item exactly once, in the
  order of the comparison function; the queue is empty with byte count 0 afterwards.
\<close>

theorem queue_drain_sorted:
  assumes "tq_inv q"
  shows "\<exists>r ps. drain RemoveFirst (fst (QueueSize q)) q = Some (r, ps) \<and> tq_inv r \<and> QueueSize r = (0, 0) \<and>
    mset ps = mset (orderedItems q) \<and> sorted_wrt (\<lambda>p p'. cmp q (mem q p) (mem q p') \<le> 0) ps"
proof -
  have "fst (QueueSize q) = card (tq_items q)"
    using tq_inv_distinct [OF assms] by (simp add: QueueSize_def distinct_card)
  then obtain r ps where r: "drain RemoveFirst (fst (QueueSize q)) q = Some (r, ps)" "tq_inv r" "tq_items r = {}"
      "set ps = tq_items q" "distinct ps" "sorted_wrt (le_min q) ps"
    using tqd.drain_all [OF assms] by metis
  moreover have "le_min q = (\<lambda>p p'. cmp q (mem q p) (mem q p') \<le> 0)"
    using cmp_mem [OF tq_inv_cmp [OF assms]] by (simp add: le_min_def fun_eq_iff)
  moreover have "mset ps = mset (orderedItems q)"
    using r(4,5) tq_inv_distinct [OF assms] set_eq_iff_mset_eq_distinct by blast
  ultimately show ?thesis using tq_inv_bytes [OF r(2)] by (auto simp: QueueSize_def wrap_simps)
qed

theorem queue_drain_witness: "\<exists>r. drain RemoveFirst 2 example_queue = Some (r, [5, 7]) \<and> QueueSize r = (0, 0)"
proof -
  have "fst (QueueSize example_queue) = 2" by code_simp
  then obtain r ps where r: "drain RemoveFirst 2 example_queue = Some (r, ps)" "QueueSize r = (0, 0)"
    using queue_drain_sorted [OF example_inv(1)] by auto
  moreover have "map_option snd (drain RemoveFirst 2 example_queue) = Some [5, 7]" by code_simp
  ultimately show ?thesis by simp
qed

text \<open>
  The two peeks: \<open>PeekFirst\<close> is a least and \<open>PeekLast\<close> a greatest queued item, and both are nil
  exactly when the queue is empty. The \<open>PeekFirst\<close> item is the one \<open>RemoveFirst\<close> takes.
\<close>

theorem queue_peeks_extremal:
  assumes "tq_inv q"
  shows "(case (PeekFirst q, PeekLast q) of
      (Some a, Some b) \<Rightarrow> a \<in> tq_items q \<and> b \<in> tq_items q \<and>
        (\<forall>p\<in>tq_items q. cmp q (mem q a) (mem q p) \<le> 0 \<and> cmp q (mem q p) (mem q b) \<le> 0) \<and>
        map_option snd (RemoveFirst q) = Some (Some a)
    | (None, None) \<Rightarrow> tq_items q = {}
    | _ \<Rightarrow> False)"
proof (cases "tq_items q = {}")
  case True
  then have "PeekFirst q = None" "PeekLast q = None" using PeekFirst_None PeekLast_None [OF assms] by auto
  then show ?thesis using True by simp
next
  case False
  then obtain a r b where "PeekFirst q = Some a" "RemoveFirst q = Some (r, Some a)" "PeekLast q = Some b"
    using RemoveFirst_correct [OF assms] PeekLast_None [OF assms] by (metis option.exhaust)
  then show ?thesis
    using PeekFirst_in PeekFirst_least [OF assms] PeekLast_in [OF assms] PeekLast_greatest [OF assms] by simp
qed

theorem queue_peeks_witness:
  "compareSequenceNumber (mem example_queue 5) (mem example_queue 7) \<le> 0 \<and> PeekFirst example_queue = Some 5"
proof -
  have "PeekFirst example_queue = Some 5" "PeekLast example_queue = Some 7" by code_simp+
  then show ?thesis using queue_peeks_extremal [OF example_inv(1)] by (simp add: example_inv)
qed

end
