(* ===== verification/Connect_Util.thy ===== *)
theory Connect_Util
  imports Connect_Prelude "HOL-Library.Signed_Division"
begin

text \<open>
  The small coordination types of util.go and the wake-up schedule: \<open>Monitor\<close>, \<open>CallbackList\<close>,
  \<open>IdleCondition\<close>, \<open>MinTime\<close>, \<open>WakeupTime\<close>. Each method body runs under the mutex of its object, so a
  method is one step and an interleaving of goroutines is a list of steps.

  The main facts: a callback list is a map from the ids it handed out to callbacks, in the order of
  registration; an idle condition closes only when nothing was opened since the checkpoint and nothing is
  open, and stays closed; the wake-up time is the next multiple of the epoch.
\<close>

section \<open>Monitor\<close>

text \<open>The channels of a monitor are numbered; all those before the current one are closed.\<close>

record Monitor =
  notify :: nat

definition NewMonitor :: Monitor where
  "NewMonitor = \<lparr>notify = 0\<rparr>"

definition NotifyChannel :: "Monitor \<Rightarrow> nat" where
  "NotifyChannel m = notify m"

definition NotifyAll :: "Monitor \<Rightarrow> Monitor" where
  "NotifyAll m = m\<lparr>notify := notify m + 1\<rparr>"

definition channelClosed :: "Monitor \<Rightarrow> nat \<Rightarrow> bool" where
  "channelClosed m c = (c < notify m)"

section \<open>CallbackList\<close>

record 'c CallbackList =
  callbacks :: "'c list"
  callbackIds :: "int list"
  nextCallbackId :: int

definition NewCallbackList :: "'c CallbackList" where
  "NewCallbackList = \<lparr>callbacks = [], callbackIds = [], nextCallbackId = 0\<rparr>"

definition CallbackList_Get :: "'c CallbackList \<Rightarrow> 'c list" where
  "CallbackList_Get l = callbacks l"

definition CallbackList_Add :: "'c CallbackList \<Rightarrow> 'c \<Rightarrow> 'c CallbackList \<times> int" where
  "CallbackList_Add l cb =
     (let i = nextCallbackId l; l = l\<lparr>nextCallbackId := int64 (nextCallbackId l + 1)\<rparr>;
          l = l\<lparr>callbacks := callbacks l @ [cb]\<rparr>
      in (l\<lparr>callbackIds := callbackIds l @ [i]\<rparr>, i))"

text \<open>\<open>slices.BinarySearch\<close> of the standard library: the first position not below the target.\<close>

function binarySearch :: "int list \<Rightarrow> int \<Rightarrow> nat \<Rightarrow> nat \<Rightarrow> nat" where
  "binarySearch xs t i j =
     (if i < j then let h = (i + j) div 2 in
        if xs ! h < t then binarySearch xs t (h + 1) j else binarySearch xs t i h
      else i)"
  by pat_completeness auto
termination by (relation "measure (\<lambda>(xs, t, i, j). j - i)") auto

declare binarySearch.simps [simp del]

definition CallbackList_Remove :: "'c CallbackList \<Rightarrow> int \<Rightarrow> 'c CallbackList" where
  "CallbackList_Remove l callbackId =
     (let i = binarySearch (callbackIds l) callbackId 0 (length (callbackIds l)) in
      if \<not> (i < length (callbackIds l) \<and> callbackIds l ! i = callbackId) then l
      else l\<lparr>callbacks := take i (callbacks l) @ drop (i + 1) (callbacks l),
             callbackIds := take i (callbackIds l) @ drop (i + 1) (callbackIds l)\<rparr>)"

definition callbacks_ok :: "'c CallbackList \<Rightarrow> bool" where
  "callbacks_ok l \<longleftrightarrow> length (callbacks l) = length (callbackIds l) \<and> sorted_wrt (<) (callbackIds l) \<and>
     (\<forall>i\<in>set (callbackIds l). 0 \<le> i \<and> i < nextCallbackId l) \<and> 0 \<le> nextCallbackId l"

text \<open>What a client sees: the registered callbacks by id.\<close>

definition callback_map :: "'c CallbackList \<Rightarrow> int \<Rightarrow> 'c option" where
  "callback_map l = map_of (zip (callbackIds l) (callbacks l))"

lemma binarySearch_split:
  assumes "i \<le> j" "j \<le> length xs" "sorted_wrt (<) xs" "\<forall>k<i. xs ! k < t" "\<forall>k. j \<le> k \<and> k < length xs \<longrightarrow> t \<le> xs ! k"
  shows "binarySearch xs t i j \<le> length xs \<and> (\<forall>k<binarySearch xs t i j. xs ! k < t) \<and>
    (\<forall>k. binarySearch xs t i j \<le> k \<and> k < length xs \<longrightarrow> t \<le> xs ! k)"
  using assms
proof (induction xs t i j rule: binarySearch.induct)
  case (1 xs t i j)
  show ?case
  proof (cases "i < j")
    case False
    then show ?thesis using "1.prems" by (simp add: binarySearch.simps)
  next
    case True
    define h where "h = (i + j) div 2"
    have h: "i \<le> h" "h < j" using True by (auto simp: h_def)
    have mono: "xs ! a \<le> xs ! b" if "a \<le> b" "b < length xs" for a b
      using sorted_wrt_nth_less [OF "1.prems"(3), of a b] that by (cases "a = b") auto
    show ?thesis
    proof (cases "xs ! h < t")
      case low: True
      have step: "binarySearch xs t i j = binarySearch xs t (h + 1) j"
        using True low by (subst binarySearch.simps) (simp add: h_def)
      have "\<forall>k<h + 1. xs ! k < t"
      proof (intro allI impI)
        fix k assume "k < h + 1"
        then show "xs ! k < t" using low mono [of k h] h "1.prems"(2) by simp
      qed
      moreover have "h + 1 \<le> j" using h by simp
      ultimately show ?thesis
        unfolding step using "1.IH"(1) [OF True h_def low _ "1.prems"(2,3) _ "1.prems"(5)] by blast
    next
      case high: False
      have step: "binarySearch xs t i j = binarySearch xs t i h"
        using True high by (subst binarySearch.simps) (simp add: h_def)
      have "\<forall>k. h \<le> k \<and> k < length xs \<longrightarrow> t \<le> xs ! k"
      proof (intro allI impI)
        fix k assume "h \<le> k \<and> k < length xs"
        then show "t \<le> xs ! k" using high mono [of h k] by simp
      qed
      moreover have "h \<le> length xs" using h "1.prems"(2) by simp
      ultimately show ?thesis
        unfolding step using "1.IH"(2) [OF True h_def high h(1) _ "1.prems"(3,4)] by blast
    qed
  qed
qed

text \<open>On an ascending list the search finds the position of the target, or that there is none.\<close>

lemma binarySearch_found:
  assumes "sorted_wrt (<) xs"
  shows "let i = binarySearch xs t 0 (length xs) in
    if t \<in> set xs then i < length xs \<and> xs ! i = t else \<not> (i < length xs \<and> xs ! i = t)"
proof -
  define i where "i = binarySearch xs t 0 (length xs)"
  have i: "i \<le> length xs" "\<forall>k<i. xs ! k < t" "\<forall>k. i \<le> k \<and> k < length xs \<longrightarrow> t \<le> xs ! k"
    using binarySearch_split [of 0 "length xs" xs t] assms by (auto simp: i_def)
  show ?thesis
  proof (cases "t \<in> set xs")
    case True
    then obtain k where k: "k < length xs" "xs ! k = t" by (auto simp: in_set_conv_nth)
    then have "i \<le> k" using i(2) by (meson not_less less_irrefl)
    then have "xs ! i \<le> t" using sorted_wrt_nth_less [OF assms, of i k] k by (cases "i = k") auto
    then show ?thesis using True i(3) k \<open>i \<le> k\<close> by (auto simp: i_def [symmetric] Let_def intro: antisym)
  qed (auto simp: i_def [symmetric] Let_def dest: nth_mem)
qed

section \<open>IdleCondition\<close>

record IdleCondition =
  modId :: u64
  updateOpenCount :: int
  closed :: bool

definition NewIdleCondition :: IdleCondition where
  "NewIdleCondition = \<lparr>modId = 0, updateOpenCount = 0, closed = False\<rparr>"

definition Checkpoint :: "IdleCondition \<Rightarrow> u64" where
  "Checkpoint c = modId c"

definition Idle_Close :: "IdleCondition \<Rightarrow> u64 \<Rightarrow> IdleCondition \<times> bool" where
  "Idle_Close c checkpointId =
     (if modId c \<noteq> checkpointId then (c, False)
      else if 0 < updateOpenCount c then (c, False)
      else (c\<lparr>closed := True\<rparr>, True))"

text \<open>\<open>WaitForClose\<close> blocks while an update is open: \<open>None\<close> is "not enabled".\<close>

definition WaitForClose :: "IdleCondition \<Rightarrow> (IdleCondition \<times> bool) option" where
  "WaitForClose c = (if 0 < updateOpenCount c then None else Some (c\<lparr>closed := True\<rparr>, True))"

definition UpdateOpen :: "IdleCondition \<Rightarrow> IdleCondition \<times> bool" where
  "UpdateOpen c = (if closed c then (c, False)
     else (c\<lparr>modId := modId c + 1, updateOpenCount := updateOpenCount c + 1\<rparr>, True))"

definition UpdateClose :: "IdleCondition \<Rightarrow> IdleCondition" where
  "UpdateClose c = c\<lparr>updateOpenCount := updateOpenCount c - 1\<rparr>"

text \<open>The calls that other goroutines make between two looks of the owner; the list holds the opens that succeeded.\<close>

datatype idle_call = OpenCall | CloseCall

primrec idle_calls :: "idle_call list \<Rightarrow> IdleCondition \<Rightarrow> IdleCondition \<times> nat" where
  "idle_calls [] c = (c, 0)"
| "idle_calls (x # xs) c = (case x of
     OpenCall \<Rightarrow> (let (c, success) = UpdateOpen c; (c, n) = idle_calls xs c in (c, if success then n + 1 else n))
   | CloseCall \<Rightarrow> idle_calls xs (UpdateClose c))"

lemma idle_calls_open:
  "\<not> closed c \<Longrightarrow> idle_calls xs c = (d, n) \<Longrightarrow> \<not> closed d \<and> modId d = modId c + of_nat n \<and> n \<le> length xs"
proof (induction xs arbitrary: c n)
  case (Cons x xs)
  show ?case
  proof (cases x)
    case OpenCall
    define c1 where "c1 = c\<lparr>modId := modId c + 1, updateOpenCount := updateOpenCount c + 1\<rparr>"
    obtain d1 n1 where r: "idle_calls xs c1 = (d1, n1)" by force
    then have "d = d1" "n = Suc n1" using Cons.prems OpenCall by (simp_all add: UpdateOpen_def c1_def [symmetric])
    then show ?thesis using Cons.IH [of c1 n1] r Cons.prems(1) by (simp add: c1_def)
  next
    case CloseCall
    have "\<not> closed (UpdateClose c) \<and> modId (UpdateClose c) = modId c" using Cons.prems by (simp add: UpdateClose_def)
    then show ?thesis using Cons.IH [of "UpdateClose c" n] Cons.prems CloseCall by auto
  qed
qed simp

lemma idle_calls_closed: "closed c \<Longrightarrow> idle_calls xs c = (d, n) \<Longrightarrow> closed d \<and> n = 0 \<and> modId d = modId c"
proof (induction xs arbitrary: c n)
  case (Cons x xs)
  have "closed (UpdateClose c) \<and> modId (UpdateClose c) = modId c" using Cons.prems by (simp add: UpdateClose_def)
  then show ?case
    using Cons.IH [of "UpdateClose c" n] Cons.IH [of c] Cons.prems
    by (auto simp: UpdateOpen_def split: idle_call.splits prod.splits)
qed simp

section \<open>Times\<close>

definition MinTime :: "time \<Rightarrow> time list \<Rightarrow> time" where
  "MinTime a bs = fold (\<lambda>b m. if b < m then b else m) bs a"

text \<open>Go's \<open>%\<close> has the sign of the dividend.\<close>

definition WakeupTime :: "time \<Rightarrow> duration \<Rightarrow> time" where
  "WakeupTime t epoch = (let r = t smod epoch in if r = 0 then t else t + (epoch - r))"

lemma MinTime_Min: "MinTime a bs = Min (set (a # bs))"
proof -
  have "fold (\<lambda>b m. if b < m then b else m) bs a = fold min bs a"
    by (rule fold_cong) (auto simp: fun_eq_iff min_def)
  then show ?thesis by (simp only: MinTime_def Min.set_eq_fold)
qed

lemma callbacks_ok_Add:
  assumes ok: "callbacks_ok l" and small: "nextCallbackId l < 2 ^ 63 - 1" and a: "CallbackList_Add l cb = (r, i)"
  shows "callbacks_ok r \<and> i = nextCallbackId l \<and> callback_map l i = None \<and> callback_map r = (callback_map l)(i \<mapsto> cb)"
proof -
  have n: "int64 (nextCallbackId l + 1) = nextCallbackId l + 1"
    using ok small by (simp add: int64_def callbacks_ok_def)
  have r: "r = l\<lparr>callbacks := callbacks l @ [cb], callbackIds := callbackIds l @ [i], nextCallbackId := nextCallbackId l + 1\<rparr>"
    "i = nextCallbackId l"
    using a by (auto simp: CallbackList_Add_def Let_def n)
  have fresh: "i \<notin> set (callbackIds l)" using ok r(2) by (auto simp: callbacks_ok_def)
  have len: "length (callbackIds l) = length (callbacks l)" using ok by (simp add: callbacks_ok_def)
  have dom: "map_of (zip (callbackIds l) (callbacks l)) i = None"
    using fresh len by simp
  moreover have "callback_map r = (callback_map l)(i \<mapsto> cb)"
  proof -
    have "zip (callbackIds r) (callbacks r) = zip (callbackIds l) (callbacks l) @ [(i, cb)]" using len r by simp
    then show ?thesis using dom by (auto simp: callback_map_def map_add_def fun_eq_iff split: option.splits)
  qed
  ultimately show ?thesis using ok r len by (auto simp: callbacks_ok_def sorted_wrt_append callback_map_def)
qed

lemma map_of_zip_delete:
  assumes "length ks = length vs" "distinct ks" "i < length ks"
  shows "map_of (zip (take i ks @ drop (i + 1) ks) (take i vs @ drop (i + 1) vs)) = (map_of (zip ks vs))(ks ! i := None)"
  using assms
proof (induction ks vs arbitrary: i rule: list_induct2)
  case (Cons k ks v vs)
  show ?case
  proof (cases i)
    case 0
    then show ?thesis using Cons.prems Cons.hyps by (auto simp: fun_eq_iff)
  next
    case (Suc j)
    then have "ks ! j \<noteq> k" using Cons.prems by auto
    then show ?thesis using Suc Cons.IH [of j] Cons.prems by (auto simp: fun_upd_twist)
  qed
qed simp

lemma sorted_delete:
  assumes "sorted_wrt (<) (xs :: int list)"
  shows "sorted_wrt (<) (take i xs @ drop (i + 1) xs)"
proof -
  have "sorted_wrt (<) (take i xs @ drop i xs)" using assms by simp
  moreover have "drop (i + 1) xs = tl (drop i xs)" by (simp add: drop_Suc tl_drop)
  ultimately show ?thesis by (cases "drop i xs") (auto simp: sorted_wrt_append)
qed

lemma callbacks_ok_Remove:
  assumes ok: "callbacks_ok l"
  shows "callbacks_ok (CallbackList_Remove l i) \<and> callback_map (CallbackList_Remove l i) = (callback_map l)(i := None)"
proof -
  define k where "k = binarySearch (callbackIds l) i 0 (length (callbackIds l))"
  have s: "sorted_wrt (<) (callbackIds l)" "length (callbackIds l) = length (callbacks l)"
    using ok by (simp_all add: callbacks_ok_def)
  have d: "distinct (callbackIds l)" using s(1) by (simp add: strict_sorted_iff)
  show ?thesis
  proof (cases "i \<in> set (callbackIds l)")
    case True
    then have k: "k < length (callbackIds l)" "callbackIds l ! k = i"
      using binarySearch_found [OF s(1), of i] by (simp_all add: k_def Let_def)
    define r where "r = CallbackList_Remove l i"
    have r: "callbacks r = take k (callbacks l) @ drop (k + 1) (callbacks l)"
      "callbackIds r = take k (callbackIds l) @ drop (k + 1) (callbackIds l)" "nextCallbackId r = nextCallbackId l"
      using k by (simp_all add: r_def CallbackList_Remove_def k_def [symmetric] Let_def)
    have "callback_map r = (callback_map l)(i := None)"
      unfolding callback_map_def r using map_of_zip_delete [OF s(2) d k(1)] k(2) by simp
    moreover have "callbacks_ok r"
      using ok sorted_delete [OF s(1), of k] s(2)
      by (auto simp: callbacks_ok_def r dest: in_set_takeD in_set_dropD)
    ultimately show ?thesis by (simp add: r_def)
  next
    case False
    then have "CallbackList_Remove l i = l"
      using binarySearch_found [OF s(1), of i] by (auto simp: CallbackList_Remove_def Let_def)
    moreover have "callback_map l i = None" using False s(2) by (simp add: callback_map_def)
    ultimately show ?thesis using ok by auto
  qed
qed

lemma WakeupTime_next:
  assumes "0 \<le> t" "0 < epoch"
  shows "t \<le> WakeupTime t epoch \<and> WakeupTime t epoch < t + epoch \<and> epoch dvd WakeupTime t epoch"
proof -
  have r: "t smod epoch = t mod epoch"
    using assms by (cases "t = 0") (simp_all add: signed_modulo_int_def signed_divide_int_def minus_div_mult_eq_mod)
  have d: "epoch dvd t - t mod epoch" by (rule dvd_minus_mod)
  have m: "0 \<le> t mod epoch" "t mod epoch < epoch" using assms by simp_all
  show ?thesis
  proof (cases "t mod epoch = 0")
    case True
    then show ?thesis using assms by (simp add: WakeupTime_def r dvd_eq_mod_eq_0)
  next
    case False
    then have w: "WakeupTime t epoch = t - t mod epoch + epoch" by (simp add: WakeupTime_def r Let_def)
    have "epoch dvd WakeupTime t epoch" unfolding w using d by (rule dvd_add) simp
    then show ?thesis using w m False by linarith
  qed
qed

section \<open>Properties\<close>

text \<open>
  A callback list is a map from handed out ids to callbacks: \<open>Add\<close> returns a fresh id and registers
  the callback under it, \<open>Remove\<close> (a binary search over the parallel array of ids) unregisters exactly
  that one, and both keep the two arrays parallel and the ids ascending.
\<close>

theorem callback_list_is_map:
  assumes "callbacks_ok l" "nextCallbackId l < 2 ^ 63 - 1"
  shows "(case CallbackList_Add l cb of (r, i) \<Rightarrow>
      callbacks_ok r \<and> callback_map l i = None \<and> callback_map r = (callback_map l)(i \<mapsto> cb)) \<and>
    callbacks_ok (CallbackList_Remove l j) \<and> callback_map (CallbackList_Remove l j) = (callback_map l)(j := None)"
  using callbacks_ok_Add [OF assms, of cb] callbacks_ok_Remove [OF assms(1), of j] by (auto split: prod.splits)

theorem callback_list_witness:
  "callback_map (CallbackList_Remove (fst (CallbackList_Add (fst (CallbackList_Add NewCallbackList (10::nat))) 20)) 0)
    = [1 \<mapsto> 20]"
proof -
  define l where "l = fst (CallbackList_Add NewCallbackList (10::nat))"
  have l: "callbacks_ok l" "nextCallbackId l = 1" "callback_map l = [0 \<mapsto> 10]"
    by (auto simp: l_def CallbackList_Add_def NewCallbackList_def callbacks_ok_def callback_map_def int64_def)
  then obtain r where r: "CallbackList_Add l 20 = (r, 1)" "callbacks_ok r" "nextCallbackId r = 2"
      "callback_map r = [0 \<mapsto> 10, 1 \<mapsto> 20]"
    using callback_list_is_map [OF l(1), of 20] by (auto simp: CallbackList_Add_def int64_def Let_def)
  then have "callback_map (CallbackList_Remove r 0) = [1 \<mapsto> 20]"
    using callback_list_is_map [OF r(2), of 0 0] by (auto simp: fun_eq_iff)
  then show ?thesis using r(1) by (simp add: l_def)
qed

text \<open>
  C36: An idle condition closes for its owner only when no other goroutine opened an update since the
  checkpoint and none is still open; once closed no later update can open, whatever the interleaving. (The
  modification count has 64 bits: fewer than \<open>2 ^ 64\<close> calls happen in between.)
\<close>

theorem idle_close_exclusive:
  assumes "\<not> closed c" "idle_calls xs c = (d, opened)" "length xs < 2 ^ 64" "Idle_Close d (Checkpoint c) = (e, True)"
  shows "opened = 0 \<and> updateOpenCount d \<le> 0 \<and> closed e \<and> snd (idle_calls ys e) = 0 \<and> fst (UpdateOpen e) = e"
proof -
  have d: "modId d = modId c + of_nat opened" "opened \<le> length xs"
    using idle_calls_open [OF assms(1,2)] by auto
  have e: "modId d = modId c" "updateOpenCount d \<le> 0" "closed e"
    using assms(4) by (auto simp: Idle_Close_def Checkpoint_def split: if_splits)
  have "(of_nat opened :: u64) = 0" using d(1) e(1) by simp
  then have "2 ^ 64 dvd opened" by (simp add: word_of_nat_eq_0_iff)
  then have "opened = 0 \<or> 2 ^ 64 \<le> opened" using dvd_imp_le by blast
  then have "opened = 0" using d(2) assms(3) by linarith
  moreover have "snd (idle_calls ys e) = 0"
    using idle_calls_closed [OF e(3), of ys] by (cases "idle_calls ys e") auto
  ultimately show ?thesis using e by (simp add: UpdateOpen_def)
qed

theorem idle_close_witness:
  "snd (idle_calls [OpenCall, CloseCall] (fst (Idle_Close NewIdleCondition (Checkpoint NewIdleCondition)))) = 0"
proof -
  have "idle_calls [] NewIdleCondition = (NewIdleCondition, 0)" "\<not> closed NewIdleCondition"
    by (simp_all add: NewIdleCondition_def)
  moreover have "Idle_Close NewIdleCondition (Checkpoint NewIdleCondition) = (NewIdleCondition\<lparr>closed := True\<rparr>, True)"
    by (simp add: Idle_Close_def Checkpoint_def NewIdleCondition_def)
  moreover have "length ([] :: idle_call list) < 2 ^ 64" by simp
  ultimately show ?thesis
    using idle_close_exclusive [of NewIdleCondition "[]" _ _ _ "[OpenCall, CloseCall]"] by (metis fst_conv)
qed

text \<open>
  The wake-up time is the first multiple of the epoch at or after the requested time (for times from
  the Unix epoch on), so that all pings scheduled within one epoch wake the radio together.
\<close>

theorem wakeup_aligned:
  assumes "0 \<le> t" "0 < epoch"
  shows "epoch dvd WakeupTime t epoch \<and> t \<le> WakeupTime t epoch \<and> WakeupTime t epoch - t < epoch \<and>
    WakeupTime (WakeupTime t epoch) epoch = WakeupTime t epoch"
proof -
  note w = WakeupTime_next [OF assms]
  then have "WakeupTime t epoch smod epoch = 0"
    using assms by (simp add: signed_modulo_int_def signed_divide_int_def)
  then show ?thesis using w by (simp add: WakeupTime_def [of "WakeupTime t epoch"])
qed

theorem wakeup_witness: "WakeupTime 17 10 = 20 \<and> (10::int) dvd WakeupTime 17 10"
  using wakeup_aligned [of 17 10] by (simp add: WakeupTime_def signed_modulo_int_def signed_divide_int_def)

end
