(* ===== verification/Go_Float.thy ===== *)
theory Go_Float
  imports Complex_Main Connect_Prelude
begin

text \<open>
  The part of Go's \<open>float32\<close> that the transfer code computes with: the conversion of an integer, one
  product, and the conversion back to an integer. A value is a rational number; \<open>float32\<close> rounds to the
  nearest value with 24 significant bits, ties to even, with the exponent range of IEEE single precision
  (values beyond the largest finite one do not occur here and are not modelled as infinities).
\<close>

definition roundEven :: "rat \<Rightarrow> int" where
  "roundEven q = (let f = \<lfloor>q\<rfloor>; d = q - of_int f in
     if d < 1 / 2 then f else if 1 / 2 < d then f + 1 else if even f then f else f + 1)"

text \<open>The weight of the last bit: the first power of two for which 24 bits reach past \<open>x\<close>.\<close>

definition lastBit :: "rat \<Rightarrow> rat option" where
  "lastBit x = find (\<lambda>u. \<bar>x\<bar> < 2 ^ 24 * u) (map (\<lambda>e. 1 / 2 ^ (149 - e)) [0..<149] @ map (\<lambda>e. 2 ^ e) [0..<105])"

definition float32 :: "rat \<Rightarrow> rat" where
  "float32 x = (case lastBit x of None \<Rightarrow> x | Some u \<Rightarrow> of_int (roundEven (x / u)) * u)"

text \<open>
  Conversion to \<open>int64\<close> truncates. Out of range the language leaves the value to the implementation; the
  model takes what amd64 gives.
\<close>

definition floatToInt64 :: "rat \<Rightarrow> int" where
  "floatToInt64 x = (let n = (if 0 \<le> x then \<lfloor>x\<rfloor> else \<lceil>x\<rceil>) in if - (2 ^ 63) \<le> n \<and> n < 2 ^ 63 then n else - (2 ^ 63))"

lemma roundEven_int [simp]: "roundEven (of_int n) = n"
  by (simp add: roundEven_def)

lemma find_append: "find P (xs @ ys) = (case find P xs of None \<Rightarrow> find P ys | Some x \<Rightarrow> Some x)"
  by (induction xs) auto

text \<open>Integers of up to 24 bits are exact.\<close>

lemma float32_small:
  fixes n :: int
  assumes "\<bar>n\<bar> < 2 ^ 24"
  shows "float32 (of_int n) = of_int n"
proof -
  have n1: "\<bar>rat_of_int n\<bar> < 2 ^ 24"
    using assms by (metis of_int_abs of_int_less_iff of_int_numeral of_int_power)
  let ?small = "map (\<lambda>e. 1 / 2 ^ (149 - e)) [0..<149] :: rat list"
  let ?big = "map (\<lambda>e. 2 ^ e) [0..<105] :: rat list"
  have b: "find (\<lambda>u. \<bar>rat_of_int n\<bar> < 2 ^ 24 * u) ?big = Some 1"
  proof -
    have "[0..<105] = 0 # [1..<105::nat]" by (simp add: upt_conv_Cons)
    then show ?thesis using n1 by (simp del: upt_Suc)
  qed
  show ?thesis
  proof (cases "find (\<lambda>u. \<bar>rat_of_int n\<bar> < 2 ^ 24 * u) ?small")
    case None
    then have "lastBit (of_int n) = Some 1" using b by (simp add: lastBit_def find_append)
    then show ?thesis by (simp add: float32_def)
  next
    case (Some u)
    then obtain k where "u = 1 / 2 ^ k" by (auto simp: find_Some_iff)
    then have "rat_of_int n / u = of_int (n * 2 ^ k)" "u \<noteq> 0" by auto
    moreover have "lastBit (of_int n) = Some u" using Some by (simp add: lastBit_def find_append)
    ultimately show ?thesis using \<open>u = 1 / 2 ^ k\<close> by (simp add: float32_def del: of_int_mult) simp
  qed
qed

text \<open>Evaluation takes the short way for small integers.\<close>

lemma float32_code [code]:
  "float32 x = (if of_int \<lfloor>x\<rfloor> = x \<and> \<bar>\<lfloor>x\<rfloor>\<bar> < 2 ^ 24 then x
     else (case lastBit x of None \<Rightarrow> x | Some u \<Rightarrow> of_int (roundEven (x / u)) * u))"
proof (cases "of_int \<lfloor>x\<rfloor> = x \<and> \<bar>\<lfloor>x\<rfloor>\<bar> < 2 ^ 24")
  case True
  then show ?thesis using float32_small [of "\<lfloor>x\<rfloor>"] by metis
next
  case False
  then show ?thesis by (simp only: float32_def if_False)
qed

text \<open>Rounding at most doubles a value of 1 or more, and keeps its sign.\<close>

definition lastBits :: "rat list" where
  "lastBits = map (\<lambda>e. 1 / 2 ^ (149 - e)) [0..<149] @ map (\<lambda>e. 2 ^ e) [0..<105]"

lemma lastBits_step:
  assumes "Suc i < length lastBits"
  shows "lastBits ! Suc i = 2 * lastBits ! i"
proof -
  consider "Suc i < 149" | "Suc i = 149" | "149 \<le> i" by linarith
  then show ?thesis
  proof cases
    case 1
    then have "149 - i = Suc (149 - Suc i)" by simp
    then show ?thesis using 1 by (simp add: lastBits_def nth_append del: upt_Suc)
  next
    case 2
    then have "i = 148" by simp
    then show ?thesis by (simp add: lastBits_def nth_append del: upt_Suc)
  next
    case 3
    then have "Suc i - 149 = Suc (i - 149)" by simp
    then show ?thesis using 3 assms by (simp add: lastBits_def nth_append del: upt_Suc)
  qed
qed

lemma lastBits_pos: "i < length lastBits \<Longrightarrow> 0 < lastBits ! i"
  by (simp add: lastBits_def nth_append del: upt_Suc)

lemma lastBits_0: "lastBits ! 0 = 1 / 2 ^ 149"
  by (simp add: lastBits_def nth_append del: upt_Suc)

lemma roundEven_le: "q < of_int n \<Longrightarrow> roundEven q \<le> n"
proof -
  assume "q < of_int n"
  then have "\<lfloor>q\<rfloor> < n" by (simp add: floor_less_iff)
  then show ?thesis by (simp add: roundEven_def Let_def)
qed

lemma roundEven_nonneg: "0 \<le> q \<Longrightarrow> 0 \<le> roundEven q"
  by (simp add: roundEven_def Let_def)

lemma roundEven_ge: "of_int n \<le> q \<Longrightarrow> n \<le> roundEven q"
proof -
  assume "of_int n \<le> q"
  then have "n \<le> \<lfloor>q\<rfloor>" by (simp add: le_floor_iff)
  then show ?thesis by (simp add: roundEven_def Let_def)
qed

lemma float32_bounds:
  assumes "1 / 2 ^ 100 \<le> x"
  shows "x / 2 \<le> float32 x \<and> float32 x \<le> 2 * x"
proof (cases "lastBit x")
  case None
  have "0 \<le> x" using assms by (rule order_trans [rotated]) simp
  then show ?thesis using None by (simp add: float32_def)
next
  case (Some u)
  have "(0::rat) < 1 / 2 ^ 100" by simp
  then have pos: "0 < x" using assms by linarith
  obtain i where i: "i < length lastBits" "lastBits ! i = u" "\<bar>x\<bar> < 2 ^ 24 * u"
      "\<And>j. j < i \<Longrightarrow> \<not> \<bar>x\<bar> < 2 ^ 24 * lastBits ! j"
    using Some unfolding lastBit_def lastBits_def [symmetric] by (auto simp: find_Some_iff)
  have "i \<noteq> 0"
  proof
    assume "i = 0"
    then have "1 / 2 ^ 100 < 2 ^ 24 * (1 / 2 ^ 149 :: rat)" using i(2,3) assms pos lastBits_0 by simp
    then show False by simp
  qed
  then obtain j where j: "i = Suc j" by (cases i) auto
  have u: "u = 2 * lastBits ! j" "0 < u" using lastBits_step [of j] lastBits_pos i(1,2) j by auto
  have "2 ^ 24 * lastBits ! j \<le> x" using i(4) [of j] j pos by simp
  then have lo: "2 ^ 23 * u \<le> x" using u by simp
  define r where "r = rat_of_int (roundEven (x / u))"
  have "x / u < of_int (2 ^ 24)" "of_int (2 ^ 23) \<le> x / u" using i(3) lo pos u by (simp_all add: field_simps)
  then have "roundEven (x / u) \<le> 2 ^ 24" "2 ^ 23 \<le> roundEven (x / u)" by (simp_all only: roundEven_le roundEven_ge)
  then have "r \<le> rat_of_int (2 ^ 24)" "rat_of_int (2 ^ 23) \<le> r" unfolding r_def by (simp_all only: of_int_le_iff)
  then have r: "r * u \<le> 2 ^ 24 * u" "2 ^ 23 * u \<le> r * u" using u(2) by simp_all
  have "float32 x = r * u" using Some by (simp add: float32_def r_def)
  moreover have "r * u \<le> 2 * x" using r(1) lo by simp
  moreover have "x < 2 * (2 ^ 23 * u)" using i(3) pos by simp
  then have "x / 2 \<le> r * u" using r(2) by linarith
  ultimately show ?thesis by simp
qed

text \<open>Converting twice never gives more than four times the value.\<close>

lemma float32_twice_bounds:
  assumes "0 \<le> n" "n < 2 ^ 60"
  shows "0 \<le> floatToInt64 (float32 (float32 (of_int n))) \<and> floatToInt64 (float32 (float32 (of_int n))) \<le> 4 * n"
proof -
  define y where "y = float32 (float32 (rat_of_int n))"
  have y: "0 \<le> y \<and> y \<le> of_int (4 * n)"
  proof (cases "n = 0")
    case True
    then show ?thesis using float32_small [of 0] by (simp add: y_def)
  next
    case False
    define x where "x = float32 (rat_of_int n)"
    have n: "1 \<le> rat_of_int n" using False assms(1) by simp
    moreover have "1 / 2 ^ 100 \<le> (1 :: rat)" "1 / 2 ^ 100 \<le> (1 / 2 :: rat)" by simp_all
    ultimately have x: "rat_of_int n / 2 \<le> x" "x \<le> 2 * of_int n"
      using float32_bounds [of "rat_of_int n"] unfolding x_def by linarith+
    then have "1 / 2 ^ 100 \<le> x" using n \<open>1 / 2 ^ 100 \<le> (1 / 2 :: rat)\<close> by linarith
    then have "x / 2 \<le> y" "y \<le> 2 * x" using float32_bounds [of x] by (simp_all add: y_def x_def)
    then show ?thesis using x n by auto
  qed
  then have f: "0 \<le> \<lfloor>y\<rfloor>" "\<lfloor>y\<rfloor> \<le> 4 * n" using floor_mono [of y "of_int (4 * n)"] by (simp_all only: zero_le_floor floor_of_int)
  then have "floatToInt64 y = \<lfloor>y\<rfloor>" using y assms(2) by (simp add: floatToInt64_def Let_def)
  then show ?thesis using f by (simp add: y_def)
qed

lemma lastBits_mono: "i \<le> j \<Longrightarrow> j < length lastBits \<Longrightarrow> lastBits ! i \<le> lastBits ! j"
proof (induction j)
  case (Suc j)
  show ?case
  proof (cases "i = Suc j")
    case False
    then have "lastBits ! i \<le> lastBits ! j" using Suc by simp
    moreover have "lastBits ! Suc j = 2 * lastBits ! j" "0 < lastBits ! j"
      using lastBits_step [of j] lastBits_pos [of j] Suc.prems by simp_all
    ultimately show ?thesis by simp
  qed simp
qed simp

text \<open>The last bit of a value between two powers of two.\<close>

lemma lastBit_eqI:
  assumes "Suc i < length lastBits" "2 ^ 24 * lastBits ! i \<le> \<bar>x\<bar>" "\<bar>x\<bar> < 2 ^ 24 * lastBits ! Suc i"
  shows "lastBit x = Some (lastBits ! Suc i)"
proof -
  have "\<not> \<bar>x\<bar> < 2 ^ 24 * lastBits ! j" if "j < Suc i" for j
    using lastBits_mono [of j i] assms(1,2) that by simp
  then show ?thesis
    using assms unfolding lastBit_def lastBits_def [symmetric] find_Some_iff by blast
qed

lemma float32_25bit:
  assumes "2 ^ 24 \<le> x" "x < 2 ^ 25"
  shows "float32 x = of_int (roundEven (x / 2)) * 2"
proof -
  have l: "Suc 149 < length lastBits" "lastBits ! 149 = 1" "lastBits ! Suc 149 = 2"
    by (simp_all add: lastBits_def nth_append del: upt_Suc)
  have "lastBit x = Some 2" using lastBit_eqI [of 149 x] assms unfolding l(2,3) using l(1) by simp
  then show ?thesis by (simp add: float32_def)
qed

lemma roundEven_twice: "0 \<le> q \<Longrightarrow> of_int (roundEven q) \<le> 2 * q"
proof -
  assume q: "0 \<le> q"
  define f where "f = \<lfloor>q\<rfloor>"
  have f: "0 \<le> f" "of_int f \<le> q" "q < of_int f + 1" unfolding f_def using q by (simp, linarith+)
  then have "0 \<le> rat_of_int f" by simp
  then show ?thesis
    using f unfolding roundEven_def Let_def f_def [symmetric] by (auto simp: not_less; cases "f = 0"; auto)
qed

lemma float32_twice: "0 \<le> x \<Longrightarrow> 0 \<le> float32 x \<and> float32 x \<le> 2 * x"
proof (cases "lastBit x")
  case None
  then show "0 \<le> x \<Longrightarrow> ?thesis" by (simp add: float32_def)
next
  case (Some u)
  assume x: "0 \<le> x"
  obtain i where "i < length lastBits" "lastBits ! i = u"
    using Some unfolding lastBit_def lastBits_def [symmetric] by (auto simp: find_Some_iff)
  then have u: "0 < u" using lastBits_pos by auto
  then have "0 \<le> x / u" using x by simp
  then have "rat_of_int (roundEven (x / u)) \<le> 2 * (x / u)" "0 \<le> rat_of_int (roundEven (x / u))"
    using roundEven_twice [of "x / u"] roundEven_nonneg [of "x / u"] by simp_all
  then show ?thesis using Some u by (simp add: float32_def field_simps)
qed

text \<open>A fraction of a converted integer is at most four times the integer.\<close>

lemma float32_fraction_bounds:
  assumes "0 \<le> n" "n < 2 ^ 60" "0 \<le> f" "f \<le> 1"
  shows "0 \<le> floatToInt64 (float32 (float32 (of_int n) * f)) \<and> floatToInt64 (float32 (float32 (of_int n) * f)) \<le> 4 * n"
proof -
  define y where "y = float32 (float32 (rat_of_int n) * f)"
  have a: "0 \<le> float32 (rat_of_int n)" "float32 (rat_of_int n) \<le> 2 * rat_of_int n"
    using float32_twice [of "rat_of_int n"] assms(1) by simp_all
  have b: "0 \<le> float32 (rat_of_int n) * f" "float32 (rat_of_int n) * f \<le> float32 (rat_of_int n)"
    using a assms(3,4) by (simp_all add: mult_left_le)
  then have "0 \<le> y" "y \<le> 2 * (float32 (rat_of_int n) * f)" using float32_twice [OF b(1)] by (simp_all add: y_def)
  then have y: "0 \<le> y" "y \<le> of_int (4 * n)" using a b by auto
  then have f: "0 \<le> \<lfloor>y\<rfloor>" "\<lfloor>y\<rfloor> \<le> 4 * n" using floor_mono [of y "of_int (4 * n)"] by (simp_all only: zero_le_floor floor_of_int)
  then have "floatToInt64 y = \<lfloor>y\<rfloor>" using y assms(2) by (simp add: floatToInt64_def Let_def)
  then show ?thesis using f by (simp add: y_def)
qed

end
