(* ===== verification/Sequence_Contract.thy ===== *)
theory Sequence_Contract
  imports Connect_Ids Connect_Util Go_Float "HOL-Library.AList"
begin

text \<open>
  The parts of transfer.go that both kinds of sequence share: the messages of the wire format, the byte
  accounting of a contract (\<open>sequenceContract\<close>), the window that compresses acks (\<open>sequenceAckWindow\<close>),
  and the audit of a peer (\<open>PeerAudit\<close>, \<open>SequencePeerAudit\<close>).

  The main facts: under a successful \<open>update\<close> the acked and unacked bytes of a contract never exceed what
  it pays for and no addition wraps; \<open>ack\<close> panics exactly when more is acked than was charged; the ack
  window loses no ack: its head is the latest cumulative ack and a snapshot has only selective acks past it.
\<close>

section \<open>Messages\<close>

record Tag =
  tag_SendTime :: u64

record Frame =
  f_MessageType :: int
  f_MessageBytes :: "byte list"
  f_Raw :: bool

record Contract =
  StoredContractBytes :: "byte list"
  StoredContractHmac :: "byte list"
  c_ProvideMode :: int

record StoredContract =
  s_ContractId :: "byte list"
  s_TransferByteCount :: u64
  s_SourceId :: "byte list option"
  s_DestinationId :: "byte list option"
  s_StreamId :: "byte list option"

record Pack =
  pk_MessageId :: "byte list"
  pk_SequenceId :: "byte list"
  pk_SequenceNumber :: u64
  pk_Head :: bool
  pk_Frames :: "Frame list"
  pk_Nack :: bool
  pk_ContractFrame :: "Frame option"
  pk_Tag :: "Tag option"
  pk_ContractId :: "byte list option"

record Ack =
  k_MessageId :: "byte list"
  k_SequenceId :: "byte list"
  k_Selective :: bool
  k_Tag :: "Tag option"

record TransferFrame =
  tf_TransferPath :: ProtoTransferPath
  tf_MessageType :: "int option"
  tf_Pack :: "Pack option"
  tf_Ack :: "Ack option"
  tf_Frame :: "Frame option"

text \<open>The message types of the transfer layer (\<open>protocol/frame.pb.go\<close>).\<close>

definition MessageType_TransferPack :: int where
  "MessageType_TransferPack = 0"

definition MessageType_TransferAck :: int where
  "MessageType_TransferAck = 1"

definition MessageType_TransferContract :: int where
  "MessageType_TransferContract = 2"

definition ProvideMode_Network :: int where
  "ProvideMode_Network = 1"

definition MessageByteCount :: "Frame list \<Rightarrow> ByteCount" where
  "MessageByteCount frames = fold (\<lambda>frame c. int64 (c + int (length (f_MessageBytes frame)))) frames 0"

section \<open>Contracts\<close>

text \<open>What a contract is for.\<close>

record ContractKey =
  ck_Destination :: TransferPath
  ck_IntermediaryIds :: MultiHopId
  ck_CompanionContract :: bool
  ck_ForceStream :: bool

record sequenceContract =
  localId :: Id
  contractTag :: string
  contract :: Contract
  contractId :: Id
  transferByteCount :: ByteCount
  effectiveTransferByteCount :: ByteCount
  provideMode :: int
  minUpdateByteCount :: ByteCount
  contractPath :: TransferPath
  ackedByteCount :: ByteCount
  unackedByteCount :: ByteCount

datatype contract_error = BadStoredContract | BadContractId id_error | BadContractPath id_error

text \<open>\<open>unmarshal\<close> is \<open>ProtoUnmarshal\<close> at the stored contract, \<open>i\<close> the id that \<open>NewId\<close> draws.\<close>

definition newSequenceContract ::
    "(byte list \<Rightarrow> StoredContract option) \<Rightarrow> Id \<Rightarrow> string \<Rightarrow> Contract \<Rightarrow> ByteCount \<Rightarrow> rat \<Rightarrow>
     contract_error + sequenceContract" where
  "newSequenceContract unmarshal i tg c minUpdate contractFillFraction =
     (case unmarshal (StoredContractBytes c) of None \<Rightarrow> Inl BadStoredContract
      | Some stored \<Rightarrow> (case IdFromBytes (s_ContractId stored) of Inl e \<Rightarrow> Inl (BadContractId e)
        | Inr cid \<Rightarrow> (case TransferPathFromBytes (s_SourceId stored) (s_DestinationId stored) (s_StreamId stored) of
            Inl e \<Rightarrow> Inl (BadContractPath e)
          | Inr p \<Rightarrow> Inr \<lparr>localId = i, contractTag = tg, contract = c, contractId = cid,
              transferByteCount = int64 (uint (s_TransferByteCount stored)),
              effectiveTransferByteCount =
                floatToInt64 (float32 (float32 (of_int (uint (s_TransferByteCount stored))) * contractFillFraction)),
              provideMode = c_ProvideMode c, minUpdateByteCount = minUpdate, contractPath = p,
              ackedByteCount = 0, unackedByteCount = 0\<rparr>)))"

definition effectiveByteCount :: "sequenceContract \<Rightarrow> ByteCount \<Rightarrow> ByteCount" where
  "effectiveByteCount c byteCount = max (minUpdateByteCount c) byteCount"

definition contract_update :: "sequenceContract \<Rightarrow> ByteCount \<Rightarrow> sequenceContract \<times> bool" where
  "contract_update c byteCount =
     (let effective = effectiveByteCount c byteCount in
      if effectiveTransferByteCount c < int64 (int64 (ackedByteCount c + unackedByteCount c) + effective)
      then (c, False)
      else (c\<lparr>unackedByteCount := int64 (unackedByteCount c + effective)\<rparr>, True))"

text \<open>\<open>ack\<close> panics ("Bad accounting") when the bytes were not charged before.\<close>

definition contract_ack :: "sequenceContract \<Rightarrow> ByteCount \<Rightarrow> sequenceContract option" where
  "contract_ack c byteCount =
     (let effective = effectiveByteCount c byteCount in
      if unackedByteCount c < effective then None
      else Some (c\<lparr>unackedByteCount := int64 (unackedByteCount c - effective),
                   ackedByteCount := int64 (ackedByteCount c + effective)\<rparr>))"

text \<open>
  A contract in use: the charged bytes fit, and the sizes are far enough from the limits of \<open>int64\<close>
  that no sum wraps (\<open>maxContractByteCount\<close> and \<open>maxMessageByteCount\<close> are bounds of the development,
  not of the code).
\<close>

definition maxContractByteCount :: int where
  "maxContractByteCount = 2 ^ 62"

definition maxMessageByteCount :: int where
  "maxMessageByteCount = 2 ^ 61"

text \<open>Signed contracts are below this size; the platform sells contracts of at most a few gigabytes.\<close>

definition maxStoredByteCount :: int where
  "maxStoredByteCount = 2 ^ 60"

definition contract_ok :: "sequenceContract \<Rightarrow> bool" where
  "contract_ok c \<longleftrightarrow> 0 \<le> ackedByteCount c \<and> 0 \<le> unackedByteCount c \<and>
     ackedByteCount c + unackedByteCount c \<le> max 0 (effectiveTransferByteCount c) \<and>
     effectiveTransferByteCount c \<le> maxContractByteCount \<and>
     0 \<le> minUpdateByteCount c \<and> minUpdateByteCount c \<le> maxMessageByteCount"

lemma contract_ok_new_fraction:
  assumes new: "newSequenceContract unmarshal i tg c m f = Inr k" and m: "0 \<le> m" "m \<le> maxMessageByteCount"
    and f: "0 \<le> f" "f \<le> 1"
    and small: "\<And>bs st. unmarshal bs = Some st \<Longrightarrow> uint (s_TransferByteCount st) < maxStoredByteCount"
  shows "contract_ok k \<and> unackedByteCount k = 0 \<and> ackedByteCount k = 0 \<and> localId k = i \<and> minUpdateByteCount k = m"
proof -
  obtain st where st: "unmarshal (StoredContractBytes c) = Some st"
      "effectiveTransferByteCount k = floatToInt64 (float32 (float32 (of_int (uint (s_TransferByteCount st))) * f))"
      "unackedByteCount k = 0" "ackedByteCount k = 0" "localId k = i" "minUpdateByteCount k = m"
    using new by (auto simp: newSequenceContract_def split: option.splits sum.splits)
  have "effectiveTransferByteCount k \<le> 4 * uint (s_TransferByteCount st)"
    using float32_fraction_bounds [OF _ _ f, of "uint (s_TransferByteCount st)"] small [OF st(1)] st(2)
    by (simp add: maxStoredByteCount_def)
  then show ?thesis
    using st small [OF st(1)] m by (simp add: contract_ok_def maxContractByteCount_def maxStoredByteCount_def)
qed

lemma contract_ok_new:
  assumes new: "newSequenceContract unmarshal i tg c m 1 = Inr k" and m: "0 \<le> m" "m \<le> maxMessageByteCount"
    and small: "\<And>bs st. unmarshal bs = Some st \<Longrightarrow> uint (s_TransferByteCount st) < maxStoredByteCount"
  shows "contract_ok k \<and> unackedByteCount k = 0 \<and> ackedByteCount k = 0 \<and> localId k = i \<and> minUpdateByteCount k = m"
  by (rule contract_ok_new_fraction [OF new m _ _ small]) simp_all

text \<open>The identity of a contract, which the accounting never changes.\<close>

definition contract_static :: "sequenceContract \<Rightarrow> sequenceContract" where
  "contract_static c = c\<lparr>ackedByteCount := 0, unackedByteCount := 0\<rparr>"

lemma contract_static_fields:
  assumes "contract_static c = contract_static d"
  shows "contractId c = contractId d" "localId c = localId d" "minUpdateByteCount c = minUpdateByteCount d"
    "effectiveTransferByteCount c = effectiveTransferByteCount d" "provideMode c = provideMode d"
    "contractPath c = contractPath d" "transferByteCount c = transferByteCount d"
  using assms by (cases c; cases d; simp add: contract_static_def)+

lemma contract_update_ok:
  assumes ok: "contract_ok c" and b: "b \<le> maxMessageByteCount" and u: "contract_update c b = (d, success)"
  shows "contract_ok d" "contract_static d = contract_static c" "ackedByteCount d = ackedByteCount c"
    "unackedByteCount d = unackedByteCount c + (if success then effectiveByteCount c b else 0)"
    "success \<longleftrightarrow> ackedByteCount c + unackedByteCount c + effectiveByteCount c b \<le> effectiveTransferByteCount c"
proof -
  let ?e = "effectiveByteCount c b"
  have e: "0 \<le> ?e" "?e \<le> 2 ^ 61"
    using ok b by (auto simp: contract_ok_def effectiveByteCount_def maxMessageByteCount_def)
  have r: "0 \<le> ackedByteCount c" "0 \<le> unackedByteCount c" "ackedByteCount c + unackedByteCount c \<le> 2 ^ 62"
    using ok by (auto simp: contract_ok_def maxContractByteCount_def)
  have i: "int64 (int64 (ackedByteCount c + unackedByteCount c) + ?e) = ackedByteCount c + unackedByteCount c + ?e"
    "int64 (unackedByteCount c + ?e) = unackedByteCount c + ?e"
    using e r by (simp_all add: int64_id)
  show "contract_ok d" "contract_static d = contract_static c" "ackedByteCount d = ackedByteCount c"
    "unackedByteCount d = unackedByteCount c + (if success then effectiveByteCount c b else 0)"
    "success \<longleftrightarrow> ackedByteCount c + unackedByteCount c + effectiveByteCount c b \<le> effectiveTransferByteCount c"
    using u ok e unfolding contract_update_def Let_def i
    by (auto simp: contract_ok_def contract_static_def split: if_splits)
qed

lemma contract_ack_ok:
  assumes ok: "contract_ok c" and b: "b \<le> maxMessageByteCount"
  shows "if effectiveByteCount c b \<le> unackedByteCount c
    then \<exists>d. contract_ack c b = Some d \<and> contract_ok d \<and> contract_static d = contract_static c \<and>
      unackedByteCount d = unackedByteCount c - effectiveByteCount c b \<and>
      ackedByteCount d = ackedByteCount c + effectiveByteCount c b
    else contract_ack c b = None"
proof -
  let ?e = "effectiveByteCount c b"
  have e: "0 \<le> ?e" "?e \<le> 2 ^ 61"
    using ok b by (auto simp: contract_ok_def effectiveByteCount_def maxMessageByteCount_def)
  have r: "0 \<le> ackedByteCount c" "0 \<le> unackedByteCount c" "ackedByteCount c + unackedByteCount c \<le> 2 ^ 62"
    using ok by (auto simp: contract_ok_def maxContractByteCount_def)
  show ?thesis
  proof (cases "?e \<le> unackedByteCount c")
    case True
    then have "int64 (unackedByteCount c - ?e) = unackedByteCount c - ?e"
      "int64 (ackedByteCount c + ?e) = ackedByteCount c + ?e"
      using e r by (simp_all add: int64_id)
    then show ?thesis using True ok e by (auto simp: contract_ack_def Let_def contract_ok_def contract_static_def)
  qed (simp add: contract_ack_def)
qed

section \<open>The ack window\<close>

record sequenceAck =
  a_sequenceNumber :: u64
  a_messageId :: Id
  a_selective :: bool
  a_tag :: "Tag option"

text \<open>
  The Go map of selective acks is an association list; its order stands for the order of iteration. The
  count of updates since the last snapshot is a natural number: it does not come near the limit of \<open>int\<close>.
\<close>

record sequenceAckWindow =
  ackMonitor :: Monitor
  headAck :: "sequenceAck option"
  ackUpdateCount :: nat
  selectiveAcks :: "(Id \<times> sequenceAck) list"

record sequenceAckWindowSnapshot =
  s_ackNotify :: nat
  s_headAck :: "sequenceAck option"
  s_ackUpdateCount :: nat
  s_selectiveAcks :: "(Id \<times> sequenceAck) list"

definition newSequenceAckWindow :: sequenceAckWindow where
  "newSequenceAckWindow =
     \<lparr>ackMonitor = NewMonitor, headAck = None, ackUpdateCount = 0, selectiveAcks = []\<rparr>"

definition pastHead :: "sequenceAck option \<Rightarrow> u64 \<Rightarrow> bool" where
  "pastHead h n = (case h of None \<Rightarrow> True | Some a \<Rightarrow> a_sequenceNumber a < n)"

definition ackWindow_Update :: "sequenceAckWindow \<Rightarrow> sequenceAck \<Rightarrow> sequenceAckWindow" where
  "ackWindow_Update w ack =
     (let w =
        (if pastHead (headAck w) (a_sequenceNumber ack) then
           (if a_selective ack then w\<lparr>selectiveAcks := AList.update (a_messageId ack) ack (selectiveAcks w)\<rparr>
            else w\<lparr>ackUpdateCount := ackUpdateCount w + 1, headAck := Some ack\<rparr>)
         else w\<lparr>ackUpdateCount := ackUpdateCount w + 1\<rparr>)
      in w\<lparr>ackMonitor := NotifyAll (ackMonitor w)\<rparr>)"

text \<open>\<open>Snapshot\<close> dereferences the head when acks were counted: \<open>None\<close> is the nil dereference.\<close>

definition ackWindow_Snapshot ::
    "sequenceAckWindow \<Rightarrow> bool \<Rightarrow> (sequenceAckWindow \<times> sequenceAckWindowSnapshot) option" where
  "ackWindow_Snapshot w reset =
     do {
       selectiveAcksAfterHead \<leftarrow>
         (if 0 < ackUpdateCount w then
            if selectiveAcks w = [] then Some []
            else do { h \<leftarrow> headAck w;
              Some (filter (\<lambda>(messageId, ack). a_sequenceNumber h < a_sequenceNumber ack) (selectiveAcks w)) }
          else Some (selectiveAcks w));
       let snapshot = \<lparr>s_ackNotify = NotifyChannel (ackMonitor w), s_headAck = headAck w,
         s_ackUpdateCount = ackUpdateCount w, s_selectiveAcks = selectiveAcksAfterHead\<rparr>;
       Some (if reset then w\<lparr>ackUpdateCount := 0, selectiveAcks := []\<rparr> else w, snapshot)
     }"

definition ackWindow_ok :: "sequenceAckWindow \<Rightarrow> bool" where
  "ackWindow_ok w \<longleftrightarrow>
     (headAck w = None \<longrightarrow> ackUpdateCount w = 0) \<and>
     (ackUpdateCount w = 0 \<longrightarrow> (\<forall>(m, a)\<in>set (selectiveAcks w). pastHead (headAck w) (a_sequenceNumber a))) \<and>
     (\<forall>(m, a)\<in>set (selectiveAcks w). a_selective a \<and> m = a_messageId a) \<and>
     (case headAck w of None \<Rightarrow> True | Some h \<Rightarrow> \<not> a_selective h)"

text \<open>An ack is answered by a window: at or below its head with an update due, or listed as selective.\<close>

definition ack_covered :: "sequenceAckWindow \<Rightarrow> sequenceAck \<Rightarrow> bool" where
  "ack_covered w a \<longleftrightarrow> (0 < ackUpdateCount w \<and> \<not> pastHead (headAck w) (a_sequenceNumber a)) \<or>
     (a_selective a \<and> a_messageId a \<in> fst ` set (selectiveAcks w))"

lemma set_AList_update: "set (AList.update k v xs) \<subseteq> insert (k, v) (set xs)"
  by (induction xs) auto

lemma ackWindow_ok_new [simp]: "ackWindow_ok newSequenceAckWindow"
  by (simp add: newSequenceAckWindow_def ackWindow_ok_def)

lemma ackWindow_ok_Update:
  "ackWindow_ok w \<Longrightarrow> ackWindow_ok (ackWindow_Update w a)"
  using set_AList_update [of "a_messageId a" a "selectiveAcks w"]
  by (fastforce simp: ackWindow_Update_def ackWindow_ok_def pastHead_def Let_def split: option.splits)

lemma ack_covered_Update: "ack_covered (ackWindow_Update w a) a"
  by (auto simp: ack_covered_def ackWindow_Update_def dom_update pastHead_def Let_def split: option.splits)

lemma ack_covered_keep: "ack_covered w b \<Longrightarrow> ack_covered (ackWindow_Update w a) b"
  by (auto simp: ack_covered_def ackWindow_Update_def dom_update pastHead_def Let_def split: option.splits)

lemma ackWindow_updates:
  "ackWindow_ok w \<Longrightarrow> ackWindow_ok (fold (\<lambda>a w. ackWindow_Update w a) acks w) \<and>
    (\<forall>a\<in>set acks. ack_covered (fold (\<lambda>a w. ackWindow_Update w a) acks w) a) \<and>
    (\<forall>a. ack_covered w a \<longrightarrow> ack_covered (fold (\<lambda>a w. ackWindow_Update w a) acks w) a)"
  by (induction acks arbitrary: w) (simp_all add: ackWindow_ok_Update ack_covered_Update ack_covered_keep)

lemma Snapshot_Some:
  assumes ok: "ackWindow_ok w"
  shows "\<exists>w' s. ackWindow_Snapshot w reset = Some (w', s) \<and> ackWindow_ok w' \<and> s_headAck s = headAck w \<and>
    s_ackUpdateCount s = ackUpdateCount w \<and> (\<forall>(m, a)\<in>set (s_selectiveAcks s). pastHead (headAck w) (a_sequenceNumber a)) \<and>
    set (s_selectiveAcks s) = {(m, a) \<in> set (selectiveAcks w). pastHead (headAck w) (a_sequenceNumber a)} \<and>
    w' = (if reset then w\<lparr>ackUpdateCount := 0, selectiveAcks := []\<rparr> else w)"
proof (cases "headAck w")
  case None
  then show ?thesis using ok by (auto simp: ackWindow_Snapshot_def ackWindow_ok_def pastHead_def)
next
  case (Some h)
  then show ?thesis using ok by (auto simp: ackWindow_Snapshot_def ackWindow_ok_def pastHead_def)
qed

section \<open>The audit of a peer\<close>

record PeerAudit =
  startTime :: time
  lastModifiedTime :: time
  Abuse :: bool
  BadContractCount :: int
  DiscardedByteCount :: ByteCount
  DiscardedCount :: int
  BadMessageByteCount :: ByteCount
  BadMessageCount :: int
  SendByteCount :: ByteCount
  SendCount :: int
  ResendByteCount :: ByteCount
  ResendCount :: int

definition NewPeerAudit :: "time \<Rightarrow> PeerAudit" where
  "NewPeerAudit t = \<lparr>startTime = t, lastModifiedTime = t, Abuse = False, BadContractCount = 0,
     DiscardedByteCount = 0, DiscardedCount = 0, BadMessageByteCount = 0, BadMessageCount = 0,
     SendByteCount = 0, SendCount = 0, ResendByteCount = 0, ResendCount = 0\<rparr>"

definition audit_badMessage :: "ByteCount \<Rightarrow> PeerAudit \<Rightarrow> PeerAudit" where
  "audit_badMessage b a = a\<lparr>BadMessageCount := int64 (BadMessageCount a + 1),
     BadMessageByteCount := int64 (BadMessageByteCount a + b)\<rparr>"

definition audit_discard :: "ByteCount \<Rightarrow> PeerAudit \<Rightarrow> PeerAudit" where
  "audit_discard b a = a\<lparr>DiscardedCount := int64 (DiscardedCount a + 1),
     DiscardedByteCount := int64 (DiscardedByteCount a + b)\<rparr>"

definition audit_badContract :: "PeerAudit \<Rightarrow> PeerAudit" where
  "audit_badContract a = a\<lparr>BadContractCount := int64 (BadContractCount a + 1)\<rparr>"

definition audit_received :: "ByteCount \<Rightarrow> PeerAudit \<Rightarrow> PeerAudit" where
  "audit_received b a = a\<lparr>SendCount := int64 (SendCount a + 1), SendByteCount := int64 (SendByteCount a + b)\<rparr>"

definition audit_resend :: "ByteCount \<Rightarrow> PeerAudit \<Rightarrow> PeerAudit" where
  "audit_resend b a = a\<lparr>ResendCount := int64 (ResendCount a + 1), ResendByteCount := int64 (ResendByteCount a + b)\<rparr>"

record ProtoPeerAudit =
  pa_PeerId :: "byte list"
  pa_StreamId :: "byte list"
  pa_Duration :: u64
  pa_Abuse :: bool
  pa_BadContractCount :: u64
  pa_DiscardedByteCount :: u64
  pa_DiscardedCount :: u64
  pa_BadMessageByteCount :: u64
  pa_BadMessageCount :: u64
  pa_SendByteCount :: u64
  pa_SendCount :: u64
  pa_ResendByteCount :: u64
  pa_ResendCount :: u64

record SequencePeerAudit =
  auditSource :: TransferPath
  maxAuditDuration :: duration
  peerAudit :: "PeerAudit option"

definition NewSequencePeerAudit :: "TransferPath \<Rightarrow> duration \<Rightarrow> SequencePeerAudit" where
  "NewSequencePeerAudit src d = \<lparr>auditSource = src, maxAuditDuration = d, peerAudit = None\<rparr>"

definition ceilSeconds :: "duration \<Rightarrow> int" where
  "ceilSeconds d = (d + 999999999) div 1000000000"

definition audit_message :: "TransferPath \<Rightarrow> PeerAudit \<Rightarrow> ProtoPeerAudit" where
  "audit_message src a =
     \<lparr>pa_PeerId = Id_Bytes (sourceId src), pa_StreamId = Id_Bytes (streamId src),
      pa_Duration = word_of_int (ceilSeconds (lastModifiedTime a - startTime a)), pa_Abuse = Abuse a,
      pa_BadContractCount = word_of_int (BadContractCount a),
      pa_DiscardedByteCount = word_of_int (DiscardedByteCount a), pa_DiscardedCount = word_of_int (DiscardedCount a),
      pa_BadMessageByteCount = word_of_int (BadMessageByteCount a), pa_BadMessageCount = word_of_int (BadMessageCount a),
      pa_SendByteCount = word_of_int (SendByteCount a), pa_SendCount = word_of_int (SendCount a),
      pa_ResendByteCount = word_of_int (ResendByteCount a), pa_ResendCount = word_of_int (ResendCount a)\<rparr>"

text \<open>
  \<open>Complete\<close> sends the audit to the control client; \<open>marshal\<close> says whether \<open>ToFrame\<close> can encode it. The
  sent messages are returned.
\<close>

definition audit_Complete ::
    "(ProtoPeerAudit \<Rightarrow> bool) \<Rightarrow> SequencePeerAudit \<Rightarrow> SequencePeerAudit \<times> ProtoPeerAudit list" where
  "audit_Complete marshal s =
     (case peerAudit s of None \<Rightarrow> (s, [])
      | Some a \<Rightarrow> (let m = audit_message (auditSource s) a in
          if \<not> marshal m then (s, []) else (s\<lparr>peerAudit := None\<rparr>, [m])))"

definition audit_Update ::
    "(ProtoPeerAudit \<Rightarrow> bool) \<Rightarrow> time \<Rightarrow> (PeerAudit \<Rightarrow> PeerAudit) \<Rightarrow> SequencePeerAudit \<Rightarrow>
     SequencePeerAudit \<times> ProtoPeerAudit list" where
  "audit_Update marshal auditTime callback s =
     (let (s, sent) =
        (case peerAudit s of None \<Rightarrow> (s, [])
         | Some a \<Rightarrow> if maxAuditDuration s \<le> auditTime - startTime a then audit_Complete marshal s else (s, []));
        a = (case peerAudit s of None \<Rightarrow> NewPeerAudit auditTime | Some a \<Rightarrow> a);
        a = callback a
      in (s\<lparr>peerAudit := Some (a\<lparr>lastModifiedTime := auditTime\<rparr>)\<rparr>, sent))"

lemma selectiveAcks_source:
  "snd ` set (selectiveAcks (fold (\<lambda>a w. ackWindow_Update w a) as u)) \<subseteq> set as \<union> snd ` set (selectiveAcks u)"
proof (induction as arbitrary: u)
  case (Cons a as)
  define v where "v = ackWindow_Update u a"
  have 1: "snd ` set (selectiveAcks v) \<subseteq> insert a (snd ` set (selectiveAcks u))"
    using set_AList_update [of "a_messageId a" a "selectiveAcks u"] by (auto simp: ackWindow_Update_def Let_def v_def)
  have 2: "snd ` set (selectiveAcks (fold (\<lambda>a w. ackWindow_Update w a) as v)) \<subseteq> set as \<union> snd ` set (selectiveAcks v)"
    by (rule Cons.IH)
  have "snd ` set (selectiveAcks (fold (\<lambda>a w. ackWindow_Update w a) as v)) \<subseteq> set (a # as) \<union> snd ` set (selectiveAcks u)"
    by (rule subset_trans [OF 2]) (use 1 in auto)
  then show ?case by (simp add: v_def)
qed simp

section \<open>Properties\<close>

definition example_contract :: sequenceContract where
  "example_contract = \<lparr>localId = zeroId, contractTag = ''r'',
     contract = \<lparr>StoredContractBytes = [], StoredContractHmac = [], c_ProvideMode = 1\<rparr>, contractId = example_id,
     transferByteCount = 100, effectiveTransferByteCount = 100, provideMode = 1, minUpdateByteCount = 1,
     contractPath = emptyPath, ackedByteCount = 0, unackedByteCount = 0\<rparr>"

text \<open>
  C32: Accounting of a contract. \<open>update\<close> succeeds exactly when the message (at least the minimum charge)
  still fits, with no wrap-around, and then charges exactly that; a failed \<open>update\<close> changes nothing; the
  \<open>ack\<close> of a charged message moves its bytes from unacked to acked; \<open>ack\<close> panics exactly when the bytes
  were not charged. The contract is never overdrawn.
\<close>

theorem contract_accounting:
  assumes "contract_ok c" "b \<le> maxMessageByteCount" "contract_update c b = (d, success)"
  shows "contract_ok d \<and> success = (ackedByteCount c + unackedByteCount c + max (minUpdateByteCount c) b \<le> effectiveTransferByteCount c) \<and>
    (if success then unackedByteCount d = unackedByteCount c + max (minUpdateByteCount c) b \<and>
       (\<exists>k. contract_ack d b = Some k \<and> contract_ok k \<and> unackedByteCount k = unackedByteCount c \<and>
          ackedByteCount k = ackedByteCount c + max (minUpdateByteCount c) b)
     else d = c) \<and>
    (contract_ack c b = None) = (unackedByteCount c < max (minUpdateByteCount c) b)"
proof -
  note u = contract_update_ok [OF assms]
  note e = effectiveByteCount_def
  have f: "effectiveByteCount d b = effectiveByteCount c b" using contract_static_fields [OF u(2)] by (simp add: e)
  have none: "(contract_ack c b = None) = (unackedByteCount c < effectiveByteCount c b)"
    using contract_ack_ok [OF assms(1,2)] by (auto split: if_splits)
  show ?thesis
  proof (cases success)
    case True
    have "0 \<le> unackedByteCount c" using assms(1) by (simp add: contract_ok_def)
    then show ?thesis
      using True u none contract_ack_ok [OF u(1) assms(2)] f by (auto simp: e [symmetric])
  next
    case False
    then have "d = c" using assms(3) by (auto simp: contract_update_def Let_def split: if_splits)
    then show ?thesis using False u none by (simp add: e)
  qed
qed

theorem contract_accounting_witness:
  "snd (contract_update example_contract 60) \<and> contract_ack example_contract 60 = None"
proof -
  have "contract_ok example_contract"
    by (simp add: contract_ok_def example_contract_def maxContractByteCount_def maxMessageByteCount_def)
  moreover have "(60 :: int) \<le> maxMessageByteCount" by (simp add: maxMessageByteCount_def)
  moreover obtain d success where u: "contract_update example_contract 60 = (d, success)" by force
  ultimately show ?thesis
    using contract_accounting [of example_contract 60 d success] by (simp add: example_contract_def)
qed

text \<open>
  C33: The ack window loses no ack: after any updates (a message id stands for one sequence number) each of
  them is answered by the next snapshot, by the cumulative head when the head is at or past it, as a
  selective ack otherwise; a snapshot never dereferences a missing head, lists only acks past the head, and
  a reset keeps the head.
\<close>

theorem ack_window_complete:
  assumes "ackWindow_ok w"
    and same: "\<And>a b. a \<in> set acks \<union> snd ` set (selectiveAcks w) \<Longrightarrow> b \<in> set acks \<union> snd ` set (selectiveAcks w) \<Longrightarrow>
      a_messageId a = a_messageId b \<Longrightarrow> a_sequenceNumber a = a_sequenceNumber b"
  shows "\<exists>w' s. ackWindow_Snapshot (fold (\<lambda>a w. ackWindow_Update w a) acks w) True = Some (w', s) \<and> ackWindow_ok w' \<and>
    headAck w' = s_headAck s \<and>
    (\<forall>a\<in>set acks. (\<exists>h. s_headAck s = Some h \<and> a_sequenceNumber a \<le> a_sequenceNumber h \<and> 0 < s_ackUpdateCount s) \<or>
       (\<exists>b. (a_messageId a, b) \<in> set (s_selectiveAcks s))) \<and>
    (\<forall>(m, b)\<in>set (s_selectiveAcks s). \<forall>h. s_headAck s = Some h \<longrightarrow> a_sequenceNumber h < a_sequenceNumber b)"
proof -
  define v where "v = fold (\<lambda>a w. ackWindow_Update w a) acks w"
  have v: "ackWindow_ok v" "\<forall>a\<in>set acks. ack_covered v a"
    using ackWindow_updates [OF assms(1), of acks] by (simp_all add: v_def)
  obtain w' s where s: "ackWindow_Snapshot v True = Some (w', s)" "ackWindow_ok w'" "s_headAck s = headAck v"
      "s_ackUpdateCount s = ackUpdateCount v"
      "set (s_selectiveAcks s) = {(m, a) \<in> set (selectiveAcks v). pastHead (headAck v) (a_sequenceNumber a)}"
      "w' = v\<lparr>ackUpdateCount := 0, selectiveAcks := []\<rparr>"
    using Snapshot_Some [OF v(1), of True] by auto
  have src: "snd ` set (selectiveAcks v) \<subseteq> set acks \<union> snd ` set (selectiveAcks w)"
    unfolding v_def by (rule selectiveAcks_source)
  have "(\<exists>h. headAck v = Some h \<and> a_sequenceNumber a \<le> a_sequenceNumber h \<and> 0 < ackUpdateCount v) \<or>
      (\<exists>b. (a_messageId a, b) \<in> set (s_selectiveAcks s))" if a: "a \<in> set acks" for a
  proof -
    have "ack_covered v a" using v(2) a by blast
    then consider (head) "0 < ackUpdateCount v" "\<not> pastHead (headAck v) (a_sequenceNumber a)"
      | (sel) b where "(a_messageId a, b) \<in> set (selectiveAcks v)"
      by (auto simp: ack_covered_def)
    then show ?thesis
    proof cases
      case head
      then show ?thesis by (auto simp: pastHead_def split: option.splits)
    next
      case sel
      have "b \<in> snd ` set (selectiveAcks v)" using sel by force
      then have "b \<in> set acks \<union> snd ` set (selectiveAcks w)" using src by blast
      moreover have "a_messageId b = a_messageId a" using v(1) sel by (auto simp: ackWindow_ok_def)
      ultimately have "a_sequenceNumber b = a_sequenceNumber a" using same [of b a] a by blast
      moreover have "ackUpdateCount v = 0 \<Longrightarrow> pastHead (headAck v) (a_sequenceNumber b)"
        using v(1) sel by (auto simp: ackWindow_ok_def)
      ultimately show ?thesis
        using sel s(5) by (cases "pastHead (headAck v) (a_sequenceNumber b)") (auto simp: pastHead_def split: option.splits)
    qed
  qed
  then have cov: "\<forall>a\<in>set acks. (\<exists>h. s_headAck s = Some h \<and> a_sequenceNumber a \<le> a_sequenceNumber h \<and> 0 < s_ackUpdateCount s) \<or>
       (\<exists>b. (a_messageId a, b) \<in> set (s_selectiveAcks s))"
    using s(3,4) by simp
  have "\<forall>(m, b)\<in>set (s_selectiveAcks s). \<forall>h. s_headAck s = Some h \<longrightarrow> a_sequenceNumber h < a_sequenceNumber b"
    unfolding s(3,5) by (auto simp: pastHead_def)
  then show ?thesis using s(1,2,3,6) cov unfolding v_def by (intro exI conjI) auto
qed

theorem ack_window_complete_witness:
  "\<exists>w' s. ackWindow_Snapshot (fold (\<lambda>a w. ackWindow_Update w a)
     [\<lparr>a_sequenceNumber = 1, a_messageId = example_id, a_selective = True, a_tag = None\<rparr>] newSequenceAckWindow) True = Some (w', s) \<and>
     ackWindow_ok w'"
proof -
  let ?acks = "[\<lparr>a_sequenceNumber = 1, a_messageId = example_id, a_selective = True, a_tag = None\<rparr>]"
  have "a_sequenceNumber a = a_sequenceNumber b"
    if "a \<in> set ?acks \<union> snd ` set (selectiveAcks newSequenceAckWindow)"
      "b \<in> set ?acks \<union> snd ` set (selectiveAcks newSequenceAckWindow)" for a b
    using that by (auto simp: newSequenceAckWindow_def)
  then show ?thesis using ack_window_complete [OF ackWindow_ok_new, of ?acks] by blast
qed

text \<open>
  A contract of less than 16 MiB counts exactly the bytes it was signed for (the receiver's fill
  fraction is 1.0).
\<close>

theorem contract_fill_exact:
  assumes "newSequenceContract un i tg c m 1 = Inr k" "un (StoredContractBytes c) = Some st"
    and small: "uint (s_TransferByteCount st) < 2 ^ 24"
  shows "effectiveTransferByteCount k = transferByteCount k"
proof -
  have ex: "floatToInt64 (float32 (float32 (of_int n))) = int64 n" if "0 \<le> n" "n < 2 ^ 24" for n
    using that float32_small [of n] by (simp add: floatToInt64_def int64_id)
  from assms(1,2) have "effectiveTransferByteCount k = floatToInt64 (float32 (float32 (of_int (uint (s_TransferByteCount st)))))"
    "transferByteCount k = int64 (uint (s_TransferByteCount st))"
    by (auto simp: newSequenceContract_def split: sum.splits)
  then show ?thesis using ex [of "uint (s_TransferByteCount st)"] small by (simp only: uint_ge_0)
qed

definition example_stored :: "u64 \<Rightarrow> StoredContract" where
  "example_stored n = \<lparr>s_ContractId = example_id, s_TransferByteCount = n, s_SourceId = None,
     s_DestinationId = None, s_StreamId = None\<rparr>"

lemma newSequenceContract_example:
  "newSequenceContract (\<lambda>_. Some (example_stored n)) zeroId ''r'' (contract example_contract) 1 1 = Inr
     (example_contract\<lparr>transferByteCount := int64 (uint n),
        effectiveTransferByteCount := floatToInt64 (float32 (float32 (of_int (uint n))))\<rparr>)"
proof -
  have "IdFromBytes example_id = Inr example_id" "TransferPathFromBytes None None None = Inr emptyPath"
    by code_simp+
  then show ?thesis by (simp add: newSequenceContract_def example_stored_def example_contract_def)
qed

theorem contract_fill_exact_witness:
  "\<exists>k. newSequenceContract (\<lambda>_. Some (example_stored 5000)) zeroId ''r'' (contract example_contract) 1 1 = Inr k \<and>
     effectiveTransferByteCount k = transferByteCount k"
proof -
  let ?un = "\<lambda>_ :: byte list. Some (example_stored 5000)"
  obtain k where k: "newSequenceContract ?un zeroId ''r'' (contract example_contract) 1 1 = Inr k"
    using newSequenceContract_example by blast
  have "effectiveTransferByteCount k = transferByteCount k"
    by (rule contract_fill_exact [OF k, of "example_stored 5000"]) (simp_all add: example_stored_def)
  with k show ?thesis by blast
qed

text \<open>
  From 16 MiB on the conversion through \<open>float32\<close> rounds, possibly up: a contract signed for 16777219 bytes
  lets 16777220 bytes pass.
\<close>

theorem contract_fill_overshoot:
  "\<exists>k. newSequenceContract (\<lambda>_. Some (example_stored 16777219)) zeroId ''r'' (contract example_contract) 1 1 = Inr k \<and>
     transferByteCount k = 16777219 \<and> effectiveTransferByteCount k = 16777220"
proof -
  have "\<lfloor>16777219 / 2 :: rat\<rfloor> = 8388609" by (rule floor_unique) simp_all
  then have "float32 16777219 = 16777220" "float32 16777220 = 16777220"
    by (simp_all add: float32_25bit roundEven_def Let_def)
  then show ?thesis unfolding newSequenceContract_example by (simp add: floatToInt64_def)
qed

end
