(* ===== verification/Receive_Sequence.thy ===== *)
theory Receive_Sequence
  imports Transfer_Queue Sequence_Contract
begin

text \<open>
  The receiving end of one sequence (\<open>ReceiveSequence\<close> in transfer.go): packs arrive in any order, late,
  twice or not at all; the sequence hands the acked messages to the client in the order of their sequence
  numbers, charges every message to a contract of the sender, and answers with cumulative and selective
  acks. A handler is a function from the state to the state, \<open>None\<close> where the Go code panics. What a
  handler does outside the sequence (callbacks to the client, contract reports, audits, buffers returned
  to the message pool) is appended to \<open>r_log\<close>.

  The clock is read once per handler (\<open>now\<close>). Verification of contracts, the no-contract setting and the
  protobuf decoders come from other packages and files; they are the fields of \<open>receive_env\<close>.
\<close>

section \<open>State\<close>

record receiveItem = transferItem +
  ri_contractId :: "Id option"
  ri_head :: bool
  ri_receiveTime :: time
  ri_frames :: "Frame list"
  ri_contractFrame :: "Frame option"
  ri_receiveCallback :: nat
  ri_ack :: bool
  ri_tag :: "Tag option"
  ri_transferFrameBytes :: "byte list"

record ReceivePack =
  rp_Source :: TransferPath
  rp_SequenceId :: Id
  rp_Pack :: Pack
  rp_ReceiveCallback :: nat
  rp_MessageByteCount :: ByteCount
  rp_TransferFrameBytes :: "byte list"

record ReceiveBufferSettings =
  rs_GapTimeout :: duration
  rs_IdleTimeout :: duration
  rs_SequenceBufferSize :: nat
  rs_AckCompressTimeout :: duration
  rs_MinMessageByteCount :: ByteCount
  rs_MaxPeerAuditDuration :: duration
  rs_WriteTimeout :: duration
  rs_ReceiveQueueMaxByteCount :: ByteCount
  rs_AllowLegacyNack :: bool
  rs_MaxOpenReceiveContract :: int
  rs_ProtocolVersion :: int

definition DefaultReceiveBufferSettings :: ReceiveBufferSettings where
  "DefaultReceiveBufferSettings =
     \<lparr>rs_GapTimeout = 30 * 10 ^ 9, rs_IdleTimeout = 120 * 10 ^ 9, rs_SequenceBufferSize = 16,
      rs_AckCompressTimeout = 0, rs_MinMessageByteCount = 1, rs_MaxPeerAuditDuration = 60 * 10 ^ 9,
      rs_WriteTimeout = 30 * 10 ^ 9, rs_ReceiveQueueMaxByteCount = int64 (mib 2 + kib 512),
      rs_AllowLegacyNack = True, rs_MaxOpenReceiveContract = 4, rs_ProtocolVersion = 2\<rparr>"

text \<open>
  \<open>Callback\<close> is the call of the item's \<open>receiveCallback\<close> with the source, the frames of the item and the
  provide mode.
\<close>

datatype receive_event =
    Callback receiveItem TransferPath int
  | CloseContract Id ByteCount ByteCount
  | CheckpointContract Id ByteCount ByteCount
  | SendControl ProtoPeerAudit
  | PoolReturn "byte list"

text \<open>
  Contracts are shared by pointer: \<open>contracts\<close> is their store, the open ones are found by id and one of
  them is current. The order of the association list stands for the order in which Go iterates over the
  map. \<open>nextPtr\<close> is the first free address of both stores.
\<close>

record ReceiveSequence =
  r_source :: TransferPath
  r_sequenceId :: Id
  r_settings :: ReceiveBufferSettings
  contracts :: "ptr \<Rightarrow> sequenceContract"
  openReceiveContracts :: "(Id \<times> ptr) list"
  receiveContract :: "ptr option"
  receiveQueue :: "receiveItem transferQueue"
  nextSequenceNumber :: u64
  idleCondition :: IdleCondition
  r_peerAudit :: SequencePeerAudit
  ackWindow :: sequenceAckWindow
  nextPtr :: ptr
  r_log :: "receive_event list"

record receive_env =
  unmarshalContract :: "byte list \<Rightarrow> Contract option"
  unmarshalStored :: "byte list \<Rightarrow> StoredContract option"
  verifyContract :: "byte list \<Rightarrow> byte list \<Rightarrow> int \<Rightarrow> bool"
  receiveNoContract :: "Id \<Rightarrow> bool"
  newLocalId :: "nat \<Rightarrow> Id"
  auditMarshal :: "ProtoPeerAudit \<Rightarrow> bool"

datatype receive_error = BadMessageId | BadNackContractId | BadContractFrame | ContractVerificationFailed
  | BadContract contract_error | NoContract

definition newReceiveQueue :: "(ptr \<Rightarrow> receiveItem) \<Rightarrow> receiveItem transferQueue" where
  "newReceiveQueue m = newTransferQueue m compareSequenceNumber"

definition NewReceiveSequence ::
    "TransferPath \<Rightarrow> Id \<Rightarrow> ReceiveBufferSettings \<Rightarrow> (ptr \<Rightarrow> receiveItem) \<Rightarrow> (ptr \<Rightarrow> sequenceContract) \<Rightarrow> ReceiveSequence" where
  "NewReceiveSequence src sid settings items cs =
     \<lparr>r_source = src, r_sequenceId = sid, r_settings = settings, contracts = cs, openReceiveContracts = [],
      receiveContract = None, receiveQueue = newReceiveQueue items, nextSequenceNumber = 0,
      idleCondition = NewIdleCondition,
      r_peerAudit = NewSequencePeerAudit src (rs_MaxPeerAuditDuration settings),
      ackWindow = newSequenceAckWindow, nextPtr = 0, r_log = []\<rparr>"

definition ReceiveQueueSize :: "ReceiveSequence \<Rightarrow> nat \<times> ByteCount" where
  "ReceiveQueueSize s = QueueSize (receiveQueue s)"

text \<open>The item behind a pointer, and allocation.\<close>

abbreviation item_at :: "ReceiveSequence \<Rightarrow> ptr \<Rightarrow> receiveItem" where
  "item_at s p \<equiv> mem (receiveQueue s) p"

definition setItem :: "ReceiveSequence \<Rightarrow> ptr \<Rightarrow> receiveItem \<Rightarrow> ReceiveSequence" where
  "setItem s p x = s\<lparr>receiveQueue := (receiveQueue s)\<lparr>mem := (mem (receiveQueue s))(p := x)\<rparr>\<rparr>"

definition newItem :: "ReceiveSequence \<Rightarrow> receiveItem \<Rightarrow> ReceiveSequence \<times> ptr" where
  "newItem s x = ((setItem s (nextPtr s) x)\<lparr>nextPtr := nextPtr s + 1\<rparr>, nextPtr s)"

definition emit :: "receive_event list \<Rightarrow> ReceiveSequence \<Rightarrow> ReceiveSequence" where
  "emit es s = s\<lparr>r_log := r_log s @ es\<rparr>"

definition audit :: "receive_env \<Rightarrow> time \<Rightarrow> (PeerAudit \<Rightarrow> PeerAudit) \<Rightarrow> ReceiveSequence \<Rightarrow> ReceiveSequence" where
  "audit env now f s =
     (let (a, sent) = audit_Update (auditMarshal env) now f (r_peerAudit s)
      in emit (map SendControl sent) (s\<lparr>r_peerAudit := a\<rparr>))"

section \<open>Acks and contracts\<close>

definition sendAck :: "u64 \<Rightarrow> Id \<Rightarrow> bool \<Rightarrow> Tag option \<Rightarrow> ReceiveSequence \<Rightarrow> ReceiveSequence" where
  "sendAck n m selective tg s =
     s\<lparr>ackWindow := ackWindow_Update (ackWindow s)
        \<lparr>a_sequenceNumber = n, a_messageId = m, a_selective = selective, a_tag = tg\<rparr>\<rparr>"

text \<open>\<open>slices.SortFunc\<close> by the order in which the contracts were created.\<close>

fun insertByLocalId :: "(ptr \<Rightarrow> sequenceContract) \<Rightarrow> ptr \<Rightarrow> ptr list \<Rightarrow> ptr list" where
  "insertByLocalId cm p [] = [p]"
| "insertByLocalId cm p (q # qs) =
     (if Id_Cmp (localId (cm p)) (localId (cm q)) \<le> 0 then p # q # qs else q # insertByLocalId cm p qs)"

definition sortByLocalId :: "(ptr \<Rightarrow> sequenceContract) \<Rightarrow> ptr list \<Rightarrow> ptr list" where
  "sortByLocalId cm ps = foldr (insertByLocalId cm) ps []"

text \<open>One iteration of the loop that closes the oldest contracts; never the current one.\<close>

definition closeOldContract :: "ptr \<Rightarrow> ReceiveSequence \<Rightarrow> ReceiveSequence" where
  "closeOldContract c s =
     (if Some c \<noteq> receiveContract s then
        let k = contracts s c;
            s = emit [CloseContract (contractId k) (ackedByteCount k) (unackedByteCount k)] s
        in s\<lparr>openReceiveContracts := AList.delete (contractId k) (openReceiveContracts s)\<rparr>
      else s)"

text \<open>\<open>setContract\<close> always returns a nil error. The slice \<open>[:d]\<close> panics when \<open>d\<close> exceeds the length.\<close>

definition r_setContract :: "ptr \<Rightarrow> ReceiveSequence \<Rightarrow> ReceiveSequence option" where
  "r_setContract c s =
     (let cid = contractId (contracts s c) in
      if (case receiveContract s of None \<Rightarrow> False | Some p \<Rightarrow> contractId (contracts s p) = cid) then Some s
      else (case map_of (openReceiveContracts s) cid of
          Some p \<Rightarrow> Some (s\<lparr>receiveContract := Some p\<rparr>)
        | None \<Rightarrow>
            let s = s\<lparr>openReceiveContracts := AList.update cid c (openReceiveContracts s)\<rparr>;
                s = s\<lparr>receiveContract := Some c\<rparr>;
                d = int (length (openReceiveContracts s)) - rs_MaxOpenReceiveContract (r_settings s)
            in if 0 < d then
                 (if int (length (openReceiveContracts s)) < d then None
                  else Some (fold closeOldContract
                    (take (nat d) (sortByLocalId (contracts s) (map snd (openReceiveContracts s)))) s))
               else Some s))"

definition registerContracts ::
    "receive_env \<Rightarrow> time \<Rightarrow> ptr \<Rightarrow> ReceiveSequence \<Rightarrow> (ReceiveSequence \<times> receive_error option) option" where
  "registerContracts env now p s =
     (case ri_contractFrame (item_at s p) of
        None \<Rightarrow> Some (s, None)
      | Some frame \<Rightarrow>
          (case unmarshalContract env (f_MessageBytes frame) of
             None \<Rightarrow> Some (audit env now (audit_badMessage (messageByteCount (item_at s p))) s, Some BadContractFrame)
           | Some c \<Rightarrow>
               if \<not> verifyContract env (StoredContractHmac c) (StoredContractBytes c) (c_ProvideMode c) then
                 Some (audit env now audit_badContract s, Some ContractVerificationFailed)
               else
                 (case newSequenceContract (unmarshalStored env) (newLocalId env (nextPtr s)) ''r'' c
                    (rs_MinMessageByteCount (r_settings s)) 1 of
                    Inl e \<Rightarrow> Some (audit env now audit_badContract s, Some (BadContract e))
                  | Inr k \<Rightarrow>
                      do {
                        let c = nextPtr s;
                        let s = s\<lparr>contracts := (contracts s)(c := k), nextPtr := c + 1\<rparr>;
                        s \<leftarrow> r_setContract c s;
                        Some (s, None)
                      })))"

definition noContractAllowed :: "receive_env \<Rightarrow> ReceiveSequence \<Rightarrow> bool" where
  "noContractAllowed env s = (\<not> IsStream (r_source s) \<and> receiveNoContract env (sourceId (r_source s)))"

definition r_updateContract :: "receive_env \<Rightarrow> ptr \<Rightarrow> ReceiveSequence \<Rightarrow> ReceiveSequence \<times> bool" where
  "r_updateContract env p s =
     (let item = item_at s p in
      case ri_contractId item of
        Some cid \<Rightarrow>
          (case map_of (openReceiveContracts s) cid of
             Some c \<Rightarrow>
               (let (k, success) = contract_update (contracts s c) (messageByteCount item);
                    s = s\<lparr>contracts := (contracts s)(c := k)\<rparr>
                in if success then (s, True) else (s, noContractAllowed env s))
           | None \<Rightarrow> (s, noContractAllowed env s))
      | None \<Rightarrow>
          (case receiveContract s of
             Some c \<Rightarrow>
               (let (k, success) = contract_update (contracts s c) (messageByteCount item);
                    s = s\<lparr>contracts := (contracts s)(c := k)\<rparr>
                in if success then (setItem s p (item\<lparr>ri_contractId := Some (contractId k)\<rparr>), True)
                   else (s, noContractAllowed env s))
           | None \<Rightarrow> (s, noContractAllowed env s)))"

text \<open>
  \<open>receiveHead\<close> looks the contract of the item up without testing that it is there: \<open>None\<close> is the nil
  dereference, or the "Bad accounting" panic of \<open>ack\<close>.
\<close>

definition receiveHead :: "receive_env \<Rightarrow> time \<Rightarrow> ptr \<Rightarrow> ReceiveSequence \<Rightarrow> ReceiveSequence option" where
  "receiveHead env now p s =
     do {
       let item = item_at s p;
       let s = audit env now (audit_received (messageByteCount item)) s;
       (s, mode) \<leftarrow>
         (case ri_contractId item of
            None \<Rightarrow> Some (s, ProvideMode_Network)
          | Some cid \<Rightarrow>
              do {
                c \<leftarrow> map_of (openReceiveContracts s) cid;
                k \<leftarrow> contract_ack (contracts s c) (messageByteCount item);
                Some (s\<lparr>contracts := (contracts s)(c := k)\<rparr>, provideMode k)
              });
       let s = emit [Callback item (r_source s) mode] s;
       let s = (if ri_ack item then sendAck (sequenceNumber item) (messageId item) False (ri_tag item) s else s);
       Some (emit [PoolReturn (ri_transferFrameBytes item)] s)
     }"

section \<open>Receiving a pack\<close>

definition packItem :: "time \<Rightarrow> ReceivePack \<Rightarrow> Id \<Rightarrow> Id option \<Rightarrow> receiveItem" where
  "packItem now pack m cid =
     \<lparr>messageId = m, messageByteCount = rp_MessageByteCount pack, sequenceNumber = pk_SequenceNumber (rp_Pack pack),
      heapIndex = 0, maxHeapIndex = 0, ri_contractId = cid, ri_head = pk_Head (rp_Pack pack), ri_receiveTime = now,
      ri_frames = pk_Frames (rp_Pack pack), ri_contractFrame = pk_ContractFrame (rp_Pack pack),
      ri_receiveCallback = rp_ReceiveCallback pack, ri_ack = (\<not> pk_Nack (rp_Pack pack)), ri_tag = pk_Tag (rp_Pack pack),
      ri_transferFrameBytes = rp_TransferFrameBytes pack\<rparr>"

definition canQueue :: "ReceiveSequence \<Rightarrow> ByteCount \<Rightarrow> bool" where
  "canQueue s b =
     (let (queueSize, queueByteCount) = QueueSize (receiveQueue s) in
      if queueSize = 0 then True
      else int64 (queueByteCount + b) < rs_ReceiveQueueMaxByteCount (r_settings s))"

text \<open>
  The loop that removes later items to fit. Each round removes an item, so one round more than there are
  items is enough fuel; \<open>None\<close> would be the nil dereference of an empty queue, or a loop that goes on.
\<close>

primrec makeRoom :: "nat \<Rightarrow> ByteCount \<Rightarrow> u64 \<Rightarrow> ReceiveSequence \<Rightarrow> ReceiveSequence option" where
  "makeRoom 0 b n s = None"
| "makeRoom (Suc fuel) b n s =
     (if canQueue s b then Some s
      else do {
        lastItem \<leftarrow> PeekLast (receiveQueue s);
        if n < sequenceNumber (item_at s lastItem) then do {
          (q, _) \<leftarrow> RemoveByMessageId (receiveQueue s) (messageId (item_at s lastItem));
          let s = s\<lparr>receiveQueue := q\<rparr>;
          let s = emit [PoolReturn (ri_transferFrameBytes (item_at s lastItem))] s;
          makeRoom fuel b n s
        } else Some s
      })"

text \<open>The audit of a queued item that a resend replaces.\<close>

definition auditRemoved :: "receive_env \<Rightarrow> time \<Rightarrow> ptr option \<Rightarrow> ReceiveSequence \<Rightarrow> ReceiveSequence" where
  "auditRemoved env now removed_item s =
     (case removed_item of None \<Rightarrow> s | Some p \<Rightarrow> audit env now (audit_resend (messageByteCount (item_at s p))) s)"

text \<open>
  \<open>receive\<close>, from the point where the item \<open>p\<close> is made and older copies of it are gone: the head is
  delivered, the past is acked again, the future is queued.
\<close>

definition receivePlaced ::
    "receive_env \<Rightarrow> time \<Rightarrow> ReceivePack \<Rightarrow> Id \<Rightarrow> ptr \<Rightarrow> ReceiveSequence \<Rightarrow>
     (ReceiveSequence \<times> (receive_error + bool)) option" where
  "receivePlaced env now pack m p s =
     (let n = pk_SequenceNumber (rp_Pack pack) in
      if n \<le> nextSequenceNumber s then
        if nextSequenceNumber s = n then do {
          let s = s\<lparr>nextSequenceNumber := nextSequenceNumber s + 1\<rparr>;
          (s, err) \<leftarrow> registerContracts env now p s;
          case err of Some e \<Rightarrow> Some (s, Inl e)
          | None \<Rightarrow>
              (case r_updateContract env p s of (s, success) \<Rightarrow>
                 if success then do { s \<leftarrow> receiveHead env now p s; Some (s, Inr True) }
                 else Some (s, Inl NoContract))
        }
        else
          Some (if ri_ack (item_at s p) then sendAck n m False None s else s, Inr False)
      else do {
        s \<leftarrow> makeRoom (Suc (fst (QueueSize (receiveQueue s)))) (rp_MessageByteCount pack) n s;
        if canQueue s (rp_MessageByteCount pack) then
          let s = s\<lparr>receiveQueue := Add (receiveQueue s) p\<rparr> in
          Some (sendAck n m True (ri_tag (item_at s p)) s, Inr True)
        else Some (s, Inr False)
      })"

definition receive ::
    "receive_env \<Rightarrow> time \<Rightarrow> ReceivePack \<Rightarrow> ReceiveSequence \<Rightarrow> (ReceiveSequence \<times> (receive_error + bool)) option" where
  "receive env now pack s =
     (let n = pk_SequenceNumber (rp_Pack pack) in
      case IdFromBytes (pk_MessageId (rp_Pack pack)) of
        Inl _ \<Rightarrow> Some (s, Inl BadMessageId)
      | Inr m \<Rightarrow>
          do {
            let (s, p) = newItem s (packItem now pack m None);
            let s = (if ri_head (item_at s p) \<and> nextSequenceNumber s < n then s\<lparr>nextSequenceNumber := n\<rparr> else s);
            (q, removed_item) \<leftarrow> RemoveBySequenceNumber (receiveQueue s) n;
            let s = auditRemoved env now removed_item (s\<lparr>receiveQueue := q\<rparr>);
            (q, removed_item) \<leftarrow> RemoveByMessageId (receiveQueue s) m;
            let s = auditRemoved env now removed_item (s\<lparr>receiveQueue := q\<rparr>);
            receivePlaced env now pack m p s
          })"

definition receiveNack ::
    "receive_env \<Rightarrow> time \<Rightarrow> ReceivePack \<Rightarrow> ReceiveSequence \<Rightarrow> (ReceiveSequence \<times> (receive_error + bool)) option" where
  "receiveNack env now pack s =
     (case IdFromBytes (pk_MessageId (rp_Pack pack)) of
        Inl _ \<Rightarrow> Some (s, Inl BadMessageId)
      | Inr m \<Rightarrow>
          (case (case pk_ContractId (rp_Pack pack) of None \<Rightarrow> Inr None
                 | Some bs \<Rightarrow> map_sum id Some (IdFromBytes bs)) of
             Inl _ \<Rightarrow> Some (s, Inl BadNackContractId)
           | Inr cid \<Rightarrow>
               if cid = None \<and> \<not> rs_AllowLegacyNack (r_settings s) then Some (s, Inr False)
               else do {
                 let (s, p) = newItem s (packItem now pack m cid);
                 (s, err) \<leftarrow> registerContracts env now p s;
                 case err of Some e \<Rightarrow> Some (s, Inl e)
                 | None \<Rightarrow>
                     if (case cid of None \<Rightarrow> False | Some i \<Rightarrow> map_of (openReceiveContracts s) i = None)
                     then Some (s, Inr False)
                     else
                       (case r_updateContract env p s of (s, success) \<Rightarrow>
                          if success then do { s \<leftarrow> receiveHead env now p s; Some (s, Inr True) }
                          else Some (s, Inr False))
               }))"

section \<open>The run loop\<close>

text \<open>Why \<open>Run\<close> returns.\<close>

datatype run_exit = GapTimedOut | RegisterFailed receive_error | HeadWithoutContract | BadPack receive_error
  | IdleClosed | Canceled | PacksClosed

text \<open>
  The inner loop of \<open>Run\<close>: items at the front of the queue whose turn has come. The result is a reason to
  exit, or how long to wait for the next pack. Each round that goes on removes an item, so one round more
  than there are items is enough fuel.
\<close>

primrec drainQueue ::
    "receive_env \<Rightarrow> time \<Rightarrow> nat \<Rightarrow> ReceiveSequence \<Rightarrow> (ReceiveSequence \<times> (run_exit + duration)) option" where
  "drainQueue env now 0 s = None"
| "drainQueue env now (Suc fuel) s =
     (let timeout = rs_GapTimeout (r_settings s) in
      case PeekFirst (receiveQueue s) of
        None \<Rightarrow> Some (s, Inr timeout)
      | Some p \<Rightarrow>
          let item = item_at s p;
              itemGapTimeout = ri_receiveTime item + rs_GapTimeout (r_settings s) - now
          in if itemGapTimeout < 0 then Some (s, Inl GapTimedOut)
             else if nextSequenceNumber s < sequenceNumber item then
               Some (s, Inr (if itemGapTimeout < timeout then itemGapTimeout else timeout))
             else do {
               (q, _) \<leftarrow> RemoveByMessageId (receiveQueue s) (messageId item);
               let s = s\<lparr>receiveQueue := q\<rparr>;
               if nextSequenceNumber s = sequenceNumber item then do {
                 (s, err) \<leftarrow> registerContracts env now p s;
                 case err of Some e \<Rightarrow> Some (s, Inl (RegisterFailed e))
                 | None \<Rightarrow>
                     (case r_updateContract env p s of (s, success) \<Rightarrow>
                        if success then do {
                          let s = s\<lparr>nextSequenceNumber := nextSequenceNumber s + 1\<rparr>;
                          s \<leftarrow> receiveHead env now p s;
                          drainQueue env now fuel s
                        }
                        else Some (s, Inl HeadWithoutContract))
               }
               else
                 drainQueue env now fuel
                   (if ri_ack item then sendAck (sequenceNumber item) (messageId item) False None s else s)
             })"

definition run_wait :: "receive_env \<Rightarrow> time \<Rightarrow> ReceiveSequence \<Rightarrow> (ReceiveSequence \<times> (run_exit + duration)) option" where
  "run_wait env now s =
     (let queueSize = fst (QueueSize (receiveQueue s)) in
      if 0 = queueSize then Some (s, Inr (rs_IdleTimeout (r_settings s)))
      else drainQueue env now (Suc queueSize) s)"

text \<open>The \<open>select\<close> receives a pack: \<open>None\<close> in the second component is "go on".\<close>

definition run_pack ::
    "receive_env \<Rightarrow> time \<Rightarrow> ReceivePack \<Rightarrow> ReceiveSequence \<Rightarrow> (ReceiveSequence \<times> run_exit option) option" where
  "run_pack env now pack s =
     do {
       (s, received) \<leftarrow> (if pk_Nack (rp_Pack pack) then receiveNack env now pack s else receive env now pack s);
       Some (case received of
           Inl e \<Rightarrow> (emit [PoolReturn (rp_TransferFrameBytes pack)]
             (audit env now (audit_badMessage (rp_MessageByteCount pack)) s), Some (BadPack e))
         | Inr r \<Rightarrow> if r then (s, None)
             else (emit [PoolReturn (rp_TransferFrameBytes pack)]
               (audit env now (audit_discard (rp_MessageByteCount pack)) s), None))
     }"

text \<open>The timeout fires; \<open>checkpointId\<close> was taken before the wait.\<close>

definition run_timeout :: "u64 \<Rightarrow> ReceiveSequence \<Rightarrow> ReceiveSequence \<times> run_exit option" where
  "run_timeout checkpointId s =
     (if tq_Len (receiveQueue s) = 0 then
        (case Idle_Close (idleCondition s) checkpointId of (c, done') \<Rightarrow>
           (s\<lparr>idleCondition := c\<rparr>, if done' then Some IdleClosed else None))
      else (s, None))"

text \<open>The deferred function of \<open>Run\<close>: contracts are closed or checkpointed, the queue is discarded.\<close>

definition closeContractOnExit :: "Id \<times> ptr \<Rightarrow> ReceiveSequence \<Rightarrow> ReceiveSequence" where
  "closeContractOnExit ic s =
     (let k = contracts s (snd ic) in
      if receiveContract s \<noteq> Some (snd ic)
      then emit [CloseContract (contractId k) (ackedByteCount k) (unackedByteCount k)] s else s)"

definition discardOnExit :: "receive_env \<Rightarrow> time \<Rightarrow> ptr \<Rightarrow> ReceiveSequence \<Rightarrow> ReceiveSequence" where
  "discardOnExit env now p s =
     emit [PoolReturn (ri_transferFrameBytes (item_at s p))]
       (audit env now (audit_discard (messageByteCount (item_at s p))) s)"

definition run_exit_cleanup :: "receive_env \<Rightarrow> time \<Rightarrow> ReceiveSequence \<Rightarrow> ReceiveSequence" where
  "run_exit_cleanup env now s =
     (let s = fold closeContractOnExit (openReceiveContracts s) s;
          s = (case receiveContract s of None \<Rightarrow> s
               | Some c \<Rightarrow> emit [CheckpointContract (contractId (contracts s c)) (ackedByteCount (contracts s c))
                   (unackedByteCount (contracts s c))] s);
          s = fold (discardOnExit env now) (orderedItems (receiveQueue s)) s;
          (a, sent) = audit_Complete (auditMarshal env) (r_peerAudit s)
      in emit (map SendControl sent) (s\<lparr>r_peerAudit := a\<rparr>))"

text \<open>
  \<open>Pack\<close>, called on other goroutines under \<open>packMutex\<close>: it opens an update, waits in a \<open>select\<close>, and
  closes the update. The state is the sequence and the contents of its channel. The \<open>select\<close> ends with
  the context done, with room in the channel (\<open>None\<close> when there is none: the case is not ready), or with
  the timeout.
\<close>

datatype pack_error = PackDone
datatype select_case = SelectDone | SelectSend | SelectTimeout

definition Pack_open :: "bool \<Rightarrow> ReceiveSequence \<Rightarrow> ReceiveSequence \<times> bool" where
  "Pack_open cancelled s =
     (if cancelled then (s, False)
      else case UpdateOpen (idleCondition s) of (c, success) \<Rightarrow> (s\<lparr>idleCondition := c\<rparr>, success))"

definition Pack_select ::
    "select_case \<Rightarrow> ReceivePack \<Rightarrow> ReceiveSequence \<times> ReceivePack list \<Rightarrow>
     ((ReceiveSequence \<times> ReceivePack list) \<times> (pack_error + bool)) option" where
  "Pack_select sel pack sp =
     (case sp of (s, packs) \<Rightarrow>
        let s = s\<lparr>idleCondition := UpdateClose (idleCondition s)\<rparr> in
        case sel of
          SelectDone \<Rightarrow> Some ((s, packs), Inl PackDone)
        | SelectSend \<Rightarrow> if length packs < rs_SequenceBufferSize (r_settings s)
            then Some ((s, packs @ [pack]), Inr True) else None
        | SelectTimeout \<Rightarrow> Some ((s, packs), Inr False))"

section \<open>The ack writer\<close>

definition ackFrame :: "(Ack \<Rightarrow> byte list) \<Rightarrow> Id \<Rightarrow> ReceiveSequence \<Rightarrow> sequenceAck \<Rightarrow> TransferFrame" where
  "ackFrame marshal clientId s a =
     (let ack = \<lparr>k_MessageId = Id_Bytes (a_messageId a), k_SequenceId = Id_Bytes (r_sequenceId s),
            k_Selective = a_selective a, k_Tag = a_tag a\<rparr>;
          path = AddSource (Reverse (r_source s)) clientId;
          frame = \<lparr>tf_TransferPath = TransferPath_ToProtobuf path, tf_MessageType = None, tf_Pack = None, tf_Ack = None, tf_Frame = None\<rparr>
      in if 2 \<le> rs_ProtocolVersion (r_settings s)
         then frame\<lparr>tf_MessageType := Some MessageType_TransferAck, tf_Ack := Some ack\<rparr>
         else frame\<lparr>tf_Frame := Some \<lparr>f_MessageType = MessageType_TransferAck, f_MessageBytes = marshal ack, f_Raw = False\<rparr>\<rparr>)"

text \<open>One round of the writer: the acks that it sends, the head first.\<close>

definition ackWriter_round :: "(Ack \<Rightarrow> byte list) \<Rightarrow> Id \<Rightarrow> ReceiveSequence \<Rightarrow> (ReceiveSequence \<times> TransferFrame list) option" where
  "ackWriter_round marshal clientId s =
     do {
       (w, snapshot) \<leftarrow> ackWindow_Snapshot (ackWindow s) True;
       let s = s\<lparr>ackWindow := w\<rparr>;
       headAcks \<leftarrow> (if 0 < s_ackUpdateCount snapshot then map_option (\<lambda>a. [a]) (s_headAck snapshot) else Some []);
       let selective = map (\<lambda>(m, a). \<lparr>a_sequenceNumber = a_sequenceNumber a, a_messageId = m, a_selective = True, a_tag = a_tag a\<rparr>)
         (s_selectiveAcks snapshot);
       Some (s, map (ackFrame marshal clientId s) (headAcks @ selective))
     }"

section \<open>A whole run\<close>

text \<open>
  What the goroutine of \<open>Run\<close> meets from outside: a pack from the channel, the timer (with the calls that
  other goroutines made on the idle condition since the checkpoint), and, between two rounds, the ack writer
  taking its snapshot.
\<close>

datatype run_input = PackArrives time ReceivePack | TimerFires time "idle_call list" | AcksWritten

definition run_round ::
    "receive_env \<Rightarrow> time \<Rightarrow> (u64 \<Rightarrow> ReceiveSequence \<Rightarrow> (ReceiveSequence \<times> run_exit option) option) \<Rightarrow>
     ReceiveSequence \<Rightarrow> (ReceiveSequence \<times> run_exit option) option" where
  "run_round env now event s =
     do {
       (s, timeout) \<leftarrow> run_wait env now s;
       case timeout of Inl e \<Rightarrow> Some (s, Some e)
       | Inr _ \<Rightarrow> event (Checkpoint (idleCondition s)) s
     }"

definition run_input_step ::
    "receive_env \<Rightarrow> (Ack \<Rightarrow> byte list) \<Rightarrow> Id \<Rightarrow> run_input \<Rightarrow> ReceiveSequence \<Rightarrow> (ReceiveSequence \<times> run_exit option) option" where
  "run_input_step env marshal clientId i s =
     (case i of
        PackArrives now pack \<Rightarrow> run_round env now (\<lambda>_. run_pack env now pack) s
      | TimerFires now calls \<Rightarrow>
          run_round env now (\<lambda>checkpointId s. Some (run_timeout checkpointId
            (s\<lparr>idleCondition := fst (idle_calls calls (idleCondition s))\<rparr>))) s
      | AcksWritten \<Rightarrow> map_option (\<lambda>(s, _). (s, None)) (ackWriter_round marshal clientId s))"

primrec receive_run ::
    "receive_env \<Rightarrow> (Ack \<Rightarrow> byte list) \<Rightarrow> Id \<Rightarrow> run_input list \<Rightarrow> ReceiveSequence \<Rightarrow> (ReceiveSequence \<times> run_exit option) option" where
  "receive_run env marshal clientId [] s = Some (s, None)"
| "receive_run env marshal clientId (i # is) s = do {
     (s, e) \<leftarrow> run_input_step env marshal clientId i s;
     case e of Some e \<Rightarrow> Some (s, Some e) | None \<Rightarrow> receive_run env marshal clientId is s
   }"

text \<open>\<open>Close\<close> closes the channel and returns the buffers of the packs left in it.\<close>

definition ReceiveSequence_Close :: "ReceiveSequence \<times> ReceivePack list \<Rightarrow> ReceiveSequence \<times> ReceivePack list" where
  "ReceiveSequence_Close sp = (case sp of (s, packs) \<Rightarrow> (emit (map (PoolReturn \<circ> rp_TransferFrameBytes) packs) s, []))"

end
