(* ===== verification/Receive_Invariant.thy ===== *)
theory Receive_Invariant
  imports Receive_Sequence "HOL-Library.Sublist"
begin

text \<open>
  The invariant of a receive sequence, kept by every handler, and what follows from it: no handler
  panics, the queue stays within its byte bound, no contract is overdrawn, and the acked messages reach
  the client in the order of their sequence numbers.
\<close>

section \<open>Assumptions on the environment\<close>

definition settings_ok :: "ReceiveBufferSettings \<Rightarrow> bool" where
  "settings_ok st \<longleftrightarrow> 0 \<le> rs_MinMessageByteCount st \<and> rs_MinMessageByteCount st \<le> maxMessageByteCount \<and>
     0 \<le> rs_MaxOpenReceiveContract st \<and> rs_ReceiveQueueMaxByteCount st \<le> 2 ^ 62"

definition env_ok :: "receive_env \<Rightarrow> bool" where
  "env_ok env \<longleftrightarrow> (\<forall>bs st. unmarshalStored env bs = Some st \<longrightarrow> uint (s_TransferByteCount st) < maxStoredByteCount)"

definition bytes_ok :: "ByteCount \<Rightarrow> bool" where
  "bytes_ok b \<longleftrightarrow> 0 \<le> b \<and> b \<le> maxMessageByteCount"

text \<open>The last sequence number is not used, so that the next one does not wrap.\<close>

definition pack_ok :: "ReceivePack \<Rightarrow> bool" where
  "pack_ok pack \<longleftrightarrow> bytes_ok (rp_MessageByteCount pack) \<and> pk_SequenceNumber (rp_Pack pack) < - 1"

section \<open>The invariant\<close>

definition callbacks_of :: "receive_event list \<Rightarrow> receiveItem list" where
  "callbacks_of es = List.map_filter (\<lambda>e. case e of Callback item _ _ \<Rightarrow> Some item | _ \<Rightarrow> None) es"

text \<open>The sequence numbers of the acked messages that were handed to the client.\<close>

definition delivered :: "receive_event list \<Rightarrow> u64 list" where
  "delivered es = map sequenceNumber (filter ri_ack (callbacks_of es))"

text \<open>
  \<open>G\<close> says which messages (sequence number, message id and frames) the sender sent; only those may be
  queued, handed over or acked.
\<close>

type_synonym sent = "u64 \<Rightarrow> Id \<Rightarrow> Frame list \<Rightarrow> bool"

definition queue_ok :: "sent \<Rightarrow> receiveItem transferQueue \<Rightarrow> ptr \<Rightarrow> ByteCount \<Rightarrow> bool" where
  "queue_ok G q np mx \<longleftrightarrow> tq_inv q \<and> cmp q = compareSequenceNumber \<and>
     (\<forall>p\<in>tq_items q. p < np \<and> bytes_ok (messageByteCount (mem q p)) \<and> sequenceNumber (mem q p) < - 1 \<and>
       ri_contractId (mem q p) = None \<and> ri_ack (mem q p) \<and> G (sequenceNumber (mem q p)) (messageId (mem q p)) (ri_frames (mem q p))) \<and>
     (1 < card (tq_items q) \<longrightarrow> (\<Sum>p\<in>tq_items q. messageByteCount (mem q p)) < mx)"

definition contracts_wf :: "(ptr \<Rightarrow> sequenceContract) \<Rightarrow> (Id \<times> ptr) list \<Rightarrow> ptr option \<Rightarrow> ptr \<Rightarrow> bool" where
  "contracts_wf cs op cur np \<longleftrightarrow> distinct (map fst op) \<and>
     (\<forall>(i, c)\<in>set op. c < np \<and> contractId (cs c) = i \<and> contract_ok (cs c)) \<and>
     (\<forall>c. cur = Some c \<longrightarrow> (contractId (cs c), c) \<in> set op)"

text \<open>Between two handlers nothing that was charged is unacked.\<close>

definition settled :: "(ptr \<Rightarrow> sequenceContract) \<Rightarrow> (Id \<times> ptr) list \<Rightarrow> bool" where
  "settled cs op \<longleftrightarrow> (\<forall>(i, c)\<in>set op. unackedByteCount (cs c) = 0)"

definition acked_message :: "sent \<Rightarrow> u64 \<Rightarrow> u64 \<Rightarrow> Id \<Rightarrow> bool" where
  "acked_message G k n m \<longleftrightarrow> n < k \<and> (\<exists>fs. G n m fs)"

definition window_ok :: "sent \<Rightarrow> sequenceAckWindow \<Rightarrow> u64 \<Rightarrow> bool" where
  "window_ok G w k \<longleftrightarrow> ackWindow_ok w \<and>
     (\<forall>h. headAck w = Some h \<longrightarrow> acked_message G k (a_sequenceNumber h) (a_messageId h))"

definition log_ok :: "receive_event list \<Rightarrow> u64 \<Rightarrow> bool" where
  "log_ok es n \<longleftrightarrow> sorted_wrt (<) (delivered es) \<and> (\<forall>x\<in>set (delivered es). x < n)"

definition rs_inv :: "sent \<Rightarrow> ReceiveSequence \<Rightarrow> bool" where
  "rs_inv G s \<longleftrightarrow> settings_ok (r_settings s) \<and>
     queue_ok G (receiveQueue s) (nextPtr s) (rs_ReceiveQueueMaxByteCount (r_settings s)) \<and>
     contracts_wf (contracts s) (openReceiveContracts s) (receiveContract s) (nextPtr s) \<and>
     settled (contracts s) (openReceiveContracts s) \<and>
     window_ok G (ackWindow s) (nextSequenceNumber s) \<and> log_ok (r_log s) (nextSequenceNumber s) \<and>
     (\<forall>x\<in>set (callbacks_of (r_log s)). ri_ack x \<longrightarrow> G (sequenceNumber x) (messageId x) (ri_frames x))"

section \<open>What the small steps leave alone\<close>

text \<open>Everything but contracts, audits and contract reports.\<close>

definition same_flow :: "ReceiveSequence \<Rightarrow> ReceiveSequence \<Rightarrow> bool" where
  "same_flow s t \<longleftrightarrow> receiveQueue t = receiveQueue s \<and> nextSequenceNumber t = nextSequenceNumber s \<and>
     ackWindow t = ackWindow s \<and> r_settings t = r_settings s \<and> r_source t = r_source s \<and>
     r_sequenceId t = r_sequenceId s \<and> idleCondition t = idleCondition s \<and>
     callbacks_of (r_log t) = callbacks_of (r_log s) \<and> nextPtr s \<le> nextPtr t"

lemma same_flow_refl [simp]: "same_flow s s"
  by (simp add: same_flow_def)

lemma same_flow_trans: "same_flow s t \<Longrightarrow> same_flow t u \<Longrightarrow> same_flow s u"
  by (auto simp: same_flow_def)

lemma callbacks_of_append [simp]: "callbacks_of (es @ fs) = callbacks_of es @ callbacks_of fs"
  by (simp add: callbacks_of_def map_filter_def)

lemma callbacks_of_simps [simp]:
  "callbacks_of [] = []" "callbacks_of [Callback item src m] = [item]" "callbacks_of [CloseContract i a u] = []"
  "callbacks_of [CheckpointContract i a u] = []" "callbacks_of [PoolReturn bs] = []" "callbacks_of [SendControl m'] = []"
  "callbacks_of (map SendControl ms) = []"
  by (simp_all add: callbacks_of_def map_filter_def comp_def)

lemma delivered_append [simp]: "delivered (es @ fs) = delivered es @ delivered fs"
  by (simp add: delivered_def)

lemma delivered_cong: "callbacks_of es = callbacks_of fs \<Longrightarrow> delivered es = delivered fs"
  by (simp add: delivered_def)

lemma emit_fields [simp]:
  "receiveQueue (emit es s) = receiveQueue s" "nextSequenceNumber (emit es s) = nextSequenceNumber s"
  "ackWindow (emit es s) = ackWindow s" "r_settings (emit es s) = r_settings s" "r_source (emit es s) = r_source s"
  "r_sequenceId (emit es s) = r_sequenceId s" "idleCondition (emit es s) = idleCondition s"
  "nextPtr (emit es s) = nextPtr s" "contracts (emit es s) = contracts s"
  "openReceiveContracts (emit es s) = openReceiveContracts s" "receiveContract (emit es s) = receiveContract s"
  "r_log (emit es s) = r_log s @ es"
  by (simp_all add: emit_def)

lemma audit_fields [simp]:
  "receiveQueue (audit env now f s) = receiveQueue s" "nextSequenceNumber (audit env now f s) = nextSequenceNumber s"
  "ackWindow (audit env now f s) = ackWindow s" "r_settings (audit env now f s) = r_settings s"
  "r_source (audit env now f s) = r_source s" "r_sequenceId (audit env now f s) = r_sequenceId s"
  "idleCondition (audit env now f s) = idleCondition s" "nextPtr (audit env now f s) = nextPtr s"
  "contracts (audit env now f s) = contracts s" "openReceiveContracts (audit env now f s) = openReceiveContracts s"
  "receiveContract (audit env now f s) = receiveContract s"
  "callbacks_of (r_log (audit env now f s)) = callbacks_of (r_log s)"
  by (simp_all add: audit_def split: prod.splits)

lemma delivered_audit [simp]: "delivered (r_log (audit env now f s)) = delivered (r_log s)"
  by (rule delivered_cong) simp

lemma auditRemoved_fields [simp]:
  "receiveQueue (auditRemoved env now x s) = receiveQueue s"
  "nextSequenceNumber (auditRemoved env now x s) = nextSequenceNumber s"
  "ackWindow (auditRemoved env now x s) = ackWindow s" "r_settings (auditRemoved env now x s) = r_settings s"
  "r_source (auditRemoved env now x s) = r_source s" "nextPtr (auditRemoved env now x s) = nextPtr s"
  "contracts (auditRemoved env now x s) = contracts s"
  "openReceiveContracts (auditRemoved env now x s) = openReceiveContracts s"
  "receiveContract (auditRemoved env now x s) = receiveContract s"
  "callbacks_of (r_log (auditRemoved env now x s)) = callbacks_of (r_log s)"
  "delivered (r_log (auditRemoved env now x s)) = delivered (r_log s)"
  by (simp_all add: auditRemoved_def split: option.splits)

lemma sendAck_fields [simp]:
  "receiveQueue (sendAck n m b tg s) = receiveQueue s" "nextSequenceNumber (sendAck n m b tg s) = nextSequenceNumber s"
  "r_settings (sendAck n m b tg s) = r_settings s" "r_source (sendAck n m b tg s) = r_source s"
  "nextPtr (sendAck n m b tg s) = nextPtr s" "contracts (sendAck n m b tg s) = contracts s"
  "openReceiveContracts (sendAck n m b tg s) = openReceiveContracts s"
  "receiveContract (sendAck n m b tg s) = receiveContract s" "r_log (sendAck n m b tg s) = r_log s"
  by (simp_all add: sendAck_def)

lemma window_ok_sendAck:
  "window_ok G (ackWindow s) k \<Longrightarrow> selective \<or> acked_message G k n m \<Longrightarrow>
   window_ok G (ackWindow (sendAck n m selective tg s)) k"
proof -
  assume w: "window_ok G (ackWindow s) k" and n: "selective \<or> acked_message G k n m"
  define a where "a = \<lparr>a_sequenceNumber = n, a_messageId = m, a_selective = selective, a_tag = tg\<rparr>"
  have "headAck (ackWindow_Update (ackWindow s) a) = Some h \<Longrightarrow> acked_message G k (a_sequenceNumber h) (a_messageId h)" for h
    using w n by (auto simp: window_ok_def ackWindow_Update_def Let_def a_def split: if_splits)
  moreover have "ackWindow_ok (ackWindow_Update (ackWindow s) a)"
    using w by (intro ackWindow_ok_Update) (simp add: window_ok_def)
  ultimately show ?thesis by (simp add: window_ok_def sendAck_def a_def)
qed

lemma window_ok_mono: "window_ok G w n \<Longrightarrow> n \<le> k \<Longrightarrow> window_ok G w k"
  by (fastforce simp: window_ok_def acked_message_def)

lemma log_ok_mono: "log_ok es n \<Longrightarrow> n \<le> k \<Longrightarrow> log_ok es k"
  by (auto simp: log_ok_def)

section \<open>Contracts\<close>

lemma set_sortByLocalId [simp]: "set (sortByLocalId cm ps) = set ps"
proof -
  have "set (insertByLocalId cm p qs) = insert p (set qs)" for p qs by (induction qs) auto
  then show ?thesis by (induction ps) (auto simp: sortByLocalId_def)
qed

lemma length_sortByLocalId [simp]: "length (sortByLocalId cm ps) = length ps"
proof -
  have "length (insertByLocalId cm p qs) = Suc (length qs)" for p qs by (induction qs) auto
  then show ?thesis by (induction ps) (auto simp: sortByLocalId_def)
qed

abbreviation contracts_wf_of :: "ReceiveSequence \<Rightarrow> bool" where
  "contracts_wf_of s \<equiv> contracts_wf (contracts s) (openReceiveContracts s) (receiveContract s) (nextPtr s)"

abbreviation settled_of :: "ReceiveSequence \<Rightarrow> bool" where
  "settled_of s \<equiv> settled (contracts s) (openReceiveContracts s)"

text \<open>The part of the state that the loop closing old contracts leaves alone.\<close>

definition same_contracts :: "ReceiveSequence \<Rightarrow> ReceiveSequence \<Rightarrow> bool" where
  "same_contracts s t \<longleftrightarrow> same_flow s t \<and> contracts t = contracts s \<and> receiveContract t = receiveContract s \<and>
     nextPtr t = nextPtr s \<and> set (openReceiveContracts t) \<subseteq> set (openReceiveContracts s)"

lemma same_contracts_trans: "same_contracts s t \<Longrightarrow> same_contracts t u \<Longrightarrow> same_contracts s u"
  unfolding same_contracts_def using same_flow_trans [of s t u] by auto

lemma map_fst_delete: "distinct (map fst xs) \<Longrightarrow> distinct (map fst (AList.delete k xs))"
  by (rule distinct_delete)

lemma set_AList_delete: "set (AList.delete k xs) = {(i, c) \<in> set xs. i \<noteq> k}"
  by (auto simp: AList.delete_eq)

lemma closeOldContract_ok:
  assumes wf: "contracts_wf_of s" and cur: "receiveContract s = Some cur"
    and c: "contractId (contracts s c) = contractId (contracts s cur) \<Longrightarrow> c = cur"
  shows "same_contracts s (closeOldContract c s) \<and> contracts_wf_of (closeOldContract c s)"
proof (cases "c = cur")
  case True
  then show ?thesis using wf cur by (simp add: closeOldContract_def same_contracts_def)
next
  case False
  then have "contractId (contracts s c) \<noteq> contractId (contracts s cur)" using c by blast
  then show ?thesis
    using wf cur False
    by (auto simp: closeOldContract_def same_contracts_def same_flow_def contracts_wf_def Let_def set_AList_delete
        map_fst_delete)
qed

lemma closeOldContracts_ok:
  assumes "contracts_wf_of s" "receiveContract s = Some cur"
    and "\<forall>c\<in>set ps. contractId (contracts s c) = contractId (contracts s cur) \<longrightarrow> c = cur"
  shows "same_contracts s (fold closeOldContract ps s) \<and> contracts_wf_of (fold closeOldContract ps s)"
  using assms
proof (induction ps arbitrary: s)
  case Nil
  then show ?case by (simp add: same_contracts_def)
next
  case (Cons c ps)
  define t where "t = closeOldContract c s"
  have t: "same_contracts s t" "contracts_wf_of t"
    using closeOldContract_ok [OF Cons.prems(1,2), of c] Cons.prems(3) by (simp_all add: t_def)
  then have "same_contracts t (fold closeOldContract ps t) \<and> contracts_wf_of (fold closeOldContract ps t)"
    using Cons.prems by (intro Cons.IH) (simp_all add: same_contracts_def)
  then show ?case using same_contracts_trans [OF t(1)] by (simp add: t_def)
qed

lemma settled_subset: "settled cs op \<Longrightarrow> set op' \<subseteq> set op \<Longrightarrow> settled cs op'"
  by (auto simp: settled_def)

text \<open>A fresh contract becomes the current one, or the open contract with its id does.\<close>

lemma r_setContract_ok:
  assumes wf: "contracts_wf_of s" "settled_of s" and set: "settings_ok (r_settings s)"
    and c: "c < nextPtr s" "c \<notin> snd ` set (openReceiveContracts s)" "contract_ok (contracts s c)"
      "unackedByteCount (contracts s c) = 0"
  shows "\<exists>t p. r_setContract c s = Some t \<and> same_flow s t \<and> contracts_wf_of t \<and> settled_of t \<and>
    receiveContract t = Some p \<and> contractId (contracts t p) = contractId (contracts s c) \<and> contracts t = contracts s \<and>
    nextPtr t = nextPtr s"
proof -
  let ?id = "contractId (contracts s c)"
  consider (current) p where "receiveContract s = Some p" "contractId (contracts s p) = ?id"
    | (openc) p where "\<not> (\<exists>p. receiveContract s = Some p \<and> contractId (contracts s p) = ?id)"
        "map_of (openReceiveContracts s) ?id = Some p"
    | (new) "\<not> (\<exists>p. receiveContract s = Some p \<and> contractId (contracts s p) = ?id)"
        "map_of (openReceiveContracts s) ?id = None"
    by (cases "map_of (openReceiveContracts s) ?id") auto
  then show ?thesis
  proof cases
    case current
    then show ?thesis using wf by (simp add: r_setContract_def)
  next
    case openc
    then have "(?id, p) \<in> set (openReceiveContracts s)" by (simp add: map_of_SomeD)
    then have p: "(contractId (contracts s p), p) \<in> set (openReceiveContracts s)" "contractId (contracts s p) = ?id"
      using wf(1) by (auto simp: contracts_wf_def)
    define t where "t = s\<lparr>receiveContract := Some p\<rparr>"
    have "r_setContract c s = Some t"
      using openc by (cases "receiveContract s") (simp_all add: r_setContract_def Let_def t_def)
    moreover have "contracts_wf_of t" "settled_of t" "same_flow s t"
      using wf p(1) by (simp_all add: t_def contracts_wf_def same_flow_def)
    ultimately show ?thesis using p(2) by (auto simp: t_def)
  next
    case new
    define u where "u = s\<lparr>openReceiveContracts := AList.update ?id c (openReceiveContracts s), receiveContract := Some c\<rparr>"
    have fresh: "?id \<notin> fst ` set (openReceiveContracts s)" using new(2) by (simp add: map_of_eq_None_iff)
    have setu: "set (openReceiveContracts u) = insert (?id, c) (set (openReceiveContracts s))"
    proof -
      have "k \<notin> fst ` set xs \<Longrightarrow> set (AList.update k v xs) = insert (k, v) (set xs)" for k v and xs :: "(Id \<times> ptr) list"
        by (induction xs) auto
      then show ?thesis using fresh by (simp add: u_def)
    qed
    have u: "contracts_wf_of u" "settled_of u" "receiveContract u = Some c" "same_flow s u" "contracts u = contracts s"
      "nextPtr u = nextPtr s" "r_settings u = r_settings s"
      using wf c setu distinct_update [of "openReceiveContracts s" ?id c]
      by (auto simp: contracts_wf_def settled_def u_def same_flow_def)
    have inj: "\<forall>x\<in>snd ` set (openReceiveContracts u). contractId (contracts u x) = contractId (contracts u c) \<longrightarrow> x = c"
    proof (intro ballI impI)
      fix x assume x: "x \<in> snd ` set (openReceiveContracts u)" "contractId (contracts u x) = contractId (contracts u c)"
      show "x = c"
      proof (rule ccontr)
        assume "x \<noteq> c"
        then obtain i where i: "(i, x) \<in> set (openReceiveContracts s)" using x(1) setu by auto
        then have "contractId (contracts s x) = i" using wf(1) by (auto simp: contracts_wf_def)
        then have "?id = i" using x(2) u(5) by simp
        then show False using fresh i by (metis fst_conv imageI)
      qed
    qed
    show ?thesis
    proof (cases "0 < int (length (openReceiveContracts u)) - rs_MaxOpenReceiveContract (r_settings u)")
      case False
      then have "r_setContract c s = Some u"
        using new by (auto simp: r_setContract_def Let_def u_def split: option.splits)
      then show ?thesis using u by auto
    next
      case True
      define d where "d = int (length (openReceiveContracts u)) - rs_MaxOpenReceiveContract (r_settings u)"
      define ps where "ps = take (nat d) (sortByLocalId (contracts u) (map snd (openReceiveContracts u)))"
      have "\<not> int (length (openReceiveContracts u)) < d" using set u(7) by (simp add: d_def settings_ok_def)
      then have r: "r_setContract c s = Some (fold closeOldContract ps u)"
        using new True by (auto simp: r_setContract_def Let_def u_def ps_def d_def split: option.splits)
      have "set ps \<subseteq> snd ` set (openReceiveContracts u)"
        using set_take_subset by (fastforce simp: ps_def)
      then have "same_contracts u (fold closeOldContract ps u) \<and> contracts_wf_of (fold closeOldContract ps u)"
        using inj by (intro closeOldContracts_ok [OF u(1,3)]) blast
      then show ?thesis
        using r u settled_subset [OF u(2)] same_flow_trans [OF u(4)] by (auto simp: same_contracts_def)
    qed
  qed
qed

lemma contracts_wf_alloc:
  assumes "contracts_wf cs op cur np"
  shows "contracts_wf (cs(np := k)) op cur (np + 1)"
  using assms by (fastforce simp: contracts_wf_def)

lemma settled_alloc:
  assumes "contracts_wf cs op cur np" "settled cs op"
  shows "settled (cs(np := k)) op"
  using assms by (fastforce simp: contracts_wf_def settled_def)

lemma registerContracts_ok:
  assumes wf: "contracts_wf_of s" "settled_of s" and set: "settings_ok (r_settings s)" and env: "env_ok env"
  shows "\<exists>t e. registerContracts env now p s = Some (t, e) \<and> same_flow s t \<and> contracts_wf_of t \<and> settled_of t"
proof (cases "ri_contractFrame (item_at s p)")
  case None
  then show ?thesis using wf by (simp add: registerContracts_def)
next
  case frame: (Some frame)
  show ?thesis
  proof (cases "unmarshalContract env (f_MessageBytes frame)")
    case None
    then show ?thesis using wf frame by (simp add: registerContracts_def same_flow_def)
  next
    case c: (Some c)
    define new where "new = newSequenceContract (unmarshalStored env) (newLocalId env (nextPtr s)) ''r'' c
      (rs_MinMessageByteCount (r_settings s)) 1"
    show ?thesis
    proof (cases "verifyContract env (StoredContractHmac c) (StoredContractBytes c) (c_ProvideMode c)")
      case False
      then show ?thesis using wf frame c by (simp add: registerContracts_def same_flow_def)
    next
      case ver: True
      show ?thesis
      proof (cases new)
        case (Inl e)
        then show ?thesis using wf frame c ver by (simp add: registerContracts_def same_flow_def new_def)
      next
        case (Inr k)
        have m: "0 \<le> rs_MinMessageByteCount (r_settings s)" "rs_MinMessageByteCount (r_settings s) \<le> maxMessageByteCount"
          using set by (simp_all add: settings_ok_def)
        have k: "contract_ok k" "unackedByteCount k = 0"
          using contract_ok_new [OF Inr [unfolded new_def] m] env unfolding env_ok_def by blast+
        define u where "u = s\<lparr>contracts := (contracts s)(nextPtr s := k), nextPtr := nextPtr s + 1\<rparr>"
        have u: "contracts_wf_of u" "settled_of u" "settings_ok (r_settings u)" "same_flow s u"
          using contracts_wf_alloc [OF wf(1)] settled_alloc [OF wf] set by (simp_all add: u_def same_flow_def)
        have "nextPtr s \<notin> snd ` set (openReceiveContracts u)" using wf(1) by (auto simp: contracts_wf_def u_def)
        then obtain t where "r_setContract (nextPtr s) u = Some t" "same_flow u t" "contracts_wf_of t" "settled_of t"
          using r_setContract_ok [OF u(1-3), of "nextPtr s"] k by (auto simp: u_def)
        then show ?thesis
          using frame c ver Inr same_flow_trans [OF u(4)]
          by (simp add: registerContracts_def new_def u_def)
      qed
    qed
  qed
qed

section \<open>Charging and delivering an item\<close>

definition finishHead ::
    "receive_env \<Rightarrow> time \<Rightarrow> ptr \<Rightarrow> (ptr \<Rightarrow> sequenceContract) \<Rightarrow> int \<Rightarrow> ReceiveSequence \<Rightarrow> ReceiveSequence" where
  "finishHead env now p cs mode s =
     (let item = item_at s p;
          s = emit [Callback item (r_source s) mode]
            ((audit env now (audit_received (messageByteCount item)) s)\<lparr>contracts := cs\<rparr>);
          s = (if ri_ack item then sendAck (sequenceNumber item) (messageId item) False (ri_tag item) s else s)
      in emit [PoolReturn (ri_transferFrameBytes item)] s)"

lemma audit_contracts [simp]: "(audit env now f s)\<lparr>contracts := contracts s\<rparr> = audit env now f s"
  by (rule ReceiveSequence.equality) simp_all

lemma receiveHead_eq:
  "receiveHead env now p s =
     (case ri_contractId (item_at s p) of
        None \<Rightarrow> Some (finishHead env now p (contracts s) ProvideMode_Network s)
      | Some cid \<Rightarrow> (case map_of (openReceiveContracts s) cid of None \<Rightarrow> None
          | Some c \<Rightarrow> map_option (\<lambda>k. finishHead env now p ((contracts s)(c := k)) (provideMode k) s)
              (contract_ack (contracts s c) (messageByteCount (item_at s p)))))"
  by (auto simp: receiveHead_def finishHead_def Let_def split: option.splits Option.bind_splits)

lemma finishHead_fields [simp]:
  "receiveQueue (finishHead env now p cs mode s) = receiveQueue s"
  "nextSequenceNumber (finishHead env now p cs mode s) = nextSequenceNumber s"
  "r_settings (finishHead env now p cs mode s) = r_settings s" "r_source (finishHead env now p cs mode s) = r_source s"
  "nextPtr (finishHead env now p cs mode s) = nextPtr s" "contracts (finishHead env now p cs mode s) = cs"
  "openReceiveContracts (finishHead env now p cs mode s) = openReceiveContracts s"
  "receiveContract (finishHead env now p cs mode s) = receiveContract s"
  "callbacks_of (r_log (finishHead env now p cs mode s)) = callbacks_of (r_log s) @ [item_at s p]"
  by (simp_all add: finishHead_def Let_def)

lemma finishHead_window:
  "window_ok G (ackWindow s) n \<Longrightarrow>
   acked_message G n (sequenceNumber (item_at s p)) (messageId (item_at s p)) \<or> \<not> ri_ack (item_at s p) \<Longrightarrow>
   window_ok G (ackWindow (finishHead env now p cs mode s)) n"
  using window_ok_sendAck [of G "emit [Callback (item_at s p) (r_source s) mode]
    ((audit env now (audit_received (messageByteCount (item_at s p))) s)\<lparr>contracts := cs\<rparr>)" n False "sequenceNumber (item_at s p)" "messageId (item_at s p)"]
  by (auto simp: finishHead_def Let_def)

text \<open>
  What a delivery does: the item \<open>x\<close>, the one at \<open>p\<close> with the contract it was charged to, is appended to
  the callbacks.
\<close>

definition delivers :: "ReceiveSequence \<Rightarrow> ptr \<Rightarrow> receiveItem \<Rightarrow> ReceiveSequence \<Rightarrow> bool" where
  "delivers s p x t \<longleftrightarrow> contracts_wf_of t \<and> settled_of t \<and>
     receiveQueue t = (receiveQueue s)\<lparr>mem := (mem (receiveQueue s))(p := x)\<rparr> \<and>
     (\<exists>cid. x = (item_at s p)\<lparr>ri_contractId := cid\<rparr>) \<and>
     callbacks_of (r_log t) = callbacks_of (r_log s) @ [x] \<and> nextSequenceNumber t = nextSequenceNumber s \<and>
     r_settings t = r_settings s \<and> r_source t = r_source s \<and> nextPtr t = nextPtr s \<and>
     (\<forall>G n. window_ok G (ackWindow s) n \<longrightarrow> acked_message G n (sequenceNumber x) (messageId x) \<or> \<not> ri_ack x \<longrightarrow>
        window_ok G (ackWindow t) n)"

text \<open>Charging a contract and acking the charge at once leaves it settled, and never panics.\<close>

lemma charge_settles:
  assumes "contract_ok c" "unackedByteCount c = 0" "bytes_ok b" "contract_update c b = (d, True)"
  shows "\<exists>k. contract_ack d b = Some k \<and> contract_ok k \<and> unackedByteCount k = 0 \<and> contractId k = contractId c \<and>
    contractId d = contractId c \<and> ackedByteCount k = ackedByteCount c + effectiveByteCount c b \<and>
    ackedByteCount k \<le> effectiveTransferByteCount k \<and> provideMode k = provideMode d"
proof -
  have b: "b \<le> maxMessageByteCount" using assms(3) by (simp add: bytes_ok_def)
  note u = contract_update_ok [OF assms(1) b assms(4)]
  note st = contract_static_fields [OF u(2)]
  have e: "effectiveByteCount d b = effectiveByteCount c b" by (simp add: effectiveByteCount_def st)
  obtain k where k: "contract_ack d b = Some k" "contract_ok k" "contract_static k = contract_static d"
      "unackedByteCount k = unackedByteCount d - effectiveByteCount d b"
      "ackedByteCount k = ackedByteCount d + effectiveByteCount d b"
    using contract_ack_ok [OF u(1) b] u(4) e assms(2) by auto
  then show ?thesis
    using u st contract_static_fields [OF k(3)] assms(2) e by auto
qed

lemma contract_update_False: "contract_update c b = (d, False) \<Longrightarrow> d = c"
  by (auto simp: contract_update_def Let_def split: if_splits)

lemma setItem_same: "setItem s p (item_at s p) = s"
  by (simp add: setItem_def)

lemma contracts_wf_upd:
  assumes "contracts_wf cs op cur np" "contract_ok k" "contractId k = contractId (cs c)"
  shows "contracts_wf (cs(c := k)) op cur np"
  using assms unfolding contracts_wf_def by (auto split: prod.splits if_splits)

lemma settled_upd: "settled cs op \<Longrightarrow> unackedByteCount k = 0 \<Longrightarrow> settled (cs(c := k)) op"
  by (auto simp: settled_def)

text \<open>The three ways in which \<open>r_updateContract\<close> lets an item pass.\<close>

lemma r_updateContract_cases:
  assumes u: "r_updateContract env p s = (t, success)"
    and c: "ri_contractId (item_at s p) = None \<or>
      (\<not> noContractAllowed env s \<and> (\<exists>cid. ri_contractId (item_at s p) = Some cid \<and> map_of (openReceiveContracts s) cid \<noteq> None))"
    and wf: "contracts_wf_of s"
  obtains (charged) c d where "success" "(contractId (contracts s c), c) \<in> set (openReceiveContracts s)"
      "contract_update (contracts s c) (messageByteCount (item_at s p)) = (d, True)"
      "t = setItem (s\<lparr>contracts := (contracts s)(c := d)\<rparr>) p ((item_at s p)\<lparr>ri_contractId := Some (contractId (contracts s c))\<rparr>)"
  | (free) "success" "t = s" "ri_contractId (item_at s p) = None" "noContractAllowed env s"
  | (refused) "\<not> success" "t = s"
proof (cases "ri_contractId (item_at s p)")
  case None
  show ?thesis
  proof (cases "receiveContract s")
    case none: None
    then show ?thesis using u None free refused by (auto simp: r_updateContract_def)
  next
    case (Some c)
    obtain d b where d: "contract_update (contracts s c) (messageByteCount (item_at s p)) = (d, b)" by force
    have cid: "contractId d = contractId (contracts s c)" using d by (auto simp: contract_update_def Let_def split: if_splits)
    show ?thesis
    proof (cases b)
      case True
      then show ?thesis using charged [of c d] wf u None Some d cid by (auto simp: r_updateContract_def contracts_wf_def)
    next
      case False
      then have "d = contracts s c" using contract_update_False [of "contracts s c" _ d] d False by simp
      then show ?thesis using free refused u None Some d False
        by (auto simp: r_updateContract_def noContractAllowed_def)
    qed
  qed
next
  case (Some cid)
  then obtain c where c: "map_of (openReceiveContracts s) cid = Some c" "\<not> noContractAllowed env s"
    using c by auto
  then have "(cid, c) \<in> set (openReceiveContracts s)" by (simp add: map_of_SomeD)
  then have id: "contractId (contracts s c) = cid" "(contractId (contracts s c), c) \<in> set (openReceiveContracts s)"
    using wf by (auto simp: contracts_wf_def)
  obtain d b where d: "contract_update (contracts s c) (messageByteCount (item_at s p)) = (d, b)" by force
  show ?thesis
  proof (cases b)
    case True
    have same: "(item_at s p)\<lparr>ri_contractId := Some (contractId (contracts s c))\<rparr> = item_at s p" using Some id(1) by simp
    have "t = s\<lparr>contracts := (contracts s)(c := d)\<rparr>" "success"
      using u Some c(1) d True by (auto simp: r_updateContract_def)
    then show ?thesis
      using charged [of c d] id(2) d True setItem_same [of "s\<lparr>contracts := (contracts s)(c := d)\<rparr>" p]
      unfolding same by simp
  next
    case False
    then have "d = contracts s c" using contract_update_False [of "contracts s c" _ d] d False by simp
    then show ?thesis using refused u Some c d False by (auto simp: r_updateContract_def noContractAllowed_def)
  qed
qed

lemma deliver_ok:
  assumes wf: "contracts_wf_of s" "settled_of s" and b: "bytes_ok (messageByteCount (item_at s p))"
    and c: "ri_contractId (item_at s p) = None \<or>
      (\<not> noContractAllowed env s \<and> (\<exists>cid. ri_contractId (item_at s p) = Some cid \<and> map_of (openReceiveContracts s) cid \<noteq> None))"
    and u: "r_updateContract env p s = (t, success)"
  shows "if success then \<exists>r x. receiveHead env now p t = Some r \<and> delivers s p x r else t = s"
  using u c wf(1)
proof (cases rule: r_updateContract_cases)
  case (charged c d)
  define x where "x = (item_at s p)\<lparr>ri_contractId := Some (contractId (contracts s c))\<rparr>"
  have c: "contract_ok (contracts s c)" "unackedByteCount (contracts s c) = 0"
      "map_of (openReceiveContracts s) (contractId (contracts s c)) = Some c"
    using charged(2) wf by (auto simp: contracts_wf_def settled_def)
  obtain k where k: "contract_ack d (messageByteCount (item_at s p)) = Some k" "contract_ok k"
      "unackedByteCount k = 0" "contractId k = contractId (contracts s c)" "contractId d = contractId (contracts s c)"
    using charge_settles [OF c(1,2) b charged(3)] by auto
  have t: "receiveQueue t = (receiveQueue s)\<lparr>mem := (mem (receiveQueue s))(p := x)\<rparr>" "item_at t p = x"
      "contracts t = (contracts s)(c := d)" "openReceiveContracts t = openReceiveContracts s"
      "receiveContract t = receiveContract s" "nextPtr t = nextPtr s" "r_log t = r_log s" "r_settings t = r_settings s"
      "r_source t = r_source s" "ackWindow t = ackWindow s" "nextSequenceNumber t = nextSequenceNumber s"
    unfolding charged(4) by (simp_all add: setItem_def x_def)
  have x: "sequenceNumber x = sequenceNumber (item_at s p)" "ri_ack x = ri_ack (item_at s p)"
      "messageByteCount x = messageByteCount (item_at s p)" "ri_contractId x = Some (contractId (contracts s c))"
    by (simp_all add: x_def)
  have h: "receiveHead env now p t = Some (finishHead env now p ((contracts t)(c := k)) (provideMode k) t)"
    using c(3) k by (simp add: receiveHead_eq t x)
  have "contracts_wf ((contracts s)(c := k)) (openReceiveContracts s) (receiveContract s) (nextPtr s)"
    using wf(1) k by (intro contracts_wf_upd) simp_all
  moreover have "settled ((contracts s)(c := k)) (openReceiveContracts s)" using settled_upd [OF wf(2) k(3)] .
  moreover have "\<exists>cid. x = (item_at s p)\<lparr>ri_contractId := cid\<rparr>" by (auto simp: x_def)
  moreover have "window_ok G (ackWindow s) n \<Longrightarrow> acked_message G n (sequenceNumber x) (messageId x) \<or> \<not> ri_ack x \<Longrightarrow>
      window_ok G (ackWindow (finishHead env now p ((contracts t)(c := k)) (provideMode k) t)) n" for G n
    using finishHead_window [of G t n p] t(2,10) by simp
  ultimately have "delivers s p x (finishHead env now p ((contracts t)(c := k)) (provideMode k) t)"
    by (simp add: delivers_def t)
  then show ?thesis using h charged(1) by auto
next
  case free
  define x where "x = item_at s p"
  have "x = (item_at s p)\<lparr>ri_contractId := None\<rparr>" using free(3) by (simp add: x_def)
  then have "\<exists>cid. x = (item_at s p)\<lparr>ri_contractId := cid\<rparr>" by blast
  moreover have "window_ok G (ackWindow s) n \<Longrightarrow> acked_message G n (sequenceNumber x) (messageId x) \<or> \<not> ri_ack x \<Longrightarrow>
      window_ok G (ackWindow (finishHead env now p (contracts s) ProvideMode_Network s)) n" for G n
    using finishHead_window [of G s n p] by (simp add: x_def)
  ultimately have "delivers s p x (finishHead env now p (contracts s) ProvideMode_Network s)"
    using wf by (simp add: delivers_def x_def)
  then show ?thesis using free by (auto simp: receiveHead_eq)
next
  case refused
  then show ?thesis by simp
qed

lemma r_updateContract_next:
  "r_updateContract env p (s\<lparr>nextSequenceNumber := n\<rparr>) =
     (case r_updateContract env p s of (t, b) \<Rightarrow> (t\<lparr>nextSequenceNumber := n\<rparr>, b))"
  by (auto simp: r_updateContract_def Let_def noContractAllowed_def setItem_def split: option.splits prod.splits)

section \<open>The queue\<close>

lemma ri_contents:
  assumes "contents q = contents r"
  shows "ri_contractId (mem q p) = ri_contractId (mem r p)" "ri_head (mem q p) = ri_head (mem r p)"
    "ri_ack (mem q p) = ri_ack (mem r p)" "ri_tag (mem q p) = ri_tag (mem r p)"
    "ri_contractFrame (mem q p) = ri_contractFrame (mem r p)" "ri_receiveTime (mem q p) = ri_receiveTime (mem r p)"
    "ri_frames (mem q p) = ri_frames (mem r p)" "ri_transferFrameBytes (mem q p) = ri_transferFrameBytes (mem r p)"
proof -
  have "strip (mem q p) = strip (mem r p)" using assms by (simp add: contents_def fun_eq_iff)
  then show "ri_contractId (mem q p) = ri_contractId (mem r p)" "ri_head (mem q p) = ri_head (mem r p)"
    "ri_ack (mem q p) = ri_ack (mem r p)" "ri_tag (mem q p) = ri_tag (mem r p)"
    "ri_contractFrame (mem q p) = ri_contractFrame (mem r p)" "ri_receiveTime (mem q p) = ri_receiveTime (mem r p)"
    "ri_frames (mem q p) = ri_frames (mem r p)" "ri_transferFrameBytes (mem q p) = ri_transferFrameBytes (mem r p)"
    by (cases "mem q p"; cases "mem r p"; simp add: strip_def)+
qed

lemma queue_ok_mem: "queue_ok G q np mx \<Longrightarrow> p \<notin> tq_items q \<Longrightarrow> queue_ok G (q\<lparr>mem := (mem q)(p := x)\<rparr>) np mx"
proof -
  assume q: "queue_ok G q np mx" and p: "p \<notin> tq_items q"
  have "(\<Sum>y\<in>tq_items q. messageByteCount (if y = p then x else mem q y)) = (\<Sum>y\<in>tq_items q. messageByteCount (mem q y))"
    by (rule sum.cong) (use p in auto)
  then show ?thesis using tq_inv_alloc [of q p x] q p by (auto simp: queue_ok_def)
qed

lemma queue_ok_mono: "queue_ok G q np mx \<Longrightarrow> np \<le> np' \<Longrightarrow> queue_ok G q np' mx"
  unfolding queue_ok_def by fastforce

lemma removed_mem:
  assumes "removed q p r"
  shows "messageId (mem r x) = messageId (mem q x)" "messageByteCount (mem r x) = messageByteCount (mem q x)"
    "sequenceNumber (mem r x) = sequenceNumber (mem q x)" "transferItem.more (mem r x) = transferItem.more (mem q x)"
  using mem_fields_cong [of r q x] assms by (simp_all add: removed_def)

lemma queue_ok_removed:
  assumes q: "queue_ok G q np mx" and r: "removed q p r"
  shows "queue_ok G r np mx"
proof -
  have items: "tq_items r = tq_items q - {p}" "tq_inv r" "cmp r = cmp q" using r by (simp_all add: removed_def)
  note f = removed_mem [OF r] ri_contents [of r q]
  have c: "contents r = contents q" using r by (simp add: removed_def)
  have "(\<Sum>x\<in>tq_items r. messageByteCount (mem r x)) \<le> (\<Sum>x\<in>tq_items q. messageByteCount (mem q x))"
    unfolding f(2) items(1) by (rule sum_mono2) (use q in \<open>auto simp: queue_ok_def bytes_ok_def\<close>)
  moreover have "card (tq_items r) \<le> card (tq_items q)" unfolding items(1) by (rule card_mono) auto
  ultimately show ?thesis using q items f c by (auto simp: queue_ok_def)
qed

lemma queue_ok_Add:
  assumes q: "queue_ok G q np mx" and p: "p < np" "bytes_ok (messageByteCount (mem q p))" "sequenceNumber (mem q p) < - 1"
      "ri_contractId (mem q p) = None" "ri_ack (mem q p)" "G (sequenceNumber (mem q p)) (messageId (mem q p)) (ri_frames (mem q p))"
    and fresh: "p \<notin> tq_items q" "messageIdItems q (messageId (mem q p)) = None"
      "sequenceNumberItems q (sequenceNumber (mem q p)) = None"
    and fits: "tq_items q = {} \<or> (\<Sum>x\<in>tq_items q. messageByteCount (mem q x)) + messageByteCount (mem q p) < mx"
  shows "queue_ok G (Add q p) np mx"
proof -
  have inv: "tq_inv q" using q by (simp add: queue_ok_def)
  note A = Add_correct [OF inv fresh]
  note f = mem_fields_cong [of "Add q p" q] ri_contents [of "Add q p" q]
  have "(\<Sum>x\<in>tq_items (Add q p). messageByteCount (mem (Add q p) x)) =
      messageByteCount (mem q p) + (\<Sum>x\<in>tq_items q. messageByteCount (mem q x))"
    using A f(2) fresh(1) by simp
  then show ?thesis using A f q p fits by (auto simp: queue_ok_def)
qed

text \<open>The sum of the queued bytes does not wrap, so that \<open>canQueue\<close> decides the bound.\<close>

lemma queue_sum_bounds:
  assumes "queue_ok G q np mx" "mx \<le> 2 ^ 62"
  shows "0 \<le> (\<Sum>p\<in>tq_items q. messageByteCount (mem q p)) \<and> (\<Sum>p\<in>tq_items q. messageByteCount (mem q p)) \<le> 2 ^ 62"
proof -
  have nonneg: "\<forall>p\<in>tq_items q. 0 \<le> messageByteCount (mem q p) \<and> messageByteCount (mem q p) \<le> 2 ^ 61"
    using assms(1) by (simp add: queue_ok_def bytes_ok_def maxMessageByteCount_def)
  consider "1 < card (tq_items q)" | "card (tq_items q) = 0" | "card (tq_items q) = 1" by linarith
  then have "(\<Sum>p\<in>tq_items q. messageByteCount (mem q p)) \<le> 2 ^ 62"
  proof cases
    case 3
    then obtain p where "tq_items q = {p}" by (auto simp: card_1_singleton_iff)
    then show ?thesis using nonneg by auto
  qed (use assms in \<open>auto simp: queue_ok_def\<close>)
  then show ?thesis using nonneg by (simp add: sum_nonneg)
qed

lemma canQueue_iff:
  assumes "queue_ok G (receiveQueue s) np (rs_ReceiveQueueMaxByteCount (r_settings s))"
    and "rs_ReceiveQueueMaxByteCount (r_settings s) \<le> 2 ^ 62" "bytes_ok b"
  shows "canQueue s b \<longleftrightarrow> tq_items (receiveQueue s) = {} \<or>
    (\<Sum>p\<in>tq_items (receiveQueue s). messageByteCount (item_at s p)) + b < rs_ReceiveQueueMaxByteCount (r_settings s)"
proof -
  define B where "B = (\<Sum>p\<in>tq_items (receiveQueue s). messageByteCount (item_at s p))"
  have B: "0 \<le> B" "B \<le> 2 ^ 62" using queue_sum_bounds [OF assms(1,2)] by (simp_all add: B_def)
  have "byteCount (receiveQueue s) = int64 B"
    using assms(1) tq_inv_bytes [of "receiveQueue s"] by (simp add: queue_ok_def B_def)
  then have "int64 (byteCount (receiveQueue s) + b) = B + b"
    using B assms(3) by (simp add: wrap_simps) (simp add: int64_id bytes_ok_def maxMessageByteCount_def)
  then show ?thesis by (simp add: canQueue_def QueueSize_def B_def)
qed

lemma tq_sequence_None:
  "tq_inv q \<Longrightarrow> sequenceNumberItems q n = None \<longleftrightarrow> (\<forall>p\<in>tq_items q. sequenceNumber (mem q p) \<noteq> n)"
  using tq_inv_sequence [of q n] by (cases "sequenceNumberItems q n") auto

lemma tq_message_None:
  "tq_inv q \<Longrightarrow> messageIdItems q m = None \<longleftrightarrow> (\<forall>p\<in>tq_items q. messageId (mem q p) \<noteq> m)"
  using tq_inv_message [of q m] by (cases "messageIdItems q m") auto

lemma rs_inv_queue: "rs_inv G s \<Longrightarrow> tq_inv (receiveQueue s)"
  by (simp add: rs_inv_def queue_ok_def)

text \<open>A queue with fewer items and the same contents.\<close>

definition shrunk :: "receiveItem transferQueue \<Rightarrow> receiveItem transferQueue \<Rightarrow> bool" where
  "shrunk q r \<longleftrightarrow> contents r = contents q \<and> tq_items r \<subseteq> tq_items q"

lemma shrunk_refl [simp]: "shrunk q q"
  by (simp add: shrunk_def)

lemma shrunk_trans: "shrunk q r \<Longrightarrow> shrunk r u \<Longrightarrow> shrunk q u"
  by (auto simp: shrunk_def)

lemma shrunk_removed: "removed q p r \<Longrightarrow> shrunk q r"
  by (auto simp: shrunk_def removed_def)

lemma rs_inv_dequeue:
  "rs_inv G s \<Longrightarrow> removed (receiveQueue s) p q \<Longrightarrow> rs_inv G (s\<lparr>receiveQueue := q\<rparr>)"
  using queue_ok_removed by (auto simp: rs_inv_def)

lemma drop_sequence:
  assumes inv: "rs_inv G s"
  shows "\<exists>q x. RemoveBySequenceNumber (receiveQueue s) n = Some (q, x) \<and> rs_inv G (s\<lparr>receiveQueue := q\<rparr>) \<and>
    shrunk (receiveQueue s) q \<and> (\<forall>p\<in>tq_items q. sequenceNumber (mem q p) \<noteq> n)"
  using rs_inv_queue [OF inv]
proof (cases rule: RemoveBySequenceNumber_cases [of _ n])
  case missing
  then show ?thesis using inv by simp
next
  case (found p r)
  have "sequenceNumber (mem r x) \<noteq> n" if x: "x \<in> tq_items r" for x
  proof
    assume "sequenceNumber (mem r x) = n"
    then have "sequenceNumberItems (receiveQueue s) n = Some x"
      using tq_inv_sequence [OF rs_inv_queue [OF inv], of n x] x found(2) removed_mem(3) [OF found(2), of x]
      by (simp add: removed_def)
    moreover have "sequenceNumberItems (receiveQueue s) n = Some p"
      using tq_inv_sequence [OF rs_inv_queue [OF inv], of n p] found(3,4) by simp
    ultimately show False using x found(2) by (simp add: removed_def)
  qed
  then show ?thesis using found rs_inv_dequeue [OF inv found(2)] shrunk_removed [OF found(2)] by auto
qed

lemma drop_message:
  assumes inv: "rs_inv G s"
  shows "\<exists>q x. RemoveByMessageId (receiveQueue s) m = Some (q, x) \<and> rs_inv G (s\<lparr>receiveQueue := q\<rparr>) \<and>
    shrunk (receiveQueue s) q \<and> (\<forall>p\<in>tq_items q. messageId (mem q p) \<noteq> m)"
  using rs_inv_queue [OF inv]
proof (cases rule: RemoveByMessageId_cases [of _ m])
  case missing
  then show ?thesis using inv by simp
next
  case (found p r)
  have "messageId (mem r x) \<noteq> m" if x: "x \<in> tq_items r" for x
  proof
    assume "messageId (mem r x) = m"
    then have "messageIdItems (receiveQueue s) m = Some x"
      using tq_inv_message [OF rs_inv_queue [OF inv], of m x] x found(2) removed_mem(1) [OF found(2), of x]
      by (simp add: removed_def)
    moreover have "messageIdItems (receiveQueue s) m = Some p"
      using tq_inv_message [OF rs_inv_queue [OF inv], of m p] found(3,4) by simp
    ultimately show False using x found(2) by (simp add: removed_def)
  qed
  then show ?thesis using found rs_inv_dequeue [OF inv found(2)] shrunk_removed [OF found(2)] by auto
qed

text \<open>Removing a queued item by its own message id.\<close>

lemma take_item:
  assumes inv: "tq_inv q" and p: "p \<in> tq_items q"
  shows "\<exists>r. RemoveByMessageId q (messageId (mem q p)) = Some (r, Some p) \<and> removed q p r"
  using RemoveByMessageId_Some [OF inv, of "messageId (mem q p)" p] tq_inv_message [OF inv] p by blast

section \<open>Making room\<close>

text \<open>Only the queue and the buffers returned to the pool change.\<close>

definition same_but_queue :: "ReceiveSequence \<Rightarrow> ReceiveSequence \<Rightarrow> bool" where
  "same_but_queue s t \<longleftrightarrow> (\<exists>q es. t = s\<lparr>receiveQueue := q, r_log := r_log s @ es\<rparr> \<and> shrunk (receiveQueue s) q \<and>
     callbacks_of es = [])"

lemma same_but_queue_refl [simp]: "same_but_queue s s"
  unfolding same_but_queue_def by (rule exI [of _ "receiveQueue s"], rule exI [of _ "[]"]) simp

lemma same_but_queue_step:
  assumes "shrunk (receiveQueue s) q" "same_but_queue (emit [PoolReturn bs] (s\<lparr>receiveQueue := q\<rparr>)) t"
  shows "same_but_queue s t"
proof -
  obtain q' es where "t = (emit [PoolReturn bs] (s\<lparr>receiveQueue := q\<rparr>))\<lparr>receiveQueue := q', r_log := r_log s @ [PoolReturn bs] @ es\<rparr>"
      "shrunk q q'" "callbacks_of es = []"
    using assms(2) by (auto simp: same_but_queue_def)
  then have "t = s\<lparr>receiveQueue := q', r_log := r_log s @ ([PoolReturn bs] @ es)\<rparr>" "shrunk (receiveQueue s) q'"
    using shrunk_trans [OF assms(1)] by (simp_all add: emit_def)
  then show ?thesis using \<open>callbacks_of es = []\<close> unfolding same_but_queue_def
    by (metis append_Nil callbacks_of_append callbacks_of_simps(5))
qed

lemma rs_inv_emit: "callbacks_of es = [] \<Longrightarrow> rs_inv G (emit es s) = rs_inv G s"
  by (simp add: rs_inv_def log_ok_def delivered_def)

lemma makeRoom_ok:
  assumes "rs_inv G s" "bytes_ok b" "card (tq_items (receiveQueue s)) < fuel"
  shows "\<exists>t. makeRoom fuel b n s = Some t \<and> rs_inv G t \<and> same_but_queue s t \<and>
    (canQueue t b \<or> (\<forall>p\<in>tq_items (receiveQueue t). sequenceNumber (item_at t p) \<le> n))"
  using assms
proof (induction fuel arbitrary: s)
  case (Suc fuel)
  have inv: "tq_inv (receiveQueue s)" using Suc.prems(1) by (rule rs_inv_queue)
  show ?case
  proof (cases "canQueue s b")
    case True
    then show ?thesis using Suc.prems(1) by auto
  next
    case False
    then have "tq_items (receiveQueue s) \<noteq> {}" by (auto simp: canQueue_def QueueSize_def)
    then obtain l where l: "PeekLast (receiveQueue s) = Some l"
      using PeekLast_None [OF inv] by (cases "PeekLast (receiveQueue s)") auto
    have li: "l \<in> tq_items (receiveQueue s)" using PeekLast_in [OF inv l] .
    show ?thesis
    proof (cases "n < sequenceNumber (item_at s l)")
      case later: True
      obtain q where q: "RemoveByMessageId (receiveQueue s) (messageId (item_at s l)) = Some (q, Some l)"
          "removed (receiveQueue s) l q"
        using take_item [OF inv li] by blast
      define u where "u = emit [PoolReturn (ri_transferFrameBytes (mem q l))] (s\<lparr>receiveQueue := q\<rparr>)"
      have u: "rs_inv G u" using rs_inv_dequeue [OF Suc.prems(1) q(2)] by (simp add: u_def rs_inv_emit)
      have "card (tq_items q) < card (tq_items (receiveQueue s))"
        using q(2) li unfolding removed_def by (metis card_Diff1_less finite_set)
      then have "card (tq_items (receiveQueue u)) < fuel" using Suc.prems(3) by (simp add: u_def)
      then obtain t where "makeRoom fuel b n u = Some t" "rs_inv G t" "same_but_queue u t"
          "canQueue t b \<or> (\<forall>p\<in>tq_items (receiveQueue t). sequenceNumber (item_at t p) \<le> n)"
        using Suc.IH [OF u Suc.prems(2)] by blast
      moreover have "same_but_queue s t"
        using same_but_queue_step [OF shrunk_removed [OF q(2)]] \<open>same_but_queue u t\<close> unfolding u_def by blast
      ultimately show ?thesis using False l later q(1) by (simp add: u_def)
    next
      case False2: False
      have "sequenceNumber (item_at s p) \<le> n" if "p \<in> tq_items (receiveQueue s)" for p
        using PeekLast_greatest [OF inv l that] False2 Suc.prems(1)
        by (simp add: rs_inv_def queue_ok_def compareSequenceNumber_le)
      then show ?thesis using False l False2 Suc.prems(1) by auto
    qed
  qed
qed simp

section \<open>Receiving keeps the invariant\<close>

text \<open>The item that a handler works on: allocated, not queued, with the fields of its pack.\<close>

definition holds_pack :: "ReceiveSequence \<Rightarrow> ptr \<Rightarrow> ReceivePack \<Rightarrow> Id \<Rightarrow> Id option \<Rightarrow> bool" where
  "holds_pack s p pack m cid \<longleftrightarrow> p < nextPtr s \<and> p \<notin> tq_items (receiveQueue s) \<and>
     messageId (item_at s p) = m \<and> messageByteCount (item_at s p) = rp_MessageByteCount pack \<and>
     sequenceNumber (item_at s p) = pk_SequenceNumber (rp_Pack pack) \<and> ri_contractId (item_at s p) = cid \<and>
     ri_head (item_at s p) = pk_Head (rp_Pack pack) \<and> ri_ack (item_at s p) = (\<not> pk_Nack (rp_Pack pack)) \<and>
     ri_tag (item_at s p) = pk_Tag (rp_Pack pack) \<and> ri_frames (item_at s p) = pk_Frames (rp_Pack pack)"

lemma holds_pack_shrunk:
  assumes "holds_pack s p pack m cid" "shrunk (receiveQueue s) (receiveQueue t)" "nextPtr s \<le> nextPtr t"
  shows "holds_pack t p pack m cid"
  using assms mem_fields_cong [of "receiveQueue t" "receiveQueue s" p] ri_contents [of "receiveQueue t" "receiveQueue s" p]
  by (auto simp: holds_pack_def shrunk_def)

lemma holds_pack_flow: "holds_pack s p pack m cid \<Longrightarrow> same_flow s t \<Longrightarrow> holds_pack t p pack m cid"
  by (erule holds_pack_shrunk) (auto simp: same_flow_def)

lemma newItem_ok:
  assumes inv: "rs_inv G s" and new: "newItem s (packItem now pack m cid) = (t, p)"
  shows "rs_inv G t" "holds_pack t p pack m cid" "same_flow s (t\<lparr>receiveQueue := receiveQueue s\<rparr>)" "p = nextPtr s"
    "contracts t = contracts s" "openReceiveContracts t = openReceiveContracts s" "receiveContract t = receiveContract s"
    "r_log t = r_log s"
proof -
  have p: "p = nextPtr s" and t: "t = (setItem s (nextPtr s) (packItem now pack m cid))\<lparr>nextPtr := nextPtr s + 1\<rparr>"
    using new by (auto simp: newItem_def)
  have fresh: "nextPtr s \<notin> tq_items (receiveQueue s)" using inv by (auto simp: rs_inv_def queue_ok_def)
  have q: "queue_ok G (receiveQueue s) (nextPtr s) (rs_ReceiveQueueMaxByteCount (r_settings s))"
    using inv by (simp add: rs_inv_def)
  have "queue_ok G ((receiveQueue s)\<lparr>mem := (mem (receiveQueue s))(nextPtr s := packItem now pack m cid)\<rparr>) (nextPtr s + 1)
      (rs_ReceiveQueueMaxByteCount (r_settings s))"
    using queue_ok_mono [OF queue_ok_mem [OF q fresh], of "nextPtr s + 1"] by simp
  moreover have "contracts_wf (contracts s) (openReceiveContracts s) (receiveContract s) (nextPtr s + 1)"
    using inv by (auto simp: rs_inv_def contracts_wf_def)
  ultimately show "rs_inv G t" using inv by (simp add: t rs_inv_def setItem_def)
  show "holds_pack t p pack m cid" using fresh by (simp add: t p holds_pack_def setItem_def packItem_def)
  show "same_flow s (t\<lparr>receiveQueue := receiveQueue s\<rparr>)" "p = nextPtr s" "contracts t = contracts s"
    "openReceiveContracts t = openReceiveContracts s" "receiveContract t = receiveContract s" "r_log t = r_log s"
    by (simp_all add: t p same_flow_def setItem_def)
qed

lemma rs_inv_flow:
  "rs_inv G s \<Longrightarrow> same_flow s t \<Longrightarrow> contracts_wf_of t \<Longrightarrow> settled_of t \<Longrightarrow> rs_inv G t"
  using queue_ok_mono delivered_cong [of "r_log t" "r_log s"] by (auto simp: rs_inv_def same_flow_def log_ok_def)

lemma rs_inv_next:
  "rs_inv G s \<Longrightarrow> nextSequenceNumber s \<le> n \<Longrightarrow> rs_inv G (s\<lparr>nextSequenceNumber := n\<rparr>)"
  using window_ok_mono log_ok_mono by (auto simp: rs_inv_def)

lemma rs_inv_audit [simp]: "rs_inv G (audit env now f s) = rs_inv G s"
  by (simp add: rs_inv_def log_ok_def)

lemma rs_inv_auditRemoved [simp]: "rs_inv G (auditRemoved env now x s) = rs_inv G s"
  by (simp add: auditRemoved_def split: option.splits)

lemma rs_inv_sendAck:
  "rs_inv G s \<Longrightarrow> selective \<or> acked_message G (nextSequenceNumber s) n m \<Longrightarrow> rs_inv G (sendAck n m selective tg s)"
  using window_ok_sendAck [of G s] by (simp add: rs_inv_def)

lemma rs_inv_delivers:
  assumes inv: "rs_inv G s" and d: "delivers s p x t" and p: "p \<notin> tq_items (receiveQueue s)"
    and g: "ri_ack x \<Longrightarrow> G (sequenceNumber (item_at s p)) (messageId (item_at s p)) (ri_frames (item_at s p))"
    and ord: "ri_ack x \<Longrightarrow> (\<forall>y\<in>set (delivered (r_log s)). y < sequenceNumber x) \<and> sequenceNumber x < nextSequenceNumber s"
  shows "rs_inv G t"
proof -
  have "queue_ok G (receiveQueue t) (nextPtr t) (rs_ReceiveQueueMaxByteCount (r_settings t))"
    using queue_ok_mem [OF _ p] inv d by (simp add: rs_inv_def delivers_def)
  moreover have "delivered (r_log t) = delivered (r_log s) @ (if ri_ack x then [sequenceNumber x] else [])"
    using d by (simp add: delivers_def delivered_def)
  then have "log_ok (r_log t) (nextSequenceNumber t)"
    using inv d ord by (auto simp: rs_inv_def log_ok_def delivers_def sorted_wrt_append)
  moreover have "acked_message G (nextSequenceNumber s) (sequenceNumber x) (messageId x)" if "ri_ack x"
    using that d g ord by (auto simp: delivers_def acked_message_def)
  then have "window_ok G (ackWindow t) (nextSequenceNumber t)"
    using inv d unfolding rs_inv_def delivers_def by auto
  moreover have "ri_ack x \<longrightarrow> G (sequenceNumber x) (messageId x) (ri_frames x)" using d g by (auto simp: delivers_def)
  then have "\<forall>x\<in>set (callbacks_of (r_log t)). ri_ack x \<longrightarrow> G (sequenceNumber x) (messageId x) (ri_frames x)"
    using d inv by (simp add: delivers_def rs_inv_def)
  moreover have "contracts_wf_of t" "settled_of t" using d unfolding delivers_def by blast+
  moreover have "r_settings t = r_settings s" using d by (simp add: delivers_def)
  ultimately show ?thesis using inv unfolding rs_inv_def by simp
qed

text \<open>Registering, charging and delivering the item at the head, with the next number already advanced.\<close>

lemma head_ok:
  assumes inv: "rs_inv G s" and env: "env_ok env" and p: "p \<notin> tq_items (receiveQueue s)"
    and b: "bytes_ok (messageByteCount (item_at s p))" and cid: "ri_contractId (item_at s p) = None"
    and g: "G (sequenceNumber (item_at s p)) (messageId (item_at s p)) (ri_frames (item_at s p))"
    and ord: "ri_ack (item_at s p) \<Longrightarrow>
      (\<forall>y\<in>set (delivered (r_log s)). y < sequenceNumber (item_at s p)) \<and> sequenceNumber (item_at s p) < nextSequenceNumber s"
  obtains (failed) t e where "registerContracts env now p s = Some (t, Some e)" "same_flow s t" "rs_inv G t"
  | (refused) t u where "registerContracts env now p s = Some (t, None)" "r_updateContract env p t = (t, False)"
      "same_flow s t" "rs_inv G t"
  | (through) t u r x where "registerContracts env now p s = Some (t, None)" "r_updateContract env p t = (u, True)"
      "receiveHead env now p u = Some r" "same_flow s t" "delivers t p x r" "rs_inv G r"
proof -
  obtain t e where t: "registerContracts env now p s = Some (t, e)" "same_flow s t" "contracts_wf_of t" "settled_of t"
    using registerContracts_ok [of s env now p] inv env by (auto simp: rs_inv_def)
  have invt: "rs_inv G t" using rs_inv_flow [OF inv t(2-4)] .
  have it: "item_at t p = item_at s p" using t(2) by (simp add: same_flow_def)
  obtain u success where u: "r_updateContract env p t = (u, success)" by force
  show ?thesis
  proof (cases e)
    case (Some e)
    then show ?thesis using failed t(1,2) invt by simp
  next
    case None
    have D: "if success then \<exists>r x. receiveHead env now p u = Some r \<and> delivers t p x r else u = t"
      using deliver_ok [OF t(3,4) _ _ u, where now = now] b cid it by simp
    show ?thesis
    proof (cases success)
      case True
      then obtain r x where r: "receiveHead env now p u = Some r" "delivers t p x r" using D by auto
      have "sequenceNumber x = sequenceNumber (item_at s p)" "ri_ack x = ri_ack (item_at s p)"
        using r(2) it by (auto simp: delivers_def)
      then have "rs_inv G r"
        using rs_inv_delivers [OF invt r(2)] p g ord t(2) delivered_cong [of "r_log t" "r_log s"]
        by (simp add: same_flow_def)
      then show ?thesis using through t(1,2) u True r None by simp
    next
      case False
      then show ?thesis using refused t(1,2) u D invt None by simp
    qed
  qed
qed

text \<open>
  What one pack does to the stream of callbacks: nothing, or its own message is handed over, which is then
  the next one of the sequence, or a head that moves the sequence forward.
\<close>

definition hands_over :: "ReceiveSequence \<Rightarrow> ReceivePack \<Rightarrow> ReceiveSequence \<Rightarrow> receiveItem \<Rightarrow> bool" where
  "hands_over s pack t x \<longleftrightarrow> callbacks_of (r_log t) = callbacks_of (r_log s) @ [x] \<and>
     sequenceNumber x = pk_SequenceNumber (rp_Pack pack) \<and> ri_frames x = pk_Frames (rp_Pack pack) \<and>
     ri_ack x = (\<not> pk_Nack (rp_Pack pack))"

definition handled :: "sent \<Rightarrow> ReceiveSequence \<Rightarrow> ReceiveSequence \<Rightarrow> bool" where
  "handled G s t \<longleftrightarrow> rs_inv G t \<and> r_settings t = r_settings s \<and> r_source t = r_source s \<and>
     nextSequenceNumber s \<le> nextSequenceNumber t \<and> prefix (callbacks_of (r_log s)) (callbacks_of (r_log t))"

definition receive_spec :: "sent \<Rightarrow> ReceiveSequence \<Rightarrow> ReceivePack \<Rightarrow> ReceiveSequence \<Rightarrow> receive_error + bool \<Rightarrow> bool" where
  "receive_spec G s pack t r \<longleftrightarrow> handled G s t \<and>
     (callbacks_of (r_log t) = callbacks_of (r_log s) \<and>
        (nextSequenceNumber t = nextSequenceNumber s \<or>
         pk_Head (rp_Pack pack) \<and> nextSequenceNumber s < pk_SequenceNumber (rp_Pack pack) \<or> (\<exists>e. r = Inl e)) \<or>
      (\<exists>x. hands_over s pack t x \<and> r = Inr True \<and> nextSequenceNumber t = pk_SequenceNumber (rp_Pack pack) + 1 \<and>
         (nextSequenceNumber s = pk_SequenceNumber (rp_Pack pack) \<or>
          pk_Head (rp_Pack pack) \<and> nextSequenceNumber s < pk_SequenceNumber (rp_Pack pack))))"

lemma word_less_plus_1: "(n :: u64) < - 1 \<Longrightarrow> n < n + 1"
proof -
  assume n: "n < - 1"
  have "1 + n \<noteq> 0"
  proof
    assume "1 + n = 0"
    then have "n = - 1" by (simp add: eq_neg_iff_add_eq_0 add.commute)
    then show False using n by simp
  qed
  then have "unat (1 + n) = Suc (unat n)" by (rule unatSuc)
  then show ?thesis by (simp add: word_less_nat_alt add.commute)
qed

lemma delivers_hands_over:
  assumes "delivers t p x r" "holds_pack t p pack m cid" "callbacks_of (r_log t) = callbacks_of (r_log s)"
  shows "hands_over s pack r x"
  using assms by (auto simp: delivers_def hands_over_def holds_pack_def)

lemma receive_ok:
  assumes inv: "rs_inv G s" and env: "env_ok env" and pk: "pack_ok pack" and g: "\<And>m. IdFromBytes (pk_MessageId (rp_Pack pack)) = Inr m \<Longrightarrow> G (pk_SequenceNumber (rp_Pack pack)) m (pk_Frames (rp_Pack pack))"
    and nack: "\<not> pk_Nack (rp_Pack pack)"
  shows "\<exists>t r. receive env now pack s = Some (t, r) \<and> receive_spec G s pack t r"
proof (cases "IdFromBytes (pk_MessageId (rp_Pack pack))")
  case (Inl e)
  then show ?thesis using inv by (simp add: receive_def receive_spec_def handled_def)
next
  case (Inr m)
  define n where "n = pk_SequenceNumber (rp_Pack pack)"
  have n: "n < - 1" "n < n + 1" and b: "bytes_ok (rp_MessageByteCount pack)"
    using pk word_less_plus_1 by (simp_all add: pack_ok_def n_def)
  obtain s1 p where s1: "newItem s (packItem now pack m None) = (s1, p)" by force
  note new = newItem_ok [OF inv s1]
  have old1: "nextSequenceNumber s1 = nextSequenceNumber s" "r_settings s1 = r_settings s" "r_source s1 = r_source s"
    using new(3) by (simp_all add: same_flow_def)
  define s2 where "s2 = (if ri_head (item_at s1 p) \<and> nextSequenceNumber s1 < n then s1\<lparr>nextSequenceNumber := n\<rparr> else s1)"
  have inv2: "rs_inv G s2" using new(1) rs_inv_next [OF new(1), of n] by (auto simp: s2_def)
  have s2: "rs_inv G s2" "holds_pack s2 p pack m None" "r_log s2 = r_log s" "r_settings s2 = r_settings s" "r_source s2 = r_source s"
      "nextSequenceNumber s \<le> nextSequenceNumber s2"
      "nextSequenceNumber s2 = nextSequenceNumber s \<or> pk_Head (rp_Pack pack) \<and> nextSequenceNumber s < n \<and> nextSequenceNumber s2 = n"
    using inv2 new(2,8) old1 by (auto simp: s2_def holds_pack_def)
  obtain q3 x3 where q3: "RemoveBySequenceNumber (receiveQueue s2) n = Some (q3, x3)" "rs_inv G (s2\<lparr>receiveQueue := q3\<rparr>)"
      "shrunk (receiveQueue s2) q3" "\<forall>x\<in>tq_items q3. sequenceNumber (mem q3 x) \<noteq> n"
    using drop_sequence [OF s2(1)] by blast
  define s3 where "s3 = auditRemoved env now x3 (s2\<lparr>receiveQueue := q3\<rparr>)"
  have s3: "rs_inv G s3" "receiveQueue s3 = q3" using q3(2) by (simp_all add: s3_def)
  obtain q4 x4 where q4: "RemoveByMessageId q3 m = Some (q4, x4)" "rs_inv G (s3\<lparr>receiveQueue := q4\<rparr>)"
      "shrunk q3 q4" "\<forall>x\<in>tq_items q4. messageId (mem q4 x) \<noteq> m"
    using drop_message [OF s3(1), of m, unfolded s3(2)] by blast
  define s4 where "s4 = auditRemoved env now x4 (s3\<lparr>receiveQueue := q4\<rparr>)"
  have f4: "receiveQueue s4 = q4" "nextSequenceNumber s4 = nextSequenceNumber s2" "r_settings s4 = r_settings s"
      "r_source s4 = r_source s" "nextPtr s4 = nextPtr s2" "callbacks_of (r_log s4) = callbacks_of (r_log s)"
      "rs_inv G s4" "delivered (r_log s4) = delivered (r_log s)"
    using q4(2) s2 by (simp_all add: s4_def s3_def)
  have h4: "holds_pack s4 p pack m None"
    by (rule holds_pack_shrunk [OF s2(2)]) (use shrunk_trans [OF q3(3) q4(3)] f4 in simp_all)
  have fresh: "\<forall>x\<in>tq_items q4. sequenceNumber (mem q4 x) \<noteq> n \<and> messageId (mem q4 x) \<noteq> m"
    using q3(4) q4(3,4) mem_fields_cong(3) [of q4 q3] by (auto simp: shrunk_def)
  have placed: "receive env now pack s = receivePlaced env now pack m p s4"
    using Inr s1 q3(1) q4(1) s3(2)
    by (simp add: receive_def n_def [symmetric] s2_def [symmetric] s3_def [symmetric] s4_def [symmetric] Let_def)
  note start = placed receivePlaced_def Let_def n_def [symmetric]
  consider (head) "nextSequenceNumber s4 = n" | (past) "n < nextSequenceNumber s4" | (future) "nextSequenceNumber s4 < n"
    by force
  then show ?thesis
  proof cases
    case past
    define t where "t = (if ri_ack (item_at s4 p) then sendAck n m False None s4 else s4)"
    have "acked_message G (nextSequenceNumber s4) n m" using past g [OF Inr] by (auto simp: acked_message_def n_def)
    then have "rs_inv G t" using f4(7) rs_inv_sendAck [OF f4(7)] by (simp add: t_def)
    then have "receive_spec G s pack t (Inr False)"
      using f4 s2(6,7) by (auto simp: receive_spec_def handled_def t_def n_def)
    moreover have "receive env now pack s = Some (t, Inr False)" unfolding start using past by (auto simp: t_def simp del: makeRoom.simps)
    ultimately show ?thesis by blast
  next
    case future
    have "fst (QueueSize (receiveQueue s4)) = card (tq_items (receiveQueue s4))"
      using tq_inv_distinct [OF rs_inv_queue [OF f4(7)]] by (simp add: QueueSize_def distinct_card)
    then obtain s5 where s5: "makeRoom (Suc (fst (QueueSize (receiveQueue s4)))) (rp_MessageByteCount pack) n s4 = Some s5"
        "rs_inv G s5" "same_but_queue s4 s5"
      using makeRoom_ok [OF f4(7) b, of "Suc (fst (QueueSize (receiveQueue s4)))" n] by auto
    have f5: "nextSequenceNumber s5 = nextSequenceNumber s4" "r_settings s5 = r_settings s" "r_source s5 = r_source s"
        "callbacks_of (r_log s5) = callbacks_of (r_log s)" "shrunk q4 (receiveQueue s5)" "nextPtr s5 = nextPtr s4"
      using s5(3) f4 by (auto simp: same_but_queue_def)
    have h5: "holds_pack s5 p pack m None" by (rule holds_pack_shrunk [OF h4]) (use f5 f4 in simp_all)
    have fresh5: "\<forall>x\<in>tq_items (receiveQueue s5). sequenceNumber (item_at s5 x) \<noteq> n \<and> messageId (item_at s5 x) \<noteq> m"
      using fresh f5(5) mem_fields_cong(1,3) [of "receiveQueue s5" q4] by (auto simp: shrunk_def)
    show ?thesis
    proof (cases "canQueue s5 (rp_MessageByteCount pack)")
      case True
      define s6 where "s6 = s5\<lparr>receiveQueue := Add (receiveQueue s5) p\<rparr>"
      have q5: "queue_ok G (receiveQueue s5) (nextPtr s5) (rs_ReceiveQueueMaxByteCount (r_settings s5))"
        "rs_ReceiveQueueMaxByteCount (r_settings s5) \<le> 2 ^ 62"
        using s5(2) by (simp_all add: rs_inv_def settings_ok_def)
      have p5: "messageId (item_at s5 p) = m" "sequenceNumber (item_at s5 p) = n"
        "messageByteCount (item_at s5 p) = rp_MessageByteCount pack" "p < nextPtr s5" "p \<notin> tq_items (receiveQueue s5)"
        "ri_contractId (item_at s5 p) = None" "ri_ack (item_at s5 p)" "ri_frames (item_at s5 p) = pk_Frames (rp_Pack pack)"
        using h5 nack by (simp_all add: holds_pack_def n_def)
      have none: "messageIdItems (receiveQueue s5) m = None" "sequenceNumberItems (receiveQueue s5) n = None"
        using fresh5 tq_sequence_None [OF rs_inv_queue [OF s5(2)]] tq_message_None [OF rs_inv_queue [OF s5(2)]] by simp_all
      have "queue_ok G (Add (receiveQueue s5) p) (nextPtr s5) (rs_ReceiveQueueMaxByteCount (r_settings s5))"
        by (rule queue_ok_Add [OF q5(1)]) (use p5 b n(1) none g [OF Inr] canQueue_iff [OF q5 b] True in \<open>simp_all add: n_def\<close>)
      then have s6: "rs_inv G s6" using s5(2) by (simp add: rs_inv_def s6_def)
      define t where "t = sendAck n m True (ri_tag (item_at s6 p)) s6"
      have "rs_inv G t" using rs_inv_sendAck [OF s6] by (simp add: t_def)
      then have "receive_spec G s pack t (Inr True)"
        using f4 f5 s2(6,7) by (auto simp: receive_spec_def handled_def t_def s6_def n_def)
      moreover have "receive env now pack s = Some (t, Inr True)"
        unfolding start using future s5(1) True by (auto simp: t_def s6_def simp del: makeRoom.simps)
      ultimately show ?thesis by blast
    next
      case False
      then have "receive env now pack s = Some (s5, Inr False)" unfolding start using future s5(1) by (auto simp del: makeRoom.simps)
      moreover have "receive_spec G s pack s5 (Inr False)"
        using f4 f5 s2(6,7) s5(2) by (auto simp: receive_spec_def handled_def n_def)
      ultimately show ?thesis by blast
    qed
  next
    case head
    define s5 where "s5 = s4\<lparr>nextSequenceNumber := nextSequenceNumber s4 + 1\<rparr>"
    have s5: "rs_inv G s5" using rs_inv_next [OF f4(7), of "n + 1"] head n by (simp add: s5_def)
    have h5: "holds_pack s5 p pack m None" by (rule holds_pack_shrunk [OF h4]) (simp_all add: s5_def)
    have next5: "nextSequenceNumber s5 = n + 1" "nextSequenceNumber s \<le> n" using head s2(6) f4(2) by (simp_all add: s5_def)
    then have mono: "nextSequenceNumber s \<le> n + 1" using n(2) by simp
    have jump: "nextSequenceNumber s = n \<or> pk_Head (rp_Pack pack) \<and> nextSequenceNumber s < n"
      using s2(7) f4(2) head by auto
    have p5: "p \<notin> tq_items (receiveQueue s5)" "bytes_ok (messageByteCount (item_at s5 p))"
        "ri_contractId (item_at s5 p) = None" "sequenceNumber (item_at s5 p) = n"
      using h5 b by (simp_all add: holds_pack_def n_def)
    have g5: "G (sequenceNumber (item_at s5 p)) (messageId (item_at s5 p)) (ri_frames (item_at s5 p))"
      using h5 g [OF Inr] by (simp add: holds_pack_def)
    have ord: "(\<forall>y\<in>set (delivered (r_log s5)). y < sequenceNumber (item_at s5 p)) \<and>
        sequenceNumber (item_at s5 p) < nextSequenceNumber s5"
      using f4(7) head n(2) p5(4) next5(1) by (simp add: rs_inv_def log_ok_def s5_def)
    show ?thesis
    proof (rule head_ok [OF s5 env p5(1-3) g5 ord, where now = now])
      fix t e assume t: "registerContracts env now p s5 = Some (t, Some e)" "same_flow s5 t" "rs_inv G t"
      have "receive env now pack s = Some (t, Inl e)" unfolding start using head t(1) by (simp add: s5_def)
      moreover have "receive_spec G s pack t (Inl e)"
        using t(2,3) f4 next5 mono by (simp add: receive_spec_def handled_def same_flow_def s5_def)
      ultimately show ?thesis by blast
    next
      fix t u assume t: "registerContracts env now p s5 = Some (t, None)" "r_updateContract env p t = (t, False)"
        "same_flow s5 t" "rs_inv G t"
      have "receive env now pack s = Some (t, Inl NoContract)" unfolding start using head t(1,2) by (simp add: s5_def)
      moreover have "receive_spec G s pack t (Inl NoContract)"
        using t(3,4) f4 next5 mono by (simp add: receive_spec_def handled_def same_flow_def s5_def)
      ultimately show ?thesis by blast
    next
      fix t u r x assume t: "registerContracts env now p s5 = Some (t, None)" "r_updateContract env p t = (u, True)"
        "receiveHead env now p u = Some r" "same_flow s5 t" "delivers t p x r" "rs_inv G r"
      have "receive env now pack s = Some (r, Inr True)" unfolding start using head t(1-3) by (simp add: s5_def)
      moreover have "hands_over s pack r x"
        by (rule delivers_hands_over [OF t(5) holds_pack_flow [OF h5 t(4)]])
          (use t(4) f4 in \<open>simp add: same_flow_def s5_def\<close>)
      then have "receive_spec G s pack r (Inr True)"
        using t(4-6) f4 next5 mono jump
        by (auto simp: receive_spec_def handled_def delivers_def same_flow_def s5_def n_def)
      ultimately show ?thesis by blast
    qed
  qed
qed

text \<open>
  A message without acks is handed over out of order or dropped. It must not name an open contract that
  cannot pay while contracts are waived, see \<open>nack_bad_accounting\<close> below.
\<close>

lemma receiveNack_ok:
  assumes inv: "rs_inv G s" and env: "env_ok env" and pk: "pack_ok pack" and nack: "pk_Nack (rp_Pack pack)"
    and paid: "pk_ContractId (rp_Pack pack) = None \<or> \<not> noContractAllowed env s"
  shows "\<exists>t r. receiveNack env now pack s = Some (t, r) \<and> handled G s t \<and> nextSequenceNumber t = nextSequenceNumber s \<and>
    (callbacks_of (r_log t) = callbacks_of (r_log s) \<or> (\<exists>x. hands_over s pack t x \<and> r = Inr True))"
proof -
  have self: "handled G s s" using inv by (simp add: handled_def)
  define cidr where "cidr = (case pk_ContractId (rp_Pack pack) of None \<Rightarrow> Inr None | Some bs \<Rightarrow> map_sum id Some (IdFromBytes bs))"
  show ?thesis
  proof (cases "IdFromBytes (pk_MessageId (rp_Pack pack))")
    case (Inl e)
    then show ?thesis using self by (simp add: receiveNack_def)
  next
    case mid: (Inr m)
    show ?thesis
    proof (cases cidr)
      case (Inl e)
      then show ?thesis using self mid by (simp add: receiveNack_def cidr_def)
    next
      case cid: (Inr cid)
      show ?thesis
      proof (cases "cid = None \<and> \<not> rs_AllowLegacyNack (r_settings s)")
        case True
        then show ?thesis using self mid cid by (simp add: receiveNack_def cidr_def)
      next
        case allowed: False
        obtain s1 p where s1: "newItem s (packItem now pack m cid) = (s1, p)" by force
        note new = newItem_ok [OF inv s1]
        have h1: "holds_pack s1 p pack m cid" using new(2) .
        obtain t e where t: "registerContracts env now p s1 = Some (t, e)" "same_flow s1 t" "contracts_wf_of t" "settled_of t"
          using registerContracts_ok [of s1 env now p] new(1) env by (auto simp: rs_inv_def)
        have old: "nextSequenceNumber t = nextSequenceNumber s" "r_settings t = r_settings s" "r_source t = r_source s"
            "callbacks_of (r_log t) = callbacks_of (r_log s)"
          using new(3,8) t(2) by (simp_all add: same_flow_def)
        have invt: "rs_inv G t" using rs_inv_flow [OF new(1) t(2-4)] .
        have ht: "holds_pack t p pack m cid" using holds_pack_flow [OF h1 t(2)] .
        have hand: "handled G s t" using invt old by (simp add: handled_def)
        have unfold: "receiveNack env now pack s =
          (case e of Some e \<Rightarrow> Some (t, Inl e)
           | None \<Rightarrow> if (case cid of None \<Rightarrow> False | Some i \<Rightarrow> map_of (openReceiveContracts t) i = None) then Some (t, Inr False)
             else (case r_updateContract env p t of (s, success) \<Rightarrow>
               if success then do { s \<leftarrow> receiveHead env now p s; Some (s, Inr True) } else Some (s, Inr False)))"
          using mid cid allowed s1 t(1) by (cases cid) (auto simp: receiveNack_def cidr_def)
        show ?thesis
        proof (cases "e \<noteq> None \<or> (case cid of None \<Rightarrow> False | Some i \<Rightarrow> map_of (openReceiveContracts t) i = None)")
          case True
          then show ?thesis using hand old unfolding unfold by (auto split: option.splits)
        next
          case False
          obtain u success where u: "r_updateContract env p t = (u, success)" by force
          have cond: "ri_contractId (item_at t p) = None \<or> (\<not> noContractAllowed env t \<and>
              (\<exists>cid. ri_contractId (item_at t p) = Some cid \<and> map_of (openReceiveContracts t) cid \<noteq> None))"
            using ht paid False cid old(3)
            by (auto simp: holds_pack_def cidr_def noContractAllowed_def split: option.splits)
          have b: "bytes_ok (messageByteCount (item_at t p))" using ht pk by (simp add: holds_pack_def pack_ok_def)
          have D: "if success then \<exists>r x. receiveHead env now p u = Some r \<and> delivers t p x r else u = t"
            using deliver_ok [OF t(3,4) b cond u, where now = now] .
          show ?thesis
          proof (cases success)
            case True
            then obtain r x where r: "receiveHead env now p u = Some r" "delivers t p x r" using D by auto
            have "\<not> ri_ack x" using r(2) ht nack by (auto simp: delivers_def holds_pack_def)
            then have "rs_inv G r" using rs_inv_delivers [OF invt r(2)] ht by (simp add: holds_pack_def)
            moreover have "hands_over s pack r x" using delivers_hands_over [OF r(2) ht old(4)] .
            ultimately show ?thesis
              using False u True r old unfolding unfold by (auto simp: handled_def delivers_def)
          next
            case False2: False
            then show ?thesis using False u D hand old unfolding unfold by auto
          qed
        qed
      qed
    qed
  qed
qed


section \<open>Draining the queue\<close>

text \<open>The items handed over by a round are consecutive, starting with the next sequence number.\<close>

definition hands_over_run :: "ReceiveSequence \<Rightarrow> ReceiveSequence \<Rightarrow> bool" where
  "hands_over_run s t \<longleftrightarrow> (\<exists>xs. callbacks_of (r_log t) = callbacks_of (r_log s) @ xs \<and>
     (\<forall>x\<in>set xs. ri_ack x) \<and>
     map sequenceNumber xs = map (\<lambda>i. nextSequenceNumber s + of_nat i) [0..<length xs] \<and>
     nextSequenceNumber t = nextSequenceNumber s + of_nat (length xs))"

lemma hands_over_run_same:
  "callbacks_of (r_log t) = callbacks_of (r_log s) \<Longrightarrow> nextSequenceNumber t = nextSequenceNumber s \<Longrightarrow> hands_over_run s t"
  unfolding hands_over_run_def by (rule exI [of _ "[]"]) simp

lemma hands_over_run_step:
  assumes x: "callbacks_of (r_log u) = callbacks_of (r_log s) @ [x]" "ri_ack x" "sequenceNumber x = nextSequenceNumber s"
    "nextSequenceNumber u = nextSequenceNumber s + 1" and run: "hands_over_run u t"
  shows "hands_over_run s t"
proof -
  obtain xs where xs: "callbacks_of (r_log t) = callbacks_of (r_log u) @ xs" "\<forall>x\<in>set xs. ri_ack x"
      "map sequenceNumber xs = map (\<lambda>i. nextSequenceNumber u + of_nat i) [0..<length xs]"
      "nextSequenceNumber t = nextSequenceNumber u + of_nat (length xs)"
    using run by (auto simp: hands_over_run_def)
  have "map sequenceNumber (x # xs) = map (\<lambda>i. nextSequenceNumber s + of_nat i) (0 # map Suc [0..<length xs])"
    using xs(3) x(3,4) by (simp add: add.assoc)
  then have "map sequenceNumber (x # xs) = map (\<lambda>i. nextSequenceNumber s + of_nat i) [0..<length (x # xs)]"
    by (simp add: upt_conv_Cons map_Suc_upt del: upt_Suc)
  then show ?thesis using xs x unfolding hands_over_run_def by (intro exI [of _ "x # xs"]) (simp add: add.assoc)
qed

lemma r_updateContract_frame:
  "r_updateContract env p s = (t, b) \<Longrightarrow> nextSequenceNumber t = nextSequenceNumber s"
  by (auto simp: r_updateContract_def Let_def setItem_def split: option.splits prod.splits if_splits)

lemma r_updateContract_refused: "r_updateContract env p s = (t, False) \<Longrightarrow> t = s"
  by (auto simp: r_updateContract_def Let_def split: option.splits prod.splits if_splits dest!: contract_update_False)

text \<open>Nothing at the front of the queue is ready.\<close>

definition drained :: "ReceiveSequence \<Rightarrow> bool" where
  "drained s \<longleftrightarrow> (\<forall>p\<in>tq_items (receiveQueue s). nextSequenceNumber s < sequenceNumber (item_at s p))"

lemma handled_refl: "rs_inv G s \<Longrightarrow> handled G s s"
  by (simp add: handled_def)

lemma handled_trans: "handled G s t \<Longrightarrow> handled G t u \<Longrightarrow> handled G s u"
  by (auto simp: handled_def)

lemma drainQueue_ok:
  assumes "rs_inv G s" "env_ok env" "card (tq_items (receiveQueue s)) < fuel"
  shows "\<exists>t r. drainQueue env now fuel s = Some (t, r) \<and> handled G s t \<and> hands_over_run s t \<and>
    (case r of Inl _ \<Rightarrow> True | Inr _ \<Rightarrow> drained t)"
  using assms
proof (induction fuel arbitrary: s)
  case (Suc fuel)
  note inv = Suc.prems(1)
  have tq: "tq_inv (receiveQueue s)" using inv by (rule rs_inv_queue)
  have stay: "handled G s s \<and> hands_over_run s s" using inv hands_over_run_same by (simp add: handled_def)
  show ?case
  proof (cases "PeekFirst (receiveQueue s)")
    case None
    then have "drained s" using PeekFirst_None [of "receiveQueue s"] by (simp add: drained_def)
    then show ?thesis using None stay by auto
  next
    case (Some p)
    have p: "p \<in> tq_items (receiveQueue s)" using PeekFirst_in [OF Some] .
    define item where "item = item_at s p"
    define gap where "gap = ri_receiveTime item + rs_GapTimeout (r_settings s) - now"
    have q: "bytes_ok (messageByteCount item)" "sequenceNumber item < - 1" "ri_contractId item = None" "ri_ack item"
      "G (sequenceNumber item) (messageId item) (ri_frames item)"
      using inv p by (auto simp: rs_inv_def queue_ok_def item_def)
    show ?thesis
    proof (cases "gap < 0 \<or> nextSequenceNumber s < sequenceNumber item")
      case wait: True
      have "drained s" if "nextSequenceNumber s < sequenceNumber item"
      proof -
        have "sequenceNumber item \<le> sequenceNumber (item_at s x)" if "x \<in> tq_items (receiveQueue s)" for x
          using PeekFirst_least [OF tq Some that] inv by (simp add: rs_inv_def queue_ok_def compareSequenceNumber_le item_def)
        then show ?thesis using that unfolding drained_def by (meson less_le_trans)
      qed
      then show ?thesis using wait Some stay by (auto simp: gap_def item_def Let_def)
    next
      case ready: False
      obtain q' where q': "RemoveByMessageId (receiveQueue s) (messageId item) = Some (q', Some p)"
          "removed (receiveQueue s) p q'"
        using take_item [OF tq p] by (auto simp: item_def)
      define s1 where "s1 = s\<lparr>receiveQueue := q'\<rparr>"
      have s1: "rs_inv G s1" "p \<notin> tq_items (receiveQueue s1)" "nextSequenceNumber s1 = nextSequenceNumber s"
          "r_log s1 = r_log s" "r_settings s1 = r_settings s" "r_source s1 = r_source s"
        using rs_inv_dequeue [OF inv q'(2)] q'(2) by (simp_all add: s1_def removed_def)
      have i1: "sequenceNumber (item_at s1 p) = sequenceNumber item" "messageByteCount (item_at s1 p) = messageByteCount item"
          "ri_contractId (item_at s1 p) = None" "ri_ack (item_at s1 p)" "ri_frames (item_at s1 p) = ri_frames item"
            "messageId (item_at s1 p) = messageId item"
        using removed_mem [OF q'(2), of p] ri_contents [of q' "receiveQueue s" p] q'(2) q
        by (simp_all add: s1_def item_def removed_def)
      have "card (tq_items q') < card (tq_items (receiveQueue s))"
        using q'(2) p unfolding removed_def by (metis card_Diff1_less finite_set)
      then have card1: "card (tq_items (receiveQueue s1)) < fuel" using Suc.prems(3) by (simp add: s1_def)
      have hand1: "handled G s s1" using s1 by (simp add: handled_def)
      show ?thesis
      proof (cases "nextSequenceNumber s = sequenceNumber item")
        case False
        define u where "u = sendAck (sequenceNumber item) (messageId item) False None s1"
        have "acked_message G (nextSequenceNumber s1) (sequenceNumber item) (messageId item)"
          using ready False s1(3) q(5) by (auto simp: acked_message_def not_less order_less_le)
        then have u: "rs_inv G u" using rs_inv_sendAck [OF s1(1)] by (simp add: u_def)
        have "card (tq_items (receiveQueue u)) < fuel" using card1 by (simp add: u_def)
        then obtain t r where t: "drainQueue env now fuel u = Some (t, r)" "handled G u t" "hands_over_run u t"
            "case r of Inl _ \<Rightarrow> True | Inr _ \<Rightarrow> drained t"
          using Suc.IH [OF u Suc.prems(2)] by blast
        have "handled G s t" using t(2) s1 by (simp add: handled_def u_def)
        moreover have "hands_over_run s t" using t(3) s1 by (simp add: hands_over_run_def u_def)
        ultimately show ?thesis
          using t(1,4) Some ready False q'(1) q(4)
          by (auto simp: gap_def item_def [symmetric] u_def s1_def Let_def)
      next
        case head: True
        obtain s2 e where s2: "registerContracts env now p s1 = Some (s2, e)" "same_flow s1 s2" "contracts_wf_of s2" "settled_of s2"
          using registerContracts_ok [of s1 env now p] s1(1) Suc.prems(2) by (auto simp: rs_inv_def)
        have inv2: "rs_inv G s2" using rs_inv_flow [OF s1(1) s2(2-4)] .
        have f2: "nextSequenceNumber s2 = nextSequenceNumber s" "r_settings s2 = r_settings s" "r_source s2 = r_source s"
            "callbacks_of (r_log s2) = callbacks_of (r_log s)" "receiveQueue s2 = receiveQueue s1"
          using s2(2) s1 by (simp_all add: same_flow_def)
        have same2: "handled G s s2 \<and> hands_over_run s s2"
          using inv2 f2 hands_over_run_same by (simp add: handled_def)
        have unfold: "drainQueue env now (Suc fuel) s =
          (case e of Some e \<Rightarrow> Some (s2, Inl (RegisterFailed e))
           | None \<Rightarrow> (case r_updateContract env p s2 of (s, success) \<Rightarrow>
               if success then do { s \<leftarrow> receiveHead env now p (s\<lparr>nextSequenceNumber := nextSequenceNumber s + 1\<rparr>);
                 drainQueue env now fuel s }
               else Some (s, Inl HeadWithoutContract)))"
          using Some ready head q'(1) s2(1) s1(3)
          by (auto simp: gap_def item_def [symmetric] s1_def [symmetric] Let_def split: option.splits prod.splits)
        show ?thesis
        proof (cases e)
          case (Some e)
          then show ?thesis using same2 unfolding unfold by auto
        next
          case None
          define s3 where "s3 = s2\<lparr>nextSequenceNumber := nextSequenceNumber s2 + 1\<rparr>"
          have n: "nextSequenceNumber s < nextSequenceNumber s + 1" using q(2) head word_less_plus_1 by simp
          have s3: "rs_inv G s3" "contracts_wf_of s3" "settled_of s3" "item_at s3 p = item_at s1 p"
            using rs_inv_next [OF inv2, of "nextSequenceNumber s + 1"] n s2(3,4) f2 by (simp_all add: s3_def)
          obtain u success where u: "r_updateContract env p s2 = (u, success)" by force
          have u3: "r_updateContract env p s3 = (u\<lparr>nextSequenceNumber := nextSequenceNumber s2 + 1\<rparr>, success)"
            using r_updateContract_next [where s = s2] u by (simp add: s3_def)
          have D: "if success then \<exists>r x. receiveHead env now p (u\<lparr>nextSequenceNumber := nextSequenceNumber s2 + 1\<rparr>) = Some r \<and>
              delivers s3 p x r else u\<lparr>nextSequenceNumber := nextSequenceNumber s2 + 1\<rparr> = s3"
            using deliver_ok [OF s3(2,3) _ _ u3, where now = now] s3(4) i1 q(1) by simp
          show ?thesis
          proof (cases success)
            case False
            then have "u = s2" using r_updateContract_refused [of env p s2 u] u by simp
            then show ?thesis using False None u same2 unfolding unfold by auto
          next
            case True
            then obtain r x where r: "receiveHead env now p (u\<lparr>nextSequenceNumber := nextSequenceNumber s2 + 1\<rparr>) = Some r"
                "delivers s3 p x r"
              using D by auto
            have nu: "nextSequenceNumber u = nextSequenceNumber s2" using r_updateContract_frame [OF u] by simp
            have x: "sequenceNumber x = nextSequenceNumber s" "ri_ack x"
              using r(2) s3(4) i1 head by (auto simp: delivers_def)
            have "\<forall>y\<in>set (delivered (r_log s3)). y < sequenceNumber x"
              using inv2 f2 x by (simp add: rs_inv_def log_ok_def s3_def)
            then have invr: "rs_inv G r"
              using rs_inv_delivers [OF s3(1) r(2)] s1(2) f2 x n s3(4) i1 q(5) by (simp add: s3_def)
            have fr: "nextSequenceNumber r = nextSequenceNumber s + 1" "r_settings r = r_settings s" "r_source r = r_source s"
                "callbacks_of (r_log r) = callbacks_of (r_log s) @ [x]"
                "tq_items (receiveQueue r) = tq_items (receiveQueue s1)"
              using r(2) f2 by (simp_all add: delivers_def s3_def)
            then obtain t r' where t: "drainQueue env now fuel r = Some (t, r')" "handled G r t" "hands_over_run r t"
                "case r' of Inl _ \<Rightarrow> True | Inr _ \<Rightarrow> drained t"
              using Suc.IH [OF invr Suc.prems(2)] card1 by auto
            have "hands_over_run s t" using hands_over_run_step [OF fr(4) x(2,1) fr(1) t(3)] .
            moreover have "handled G s t" using t(2) fr n by (auto simp: handled_def dest: append_prefixD)
            ultimately show ?thesis
              using t(1,4) r(1) u None True nu unfolding unfold by auto
          qed
        qed
      qed
    qed
  qed
qed simp

end
