(* ===== verification/Receive_Properties.thy ===== *)
theory Receive_Properties
  imports Receive_Invariant
begin

text \<open>
  The properties of the receive sequence over whole runs: for any packs in any order, with any timers and
  ack rounds in between, \<open>Run\<close> never panics and the client sees a prefix of what the sender sent.
\<close>

section \<open>One round\<close>






















section \<open>Whole runs\<close>






section \<open>The example of the witnesses\<close>

text \<open>Contracts are waived; message 1 overtakes message 0, which is sent twice.\<close>

definition example_env :: receive_env where
  "example_env = \<lparr>unmarshalContract = \<lambda>_. None, unmarshalStored = \<lambda>_. None, verifyContract = \<lambda>_ _ _. True,
     receiveNoContract = \<lambda>_. True, newLocalId = \<lambda>_. zeroId, auditMarshal = \<lambda>_. True\<rparr>"

definition example_message :: "nat \<Rightarrow> Frame list" where
  "example_message n = [\<lparr>f_MessageType = 0, f_MessageBytes = [of_nat n], f_Raw = False\<rparr>]"

definition example_pack :: "nat \<Rightarrow> ReceivePack" where
  "example_pack n = \<lparr>rp_Source = SourceId example_id, rp_SequenceId = example_id,
     rp_Pack = \<lparr>pk_MessageId = replicate 16 (of_nat n), pk_SequenceId = example_id, pk_SequenceNumber = of_nat n,
       pk_Head = (n = 0), pk_Frames = example_message n, pk_Nack = False, pk_ContractFrame = None, pk_Tag = None,
       pk_ContractId = None\<rparr>,
     rp_ReceiveCallback = 0, rp_MessageByteCount = 1, rp_TransferFrameBytes = []\<rparr>"

definition example_receiver :: ReceiveSequence where
  "example_receiver = NewReceiveSequence (SourceId example_id) example_id DefaultReceiveBufferSettings
     (\<lambda>_. packItem 0 (example_pack 0) zeroId None)
     (\<lambda>_. \<lparr>localId = zeroId, contractTag = [], contract = \<lparr>StoredContractBytes = [], StoredContractHmac = [], c_ProvideMode = 0\<rparr>,
        contractId = zeroId, transferByteCount = 0, effectiveTransferByteCount = 0, provideMode = 0,
        minUpdateByteCount = 0, contractPath = emptyPath, ackedByteCount = 0, unackedByteCount = 0\<rparr>)"




lemma small_numbers [simp]: "(0 :: u64) < - 1" "(1 :: u64) < - 1" "(2 :: u64) < - 1"
  by code_simp+


section \<open>Properties\<close>










text \<open>The example with contracts: every contract frame byte is a contract of one byte of that id.\<close>

definition contract_env :: receive_env where
  "contract_env = example_env\<lparr>unmarshalContract := \<lambda>bs. Some \<lparr>StoredContractBytes = bs, StoredContractHmac = [], c_ProvideMode = 3\<rparr>,
     unmarshalStored := \<lambda>bs. Some \<lparr>s_ContractId = replicate 16 (hd bs), s_TransferByteCount = 1,
       s_SourceId = None, s_DestinationId = None, s_StreamId = None\<rparr>,
     newLocalId := \<lambda>n. replicate 15 0 @ [of_nat n]\<rparr>"

definition contract_pack :: "nat \<Rightarrow> byte \<Rightarrow> ReceivePack" where
  "contract_pack n c = (example_pack n)\<lparr>rp_Pack := (rp_Pack (example_pack n))\<lparr>pk_ContractFrame :=
     Some \<lparr>f_MessageType = 2, f_MessageBytes = [c], f_Raw = False\<rparr>\<rparr>\<rparr>"

definition nack_pack :: "byte \<Rightarrow> ReceivePack" where
  "nack_pack c = (example_pack 1)\<lparr>rp_Pack := (rp_Pack (example_pack 1))\<lparr>pk_Nack := True, pk_ContractId := Some (replicate 16 c)\<rparr>\<rparr>"

text \<open>
  The restriction on messages without acks in the properties above is needed: with contracts waived for
  the source (\<open>receiveNoContract\<close>), a nack that names an open contract which is used up passes
  \<open>updateContract\<close> uncharged, and \<open>receiveHead\<close> acks it on the contract all the same: the "Bad accounting"
  panic. The same nack is dropped when contracts are required.
\<close>

theorem nack_bad_accounting:
  "receive_run contract_env (\<lambda>_. []) example_id [PackArrives 0 (contract_pack 0 7), PackArrives 1 (nack_pack 7)]
     example_receiver = None \<and>
   receive_run (contract_env\<lparr>receiveNoContract := \<lambda>_. False\<rparr>) (\<lambda>_. []) example_id
     [PackArrives 0 (contract_pack 0 7), PackArrives 1 (nack_pack 7)] example_receiver \<noteq> None"
  by code_simp

text \<open>
  A contract can be used again once it was closed: after \<open>MaxOpenReceiveContract\<close> newer contracts the
  oldest one is closed and forgotten, and the same signed contract frame opens it anew with its full byte
  count (\<open>setContract\<close> never returns the error "the next contract has already been used" that
  \<open>registerContracts\<close> expects). Here a contract of one byte pays for two messages of one byte.
\<close>

theorem closed_contract_reused:
  "map_option (\<lambda>(t, e). (map ri_contractId (callbacks_of (r_log t)),
      List.map_filter (\<lambda>x. case x of CloseContract i a u \<Rightarrow> Some (i, a) | _ \<Rightarrow> None) (r_log t)))
    (receive_run (contract_env\<lparr>receiveNoContract := \<lambda>_. False\<rparr>) (\<lambda>_. []) example_id
      (map (\<lambda>(n, c). PackArrives 0 (contract_pack n c)) [(0, 7), (1, 8), (2, 9), (3, 10), (4, 11), (5, 7)])
      example_receiver)
   = Some ([Some (replicate 16 7), Some (replicate 16 8), Some (replicate 16 9), Some (replicate 16 10),
       Some (replicate 16 11), Some (replicate 16 7)],
     [(replicate 16 7, 1), (replicate 16 8, 1)])"
  by code_simp

end
