(* ===== verification/Rtt_Window.thy ===== *)
theory Rtt_Window
  imports Go_Heap Sequence_Contract "HOL-Library.Signed_Division"
begin

text \<open>
  The window of round trip times of a send sequence (transfer_rtt.go): a ring of the last samples that
  drops the ones older than a timeout, and a heap of the same samples with their running sum. The heap is
  the third user of \<open>heap_interface\<close>. The main fact is a refinement: the ring is the list of the samples
  in range together with one more sample at the head slot that no timeout removes, and every operation is
  the evident one on that list; nothing panics and the sum is the sum of the ring.
\<close>

section \<open>State\<close>

record rttWindowItem =
  i_sendTime :: time
  i_receiveTime :: time
  i_rtt :: duration
  i_heapIndex :: nat

record rttHeap =
  rh_mem :: "ptr \<Rightarrow> rttWindowItem"
  rh_items :: "ptr list"
  netRtt :: duration

text \<open>\<open>rw_nextPtr\<close> is the first free address of the store of items.\<close>

record RttWindow =
  windowTimeout :: duration
  rttScale :: rat
  minScaledRtt :: duration
  maxScaledRtt :: duration
  window :: "ptr option list"
  windowTailIndex :: nat
  windowHeadIndex :: nat
  rtts :: rttHeap
  rw_nextPtr :: ptr

text \<open>\<open>time.Time.Sub\<close> saturates.\<close>

definition time_Sub :: "time \<Rightarrow> time \<Rightarrow> duration" where
  "time_Sub t u = max (- (2 ^ 63)) (min (2 ^ 63 - 1) (t - u))"

definition newRttWindowItem :: "time \<Rightarrow> time \<Rightarrow> rttWindowItem" where
  "newRttWindowItem st rt = \<lparr>i_sendTime = st, i_receiveTime = rt, i_rtt = time_Sub rt st, i_heapIndex = 0\<rparr>"

section \<open>The heap of round trip times\<close>

definition rh_Len :: "rttHeap \<Rightarrow> nat" where
  "rh_Len h = length (rh_items h)"

definition rh_Less :: "rttHeap \<Rightarrow> nat \<Rightarrow> nat \<Rightarrow> bool" where
  "rh_Less h i j = (i_rtt (rh_mem h (rh_items h ! i)) < i_rtt (rh_mem h (rh_items h ! j)))"

definition rh_SetIndex :: "rttHeap \<Rightarrow> ptr \<Rightarrow> nat \<Rightarrow> rttHeap" where
  "rh_SetIndex h p i = h\<lparr>rh_mem := (rh_mem h)(p := (rh_mem h p)\<lparr>i_heapIndex := i\<rparr>)\<rparr>"

definition rh_Swap :: "rttHeap \<Rightarrow> nat \<Rightarrow> nat \<Rightarrow> rttHeap" where
  "rh_Swap h i j =
     (let a = rh_items h ! i; b = rh_items h ! j;
          h = rh_SetIndex h b i; h = h\<lparr>rh_items := (rh_items h)[i := b]\<rparr>;
          h = rh_SetIndex h a j
      in h\<lparr>rh_items := (rh_items h)[j := a]\<rparr>)"

definition rh_Push :: "rttHeap \<Rightarrow> ptr \<Rightarrow> rttHeap" where
  "rh_Push h item = (let h = rh_SetIndex h item (length (rh_items h)) in h\<lparr>rh_items := rh_items h @ [item]\<rparr>)"

definition rh_Pop :: "rttHeap \<Rightarrow> rttHeap \<times> ptr" where
  "rh_Pop h = (let n = length (rh_items h); item = rh_items h ! (n - 1)
     in (h\<lparr>rh_items := take (n - 1) (rh_items h)\<rparr>, item))"

definition rtt_heap :: "(rttHeap, ptr) heap_ops" where
  "rtt_heap = \<lparr>h_len = rh_Len, h_less = rh_Less, h_swap = rh_Swap, h_push = rh_Push, h_pop = rh_Pop\<rparr>"

definition newRttHeap :: "(ptr \<Rightarrow> rttWindowItem) \<Rightarrow> rttHeap" where
  "newRttHeap m = heap_Init rtt_heap \<lparr>rh_mem = m, rh_items = [], netRtt = 0\<rparr>"

definition rh_Add :: "rttHeap \<Rightarrow> ptr \<Rightarrow> rttHeap" where
  "rh_Add h item =
     (let h = heap_Push rtt_heap h item in h\<lparr>netRtt := int64 (netRtt h + i_rtt (rh_mem h item))\<rparr>)"

definition rh_Remove :: "rttHeap \<Rightarrow> ptr \<Rightarrow> rttHeap option" where
  "rh_Remove h item =
     do {
       (h, _) \<leftarrow> heap_Remove rtt_heap h (i_heapIndex (rh_mem h item));
       Some (h\<lparr>netRtt := int64 (netRtt h - i_rtt (rh_mem h item))\<rparr>)
     }"

text \<open>\<open>MinRtt\<close> reads the last element of the array of a min heap.\<close>

definition MinRtt :: "rttHeap \<Rightarrow> duration" where
  "MinRtt h = (let n = length (rh_items h) in if n = 0 then 0 else i_rtt (rh_mem h (rh_items h ! (n - 1))))"

definition MeanRtt :: "rttHeap \<Rightarrow> duration" where
  "MeanRtt h = (let n = length (rh_items h) in if n = 0 then 0 else netRtt h sdiv int n)"

section \<open>The window\<close>

text \<open>A window of size zero panics.\<close>

definition NewRttWindow ::
    "nat \<Rightarrow> duration \<Rightarrow> rat \<Rightarrow> duration \<Rightarrow> duration \<Rightarrow> (ptr \<Rightarrow> rttWindowItem) \<Rightarrow> RttWindow option" where
  "NewRttWindow windowSize timeout scale mn mx m =
     (if windowSize = 0 then None
      else Some \<lparr>windowTimeout = timeout, rttScale = scale, minScaledRtt = mn, maxScaledRtt = mx,
        window = replicate windowSize None, windowTailIndex = 0, windowHeadIndex = 0,
        rtts = newRttHeap m, rw_nextPtr = 0\<rparr>)"

text \<open>
  Each round of \<open>coalesce\<close> moves the tail by one towards the head, so as much fuel as the ring has slots is
  enough (\<open>coalesce_rep\<close> below). \<open>None\<close> stands for the dereference of an empty slot.
\<close>

primrec coalesce_loop :: "nat \<Rightarrow> time \<Rightarrow> RttWindow \<Rightarrow> RttWindow option" where
  "coalesce_loop 0 start w = (if windowTailIndex w = windowHeadIndex w then Some w else None)"
| "coalesce_loop (Suc fuel) start w =
     (if windowTailIndex w = windowHeadIndex w then Some w
      else do {
        item \<leftarrow> window w ! windowTailIndex w;
        if \<not> i_receiveTime (rh_mem (rtts w) item) < start then Some w
        else do {
          h \<leftarrow> rh_Remove (rtts w) item;
          let w = w\<lparr>rtts := h\<rparr>;
          let w = w\<lparr>window := (window w)[windowTailIndex w := None]\<rparr>;
          coalesce_loop fuel start (w\<lparr>windowTailIndex := (windowTailIndex w + 1) mod length (window w)\<rparr>)
        }
      })"

definition coalesce :: "time \<Rightarrow> RttWindow \<Rightarrow> RttWindow option" where
  "coalesce windowTime w = coalesce_loop (length (window w)) (windowTime - windowTimeout w) w"

text \<open>A tag carries its send time in milliseconds.\<close>

definition millisecond :: duration where
  "millisecond = 10 ^ 6"

definition openTag :: "time \<Rightarrow> Tag" where
  "openTag st = \<lparr>tag_SendTime = word_of_int (st div millisecond)\<rparr>"

definition closeTag :: "Tag \<Rightarrow> time \<Rightarrow> RttWindow \<Rightarrow> RttWindow option" where
  "closeTag tg receiveTime w =
     (let st = sint (tag_SendTime tg) * millisecond in
      if receiveTime < st then Some w
      else do {
        w \<leftarrow> coalesce receiveTime w;
        let item = rw_nextPtr w;
        let w = w\<lparr>rtts := (rtts w)\<lparr>rh_mem := (rh_mem (rtts w))(item := newRttWindowItem st receiveTime)\<rparr>,
                  rw_nextPtr := item + 1\<rparr>;
        let w = w\<lparr>rtts := rh_Add (rtts w) item\<rparr>;
        w \<leftarrow> (case window w ! windowHeadIndex w of None \<Rightarrow> Some w
              | Some replaceItem \<Rightarrow> do { h \<leftarrow> rh_Remove (rtts w) replaceItem; Some (w\<lparr>rtts := h\<rparr>) });
        let w = w\<lparr>window := (window w)[windowHeadIndex w := Some item]\<rparr>;
        let w = w\<lparr>windowHeadIndex := (windowHeadIndex w + 1) mod length (window w)\<rparr>;
        Some (if windowTailIndex w = windowHeadIndex w
              then w\<lparr>windowTailIndex := (windowTailIndex w + 1) mod length (window w)\<rparr> else w)
      })"

definition scaledRtt :: "time \<Rightarrow> RttWindow \<Rightarrow> (RttWindow \<times> duration) option" where
  "scaledRtt sendTime w =
     do {
       w \<leftarrow> coalesce sendTime w;
       let useRtt = MeanRtt (rtts w);
       let scaled = int64 (floatToInt64 (float32 (float32 (of_int (useRtt sdiv millisecond)) * rttScale w)) * millisecond);
       Some (w, min (max scaled (minScaledRtt w)) (maxScaledRtt w))
     }"

section \<open>The heap is a heap\<close>

definition rh_rtt :: "rttHeap \<Rightarrow> ptr \<Rightarrow> duration" where
  "rh_rtt h p = i_rtt (rh_mem h p)"

definition rh_received :: "rttHeap \<Rightarrow> ptr \<Rightarrow> time" where
  "rh_received h p = i_receiveTime (rh_mem h p)"

definition rh_le :: "rttHeap \<Rightarrow> ptr \<Rightarrow> ptr \<Rightarrow> bool" where
  "rh_le h p p' \<longleftrightarrow> rh_rtt h p \<le> rh_rtt h p'"

definition rh_wf :: "rttHeap \<Rightarrow> bool" where
  "rh_wf h \<longleftrightarrow> distinct (rh_items h) \<and> (\<forall>i<length (rh_items h). i_heapIndex (rh_mem h (rh_items h ! i)) = i)"

lemma rh_SetIndex_fields [simp]:
  "rh_items (rh_SetIndex h p i) = rh_items h" "netRtt (rh_SetIndex h p i) = netRtt h"
  "rh_rtt (rh_SetIndex h p i) = rh_rtt h" "rh_received (rh_SetIndex h p i) = rh_received h"
  "i_heapIndex (rh_mem (rh_SetIndex h p i) p') = (if p' = p then i else i_heapIndex (rh_mem h p'))"
  by (auto simp: rh_SetIndex_def rh_rtt_def rh_received_def fun_eq_iff)

lemma rh_update_fields [simp]:
  "rh_rtt (h\<lparr>rh_items := xs\<rparr>) = rh_rtt h" "rh_rtt (h\<lparr>netRtt := n\<rparr>) = rh_rtt h"
  "rh_received (h\<lparr>rh_items := xs\<rparr>) = rh_received h" "rh_received (h\<lparr>netRtt := n\<rparr>) = rh_received h"
  by (simp_all add: rh_rtt_def rh_received_def fun_eq_iff)

lemma rh_method_fields:
  "rh_items (rh_Swap h i j) = list_swap (rh_items h) i j" "netRtt (rh_Swap h i j) = netRtt h"
  "rh_rtt (rh_Swap h i j) = rh_rtt h" "rh_received (rh_Swap h i j) = rh_received h"
  "i_heapIndex (rh_mem (rh_Swap h i j) p) =
    (if p = rh_items h ! i then j else if p = rh_items h ! j then i else i_heapIndex (rh_mem h p))"
  "rh_items (rh_Push h p) = rh_items h @ [p]" "netRtt (rh_Push h p) = netRtt h"
  "rh_rtt (rh_Push h p) = rh_rtt h" "rh_received (rh_Push h p) = rh_received h"
  "i_heapIndex (rh_mem (rh_Push h p) p') = (if p' = p then length (rh_items h) else i_heapIndex (rh_mem h p'))"
  "rh_items (fst (rh_Pop h)) = take (length (rh_items h) - 1) (rh_items h)" "netRtt (fst (rh_Pop h)) = netRtt h"
  "rh_mem (fst (rh_Pop h)) = rh_mem h"
  "rh_rtt (fst (rh_Pop h)) = rh_rtt h" "rh_received (fst (rh_Pop h)) = rh_received h"
  "snd (rh_Pop h) = rh_items h ! (length (rh_items h) - 1)"
  by (simp_all add: rh_Swap_def rh_Push_def rh_Pop_def Let_def list_swap_def)

interpretation rttq: heap_interface rtt_heap rh_items rh_le rh_wf
proof unfold_locales
  fix h :: rttHeap and i j :: nat and p :: ptr
  show "h_len rtt_heap h = length (rh_items h)" by (simp add: rtt_heap_def rh_Len_def)
  show "reflp (rh_le h)" by (simp add: reflp_def rh_le_def)
  show "transp (rh_le h)" by (auto simp: transp_def rh_le_def)
  show "rh_items (h_swap rtt_heap h i j) = list_swap (rh_items h) i j \<and>
      rh_wf (h_swap rtt_heap h i j) \<and> rh_le (h_swap rtt_heap h i j) = rh_le h"
    if "rh_wf h" "i < length (rh_items h)" "j < length (rh_items h)" "i \<noteq> j"
    using that by (auto simp: rtt_heap_def rh_method_fields rh_wf_def nth_list_swap nth_eq_iff_index_eq rh_le_def fun_eq_iff)
  show "rh_le h (rh_items h ! i) (rh_items h ! j)" if "h_less rtt_heap h i j"
    using that by (simp add: rtt_heap_def rh_Less_def rh_le_def rh_rtt_def)
  show "rh_le h (rh_items h ! j) (rh_items h ! i)" if "\<not> h_less rtt_heap h i j"
    using that by (simp add: rtt_heap_def rh_Less_def rh_le_def rh_rtt_def)
  show "rh_items (h_push rtt_heap h p) = rh_items h @ [p] \<and>
      rh_wf (h_push rtt_heap h p) \<and> rh_le (h_push rtt_heap h p) = rh_le h"
    if "rh_wf h" "p \<notin> set (rh_items h)"
    using that by (auto simp: rtt_heap_def rh_method_fields rh_wf_def nth_append less_Suc_eq rh_le_def fun_eq_iff)
  show "snd (h_pop rtt_heap h) = last (rh_items h) \<and>
      rh_items (fst (h_pop rtt_heap h)) = butlast (rh_items h) \<and>
      rh_wf (fst (h_pop rtt_heap h)) \<and> rh_le (fst (h_pop rtt_heap h)) = rh_le h"
    if "rh_wf h" "rh_items h \<noteq> []"
    using that by (auto simp: rtt_heap_def rh_method_fields rh_wf_def last_conv_nth butlast_conv_take rh_le_def fun_eq_iff)
qed

definition rtt_ok :: "rttHeap \<Rightarrow> bool" where
  "rtt_ok h \<longleftrightarrow> rh_wf h \<and> rttq.is_heap h \<and> netRtt h = int64 (\<Sum>p\<in>set (rh_items h). rh_rtt h p)"

definition rtt_frame :: "rttHeap \<Rightarrow> rttHeap \<Rightarrow> bool" where
  "rtt_frame h g \<longleftrightarrow> rh_rtt g = rh_rtt h \<and> rh_received g = rh_received h \<and> netRtt g = netRtt h"

lemma rtt_frame_Push: "rtt_frame h (heap_Push rtt_heap h p)"
  by (rule heap_Push_keeps [where P = "rtt_frame h"]) (simp_all add: rtt_frame_def rtt_heap_def rh_method_fields)

lemma rtt_frame_Remove: "heap_Remove rtt_heap h i = Some (g, p) \<Longrightarrow> rtt_frame h g"
  by (rule heap_Remove_keeps [where P = "rtt_frame h"]) (auto simp: rtt_frame_def rtt_heap_def rh_method_fields)

lemma rtt_ok_new: "rtt_ok (newRttHeap m) \<and> rh_items (newRttHeap m) = [] \<and> netRtt (newRttHeap m) = 0"
  using rttq.Init_empty [of "\<lparr>rh_mem = m, rh_items = [], netRtt = 0\<rparr>"]
  by (simp add: rtt_ok_def newRttHeap_def rh_wf_def)

lemma rh_wf_netRtt [simp]: "rh_wf (h\<lparr>netRtt := n\<rparr>) = rh_wf h"
  by (simp add: rh_wf_def)

lemma is_heap_netRtt [simp]: "rttq.is_heap (h\<lparr>netRtt := n\<rparr>) = rttq.is_heap h"
  by (simp add: rttq.is_heap_def rh_le_def heap_upto_def)

lemma rh_Add_ok:
  assumes "rtt_ok h" "p \<notin> set (rh_items h)"
  shows "rtt_ok (rh_Add h p) \<and> set (rh_items (rh_Add h p)) = insert p (set (rh_items h)) \<and>
    length (rh_items (rh_Add h p)) = Suc (length (rh_items h)) \<and>
    rh_rtt (rh_Add h p) = rh_rtt h \<and> rh_received (rh_Add h p) = rh_received h"
proof -
  let ?g = "heap_Push rtt_heap h p"
  have g: "rh_wf ?g" "rttq.is_heap ?g" "mset (rh_items ?g) = add_mset p (mset (rh_items h))"
    using rttq.Push_correct [of h p] assms by (auto simp: rtt_ok_def)
  have f: "rh_rtt ?g = rh_rtt h" "rh_received ?g = rh_received h" "netRtt ?g = netRtt h"
    using rtt_frame_Push [of h p] by (auto simp: rtt_frame_def)
  have st: "set (rh_items ?g) = insert p (set (rh_items h))" using g(3) by (metis set_mset_add_mset_insert set_mset_mset)
  have "length (rh_items ?g) = Suc (length (rh_items h))" using g(3) by (metis size_add_mset size_mset)
  moreover have "netRtt (rh_Add h p) = int64 (\<Sum>p\<in>insert p (set (rh_items h)). rh_rtt h p)"
    using assms f unfolding rh_Add_def Let_def rtt_ok_def
    by (simp add: rh_rtt_def [symmetric] wrap_simps add.commute)
  ultimately show ?thesis
    using g f st by (simp add: rh_Add_def Let_def rtt_ok_def)
qed

lemma rh_Remove_ok:
  assumes "rtt_ok h" "p \<in> set (rh_items h)"
  shows "\<exists>g. rh_Remove h p = Some g \<and> rtt_ok g \<and> set (rh_items g) = set (rh_items h) - {p} \<and>
    length (rh_items h) = Suc (length (rh_items g)) \<and> rh_rtt g = rh_rtt h \<and> rh_received g = rh_received h"
proof -
  obtain i where i: "i < length (rh_items h)" "rh_items h ! i = p" "i_heapIndex (rh_mem h p) = i"
    using assms by (auto simp: rtt_ok_def rh_wf_def in_set_conv_nth)
  then obtain g where g: "heap_Remove rtt_heap h i = Some (g, p)" "rh_wf g" "rttq.is_heap g"
      "mset (rh_items h) = add_mset p (mset (rh_items g))"
    using rttq.Remove_correct [of h i] assms(1) by (auto simp: rtt_ok_def)
  have f: "rh_rtt g = rh_rtt h" "rh_received g = rh_received h" "netRtt g = netRtt h"
    using rtt_frame_Remove [OF g(1)] by (auto simp: rtt_frame_def)
  have d: "distinct (rh_items h)" using assms(1) by (simp add: rtt_ok_def rh_wf_def)
  have st: "set (rh_items g) = set (rh_items h) - {p}"
    using set_remove1_mset [OF d, of "rh_items g" p] g(4) by simp
  have len: "length (rh_items h) = Suc (length (rh_items g))" using g(4) by (metis size_add_mset size_mset)
  have "rh_Remove h p = Some (g\<lparr>netRtt := int64 (netRtt g - rh_rtt h p)\<rparr>)"
    using g(1) i f by (simp add: rh_Remove_def rh_rtt_def fun_eq_iff)
  moreover have "int64 (netRtt g - rh_rtt h p) = int64 (\<Sum>p\<in>set (rh_items g). rh_rtt h p)"
    using assms f st by (simp add: rtt_ok_def wrap_simps sum_set_remove)
  ultimately show ?thesis using g f st len by (simp add: rtt_ok_def)
qed

section \<open>The ring\<close>

text \<open>
  The ring read from its tail: the samples in range, from the oldest on, then the head slot, which may
  hold one more sample, then empty slots. The samples are those of the heap.
\<close>

definition ring_rep :: "RttWindow \<Rightarrow> ptr list \<Rightarrow> ptr option \<Rightarrow> nat \<Rightarrow> bool" where
  "ring_rep w xs s k \<longleftrightarrow> rotate (windowTailIndex w) (window w) = map Some xs @ s # replicate k None \<and>
     windowTailIndex w < length (window w) \<and>
     windowHeadIndex w = (windowTailIndex w + length xs) mod length (window w)"

definition rw_rep :: "RttWindow \<Rightarrow> ptr list \<Rightarrow> ptr option \<Rightarrow> nat \<Rightarrow> bool" where
  "rw_rep w xs s k \<longleftrightarrow> ring_rep w xs s k \<and> rtt_ok (rtts w) \<and>
     distinct (map Some xs @ [s]) \<and> set (rh_items (rtts w)) = set xs \<union> set_option s \<and>
     (\<forall>p\<in>set (rh_items (rtts w)). p < rw_nextPtr w)"

lemma ring_rep_length:
  assumes "ring_rep w xs s k"
  shows "length (window w) = length xs + k + 1"
proof -
  have "length (rotate (windowTailIndex w) (window w)) = length (map Some xs @ s # replicate k None)"
    using assms by (simp only: ring_rep_def)
  then show ?thesis by simp
qed

lemma rotate_nth: "i < length xs \<Longrightarrow> rotate n xs ! i = xs ! ((n + i) mod length xs)"
  by (simp add: nth_rotate)

lemma rotate_update:
  assumes "i < length xs" "t < length xs"
  shows "rotate t (xs[(t + i) mod length xs := v]) = (rotate t xs)[i := v]"
proof (rule nth_equalityI)
  show "length (rotate t (xs[(t + i) mod length xs := v])) = length ((rotate t xs)[i := v])" by simp
  fix j assume j: "j < length (rotate t (xs[(t + i) mod length xs := v]))"
  then have j': "j < length xs" by simp
  have "(t + i) mod length xs = (t + j) mod length xs \<longleftrightarrow> i = j"
  proof -
    have "(t + i) mod length xs = (if t + i < length xs then t + i else t + i - length xs)"
      "(t + j) mod length xs = (if t + j < length xs then t + j else t + j - length xs)"
      using assms j' by (auto simp: mod_if)
    then show ?thesis using assms j' by (auto split: if_splits)
  qed
  moreover have "(t + i) mod length xs < length xs" using assms by (intro mod_less_divisor) linarith
  ultimately show "rotate t (xs[(t + i) mod length xs := v]) ! j = (rotate t xs)[i := v] ! j"
    using assms j' by (simp add: rotate_nth nth_list_update)
qed

lemma rotate_Suc_mod: "xs \<noteq> [] \<Longrightarrow> rotate ((t + 1) mod length xs) xs = rotate1 (rotate t xs)"
  by (metis Suc_eq_plus1 rotate_Suc rotate_conv_mod)

text \<open>Dropping the oldest sample, replacing the head slot, and stepping over it.\<close>

lemma ring_drop:
  assumes "ring_rep w (p # xs) s k"
  shows "window w ! windowTailIndex w = Some p" "windowTailIndex w \<noteq> windowHeadIndex w"
    "ring_rep (w\<lparr>window := (window w)[windowTailIndex w := None],
       windowTailIndex := (windowTailIndex w + 1) mod length (window w)\<rparr>) xs s (Suc k)"
proof -
  let ?n = "length (window w)" and ?t = "windowTailIndex w"
  have n: "?n = length xs + k + 2" using ring_rep_length [OF assms] by simp
  then have ne: "window w \<noteq> []" by auto
  have r: "rotate ?t (window w) = Some p # map Some xs @ s # replicate k None" "?t < ?n"
    and h: "windowHeadIndex w = (?t + (length xs + 1)) mod ?n"
    using assms by (auto simp: ring_rep_def)
  show "window w ! ?t = Some p"
    using r n rotate_nth [of 0 "window w" ?t] by simp
  show "?t \<noteq> windowHeadIndex w"
    using r(2) n unfolding h by (auto simp: mod_if)
  have "rotate ?t ((window w)[?t := None]) = None # map Some xs @ s # replicate k None"
    using rotate_update [of 0 "window w" ?t None] r n by simp
  then have "rotate ((?t + 1) mod ?n) ((window w)[?t := None]) = map Some xs @ s # replicate (Suc k) None"
    using rotate_Suc_mod [of "(window w)[?t := None]" ?t] n ne
    by (simp add: replicate_append_same)
  moreover have "windowHeadIndex w = ((?t + 1) mod ?n + length xs) mod ?n"
    unfolding h by (simp add: mod_add_left_eq)
  moreover have "(?t + 1) mod ?n < ?n" using n by simp
  ultimately show "ring_rep (w\<lparr>window := (window w)[?t := None], windowTailIndex := (?t + 1) mod ?n\<rparr>) xs s (Suc k)"
    by (simp add: ring_rep_def)
qed

lemma ring_empty: "ring_rep w [] s k \<Longrightarrow> windowTailIndex w = windowHeadIndex w"
  by (simp add: ring_rep_def)

lemma ring_head:
  assumes "ring_rep w xs s k"
  shows "window w ! windowHeadIndex w = s"
    "rotate (windowTailIndex w) ((window w)[windowHeadIndex w := v]) = map Some xs @ v # replicate k None"
    "windowHeadIndex w < length (window w)"
proof -
  let ?n = "length (window w)" and ?t = "windowTailIndex w"
  have l: "length xs < ?n" using ring_rep_length [OF assms] by simp
  have r: "rotate ?t (window w) = map Some xs @ s # replicate k None" "?t < ?n"
    and h: "windowHeadIndex w = (?t + length xs) mod ?n"
    using assms by (auto simp: ring_rep_def)
  show "window w ! windowHeadIndex w = s"
    using rotate_nth [OF l, of ?t] r(1) unfolding h by (simp add: nth_append)
  show "rotate ?t ((window w)[windowHeadIndex w := v]) = map Some xs @ v # replicate k None"
    using rotate_update [OF l r(2), of v] r(1) unfolding h by (simp add: list_update_append)
  show "windowHeadIndex w < ?n" unfolding h using l by (intro mod_less_divisor) linarith
qed

lemma ring_push:
  assumes "ring_rep w xs s k" and v: "v = w\<lparr>window := (window w)[windowHeadIndex w := Some p],
      windowHeadIndex := (windowHeadIndex w + 1) mod length (window w)\<rparr>"
  shows "k = Suc j \<Longrightarrow> windowTailIndex v \<noteq> windowHeadIndex v \<and> ring_rep v (xs @ [p]) None j"
    and "k = 0 \<Longrightarrow> windowTailIndex v = windowHeadIndex v \<and>
      ring_rep (v\<lparr>windowTailIndex := (windowTailIndex v + 1) mod length (window v)\<rparr>)
        (tl (xs @ [p])) (Some (hd (xs @ [p]))) 0"
proof -
  let ?n = "length (window w)" and ?t = "windowTailIndex w"
  have n: "?n = length xs + k + 1" using ring_rep_length [OF assms(1)] .
  have t: "?t < ?n" "windowHeadIndex w = (?t + length xs) mod ?n" using assms(1) by (auto simp: ring_rep_def)
  then have h: "windowHeadIndex v = (?t + (length xs + 1)) mod ?n"
    unfolding v by (simp add: mod_Suc_eq)
  have r: "rotate ?t (window v) = map Some (xs @ [p]) @ replicate k None"
    using ring_head(2) [OF assms(1), of "Some p"] v by simp
  have len: "length (window v) = ?n" "windowTailIndex v = ?t" by (simp_all add: v)
  { assume k: "k = Suc j"
    have "?t \<noteq> windowHeadIndex v" unfolding h using t n k by (auto simp: mod_if)
    then show "windowTailIndex v \<noteq> windowHeadIndex v \<and> ring_rep v (xs @ [p]) None j"
      using r h len t k by (simp add: ring_rep_def) }
  { assume k: "k = 0"
    have "windowHeadIndex v = (?t + ?n) mod ?n" unfolding h using n k by simp
    then have "?t = windowHeadIndex v" using t by simp
    moreover have "rotate ((?t + 1) mod ?n) (window v) = map Some (tl (xs @ [p])) @ [Some (hd (xs @ [p]))]"
    proof -
      have ne: "window v \<noteq> []" using n len by auto
      have "rotate ((?t + 1) mod ?n) (window v) = rotate1 (map Some (xs @ [p]))"
        using rotate_Suc_mod [OF ne, of ?t] r k len by (simp only: replicate_0 append_Nil2)
      then show ?thesis by (cases xs) simp_all
    qed
    moreover have "windowHeadIndex v = ((?t + 1) mod ?n + length xs) mod ?n"
      unfolding h by (simp add: mod_add_left_eq)
    moreover have "(?t + 1) mod ?n < ?n" using n by simp
    ultimately show "windowTailIndex v = windowHeadIndex v \<and>
      ring_rep (v\<lparr>windowTailIndex := (windowTailIndex v + 1) mod length (window v)\<rparr>)
        (tl (xs @ [p])) (Some (hd (xs @ [p]))) 0"
      using len by (simp add: ring_rep_def) }
qed

section \<open>The operations on the list of samples\<close>

type_synonym sample = "time \<times> duration"

definition sample_of :: "rttHeap \<Rightarrow> ptr \<Rightarrow> sample" where
  "sample_of h p = (rh_received h p, rh_rtt h p)"

text \<open>
  The samples in range, oldest first, and the sample at the head slot, if there is one. \<open>rw_frame\<close> is what
  no operation changes.
\<close>

definition rw_view :: "RttWindow \<Rightarrow> sample list \<Rightarrow> sample option \<Rightarrow> bool" where
  "rw_view w l s \<longleftrightarrow> (\<exists>xs p k. rw_rep w xs p k \<and> l = map (sample_of (rtts w)) xs \<and> s = map_option (sample_of (rtts w)) p)"

definition rw_frame :: "RttWindow \<Rightarrow> RttWindow \<Rightarrow> bool" where
  "rw_frame w v \<longleftrightarrow> windowTimeout v = windowTimeout w \<and> rttScale v = rttScale w \<and> minScaledRtt v = minScaledRtt w \<and>
     maxScaledRtt v = maxScaledRtt w \<and> length (window v) = length (window w)"

definition spec_coalesce :: "time \<Rightarrow> sample list \<Rightarrow> sample list" where
  "spec_coalesce start l = dropWhile (\<lambda>(received, _). received < start) l"

definition spec_add :: "nat \<Rightarrow> sample \<Rightarrow> sample list \<Rightarrow> sample list \<times> sample option" where
  "spec_add n x l = (let l = l @ [x] in if length l = n then (tl l, Some (hd l)) else (l, None))"

definition spec_mean :: "sample list \<Rightarrow> sample option \<Rightarrow> duration" where
  "spec_mean l s = (let d = map snd l @ (case s of None \<Rightarrow> [] | Some x \<Rightarrow> [snd x]) in
     if d = [] then 0 else int64 (sum_list d) sdiv int (length d))"

lemma sample_of_cong: "rh_rtt g = rh_rtt h \<Longrightarrow> rh_received g = rh_received h \<Longrightarrow> sample_of g = sample_of h"
  by (simp add: sample_of_def fun_eq_iff)

lemma ring_rep_cong:
  "window v = window w \<Longrightarrow> windowTailIndex v = windowTailIndex w \<Longrightarrow> windowHeadIndex v = windowHeadIndex w \<Longrightarrow>
   ring_rep v = ring_rep w"
  by (simp add: ring_rep_def fun_eq_iff)

lemma coalesce_rep:
  assumes "rw_rep w xs s k" "length xs \<le> fuel"
  shows "\<exists>v ys j. coalesce_loop fuel start w = Some v \<and> rw_rep v ys s j \<and> rw_frame w v \<and>
    rh_rtt (rtts v) = rh_rtt (rtts w) \<and> rh_received (rtts v) = rh_received (rtts w) \<and>
    ys = dropWhile (\<lambda>p. rh_received (rtts w) p < start) xs"
  using assms
proof (induction fuel arbitrary: w xs k)
  case 0
  then have "windowTailIndex w = windowHeadIndex w" using ring_empty by (auto simp: rw_rep_def)
  then show ?case using 0 by (auto simp: rw_frame_def)
next
  case (Suc fuel)
  show ?case
  proof (cases xs)
    case Nil
    then have "windowTailIndex w = windowHeadIndex w" using Suc.prems(1) ring_empty by (auto simp: rw_rep_def)
    then show ?thesis using Suc.prems Nil by (auto simp: rw_frame_def)
  next
    case (Cons p xs')
    have rr: "ring_rep w (p # xs') s k" using Suc.prems(1) Cons by (simp add: rw_rep_def)
    note ring = ring_drop [OF rr]
    show ?thesis
    proof (cases "rh_received (rtts w) p < start")
      case False
      then show ?thesis
        using ring(1,2) Suc.prems(1) Cons by (auto simp: rh_received_def rw_frame_def)
    next
      case True
      have p: "p \<in> set (rh_items (rtts w))" "rtt_ok (rtts w)" using Suc.prems(1) Cons by (auto simp: rw_rep_def)
      obtain h where h: "rh_Remove (rtts w) p = Some h" "rtt_ok h" "set (rh_items h) = set (rh_items (rtts w)) - {p}"
          "rh_rtt h = rh_rtt (rtts w)" "rh_received h = rh_received (rtts w)"
        using rh_Remove_ok [OF p(2,1)] by auto
      define u where "u = w\<lparr>rtts := h, window := (window w)[windowTailIndex w := None],
        windowTailIndex := (windowTailIndex w + 1) mod length (window w)\<rparr>"
      have "ring_rep u xs' s (Suc k)"
        using ring(3) by (simp add: u_def ring_rep_def)
      then have "rw_rep u xs' s (Suc k)"
        using Suc.prems(1) Cons h(2,3) by (auto simp: rw_rep_def u_def)
      then obtain v ys j where v: "coalesce_loop fuel start u = Some v" "rw_rep v ys s j" "rw_frame u v"
          "rh_rtt (rtts v) = rh_rtt (rtts u)" "rh_received (rtts v) = rh_received (rtts u)"
          "ys = dropWhile (\<lambda>p. rh_received (rtts u) p < start) xs'"
        using Suc.IH Suc.prems(2) Cons by fastforce
      have "coalesce_loop (Suc fuel) start w = Some v"
        using ring(1,2) True h(1) v(1) by (simp add: rh_received_def u_def)
      then show ?thesis using v h True Cons by (auto simp: rw_frame_def u_def)
    qed
  qed
qed

lemma spec_coalesce_map:
  "spec_coalesce start (map (sample_of h) xs) = map (sample_of h) (dropWhile (\<lambda>p. rh_received h p < start) xs)"
  by (induction xs) (auto simp: spec_coalesce_def sample_of_def)

lemma coalesce_ok:
  assumes "rw_rep w xs s k"
  shows "\<exists>v ys j. coalesce t w = Some v \<and> rw_rep v ys s j \<and> rw_frame w v \<and> sample_of (rtts v) = sample_of (rtts w) \<and>
    map (sample_of (rtts v)) ys = spec_coalesce (t - windowTimeout w) (map (sample_of (rtts w)) xs)"
proof -
  have "length xs \<le> length (window w)" using ring_rep_length assms by (force simp: rw_rep_def)
  from coalesce_rep [OF assms this, of "t - windowTimeout w"] show ?thesis
    unfolding coalesce_def spec_coalesce_map by (metis sample_of_cong)
qed

lemma mean_rep:
  assumes "rw_rep w xs s k"
  shows "MeanRtt (rtts w) = spec_mean (map (sample_of (rtts w)) xs) (map_option (sample_of (rtts w)) s)"
proof -
  let ?ps = "xs @ (case s of None \<Rightarrow> [] | Some p \<Rightarrow> [p])" and ?h = "rtts w"
  have d: "distinct ?ps" and st: "set (rh_items ?h) = set ?ps" and ok: "rtt_ok ?h"
    using assms by (auto simp: rw_rep_def distinct_map split: option.splits)
  have len: "length (rh_items ?h) = length ?ps"
    using d st ok unfolding rtt_ok_def rh_wf_def by (metis distinct_card)
  have "(\<Sum>p\<in>set (rh_items ?h). rh_rtt ?h p) = sum_list (map (rh_rtt ?h) ?ps)"
    unfolding st by (rule sum_list_distinct_conv_sum_set [OF d, symmetric])
  then have "netRtt ?h = int64 (sum_list (map (rh_rtt ?h) ?ps))" using ok by (simp add: rtt_ok_def)
  moreover have "map snd (map (sample_of ?h) xs) @ (case map_option (sample_of ?h) s of None \<Rightarrow> [] | Some x \<Rightarrow> [snd x]) =
      map (rh_rtt ?h) ?ps"
    by (simp add: sample_of_def split: option.splits)
  ultimately show ?thesis
    using len unfolding MeanRtt_def spec_mean_def Let_def by (simp add: sample_of_def comp_def)
qed


lemma spec_add_map:
  assumes "l @ [x] = map f (ys @ [p])"
  shows "spec_add n x l = (if Suc (length ys) = n then (map f (tl (ys @ [p])), Some (f (hd (ys @ [p])))) else (map f (ys @ [p]), None))"
  using assms unfolding spec_add_def Let_def assms by (cases ys) auto

lemma rw_close_ok:
  assumes "rw_rep w xs s k" "\<not> receiveTime < sint (tag_SendTime tg) * millisecond"
  shows "\<exists>v ys p j. closeTag tg receiveTime w = Some v \<and> rw_rep v ys p j \<and> rw_frame w v \<and>
    (map (sample_of (rtts v)) ys, map_option (sample_of (rtts v)) p) =
      spec_add (length (window w)) (receiveTime, time_Sub receiveTime (sint (tag_SendTime tg) * millisecond))
        (spec_coalesce (receiveTime - windowTimeout w) (map (sample_of (rtts w)) xs))"
proof -
  let ?st = "sint (tag_SendTime tg) * millisecond"
  obtain u zs j where u: "coalesce receiveTime w = Some u" "rw_rep u zs s j" "rw_frame w u"
      "map (sample_of (rtts u)) zs = spec_coalesce (receiveTime - windowTimeout w) (map (sample_of (rtts w)) xs)"
    using coalesce_ok [OF assms(1)] by blast
  let ?p = "rw_nextPtr u"
  define a where "a = (rtts u)\<lparr>rh_mem := (rh_mem (rtts u))(?p := newRttWindowItem ?st receiveTime)\<rparr>"
  have fresh: "?p \<notin> set (rh_items (rtts u))" and new: "\<And>q. q \<in> set (rh_items (rtts u)) \<Longrightarrow> q \<noteq> ?p"
    and ok: "rtt_ok (rtts u)" and st: "set (rh_items (rtts u)) = set zs \<union> set_option s"
    using u(2) by (auto simp: rw_rep_def)
  have ra: "rh_rtt a q = rh_rtt (rtts u) q" "rh_received a q = rh_received (rtts u) q" if "q \<noteq> ?p" for q
    using that by (simp_all add: a_def rh_rtt_def rh_received_def)
  have sa: "rh_items a = rh_items (rtts u)" "sample_of a ?p = (receiveTime, time_Sub receiveTime ?st)"
    by (simp_all add: a_def sample_of_def rh_rtt_def rh_received_def newRttWindowItem_def)
  have "rtt_ok a"
  proof -
    have "rh_wf a" using ok new by (auto simp: rtt_ok_def rh_wf_def a_def)
    moreover have "rttq.is_heap a"
      unfolding rttq.is_heap_def heap_upto_def sa(1)
    proof (intro allI impI)
      fix k assume k: "0 < k" "k < length (rh_items (rtts u))"
      then have m: "rh_items (rtts u) ! parent k \<noteq> ?p" "rh_items (rtts u) ! k \<noteq> ?p"
        using new parent_less [OF k(1)] by auto
      have "rh_le (rtts u) (rh_items (rtts u) ! parent k) (rh_items (rtts u) ! k)"
        using ok k by (simp add: rtt_ok_def rttq.is_heap_def heap_upto_def)
      then show "rh_le a (rh_items (rtts u) ! parent k) (rh_items (rtts u) ! k)"
        using ra [OF m(1)] ra [OF m(2)] by (simp add: rh_le_def)
    qed
    moreover have "netRtt a = int64 (\<Sum>p\<in>set (rh_items a). rh_rtt a p)"
      using ok ra new unfolding sa(1) rtt_ok_def by (simp add: a_def cong: sum.cong)
    ultimately show ?thesis by (simp add: rtt_ok_def)
  qed
  then have h: "rtt_ok (rh_Add a ?p)" "set (rh_items (rh_Add a ?p)) = insert ?p (set (rh_items (rtts u)))"
      "rh_rtt (rh_Add a ?p) = rh_rtt a" "rh_received (rh_Add a ?p) = rh_received a"
    using rh_Add_ok [of a ?p] fresh sa(1) by simp_all
  define v where "v = u\<lparr>window := (window u)[windowHeadIndex u := Some ?p],
      windowHeadIndex := (windowHeadIndex u + 1) mod length (window u)\<rparr>"
  obtain g where g: "(case s of None \<Rightarrow> Some (rh_Add a ?p) | Some r \<Rightarrow> rh_Remove (rh_Add a ?p) r) = Some g"
      "rtt_ok g" "set (rh_items g) = insert ?p (set zs)" "sample_of g = sample_of a"
  proof (cases s)
    case None
    then show ?thesis using that [of "rh_Add a ?p"] h st sample_of_cong [OF h(3,4)] by simp
  next
    case (Some r)
    have "r \<in> set (rh_items (rtts u))" using st Some by simp
    then have "r \<noteq> ?p" "r \<in> set (rh_items (rh_Add a ?p))" using new h(2) by blast+
    moreover have "r \<notin> set zs" using u(2) Some unfolding rw_rep_def by (simp add: image_iff)
    ultimately have r: "r \<noteq> ?p" "r \<in> set (rh_items (rh_Add a ?p))" "r \<notin> set zs" .
    obtain g where g: "rh_Remove (rh_Add a ?p) r = Some g" "rtt_ok g"
        "set (rh_items g) = set (rh_items (rh_Add a ?p)) - {r}" "rh_rtt g = rh_rtt a" "rh_received g = rh_received a"
      using rh_Remove_ok [OF h(1) r(2)] unfolding h(3,4) by blast
    have "set (rh_items g) = insert ?p (set zs)"
      unfolding g(3) h(2) st Some using r by auto
    then show ?thesis using that [of g] g Some sample_of_cong [OF g(4,5)] by simp
  qed
  define t where "t = (if windowTailIndex v = windowHeadIndex v
      then v\<lparr>windowTailIndex := (windowTailIndex v + 1) mod length (window v)\<rparr> else v)"
  define f where "f = t\<lparr>rtts := g, rw_nextPtr := ?p + 1\<rparr>"
  have ring: "ring_rep u zs s j" using u(2) by (simp add: rw_rep_def)
  note push = ring_push [OF ring v_def]
  have run: "closeTag tg receiveTime w = Some f"
    using assms(2) u(1) g(1) ring_head(1) [OF ring]
    unfolding closeTag_def Let_def f_def t_def v_def a_def
    by (cases s) auto
  have ft: "ring_rep f = ring_rep t" by (rule ring_rep_cong) (simp_all add: f_def)
  have samples: "map (sample_of (rtts f)) (zs @ [?p]) = map (sample_of (rtts u)) zs @ [(receiveTime, time_Sub receiveTime ?st)]"
    using sa(2) new st ra by (auto simp: f_def g(4) sample_of_def)
  have dist: "distinct (zs @ [?p])" using u(2) fresh st by (auto simp: rw_rep_def distinct_map)
  have below: "\<forall>q\<in>set (rh_items (rtts f)). q < rw_nextPtr f"
    using u(2) g(3) st by (auto simp: rw_rep_def f_def less_Suc_eq)
  have frame: "rw_frame w f"
    using u(3) by (simp add: rw_frame_def f_def t_def v_def)
  have len: "length (window w) = length zs + j + 1"
    using ring_rep_length [OF ring] u(3) by (simp add: rw_frame_def)
  show ?thesis
  proof (cases j)
    case 0
    let ?ys = "tl (zs @ [?p])" and ?q = "hd (zs @ [?p])"
    have zs: "zs @ [?p] = ?q # ?ys" by (cases zs) simp_all
    have "ring_rep t ?ys (Some ?q) 0"
      unfolding t_def if_P [OF conjunct1 [OF push(2) [OF 0]]] by (rule conjunct2 [OF push(2) [OF 0]])
    then have "ring_rep f ?ys (Some ?q) 0" using ft by simp
    moreover have "distinct (map Some ?ys @ [Some ?q])" "set (rh_items (rtts f)) = set ?ys \<union> set_option (Some ?q)"
      using dist zs g(3) by (cases zs; auto simp: distinct_map f_def)+
    ultimately have "rw_rep f ?ys (Some ?q) 0" using g(2) below by (simp add: rw_rep_def f_def)
    moreover have "(map (sample_of (rtts f)) ?ys, map_option (sample_of (rtts f)) (Some ?q)) =
        spec_add (length (window w)) (receiveTime, time_Sub receiveTime ?st) (map (sample_of (rtts u)) zs)"
      using len 0 spec_add_map [OF samples [symmetric], of "length (window w)"] by simp
    ultimately show ?thesis using run frame unfolding u(4) by blast
  next
    case (Suc i)
    then have "ring_rep t (zs @ [?p]) None i" using push(1) unfolding t_def by (simp only: if_False)
    then have "ring_rep f (zs @ [?p]) None i" using ft by simp
    then have "rw_rep f (zs @ [?p]) None i"
      using dist g(2,3) below by (auto simp: rw_rep_def f_def distinct_map)
    moreover have "(map (sample_of (rtts f)) (zs @ [?p]), map_option (sample_of (rtts f)) None) =
        spec_add (length (window w)) (receiveTime, time_Sub receiveTime ?st) (map (sample_of (rtts u)) zs)"
      using len Suc spec_add_map [OF samples [symmetric], of "length (window w)"] by simp
    ultimately show ?thesis using run frame unfolding u(4) by blast
  qed
qed

text \<open>For clients: closing a tag never panics and keeps the settings of the window.\<close>

lemma rw_close_total:
  assumes "rw_view w l s"
  shows "\<exists>v l' s'. closeTag tg t w = Some v \<and> rw_view v l' s' \<and> rw_frame w v"
proof -
  obtain xs p k where rep: "rw_rep w xs p k" using assms by (auto simp: rw_view_def)
  show ?thesis
  proof (cases "t < sint (tag_SendTime tg) * millisecond")
    case True
    then have "closeTag tg t w = Some w" by (simp add: closeTag_def)
    then show ?thesis using assms by (auto simp: rw_frame_def)
  next
    case False
    then show ?thesis using rw_close_ok [OF rep False] unfolding rw_view_def by blast
  qed
qed

lemma scaledRtt_total:
  assumes "rw_view w l s" "minScaledRtt w \<le> maxScaledRtt w"
  shows "\<exists>v r l'. scaledRtt t w = Some (v, r) \<and> rw_view v l' s \<and> rw_frame w v \<and> minScaledRtt w \<le> r"
proof -
  obtain xs p k where rep: "rw_rep w xs p k" "s = map_option (sample_of (rtts w)) p" using assms by (auto simp: rw_view_def)
  obtain v ys j where v: "coalesce t w = Some v" "rw_rep v ys p j" "rw_frame w v" "sample_of (rtts v) = sample_of (rtts w)"
    using coalesce_ok [OF rep(1)] by blast
  then have "rw_view v (map (sample_of (rtts v)) ys) s" using rep(2) unfolding rw_view_def by auto
  then show ?thesis using v(1,3) assms(2) by (auto simp: scaledRtt_def rw_frame_def)
qed

section \<open>Properties\<close>

text \<open>
  C34: The round trip window is the list of its samples. Closing a tag never panics; a tag from the future is
  ignored; otherwise the samples older than the timeout are dropped from the range, the new sample is
  appended and, when the ring is full, the oldest sample in range becomes the one of the head slot. The
  mean is the mean of these samples, the one of the head slot included.
\<close>

theorem rtt_window_refines_list:
  assumes "rw_view w l s"
  shows "\<exists>v l' s'. closeTag tg t w = Some v \<and> rw_view v l' s' \<and> rw_frame w v \<and>
    (l', s') = (if t < sint (tag_SendTime tg) * millisecond then (l, s)
      else spec_add (length (window w)) (t, time_Sub t (sint (tag_SendTime tg) * millisecond))
        (spec_coalesce (t - windowTimeout w) l)) \<and>
    MeanRtt (rtts v) = spec_mean l' s'"
proof -
  obtain xs p k where rep: "rw_rep w xs p k" "l = map (sample_of (rtts w)) xs" "s = map_option (sample_of (rtts w)) p"
    using assms by (auto simp: rw_view_def)
  show ?thesis
  proof (cases "t < sint (tag_SendTime tg) * millisecond")
    case True
    then have "closeTag tg t w = Some w" by (simp add: closeTag_def)
    moreover have "MeanRtt (rtts w) = spec_mean l s" unfolding rep(2,3) by (rule mean_rep [OF rep(1)])
    ultimately show ?thesis using assms True by (auto simp: rw_frame_def)
  next
    case False
    obtain v ys q j where v: "closeTag tg t w = Some v" "rw_rep v ys q j" "rw_frame w v"
        "(map (sample_of (rtts v)) ys, map_option (sample_of (rtts v)) q) =
          spec_add (length (window w)) (t, time_Sub t (sint (tag_SendTime tg) * millisecond))
            (spec_coalesce (t - windowTimeout w) l)"
      using rw_close_ok [OF rep(1) False] unfolding rep(2) by blast
    have "rw_view v (map (sample_of (rtts v)) ys) (map_option (sample_of (rtts v)) q)"
      using v(2) unfolding rw_view_def by blast
    then show ?thesis using v mean_rep [OF v(2)] False by auto
  qed
qed


lemma rw_view_new:
  assumes "0 < n"
  shows "\<exists>w. NewRttWindow n timeout scale mn mx m = Some w \<and> rw_view w [] None \<and> length (window w) = n \<and>
    minScaledRtt w = mn \<and> maxScaledRtt w = mx \<and> windowTimeout w = timeout"
proof -
  obtain j where "n = Suc j" using assms by (cases n) auto
  then have rep: "rw_rep \<lparr>windowTimeout = timeout, rttScale = scale, minScaledRtt = mn, maxScaledRtt = mx,
      window = replicate n None, windowTailIndex = 0, windowHeadIndex = 0, rtts = newRttHeap m, rw_nextPtr = 0\<rparr> [] None j"
    using rtt_ok_new [of m] by (simp add: rw_rep_def ring_rep_def)
  then have "rw_view \<lparr>windowTimeout = timeout, rttScale = scale, minScaledRtt = mn, maxScaledRtt = mx,
      window = replicate n None, windowTailIndex = 0, windowHeadIndex = 0, rtts = newRttHeap m, rw_nextPtr = 0\<rparr> [] None"
    unfolding rw_view_def by force
  then show ?thesis using assms by (simp add: NewRttWindow_def)
qed

definition example_window :: "RttWindow option" where
  "example_window = NewRttWindow 2 (5 * 10 ^ 9) 1 (10 ^ 9) (5 * 10 ^ 9) (\<lambda>_. newRttWindowItem 0 0)"

definition ms_tag :: "nat \<Rightarrow> Tag" where
  "ms_tag n = \<lparr>tag_SendTime = of_nat n\<rparr>"

theorem rtt_window_witness:
  "\<exists>w v l s. example_window = Some w \<and> closeTag (ms_tag 3) (10 * millisecond) w = Some v \<and> rw_view v l s \<and>
     MeanRtt (rtts v) = spec_mean l s \<and> (l, s) = ([(10 * millisecond, 7 * millisecond)], None)"
proof -
  obtain w where w: "example_window = Some w" "rw_view w [] None" "length (window w) = 2"
    using rw_view_new [of 2] unfolding example_window_def by (metis zero_less_numeral)
  have t: "sint (tag_SendTime (ms_tag 3)) = 3" by code_simp
  from rtt_window_refines_list [OF w(2), of "ms_tag 3" "10 * millisecond"] w show ?thesis
    unfolding t by (auto simp: spec_add_def spec_coalesce_def time_Sub_def millisecond_def)
qed


text \<open>
  A full ring keeps the sample of the head slot whatever its age: one minute after the last of two samples
  the mean is still the first one, 100 ms, although the window is five seconds.
\<close>

theorem rtt_stale_sample:
  "do { w \<leftarrow> example_window;
        w \<leftarrow> closeTag (ms_tag 0) (100 * millisecond) w;
        w \<leftarrow> closeTag (ms_tag 1000) (1010 * millisecond) w;
        w \<leftarrow> coalesce (61010 * millisecond) w;
        Some (MeanRtt (rtts w) sdiv millisecond) } = Some 100"
  by code_simp

text \<open>\<open>MinRtt\<close> is not the least round trip time of the window: it is the last element of the heap's array.\<close>

theorem min_rtt_not_least:
  "do { w \<leftarrow> example_window;
        w \<leftarrow> closeTag (ms_tag 0) (10 * millisecond) w;
        w \<leftarrow> closeTag (ms_tag 0) (20 * millisecond) w;
        Some (MinRtt (rtts w) sdiv millisecond, MeanRtt (rtts w) sdiv millisecond) } = Some (20, 15)"
  by code_simp

end
