(* ===== verification/Send_Sequence.thy ===== *)
theory Send_Sequence
  imports Transfer_Queue Sequence_Contract Rtt_Window
begin

text \<open>
  The sending end of one sequence (\<open>SendSequence\<close> in transfer.go): packs are numbered, charged to a
  contract, written, kept until they are acked and written again when the ack does not come in time. Acks
  are cumulative; a selective ack only postpones the resend. A handler is a function from the state to the
  state, \<open>None\<close> where the Go code panics. What a handler does outside the sequence (writes, ack callbacks,
  contract requests and reports, buffers returned to the message pool) is appended to \<open>s_log\<close>.

  The clock is read once per handler (\<open>now\<close>). The protobuf codecs, the ids that \<open>NewId\<close> draws and the
  settings of the contract manager are the fields of \<open>send_env\<close>; the contracts that \<open>TakeContract\<close> returns and
  the outcomes of writes are inputs of the handlers.
\<close>

section \<open>State\<close>

text \<open>
  An ack callback is the caller's, or the one that \<open>updateContract\<close> gives to the message that carries a new
  contract: it marks the contract as acked.
\<close>

datatype AckFunction = UserCallback nat | ContractCallback ptr

record sendItem = transferItem +
  si_contractId :: "Id option"
  si_head :: bool
  si_hasContractFrame :: bool
  si_sendTime :: time
  si_resendTime :: time
  si_sendCount :: int
  si_transferFrameBytes :: "byte list"
  si_ackCallback :: AckFunction

record TransferOptions =
  to_Ack :: bool
  to_CompanionContract :: bool
  to_ForceStream :: bool

record SendPack =
  sp_TransferOptions :: TransferOptions
  sp_Frame :: Frame
  sp_Destination :: TransferPath
  sp_IntermediaryIds :: MultiHopId
  sp_AckCallback :: AckFunction
  sp_MessageByteCount :: ByteCount

record SendBufferSettings =
  ss_CreateContractTimeout :: duration
  ss_CreateContractRetryInterval :: duration
  ss_MinResendInterval :: duration
  ss_MaxResendInterval :: duration
  ss_RttScale :: rat
  ss_RttWindowSize :: nat
  ss_RttWindowTimeout :: duration
  ss_AckTimeout :: duration
  ss_IdleTimeout :: duration
  ss_SelectiveAckTimeout :: duration
  ss_SequenceBufferSize :: nat
  ss_AckBufferSize :: nat
  ss_MinMessageByteCount :: ByteCount
  ss_WriteTimeout :: duration
  ss_ResendQueueMaxByteCount :: ByteCount
  ss_ContractFillFraction :: rat
  ss_ProtocolVersion :: int

text \<open>\<open>RttScale\<close> is the \<open>float32\<close> nearest to 1.2.\<close>

definition DefaultSendBufferSettings :: SendBufferSettings where
  "DefaultSendBufferSettings =
     \<lparr>ss_CreateContractTimeout = 30 * 10 ^ 9, ss_CreateContractRetryInterval = 5 * 10 ^ 9,
      ss_MinResendInterval = 10 ^ 9, ss_MaxResendInterval = 5 * 10 ^ 9, ss_RttScale = 10066330 / 2 ^ 23,
      ss_RttWindowSize = 128, ss_RttWindowTimeout = 5 * 10 ^ 9, ss_AckTimeout = 30 * 10 ^ 9,
      ss_IdleTimeout = 60 * 10 ^ 9, ss_SelectiveAckTimeout = 30 * 10 ^ 9, ss_SequenceBufferSize = 16,
      ss_AckBufferSize = 16, ss_MinMessageByteCount = 1, ss_WriteTimeout = 30 * 10 ^ 9,
      ss_ResendQueueMaxByteCount = mib 2, ss_ContractFillFraction = 1 / 2, ss_ProtocolVersion = 2\<rparr>"

datatype send_error = NoContractError | SendSequenceClosed | WriteFailed

datatype send_event =
    AckCallback nat "send_error option"
  | CloseSendContract Id ByteCount ByteCount
  | CreateContract ContractKey u64 ByteCount
  | FlushContractQueue ContractKey
  | OpenMultiRouteWriter TransferPath
  | CloseMultiRouteWriter TransferPath
  | AssociateDestination TransferPath
  | Write TransferPath "byte list" bool
  | ReturnBytes "byte list"

text \<open>
  Items and contracts are shared by pointer: \<open>sendContracts\<close> is the store of the contracts, the store of the
  items is that of the resend queue. The ack window is a local variable of \<open>Run\<close>; \<open>s_packs\<close> is the channel
  of packs. \<open>s_nextPtr\<close> is the first free address.
\<close>

record SendSequence =
  s_clientId :: Id
  s_destination :: TransferPath
  s_intermediaryIds :: MultiHopId
  s_companionContract :: bool
  s_forceStream :: bool
  s_sequenceId :: Id
  s_settings :: SendBufferSettings
  sendContracts :: "ptr \<Rightarrow> sequenceContract"
  sendContract :: "ptr option"
  sendContractAcked :: bool
  openSendContracts :: "(Id \<times> ptr) list"
  s_packs :: "SendPack list"
  resendQueue :: "sendItem transferQueue"
  sendItems :: "ptr list"
  s_nextSequenceNumber :: u64
  s_idleCondition :: IdleCondition
  rttWindow :: RttWindow
  contractMultiRouteWriter :: "TransferPath option"
  contractSeqIndex :: u64
  s_ackWindow :: sequenceAckWindow
  s_nextPtr :: ptr
  s_log :: "send_event list"

record send_env =
  sendNoContract :: "Id \<Rightarrow> bool"
  standardContractTransferByteCount :: ByteCount
  unmarshalStoredContract :: "byte list \<Rightarrow> StoredContract option"
  marshalContract :: "Contract \<Rightarrow> byte list"
  marshalPack :: "Pack \<Rightarrow> byte list option"
  unmarshalPack :: "byte list \<Rightarrow> Pack option"
  marshalTransferFrame :: "TransferFrame \<Rightarrow> byte list option"
  unmarshalTransferFrame :: "byte list \<Rightarrow> TransferFrame option"
  newId :: "nat \<Rightarrow> Id"

definition compareResendTime :: "sendItem \<Rightarrow> sendItem \<Rightarrow> int" where
  "compareResendTime a b =
     (if si_resendTime a < si_resendTime b then -1 else if si_resendTime b < si_resendTime a then 1 else 0)"

definition newResendQueue :: "(ptr \<Rightarrow> sendItem) \<Rightarrow> sendItem transferQueue" where
  "newResendQueue m = newTransferQueue m compareResendTime"

text \<open>\<open>None\<close>: a window size of zero panics.\<close>

definition NewSendSequence ::
    "Id \<Rightarrow> TransferPath \<Rightarrow> MultiHopId \<Rightarrow> bool \<Rightarrow> bool \<Rightarrow> Id \<Rightarrow> SendBufferSettings \<Rightarrow> (ptr \<Rightarrow> sendItem) \<Rightarrow>
     (ptr \<Rightarrow> sequenceContract) \<Rightarrow> (ptr \<Rightarrow> rttWindowItem) \<Rightarrow> SendSequence option" where
  "NewSendSequence client dst via companion force sid settings items cs samples =
     do {
       w \<leftarrow> NewRttWindow (ss_RttWindowSize settings) (ss_RttWindowTimeout settings) (ss_RttScale settings)
              (ss_MinResendInterval settings) (ss_MaxResendInterval settings) samples;
       Some \<lparr>s_clientId = client, s_destination = dst, s_intermediaryIds = via, s_companionContract = companion,
         s_forceStream = force, s_sequenceId = sid, s_settings = settings, sendContracts = cs, sendContract = None,
         sendContractAcked = False, openSendContracts = [], s_packs = [], resendQueue = newResendQueue items,
         sendItems = [], s_nextSequenceNumber = 0, s_idleCondition = NewIdleCondition, rttWindow = w,
         contractMultiRouteWriter = None, contractSeqIndex = 0, s_ackWindow = newSequenceAckWindow,
         s_nextPtr = 0, s_log = []\<rparr>
     }"

definition ResendQueueSize :: "SendSequence \<Rightarrow> nat \<times> ByteCount \<times> Id" where
  "ResendQueueSize s = (case QueueSize (resendQueue s) of (n, byteSize) \<Rightarrow> (n, byteSize, s_sequenceId s))"

abbreviation send_item :: "SendSequence \<Rightarrow> ptr \<Rightarrow> sendItem" where
  "send_item s p \<equiv> mem (resendQueue s) p"

definition setSendItem :: "SendSequence \<Rightarrow> ptr \<Rightarrow> sendItem \<Rightarrow> SendSequence" where
  "setSendItem s p x = s\<lparr>resendQueue := (resendQueue s)\<lparr>mem := (mem (resendQueue s))(p := x)\<rparr>\<rparr>"

definition semit :: "send_event list \<Rightarrow> SendSequence \<Rightarrow> SendSequence" where
  "semit es s = s\<lparr>s_log := s_log s @ es\<rparr>"

definition s_contractKey :: "SendSequence \<Rightarrow> ContractKey" where
  "s_contractKey s = \<lparr>ck_Destination = s_destination s, ck_IntermediaryIds = s_intermediaryIds s,
     ck_CompanionContract = s_companionContract s, ck_ForceStream = s_forceStream s\<rparr>"

section \<open>Contracts and callbacks\<close>

definition closeSendContract :: "ptr \<Rightarrow> SendSequence \<Rightarrow> SendSequence" where
  "closeSendContract c s =
     (let k = sendContracts s c;
          s = semit [CloseSendContract (contractId k) (ackedByteCount k) (unackedByteCount k)] s
      in s\<lparr>openSendContracts := AList.delete (contractId k) (openSendContracts s)\<rparr>)"

definition s_setContract :: "ptr \<Rightarrow> SendSequence \<Rightarrow> SendSequence" where
  "s_setContract c s =
     (let s = (case sendContract s of None \<Rightarrow> s
               | Some k \<Rightarrow> if unackedByteCount (sendContracts s k) = 0 then closeSendContract k s else s);
          s = s\<lparr>openSendContracts := AList.update (contractId (sendContracts s c)) c (openSendContracts s)\<rparr>
      in s\<lparr>sendContract := Some c, sendContractAcked := False\<rparr>)"

definition setContractAcked :: "ptr \<Rightarrow> bool \<Rightarrow> SendSequence \<Rightarrow> SendSequence" where
  "setContractAcked c ack s = (if sendContract s = Some c then s\<lparr>sendContractAcked := ack\<rparr> else s)"

definition ackCallback :: "AckFunction \<Rightarrow> send_error option \<Rightarrow> SendSequence \<Rightarrow> SendSequence" where
  "ackCallback f err s = (case f of UserCallback n \<Rightarrow> semit [AckCallback n err] s
     | ContractCallback c \<Rightarrow> setContractAcked c True s)"

text \<open>\<open>None\<close> is the "Bad accounting" panic of the contract.\<close>

definition ackItem :: "ptr \<Rightarrow> SendSequence \<Rightarrow> SendSequence option" where
  "ackItem p s =
     do {
       let item = send_item s p;
       s \<leftarrow> (case si_contractId item of None \<Rightarrow> Some s
             | Some cid \<Rightarrow> (case map_of (openSendContracts s) cid of None \<Rightarrow> Some s
               | Some c \<Rightarrow> do {
                   k \<leftarrow> contract_ack (sendContracts s c) (messageByteCount item);
                   let s = s\<lparr>sendContracts := (sendContracts s)(c := k)\<rparr>;
                   Some (if sendContract s \<noteq> Some c \<and> unackedByteCount k = 0 then closeSendContract c s else s)
                 }));
       let s = ackCallback (si_ackCallback item) None s;
       Some (semit [ReturnBytes (si_transferFrameBytes item)] s)
     }"

section \<open>Receiving acks\<close>

text \<open>
  The loop over the pending items up to the acked one; the removed prefix is cut off at the end. \<open>None\<close> is
  the "Missing item" panic.
\<close>

primrec ackPrefix :: "u64 \<Rightarrow> ptr list \<Rightarrow> SendSequence \<Rightarrow> SendSequence option" where
  "ackPrefix n [] s = Some (s\<lparr>sendItems := []\<rparr>)"
| "ackPrefix n (p # ps) s =
     (if n < sequenceNumber (send_item s p) then Some (s\<lparr>sendItems := p # ps\<rparr>)
      else do {
        (q, r) \<leftarrow> RemoveByMessageId (resendQueue s) (messageId (send_item s p));
        _ \<leftarrow> r;
        s \<leftarrow> ackItem p (s\<lparr>resendQueue := q\<rparr>);
        ackPrefix n ps s
      })"

definition selectiveAck :: "time \<Rightarrow> ptr \<Rightarrow> SendSequence \<Rightarrow> SendSequence option" where
  "selectiveAck now p s =
     do {
       (q, r) \<leftarrow> RemoveByMessageId (resendQueue s) (messageId (send_item s p));
       _ \<leftarrow> r;
       let s = s\<lparr>resendQueue := q\<rparr>;
       let s = setSendItem s p ((send_item s p)\<lparr>si_resendTime := now + ss_SelectiveAckTimeout (s_settings s)\<rparr>);
       Some (s\<lparr>resendQueue := Add (resendQueue s) p\<rparr>)
     }"

definition closeTagOf :: "time \<Rightarrow> Tag option \<Rightarrow> SendSequence \<Rightarrow> SendSequence option" where
  "closeTagOf now tg s = (case tg of None \<Rightarrow> Some s
     | Some t \<Rightarrow> map_option (\<lambda>w. s\<lparr>rttWindow := w\<rparr>) (closeTag t now (rttWindow s)))"

definition receiveAck :: "time \<Rightarrow> Id \<Rightarrow> bool \<Rightarrow> Tag option \<Rightarrow> SendSequence \<Rightarrow> SendSequence option" where
  "receiveAck now m selective tg s =
     (case GetByMessageId (resendQueue s) m of
        None \<Rightarrow> Some s
      | Some p \<Rightarrow> do {
          s \<leftarrow> closeTagOf now tg s;
          if selective then selectiveAck now p s
          else ackPrefix (sequenceNumber (send_item s p)) (sendItems s) s
        })"

section \<open>Writing\<close>

text \<open>The writer follows the path of the current contract; acks come back along the destination it is opened for.\<close>

definition openContractMultiRouteWriter :: "SendSequence \<Rightarrow> SendSequence \<times> TransferPath" where
  "openContractMultiRouteWriter s =
     (let destination = (case sendContract s of None \<Rightarrow> s_destination s
            | Some c \<Rightarrow> DestinationMask (contractPath (sendContracts s c)))
      in if contractMultiRouteWriter s = None \<or> contractMultiRouteWriter s \<noteq> Some destination then
           let s = (case contractMultiRouteWriter s of None \<Rightarrow> s | Some d \<Rightarrow> semit [CloseMultiRouteWriter d] s);
               s = semit [OpenMultiRouteWriter destination] s;
               s = s\<lparr>contractMultiRouteWriter := Some destination\<rparr>
           in (semit [AssociateDestination destination] s, destination)
         else (s, destination))"

definition closeContractMultiRouteWriter :: "SendSequence \<Rightarrow> SendSequence" where
  "closeContractMultiRouteWriter s = (case contractMultiRouteWriter s of None \<Rightarrow> s
     | Some d \<Rightarrow> (semit [CloseMultiRouteWriter d] s)\<lparr>contractMultiRouteWriter := None\<rparr>)"

definition writeItem :: "bool \<Rightarrow> ptr \<Rightarrow> SendSequence \<Rightarrow> SendSequence" where
  "writeItem ok p s =
     (case openContractMultiRouteWriter s of (s, d) \<Rightarrow> semit [Write d (si_transferFrameBytes (send_item s p)) ok] s)"

definition contractFrameOf :: "send_env \<Rightarrow> sequenceContract \<Rightarrow> Frame" where
  "contractFrameOf env k = \<lparr>f_MessageType = MessageType_TransferContract,
     f_MessageBytes = marshalContract env (contract k), f_Raw = False\<rparr>"

text \<open>The message of a pack on the wire: embedded since protocol version 2, as bytes before.\<close>

definition packFrame :: "send_env \<Rightarrow> int \<Rightarrow> TransferPath \<Rightarrow> Pack \<Rightarrow> TransferFrame" where
  "packFrame env version path pack =
     (let frame = \<lparr>tf_TransferPath = TransferPath_ToProtobuf path, tf_MessageType = None, tf_Pack = None,
            tf_Ack = None, tf_Frame = None\<rparr>
      in if 2 \<le> version
         then frame\<lparr>tf_MessageType := Some MessageType_TransferPack, tf_Pack := Some pack\<rparr>
         else frame\<lparr>tf_Frame := Some \<lparr>f_MessageType = MessageType_TransferPack,
                f_MessageBytes = (case marshalPack env pack of None \<Rightarrow> [] | Some b \<Rightarrow> b), f_Raw = False\<rparr>\<rparr>)"

text \<open>The buffers that the deferred calls of \<open>sendWithSetContract\<close> return.\<close>

definition sentBuffers :: "send_env \<Rightarrow> int \<Rightarrow> Pack \<Rightarrow> send_event list" where
  "sentBuffers env version pack =
     (if 2 \<le> version then [] else [ReturnBytes (case marshalPack env pack of None \<Rightarrow> [] | Some b \<Rightarrow> b)]) @
     map (ReturnBytes \<circ> f_MessageBytes) (pk_Frames pack) @
     (case pk_ContractFrame pack of None \<Rightarrow> [] | Some f \<Rightarrow> [ReturnBytes (f_MessageBytes f)])"

definition newPack :: "send_env \<Rightarrow> time \<Rightarrow> Frame option \<Rightarrow> bool \<Rightarrow> bool \<Rightarrow> bool \<Rightarrow> u64 \<Rightarrow> SendSequence \<Rightarrow> Pack" where
  "newPack env now frame ack setContract head n s =
     \<lparr>pk_MessageId = Id_Bytes (newId env (s_nextPtr s)), pk_SequenceId = Id_Bytes (s_sequenceId s),
      pk_SequenceNumber = n, pk_Head = head, pk_Frames = (case frame of None \<Rightarrow> [] | Some f \<Rightarrow> [f]), pk_Nack = (\<not> ack),
      pk_ContractFrame = (if head \<or> setContract then map_option (contractFrameOf env \<circ> sendContracts s) (sendContract s) else None),
      pk_Tag = Some (openTag now),
      pk_ContractId = (if ack then None else map_option (Id_Bytes \<circ> contractId \<circ> sendContracts s) (sendContract s))\<rparr>"

definition packPath :: "SendSequence \<Rightarrow> TransferPath" where
  "packPath s = (case sendContract s of None \<Rightarrow> AddSource (s_destination s) (s_clientId s)
     | Some c \<Rightarrow> contractPath (sendContracts s c))"

definition newSendItem :: "send_env \<Rightarrow> time \<Rightarrow> duration \<Rightarrow> AckFunction \<Rightarrow> Pack \<Rightarrow> SendSequence \<Rightarrow> sendItem" where
  "newSendItem env now rtt callback pack s =
     \<lparr>messageId = newId env (s_nextPtr s), messageByteCount = MessageByteCount (pk_Frames pack),
      sequenceNumber = pk_SequenceNumber pack, heapIndex = 0, maxHeapIndex = 0,
      si_contractId = map_option (contractId \<circ> sendContracts s) (sendContract s), si_head = pk_Head pack,
      si_hasContractFrame = (pk_ContractFrame pack \<noteq> None), si_sendTime = now, si_resendTime = now + rtt,
      si_sendCount = 1,
      si_transferFrameBytes = (case marshalTransferFrame env (packFrame env (ss_ProtocolVersion (s_settings s)) (packPath s) pack)
        of None \<Rightarrow> [] | Some b \<Rightarrow> b),
      si_ackCallback = callback\<rparr>"

definition sendWithSetContract ::
    "send_env \<Rightarrow> time \<Rightarrow> bool \<Rightarrow> Frame option \<Rightarrow> AckFunction \<Rightarrow> bool \<Rightarrow> bool \<Rightarrow> SendSequence \<Rightarrow> SendSequence option" where
  "sendWithSetContract env now writeOk frame callback ack setContract s =
     do {
       let ack = (if sendContract s \<noteq> None \<and> \<not> sendContractAcked s then True else ack);
       let head = (if ack then sendItems s = [] else False);
       let n = (if ack then s_nextSequenceNumber s else 0);
       let s = (if ack then s\<lparr>s_nextSequenceNumber := s_nextSequenceNumber s + 1\<rparr> else s);
       let pack = newPack env now frame ack setContract head n s;
       (w, rtt) \<leftarrow> scaledRtt now (rttWindow s);
       let s = s\<lparr>rttWindow := w\<rparr>;
       let p = s_nextPtr s;
       let s = (setSendItem s p (newSendItem env now rtt callback pack s))\<lparr>s_nextPtr := p + 1\<rparr>;
       let s = writeItem writeOk p s;
       s \<leftarrow> (if ack then Some (s\<lparr>sendItems := sendItems s @ [p], resendQueue := Add (resendQueue s) p\<rparr>)
             else if writeOk then ackItem p s
             else Some (semit [ReturnBytes (si_transferFrameBytes (send_item s p))]
               (ackCallback callback (Some WriteFailed) s)));
       Some (semit (sentBuffers env (ss_ProtocolVersion (s_settings s)) pack) s)
     }"

definition send :: "send_env \<Rightarrow> time \<Rightarrow> bool \<Rightarrow> Frame \<Rightarrow> AckFunction \<Rightarrow> bool \<Rightarrow> SendSequence \<Rightarrow> SendSequence option" where
  "send env now writeOk frame callback ack s = sendWithSetContract env now writeOk (Some frame) callback ack False s"

section \<open>Paying for a message\<close>

text \<open>
  What one call of \<open>TakeContract\<close> in \<open>createContract\<close> meets: the context, the clock, the contract (or none),
  and the outcome of the write of the message that carries the contract.
\<close>

record contract_attempt =
  at_done :: bool
  at_now :: time
  at_contract :: "Contract option"
  at_writeOk :: bool

definition setNextContract :: "send_env \<Rightarrow> contract_attempt \<Rightarrow> ByteCount \<Rightarrow> Contract \<Rightarrow> SendSequence \<Rightarrow> (SendSequence \<times> bool) option" where
  "setNextContract env a b c s =
     (case newSequenceContract (unmarshalStoredContract env) (newId env (s_nextPtr s)) ''s'' c
        (ss_MinMessageByteCount (s_settings s)) (ss_ContractFillFraction (s_settings s)) of
        Inl _ \<Rightarrow> Some (s, False)
      | Inr k \<Rightarrow>
          if map_of (openSendContracts s) (contractId k) \<noteq> None then Some (s, False)
          else (case contract_update k 0 of (k, first) \<Rightarrow> case contract_update k b of (k', second) \<Rightarrow>
            if first \<and> second then do {
              let p = s_nextPtr s;
              let s = s\<lparr>sendContracts := (sendContracts s)(p := k'), s_nextPtr := p + 1\<rparr>;
              let s = s_setContract p s;
              s \<leftarrow> sendWithSetContract env (at_now a) (at_writeOk a) None (ContractCallback p) True True s;
              Some (s, True)
            }
            else Some (semit [CloseSendContract (contractId k) 0 0] s, False)))"

text \<open>\<open>ByteCount(32 + float32(n) / f)\<close>: the size of the contract to ask for.\<close>

definition requestByteCount :: "ByteCount \<Rightarrow> rat \<Rightarrow> ByteCount" where
  "requestByteCount n f = floatToInt64 (float32 (32 + float32 (float32 (of_int n) / f)))"

definition nextContract :: "send_env \<Rightarrow> contract_attempt \<Rightarrow> ByteCount \<Rightarrow> SendSequence \<Rightarrow> (SendSequence \<times> bool) option" where
  "nextContract env a b s =
     (case at_contract a of None \<Rightarrow> Some (s, False)
      | Some c \<Rightarrow> do {
          (s, success) \<leftarrow> setNextContract env a b c s;
          if success then
            let s = s\<lparr>contractSeqIndex := contractSeqIndex s + 1\<rparr> in
            Some (semit [CreateContract (s_contractKey s) (contractSeqIndex s)
              (requestByteCount (int64 (b + ss_MinMessageByteCount (s_settings s))) (ss_ContractFillFraction (s_settings s)))] s, True)
          else Some (s, False)
        })"

text \<open>The loop until the deadline; the list of attempts ends where the clock passes it.\<close>

primrec retryContract ::
    "send_env \<Rightarrow> time \<Rightarrow> ByteCount \<Rightarrow> contract_attempt list \<Rightarrow> SendSequence \<Rightarrow> (SendSequence \<times> bool) option" where
  "retryContract env endTime b [] s = Some (s, False)"
| "retryContract env endTime b (a # as) s =
     (if at_done a \<or> endTime - at_now a \<le> 0 then Some (s, False)
      else do {
        let s = semit [CreateContract (s_contractKey s) (contractSeqIndex s)
          (requestByteCount (int64 (int64 (b + b) + ss_MinMessageByteCount (s_settings s))) (ss_ContractFillFraction (s_settings s)))] s;
        (s, success) \<leftarrow> nextContract env a b s;
        if success then Some (s, True) else retryContract env endTime b as s
      })"

text \<open>\<open>None\<close>: a message that does not fit into a standard contract panics.\<close>

definition createContract ::
    "send_env \<Rightarrow> time \<Rightarrow> contract_attempt \<Rightarrow> contract_attempt list \<Rightarrow> ByteCount \<Rightarrow> SendSequence \<Rightarrow> (SendSequence \<times> bool) option" where
  "createContract env now a as b s =
     (if floatToInt64 (float32 (float32 (of_int (standardContractTransferByteCount env)) * ss_ContractFillFraction (s_settings s)))
         < int64 (b + ss_MinMessageByteCount (s_settings s)) then None
      else do {
        (s, success) \<leftarrow> nextContract env a b s;
        if success then Some (s, True)
        else retryContract env (now + ss_CreateContractTimeout (s_settings s)) b as s
      })"

definition s_noContract :: "send_env \<Rightarrow> SendSequence \<Rightarrow> bool" where
  "s_noContract env s = (\<not> (IsStream (s_destination s) \<or> 0 < MultiHop_Len (s_intermediaryIds s)) \<and>
     sendNoContract env (destinationId (s_destination s)))"

definition s_updateContract ::
    "send_env \<Rightarrow> time \<Rightarrow> contract_attempt \<Rightarrow> contract_attempt list \<Rightarrow> ByteCount \<Rightarrow> SendSequence \<Rightarrow> (SendSequence \<times> bool) option" where
  "s_updateContract env now a as b s =
     (if s_noContract env s then Some (s, True)
      else (case sendContract s of None \<Rightarrow> createContract env now a as b s
        | Some c \<Rightarrow> (case contract_update (sendContracts s c) b of (k, success) \<Rightarrow>
            let s = s\<lparr>sendContracts := (sendContracts s)(c := k)\<rparr> in
            if success then Some (s, True) else createContract env now a as b s)))"

section \<open>Resending\<close>

text \<open>The contract that a head must carry: \<open>None\<close> when it is not open.\<close>

definition attachContract :: "send_env \<Rightarrow> SendSequence \<Rightarrow> sendItem \<Rightarrow> Pack \<Rightarrow> Pack option" where
  "attachContract env s item pack =
     (case si_contractId item of None \<Rightarrow> Some pack
      | Some cid \<Rightarrow> if si_hasContractFrame item then Some pack
          else map_option (\<lambda>c. pack\<lparr>pk_ContractFrame := Some (contractFrameOf env (sendContracts s c))\<rparr>)
            (map_of (openSendContracts s) cid))"

text \<open>
  \<open>setHead\<close> rewrites the stored message: it becomes the head and carries the contract. \<open>None\<close> is the nil
  dereference of a message without a pack, or of a contract that is not open any more.
\<close>

datatype set_head_error = SetHeadFailed

definition setHead :: "send_env \<Rightarrow> time \<Rightarrow> ptr \<Rightarrow> SendSequence \<Rightarrow> (set_head_error + byte list) option" where
  "setHead env now p s =
     (let item = send_item s p in
      case unmarshalTransferFrame env (si_transferFrameBytes item) of
        None \<Rightarrow> Some (Inl SetHeadFailed)
      | Some transferFrame \<Rightarrow> do {
          unmarshaled \<leftarrow> (case tf_Pack transferFrame of Some pack \<Rightarrow> Some (Some pack)
            | None \<Rightarrow> (case tf_Frame transferFrame of None \<Rightarrow> None | Some f \<Rightarrow> Some (unmarshalPack env (f_MessageBytes f))));
          case unmarshaled of None \<Rightarrow> Some (Inl SetHeadFailed)
          | Some pack \<Rightarrow> do {
              let pack = pack\<lparr>pk_Head := True, pk_Tag := Some (openTag now)\<rparr>;
              pack \<leftarrow> attachContract env s item pack;
              let remarshaled = (case tf_Pack transferFrame of Some _ \<Rightarrow> Some (transferFrame\<lparr>tf_Pack := Some pack\<rparr>)
                | None \<Rightarrow> (case marshalPack env pack of None \<Rightarrow> None
                    | Some b \<Rightarrow> Some (transferFrame\<lparr>tf_Frame := map_option (\<lambda>f. f\<lparr>f_MessageBytes := b\<rparr>) (tf_Frame transferFrame)\<rparr>)));
              Some (case Option.bind remarshaled (marshalTransferFrame env) of None \<Rightarrow> Inl SetHeadFailed | Some b \<Rightarrow> Inr b)
            }
        })"

text \<open>Why \<open>Run\<close> returns.\<close>

datatype send_exit = AckTimedOut | SetHeadError | SendWithoutContract | SendIdleClosed | SendCanceled

text \<open>The part of a resend before the write: a pending item that has become the first one is sent as the head.\<close>

definition resendBytes :: "send_env \<Rightarrow> time \<Rightarrow> ptr \<Rightarrow> SendSequence \<Rightarrow> (SendSequence \<times> send_exit option) option" where
  "resendBytes env now p s =
     (case sendItems s of [] \<Rightarrow> None
      | first # _ \<Rightarrow>
          let item = send_item s p in
          if sequenceNumber (send_item s first) = sequenceNumber item \<and> \<not> si_head item then do {
            r \<leftarrow> setHead env now p s;
            Some (case r of Inl _ \<Rightarrow> (s, Some SetHeadError)
              | Inr bytes \<Rightarrow> (setSendItem (semit [ReturnBytes (si_transferFrameBytes item)] s) p
                  (item\<lparr>si_head := True, si_transferFrameBytes := bytes\<rparr>), None))
          }
          else Some (s, None))"

definition resendSchedule :: "time \<Rightarrow> duration \<Rightarrow> ptr \<Rightarrow> SendSequence \<Rightarrow> SendSequence option" where
  "resendSchedule now itemAckTimeout p s =
     do {
       (w, itemResendTimeout) \<leftarrow> scaledRtt now (rttWindow s);
       let s = s\<lparr>rttWindow := w\<rparr>;
       let s = setSendItem s p ((send_item s p)\<lparr>si_sendCount := si_sendCount (send_item s p) + 1,
         si_resendTime := now + (if itemAckTimeout \<le> itemResendTimeout then itemAckTimeout else itemResendTimeout)\<rparr>);
       Some (s\<lparr>resendQueue := Add (resendQueue s) p\<rparr>)
     }"

text \<open>
  The inner loop of \<open>Run\<close> over the items whose resend time has come; \<open>writeOk\<close> gives the outcome of their
  writes. The result is a reason to exit, or how long to wait. Every round that goes on moves the resend
  time of an item past \<open>now\<close>, so one round more than there are items is enough fuel.
\<close>

primrec resendLoop ::
    "send_env \<Rightarrow> time \<Rightarrow> (ptr \<Rightarrow> bool) \<Rightarrow> nat \<Rightarrow> duration \<Rightarrow> SendSequence \<Rightarrow> (SendSequence \<times> (send_exit + duration)) option" where
  "resendLoop env now writeOk 0 timeout s = None"
| "resendLoop env now writeOk (Suc fuel) timeout s =
     (case PeekFirst (resendQueue s) of
        None \<Rightarrow> Some (s, Inr timeout)
      | Some p \<Rightarrow>
          let item = send_item s p;
              itemAckTimeout = si_sendTime item + ss_AckTimeout (s_settings s) - now
          in if itemAckTimeout \<le> 0 then Some (s, Inl AckTimedOut)
             else
               let timeout = (if itemAckTimeout < timeout then itemAckTimeout else timeout);
                   itemResendTimeout = si_resendTime item - now
               in if now < si_resendTime item then
                    Some (s, Inr (if itemResendTimeout < timeout then itemResendTimeout else timeout))
                  else do {
                    (q, _) \<leftarrow> RemoveByMessageId (resendQueue s) (messageId item);
                    (s, e) \<leftarrow> resendBytes env now p (s\<lparr>resendQueue := q\<rparr>);
                    case e of Some e \<Rightarrow> Some (s, Inl e)
                    | None \<Rightarrow> do {
                        s \<leftarrow> resendSchedule now itemAckTimeout p (writeItem (writeOk p) p s);
                        resendLoop env now writeOk fuel timeout s
                      }
                  })"

section \<open>The run loop\<close>

primrec receiveAcks :: "time \<Rightarrow> (Id \<times> sequenceAck) list \<Rightarrow> SendSequence \<Rightarrow> SendSequence option" where
  "receiveAcks now [] s = Some s"
| "receiveAcks now (ma # mas) s = do { s \<leftarrow> receiveAck now (fst ma) True (a_tag (snd ma)) s; receiveAcks now mas s }"

text \<open>The acks of the window are applied, the head first; \<open>None\<close> includes the nil dereference of a missing head.\<close>

definition applyAcks :: "time \<Rightarrow> SendSequence \<Rightarrow> SendSequence option" where
  "applyAcks now s =
     do {
       (w, snapshot) \<leftarrow> ackWindow_Snapshot (s_ackWindow s) True;
       let s = s\<lparr>s_ackWindow := w\<rparr>;
       s \<leftarrow> (if 0 < s_ackUpdateCount snapshot then do {
               h \<leftarrow> s_headAck snapshot;
               receiveAck now (a_messageId h) False (a_tag h) s
             } else Some s);
       receiveAcks now (s_selectiveAcks snapshot) s
     }"

definition s_wait :: "send_env \<Rightarrow> time \<Rightarrow> (ptr \<Rightarrow> bool) \<Rightarrow> SendSequence \<Rightarrow> (SendSequence \<times> (send_exit + duration)) option" where
  "s_wait env now writeOk s =
     (if tq_Len (resendQueue s) = 0 then Some (s, Inr (ss_IdleTimeout (s_settings s)))
      else resendLoop env now writeOk (Suc (tq_Len (resendQueue s))) (ss_AckTimeout (s_settings s)) s)"

definition s_canQueue :: "SendSequence \<Rightarrow> bool" where
  "s_canQueue s = (case QueueSize (resendQueue s) of (queueSize, queueByteCount) \<Rightarrow>
     if 0 = queueSize then True else queueByteCount < ss_ResendQueueMaxByteCount (s_settings s))"

text \<open>The goroutine that reads the acks of the channel: an ack of a message that is not pending is dropped.\<close>

definition ackArrives :: "Ack \<Rightarrow> SendSequence \<Rightarrow> SendSequence" where
  "ackArrives a s =
     (case IdFromBytes (k_MessageId a) of Inl _ \<Rightarrow> s
      | Inr m \<Rightarrow> (case ContainsMessageId (resendQueue s) m of None \<Rightarrow> s
          | Some n \<Rightarrow> s\<lparr>s_ackWindow := ackWindow_Update (s_ackWindow s)
              \<lparr>a_sequenceNumber = n, a_messageId = m, a_selective = k_Selective a, a_tag = k_Tag a\<rparr>\<rparr>))"

text \<open>
  The cases of the \<open>select\<close>: a pack from the channel (only while the queue has room, and there is one), an
  ack notification or the timer, with the calls that other goroutines made on the idle condition.
\<close>

datatype send_choice = ContextDone | AckNotify | TakePack bool contract_attempt "contract_attempt list" | SendTimer "idle_call list"

definition run_takePack ::
    "send_env \<Rightarrow> time \<Rightarrow> bool \<Rightarrow> contract_attempt \<Rightarrow> contract_attempt list \<Rightarrow> SendSequence \<Rightarrow> (SendSequence \<times> send_exit option) option" where
  "run_takePack env now writeOk a as s =
     (case s_packs s of [] \<Rightarrow> Some (s, None)
      | pack # packs \<Rightarrow>
          if \<not> s_canQueue s then Some (s, None)
          else do {
            (s, success) \<leftarrow> s_updateContract env now a as (sp_MessageByteCount pack) (s\<lparr>s_packs := packs\<rparr>);
            if success then do {
              s \<leftarrow> send env now writeOk (sp_Frame pack) (sp_AckCallback pack) (to_Ack (sp_TransferOptions pack)) s;
              Some (s, None)
            }
            else Some (semit [ReturnBytes (f_MessageBytes (sp_Frame pack))]
              (ackCallback (sp_AckCallback pack) (Some NoContractError) s), Some SendWithoutContract)
          })"

definition run_sendTimer :: "u64 \<Rightarrow> idle_call list \<Rightarrow> SendSequence \<Rightarrow> SendSequence \<times> send_exit option" where
  "run_sendTimer checkpointId calls s =
     (let s = s\<lparr>s_idleCondition := fst (idle_calls calls (s_idleCondition s))\<rparr> in
      if tq_Len (resendQueue s) = 0 then
        (case Idle_Close (s_idleCondition s) checkpointId of (c, done') \<Rightarrow>
           (s\<lparr>s_idleCondition := c\<rparr>, if done' then Some SendIdleClosed else None))
      else (s, None))"

definition run_choice :: "send_env \<Rightarrow> time \<Rightarrow> send_choice \<Rightarrow> SendSequence \<Rightarrow> (SendSequence \<times> send_exit option) option" where
  "run_choice env now choice s =
     (case choice of ContextDone \<Rightarrow> Some (s, Some SendCanceled)
      | AckNotify \<Rightarrow> Some (s, None)
      | TakePack writeOk a as \<Rightarrow> run_takePack env now writeOk a as s
      | SendTimer calls \<Rightarrow> Some (run_sendTimer (Checkpoint (s_idleCondition s)) calls s))"

definition s_round ::
    "send_env \<Rightarrow> time \<Rightarrow> (ptr \<Rightarrow> bool) \<Rightarrow> send_choice \<Rightarrow> SendSequence \<Rightarrow> (SendSequence \<times> send_exit option) option" where
  "s_round env now writeOk choice s =
     do {
       s \<leftarrow> applyAcks now s;
       (s, timeout) \<leftarrow> s_wait env now writeOk s;
       case timeout of Inl e \<Rightarrow> Some (s, Some e) | Inr _ \<Rightarrow> run_choice env now choice s
     }"

text \<open>The deferred function of \<open>Run\<close>.\<close>

definition closeSendContractOnExit :: "Id \<times> ptr \<Rightarrow> SendSequence \<Rightarrow> SendSequence" where
  "closeSendContractOnExit ic s =
     (let k = sendContracts s (snd ic)
      in semit [CloseSendContract (contractId k) (ackedByteCount k) (unackedByteCount k)] s)"

definition discardItemOnExit :: "ptr \<Rightarrow> SendSequence \<Rightarrow> SendSequence" where
  "discardItemOnExit p s =
     semit [ReturnBytes (si_transferFrameBytes (send_item s p))]
       (ackCallback (si_ackCallback (send_item s p)) (Some SendSequenceClosed) s)"

definition send_exit_cleanup :: "SendSequence \<Rightarrow> SendSequence" where
  "send_exit_cleanup s =
     (let s = fold closeSendContractOnExit (openSendContracts s) s;
          s = fold discardItemOnExit (orderedItems (resendQueue s)) s;
          s = semit [FlushContractQueue (s_contractKey s)] s
      in closeContractMultiRouteWriter s)"

section \<open>Packs and acks from other goroutines\<close>

text \<open>
  \<open>Pack\<close>: it opens an update, waits in a \<open>select\<close>, closes the update. \<open>Ack\<close>: the ack must be for this
  sequence. The \<open>select\<close> ends with the context done, with room in the channel (\<open>None\<close> when there is none:
  the case is not ready), or with the timeout.
\<close>

datatype send_pack_error = SendPackDone | BadAckSequenceId id_error
datatype send_select = SendSelectDone | SendSelectSend | SendSelectTimeout

definition SendPack_open :: "bool \<Rightarrow> SendSequence \<Rightarrow> SendSequence \<times> bool" where
  "SendPack_open cancelled s =
     (if cancelled then (s, False)
      else case UpdateOpen (s_idleCondition s) of (c, success) \<Rightarrow> (s\<lparr>s_idleCondition := c\<rparr>, success))"

definition SendPack_select :: "send_select \<Rightarrow> SendPack \<Rightarrow> SendSequence \<Rightarrow> (SendSequence \<times> (send_pack_error + bool)) option" where
  "SendPack_select sel pack s =
     (let s = s\<lparr>s_idleCondition := UpdateClose (s_idleCondition s)\<rparr> in
      case sel of
        SendSelectDone \<Rightarrow> Some (s, Inl SendPackDone)
      | SendSelectSend \<Rightarrow> if length (s_packs s) < ss_SequenceBufferSize (s_settings s)
          then Some (s\<lparr>s_packs := s_packs s @ [pack]\<rparr>, Inr True) else None
      | SendSelectTimeout \<Rightarrow> Some (s, Inr False))"

definition SendSequence_Ack :: "bool \<Rightarrow> send_select \<Rightarrow> Ack \<Rightarrow> SendSequence \<Rightarrow> Ack list \<Rightarrow> (Ack list \<times> (send_pack_error + bool)) option" where
  "SendSequence_Ack cancelled sel a s acks =
     (case IdFromBytes (k_SequenceId a) of Inl e \<Rightarrow> Some (acks, Inl (BadAckSequenceId e))
      | Inr i \<Rightarrow>
          if s_sequenceId s \<noteq> i then Some (acks, Inr False)
          else if cancelled then Some (acks, Inl SendPackDone)
          else (case sel of
              SendSelectDone \<Rightarrow> Some (acks, Inl SendPackDone)
            | SendSelectSend \<Rightarrow> if length acks < ss_AckBufferSize (s_settings s) then Some (acks @ [a], Inr True) else None
            | SendSelectTimeout \<Rightarrow> Some (acks, Inr False)))"

text \<open>\<open>Close\<close> answers the packs left in the channel.\<close>

definition SendSequence_Close :: "SendSequence \<Rightarrow> SendSequence" where
  "SendSequence_Close s =
     fold (\<lambda>pack s. semit [ReturnBytes (f_MessageBytes (sp_Frame pack))] (ackCallback (sp_AckCallback pack) (Some SendSequenceClosed) s))
       (s_packs s) (s\<lparr>s_packs := []\<rparr>)"

section \<open>A whole run\<close>

text \<open>
  What the sequence meets: a pack that \<open>Pack\<close> has put into the channel, an ack that the goroutine reads, a
  round of the loop with the outcome of its writes and of its \<open>select\<close>.
\<close>

datatype send_input = PackQueued SendPack | AckArrives Ack | Round time "ptr \<Rightarrow> bool" send_choice

definition send_input_step :: "send_env \<Rightarrow> send_input \<Rightarrow> SendSequence \<Rightarrow> (SendSequence \<times> send_exit option) option" where
  "send_input_step env i s =
     (case i of
        PackQueued pack \<Rightarrow> Some (s\<lparr>s_packs := s_packs s @ [pack]\<rparr>, None)
      | AckArrives a \<Rightarrow> Some (ackArrives a s, None)
      | Round now writeOk choice \<Rightarrow> s_round env now writeOk choice s)"

primrec send_run :: "send_env \<Rightarrow> send_input list \<Rightarrow> SendSequence \<Rightarrow> (SendSequence \<times> send_exit option) option" where
  "send_run env [] s = Some (s, None)"
| "send_run env (i # is) s = do {
     (s, e) \<leftarrow> send_input_step env i s;
     case e of Some e \<Rightarrow> Some (s, Some e) | None \<Rightarrow> send_run env is s
   }"

end
