(* ===== verification/Send_Invariant.thy ===== *)
theory Send_Invariant
  imports Send_Sequence
begin

text \<open>
  The invariant of a send sequence. The stream \<open>F\<close> lists the numbered messages that were sent so far: the
  address of the item and its frames. The pending items are a suffix of the stream, the resend queue holds
  exactly them, their charges are covered by the unacked bytes of their contracts, and every message ever
  written is one of the stream. Each operation keeps the invariant and does not panic.
\<close>

section \<open>Assumptions on the surroundings\<close>

definition send_settings_ok :: "SendBufferSettings \<Rightarrow> bool" where
  "send_settings_ok st \<longleftrightarrow> 0 < ss_MinMessageByteCount st \<and> ss_MinMessageByteCount st \<le> maxMessageByteCount \<and>
     0 < ss_MinResendInterval st \<and> ss_MinResendInterval st \<le> ss_MaxResendInterval st \<and>
     0 \<le> ss_ContractFillFraction st \<and> ss_ContractFillFraction st \<le> 1 \<and> 0 < ss_RttWindowSize st"

text \<open>
  The first \<open>2 ^ 64\<close> ids drawn are distinct, stored contracts have a size, and the codecs decode what they encode.
\<close>

definition idCount :: nat where
  "idCount = 2 ^ 64"

definition codec_ok :: "send_env \<Rightarrow> bool" where
  "codec_ok env \<longleftrightarrow>
     (\<forall>tf. \<exists>b. marshalTransferFrame env tf = Some b \<and> unmarshalTransferFrame env b = Some tf) \<and>
     (\<forall>pack. \<exists>b. marshalPack env pack = Some b \<and> unmarshalPack env b = Some pack)"

definition send_env_ok :: "send_env \<Rightarrow> bool" where
  "send_env_ok env \<longleftrightarrow> inj_on (newId env) {..<idCount} \<and> (\<forall>n. id_ok (newId env n)) \<and>
     (\<forall>bs st. unmarshalStoredContract env bs = Some st \<longrightarrow> uint (s_TransferByteCount st) < maxStoredByteCount) \<and>
     codec_ok env"

section \<open>The invariant\<close>

type_synonym stream = "(ptr \<times> Frame list) list"

definition decodePack :: "send_env \<Rightarrow> byte list \<Rightarrow> Pack option" where
  "decodePack env b =
     (case unmarshalTransferFrame env b of None \<Rightarrow> None
      | Some tf \<Rightarrow> (case (tf_Pack tf, tf_Frame tf) of (Some pack, None) \<Rightarrow> Some pack
          | (None, Some f) \<Rightarrow> if f_MessageType f = MessageType_TransferPack then unmarshalPack env (f_MessageBytes f) else None
          | _ \<Rightarrow> None))"

text \<open>The bytes of a message are within what can be counted.\<close>

definition frame_ok :: "Frame list \<Rightarrow> bool" where
  "frame_ok fs \<longleftrightarrow> 0 \<le> MessageByteCount fs \<and> MessageByteCount fs \<le> maxMessageByteCount"

text \<open>A pack carries message \<open>n\<close> of the stream.\<close>

definition carries :: "send_env \<Rightarrow> stream \<Rightarrow> nat \<Rightarrow> Pack \<Rightarrow> bool" where
  "carries env F n pack \<longleftrightarrow> \<not> pk_Nack pack \<and> n < length F \<and> n < 2 ^ 64 \<and> pk_SequenceNumber pack = of_nat n \<and>
     pk_MessageId pack = newId env (fst (F ! n)) \<and> pk_Frames pack = snd (F ! n) \<and> frame_ok (pk_Frames pack)"

definition item_ok :: "send_env \<Rightarrow> stream \<Rightarrow> nat \<Rightarrow> ptr \<Rightarrow> sendItem \<Rightarrow> bool" where
  "item_ok env F n p x \<longleftrightarrow> sequenceNumber x = of_nat n \<and> messageId x = newId env p \<and>
     0 \<le> messageByteCount x \<and> messageByteCount x \<le> maxMessageByteCount \<and>
     (\<exists>pack. decodePack env (si_transferFrameBytes x) = Some pack \<and> carries env F n pack \<and> (pk_Head pack \<longrightarrow> si_head x))"

text \<open>The pending items \<open>ps\<close> are the end of the stream; the queue holds those of \<open>A\<close>. Only the first can be a head.\<close>

definition items_ok :: "send_env \<Rightarrow> stream \<Rightarrow> ptr list \<Rightarrow> ptr set \<Rightarrow> SendSequence \<Rightarrow> bool" where
  "items_ok env F ps A s \<longleftrightarrow> tq_inv (resendQueue s) \<and> cmp (resendQueue s) = compareResendTime \<and>
     tq_items (resendQueue s) = A \<and> A \<subseteq> set ps \<and>
     distinct (map fst F) \<and> (\<forall>p\<in>set (map fst F). p < s_nextPtr s) \<and> set (map fst F) \<subseteq> {..<idCount} \<and>
     length F < 2 ^ 64 \<and> s_nextSequenceNumber s = of_nat (length F) \<and>
     length ps \<le> length F \<and> ps = map fst (drop (length F - length ps) F) \<and>
     (\<forall>i<length ps. item_ok env F (length F - length ps + i) (ps ! i) (send_item s (ps ! i))) \<and>
     (\<forall>i<length ps. si_head (send_item s (ps ! i)) \<longrightarrow> i = 0)"

definition charge :: "SendBufferSettings \<Rightarrow> ByteCount \<Rightarrow> int" where
  "charge st b = max (ss_MinMessageByteCount st) b"

text \<open>
  Every open contract has charged at least the pending items in \<open>B\<close> that name it, and \<open>extra\<close> more when it
  is the current one.
\<close>

definition charged :: "SendSequence \<Rightarrow> ptr set \<Rightarrow> Id \<Rightarrow> int" where
  "charged s B i = (\<Sum>p\<in>{p \<in> B. si_contractId (send_item s p) = Some i}.
     charge (s_settings s) (messageByteCount (send_item s p)))"

definition send_contracts_ok :: "send_env \<Rightarrow> ptr set \<Rightarrow> int \<Rightarrow> SendSequence \<Rightarrow> bool" where
  "send_contracts_ok env B extra s \<longleftrightarrow> finite B \<and> distinct (map fst (openSendContracts s)) \<and>
     (\<forall>(i, c)\<in>set (openSendContracts s). contractId (sendContracts s c) = i \<and> contract_ok (sendContracts s c) \<and>
        minUpdateByteCount (sendContracts s c) = ss_MinMessageByteCount (s_settings s) \<and> c < s_nextPtr s) \<and>
     (\<forall>c. sendContract s = Some c \<longrightarrow> (contractId (sendContracts s c), c) \<in> set (openSendContracts s)) \<and>
     (\<forall>p\<in>B. case si_contractId (send_item s p) of None \<Rightarrow> True | Some i \<Rightarrow> i \<in> fst ` set (openSendContracts s)) \<and>
     (\<forall>(i, c)\<in>set (openSendContracts s).
        charged s B i + (if sendContract s = Some c then extra else 0) \<le> unackedByteCount (sendContracts s c)) \<and>
     (s_noContract env s \<longrightarrow> sendContract s = None)"

definition writes :: "send_event list \<Rightarrow> byte list list" where
  "writes es = List.map_filter (\<lambda>e. case e of Write _ b _ \<Rightarrow> Some b | _ \<Rightarrow> None) es"

text \<open>
  What was written: messages without ack, and messages of the stream. A head is at or below the first
  pending message: everything before it was acked.
\<close>

definition written_ok :: "send_env \<Rightarrow> stream \<Rightarrow> nat \<Rightarrow> byte list \<Rightarrow> bool" where
  "written_ok env F base b \<longleftrightarrow> (\<exists>pack. decodePack env b = Some pack \<and>
     (pk_Nack pack \<and> pk_SequenceNumber pack = 0 \<and> frame_ok (pk_Frames pack) \<or> (\<exists>n. carries env F n pack \<and> (pk_Head pack \<longrightarrow> n \<le> base))))"

definition rtt_part :: "SendSequence \<Rightarrow> bool" where
  "rtt_part s \<longleftrightarrow> (\<exists>l x. rw_view (rttWindow s) l x) \<and> minScaledRtt (rttWindow s) = ss_MinResendInterval (s_settings s) \<and>
     maxScaledRtt (rttWindow s) = ss_MaxResendInterval (s_settings s)"

definition ss_core :: "send_env \<Rightarrow> stream \<Rightarrow> ptr list \<Rightarrow> ptr set \<Rightarrow> int \<Rightarrow> SendSequence \<Rightarrow> bool" where
  "ss_core env F ps A extra s \<longleftrightarrow> send_settings_ok (s_settings s) \<and> items_ok env F ps A s \<and>
     send_contracts_ok env (set ps) extra s \<and> rtt_part s \<and> ackWindow_ok (s_ackWindow s) \<and>
     (\<forall>b\<in>set (writes (s_log s)). written_ok env F (length F - length ps) b)"

definition ss_inv :: "send_env \<Rightarrow> stream \<Rightarrow> SendSequence \<Rightarrow> bool" where
  "ss_inv env F s \<longleftrightarrow> ss_core env F (sendItems s) (set (sendItems s)) 0 s"

section \<open>What the small steps leave alone\<close>

lemma writes_simps [simp]:
  "writes [] = []" "writes (es @ fs) = writes es @ writes fs" "writes (Write d b ok # es) = b # writes es"
  "writes (AckCallback n e # es) = writes es" "writes (CloseSendContract i a u # es) = writes es"
  "writes (CreateContract k m c # es) = writes es" "writes (FlushContractQueue k # es) = writes es"
  "writes (OpenMultiRouteWriter d # es) = writes es" "writes (CloseMultiRouteWriter d # es) = writes es"
  "writes (AssociateDestination d # es) = writes es" "writes (ReturnBytes b # es) = writes es"
  by (simp_all add: writes_def map_filter_def)

lemma writes_sentBuffers [simp]: "writes (sentBuffers env v pack) = []"
proof -
  have "writes (map (ReturnBytes \<circ> f_MessageBytes) fs) = []" for fs :: "Frame list"
    by (induction fs) (simp_all add: writes_def map_filter_def)
  then show ?thesis by (simp add: sentBuffers_def split: option.splits)
qed

text \<open>The answers that callers got, in order.\<close>

definition outcomes :: "send_event list \<Rightarrow> (nat \<times> send_error option) list" where
  "outcomes es = List.map_filter (\<lambda>e. case e of AckCallback n r \<Rightarrow> Some (n, r) | _ \<Rightarrow> None) es"

definition answer :: "AckFunction \<Rightarrow> send_error option \<Rightarrow> (nat \<times> send_error option) list" where
  "answer f e = (case f of UserCallback n \<Rightarrow> [(n, e)] | ContractCallback _ \<Rightarrow> [])"

lemma outcomes_simps [simp]:
  "outcomes [] = []" "outcomes (es @ fs) = outcomes es @ outcomes fs" "outcomes (Write d b ok # es) = outcomes es"
  "outcomes (AckCallback n e # es) = (n, e) # outcomes es" "outcomes (CloseSendContract i a u # es) = outcomes es"
  "outcomes (CreateContract k m c # es) = outcomes es" "outcomes (FlushContractQueue k # es) = outcomes es"
  "outcomes (OpenMultiRouteWriter d # es) = outcomes es" "outcomes (CloseMultiRouteWriter d # es) = outcomes es"
  "outcomes (AssociateDestination d # es) = outcomes es" "outcomes (ReturnBytes b # es) = outcomes es"
  by (simp_all add: outcomes_def map_filter_def)

lemma outcomes_sentBuffers [simp]: "outcomes (sentBuffers env v pack) = []"
proof -
  have "outcomes (map (ReturnBytes \<circ> f_MessageBytes) fs) = []" for fs :: "Frame list"
    by (induction fs) (simp_all add: outcomes_def map_filter_def)
  then show ?thesis by (simp add: sentBuffers_def split: option.splits)
qed

lemma outcomes_ackCallback [simp]: "outcomes (s_log (ackCallback f e s)) = outcomes (s_log s) @ answer f e"
  by (simp add: ackCallback_def answer_def semit_def setContractAcked_def split: AckFunction.splits)

lemma outcomes_semit [simp]: "outcomes (s_log (semit es s)) = outcomes (s_log s) @ outcomes es"
  by (simp add: semit_def)

text \<open>Only the log (no writes), the writer, the ack flag of the contract and the request index may differ.\<close>

definition same_send :: "SendSequence \<Rightarrow> SendSequence \<Rightarrow> bool" where
  "same_send s t \<longleftrightarrow> resendQueue t = resendQueue s \<and> sendItems t = sendItems s \<and> s_settings t = s_settings s \<and>
     s_nextSequenceNumber t = s_nextSequenceNumber s \<and> s_nextPtr t = s_nextPtr s \<and> sendContracts t = sendContracts s \<and>
     sendContract t = sendContract s \<and> openSendContracts t = openSendContracts s \<and> rttWindow t = rttWindow s \<and>
     s_ackWindow t = s_ackWindow s \<and> s_destination t = s_destination s \<and> s_intermediaryIds t = s_intermediaryIds s \<and>
     s_packs t = s_packs s \<and> s_clientId t = s_clientId s \<and> s_sequenceId t = s_sequenceId s \<and>
     writes (s_log t) = writes (s_log s)"

lemma same_send_refl [simp]: "same_send s s"
  by (simp add: same_send_def)

lemma same_send_trans: "same_send s t \<Longrightarrow> same_send t u \<Longrightarrow> same_send s u"
  by (simp add: same_send_def)

lemma same_send_semit [simp]: "writes es = [] \<Longrightarrow> same_send s (semit es s)"
  by (simp add: same_send_def semit_def)

lemma same_send_ackCallback [simp]: "same_send s (ackCallback f e s)"
  by (simp add: same_send_def ackCallback_def semit_def setContractAcked_def split: AckFunction.splits)

lemma charged_cong:
  "(\<And>p. p \<in> B \<Longrightarrow> si_contractId (send_item t p) = si_contractId (send_item s p) \<and>
     messageByteCount (send_item t p) = messageByteCount (send_item s p)) \<Longrightarrow>
   s_settings t = s_settings s \<Longrightarrow> charged t B i = charged s B i"
  unfolding charged_def by (rule sum.cong) auto

lemma core_cong:
  assumes "resendQueue t = resendQueue s" "s_settings t = s_settings s" "s_nextSequenceNumber t = s_nextSequenceNumber s"
    "s_nextPtr t = s_nextPtr s" "sendContracts t = sendContracts s" "sendContract t = sendContract s"
    "openSendContracts t = openSendContracts s" "rttWindow t = rttWindow s" "s_ackWindow t = s_ackWindow s"
    "s_destination t = s_destination s" "s_intermediaryIds t = s_intermediaryIds s" "writes (s_log t) = writes (s_log s)"
  shows "ss_core env F ps A extra t = ss_core env F ps A extra s"
proof -
  have "charged t = charged s" using assms by (simp add: charged_def fun_eq_iff)
  moreover have "s_noContract env t = s_noContract env s" using assms by (simp add: s_noContract_def)
  ultimately show ?thesis
    using assms unfolding ss_core_def items_ok_def send_contracts_ok_def rtt_part_def by (simp only:)
qed

lemma same_send_core: "same_send s t \<Longrightarrow> ss_core env F ps A extra t = ss_core env F ps A extra s"
  by (rule core_cong) (simp_all add: same_send_def)

lemma core_update [simp]:
  "ss_core env F ps A extra (s\<lparr>sendItems := l\<rparr>) = ss_core env F ps A extra s"
  "ss_core env F ps A extra (s\<lparr>s_packs := k\<rparr>) = ss_core env F ps A extra s"
  "ss_core env F ps A extra (s\<lparr>s_idleCondition := c\<rparr>) = ss_core env F ps A extra s"
  "ss_core env F ps A extra (s\<lparr>contractSeqIndex := j\<rparr>) = ss_core env F ps A extra s"
  by (rule core_cong, simp_all)+

lemma charge_pos: "send_settings_ok st \<Longrightarrow> 0 < charge st b"
  by (auto simp: send_settings_ok_def charge_def)

lemma charged_nonneg: "send_settings_ok (s_settings s) \<Longrightarrow> 0 \<le> charged s B i"
  unfolding charged_def using charge_pos by (intro sum_nonneg) (simp add: less_imp_le)

lemma charged_remove:
  assumes "finite B" "p \<in> B"
  shows "charged s B i = charged s (B - {p}) i +
    (if si_contractId (send_item s p) = Some i then charge (s_settings s) (messageByteCount (send_item s p)) else 0)"
proof -
  let ?S = "\<lambda>B. {q \<in> B. si_contractId (send_item s q) = Some i}" and ?f = "\<lambda>q. charge (s_settings s) (messageByteCount (send_item s q))"
  show ?thesis
  proof (cases "si_contractId (send_item s p) = Some i")
    case True
    have e: "?S (B - {p}) = ?S B - {p}" by auto
    have "p \<in> ?S B" "finite (?S B)" using True assms by auto
    then show ?thesis using True unfolding charged_def e by (simp add: sum_diff1)
  next
    case False
    then have "?S (B - {p}) = ?S B" by auto
    then show ?thesis using False unfolding charged_def by simp
  qed
qed

text \<open>As \<open>same_send\<close>, but contracts may be charged, acked, opened and closed.\<close>

definition same_stream :: "SendSequence \<Rightarrow> SendSequence \<Rightarrow> bool" where
  "same_stream s t \<longleftrightarrow> resendQueue t = resendQueue s \<and> sendItems t = sendItems s \<and> s_settings t = s_settings s \<and>
     s_nextSequenceNumber t = s_nextSequenceNumber s \<and> s_nextPtr t = s_nextPtr s \<and> rttWindow t = rttWindow s \<and>
     s_ackWindow t = s_ackWindow s \<and> s_destination t = s_destination s \<and> s_intermediaryIds t = s_intermediaryIds s \<and>
     s_packs t = s_packs s \<and> s_clientId t = s_clientId s \<and> s_sequenceId t = s_sequenceId s \<and>
     writes (s_log t) = writes (s_log s)"

lemma same_send_stream: "same_send s t \<Longrightarrow> same_stream s t"
  by (simp add: same_send_def same_stream_def)

lemma same_stream_trans: "same_stream s t \<Longrightarrow> same_stream t u \<Longrightarrow> same_stream s u"
  by (auto simp: same_stream_def)

lemma same_stream_core:
  assumes "same_stream s t" "ss_core env F ps A x s" "send_contracts_ok env (set ps) extra t"
  shows "ss_core env F ps A extra t"
proof -
  note f = assms(1) [unfolded same_stream_def]
  have "items_ok env F ps A t" using f assms(2) unfolding ss_core_def items_ok_def by auto
  then show ?thesis using f assms(2,3) unfolding ss_core_def rtt_part_def by simp
qed

lemma same_send_contracts:
  assumes "same_send s t"
  shows "send_contracts_ok env B extra t = send_contracts_ok env B extra s"
proof -
  note f = assms [unfolded same_send_def]
  have "charged t = charged s" using f by (simp add: charged_def fun_eq_iff)
  moreover have "s_noContract env t = s_noContract env s" using f by (simp add: s_noContract_def)
  ultimately show ?thesis using f unfolding send_contracts_ok_def by (simp only:)
qed

section \<open>Contracts\<close>

lemma closeSendContract_fields [simp]:
  "resendQueue (closeSendContract c s) = resendQueue s" "sendItems (closeSendContract c s) = sendItems s"
  "s_settings (closeSendContract c s) = s_settings s" "sendContracts (closeSendContract c s) = sendContracts s"
  "sendContract (closeSendContract c s) = sendContract s" "s_nextPtr (closeSendContract c s) = s_nextPtr s"
  "s_destination (closeSendContract c s) = s_destination s" "s_intermediaryIds (closeSendContract c s) = s_intermediaryIds s"
  "openSendContracts (closeSendContract c s) = AList.delete (contractId (sendContracts s c)) (openSendContracts s)"
  by (simp_all add: closeSendContract_def Let_def semit_def)

lemma outcomes_close [simp]: "outcomes (s_log (closeSendContract c s)) = outcomes (s_log s)"
  by (simp add: closeSendContract_def Let_def semit_def)

lemma same_stream_close [simp]: "same_stream s (closeSendContract c s)"
  by (simp add: same_stream_def) (simp add: closeSendContract_def Let_def semit_def)

lemma s_noContract_cong:
  "s_destination t = s_destination s \<Longrightarrow> s_intermediaryIds t = s_intermediaryIds s \<Longrightarrow> s_noContract env t = s_noContract env s"
  by (simp add: s_noContract_def)

lemma send_contracts_okI:
  assumes "finite B" "distinct (map fst (openSendContracts s))"
    and "\<And>i c. (i, c) \<in> set (openSendContracts s) \<Longrightarrow> contractId (sendContracts s c) = i \<and> contract_ok (sendContracts s c) \<and>
      minUpdateByteCount (sendContracts s c) = ss_MinMessageByteCount (s_settings s) \<and> c < s_nextPtr s"
    and "\<And>c. sendContract s = Some c \<Longrightarrow> (contractId (sendContracts s c), c) \<in> set (openSendContracts s)"
    and "\<And>p. p \<in> B \<Longrightarrow> case si_contractId (send_item s p) of None \<Rightarrow> True | Some i \<Rightarrow> i \<in> fst ` set (openSendContracts s)"
    and "\<And>i c. (i, c) \<in> set (openSendContracts s) \<Longrightarrow>
      charged s B i + (if sendContract s = Some c then extra else 0) \<le> unackedByteCount (sendContracts s c)"
    and "s_noContract env s \<Longrightarrow> sendContract s = None"
  shows "send_contracts_ok env B extra s"
  unfolding send_contracts_ok_def using assms by blast

text \<open>A contract that is not current and has nothing unacked can be closed: no pending item names it.\<close>

lemma close_contract_ok:
  assumes ok: "send_contracts_ok env B extra s" and st: "send_settings_ok (s_settings s)" "0 \<le> extra"
    and c: "(i, c) \<in> set (openSendContracts s)" "unackedByteCount (sendContracts s c) = 0" "sendContract s \<noteq> Some c"
  shows "send_contracts_ok env B extra (closeSendContract c s)"
proof -
  have fin: "finite B" using ok by (simp add: send_contracts_ok_def)
  have i: "contractId (sendContracts s c) = i" using ok c(1) by (auto simp: send_contracts_ok_def)
  have "charged s B i \<le> 0" using ok c by (auto simp: send_contracts_ok_def)
  then have none: "si_contractId (send_item s p) \<noteq> Some i" if "p \<in> B" for p
    using charged_remove [OF fin that, of s i] charged_nonneg [OF st(1), of "B - {p}" i]
      charge_pos [OF st(1), of "messageByteCount (send_item s p)"] by auto
  have sub: "x \<in> set (AList.delete i (openSendContracts s)) \<longleftrightarrow> x \<in> set (openSendContracts s) \<and> fst x \<noteq> i" for x
    by (cases x) (auto simp: AList.delete_eq)
  have ch: "charged (closeSendContract c s) = charged s" by (simp add: charged_def fun_eq_iff)
  have "fst ` set (AList.delete i (openSendContracts s)) = fst ` set (openSendContracts s) - {i}"
    by (auto simp: sub image_iff)
  moreover have "distinct (map fst (AList.delete i (openSendContracts s)))"
    using ok by (simp add: send_contracts_ok_def distinct_delete)
  moreover have "contractId (sendContracts s d) \<noteq> i" if "sendContract s = Some d" for d
  proof
    assume "contractId (sendContracts s d) = i"
    then have "(i, d) \<in> set (openSendContracts s)" using ok that by (auto simp: send_contracts_ok_def)
    then have "d = c" using c(1) ok by (metis map_of_is_SomeI option.inject send_contracts_ok_def)
    then show False using that c(3) by simp
  qed
  ultimately show ?thesis
    using ok none i s_noContract_cong [of "closeSendContract c s" s env]
    unfolding send_contracts_ok_def by (auto simp: sub ch split: option.splits)
qed

lemma ackItem_ok:
  assumes ok: "send_contracts_ok env (insert p B) extra s" and p: "p \<notin> B"
    and st: "send_settings_ok (s_settings s)" "0 \<le> extra"
    and b: "messageByteCount (send_item s p) \<le> maxMessageByteCount"
  shows "\<exists>t. ackItem p s = Some t \<and> send_contracts_ok env B extra t \<and> same_stream s t \<and>
    outcomes (s_log t) = outcomes (s_log s) @ answer (si_ackCallback (send_item s p)) None"
proof (cases "si_contractId (send_item s p)")
  case None
  let ?t = "semit [ReturnBytes (si_transferFrameBytes (send_item s p))] (ackCallback (si_ackCallback (send_item s p)) None s)"
  have t: "same_send s ?t" by (rule same_send_trans [OF same_send_ackCallback same_send_semit]) simp
  have fin: "finite (insert p B)" using ok by (simp add: send_contracts_ok_def)
  have "charged s (insert p B) i = charged s B i" for i
    using charged_remove [OF fin, of p s i] None p by simp
  then have "send_contracts_ok env B extra s" using ok unfolding send_contracts_ok_def by auto
  then show ?thesis
    using None t same_send_contracts [OF t] same_send_stream [OF t] by (simp add: ackItem_def Let_def)
next
  case (Some i)
  have fin: "finite (insert p B)" and dist: "distinct (map fst (openSendContracts s))"
    using ok by (simp_all add: send_contracts_ok_def)
  obtain c where c: "(i, c) \<in> set (openSendContracts s)" using ok Some by (force simp: send_contracts_ok_def)
  then have m: "map_of (openSendContracts s) i = Some c" using dist by simp
  let ?k = "sendContracts s c" and ?x = "if sendContract s = Some c then extra else 0"
    and ?e = "charge (s_settings s) (messageByteCount (send_item s p))"
  have k: "contractId ?k = i" "contract_ok ?k" "minUpdateByteCount ?k = ss_MinMessageByteCount (s_settings s)"
      "charged s (insert p B) i + ?x \<le> unackedByteCount ?k"
    using ok c unfolding send_contracts_ok_def by fast+
  have e: "effectiveByteCount ?k (messageByteCount (send_item s p)) = ?e"
    by (simp add: effectiveByteCount_def charge_def k(3))
  have ch: "charged s (insert p B) j = charged s B j + (if i = j then ?e else 0)" for j
    using charged_remove [OF fin, of p s j] Some p by simp
  then have enough: "charged s B i + ?e + ?x \<le> unackedByteCount ?k" using k(4) by simp
  then have "?e \<le> unackedByteCount ?k" using charged_nonneg [OF st(1), of B i] st(2) by (auto split: if_splits)
  then obtain d where d: "contract_ack ?k (messageByteCount (send_item s p)) = Some d" "contract_ok d"
      "contract_static d = contract_static ?k" "unackedByteCount d = unackedByteCount ?k - ?e"
    using contract_ack_ok [OF k(2) b] e by auto
  note ds = contract_static_fields [OF d(3)]
  define u where "u = s\<lparr>sendContracts := (sendContracts s)(c := d)\<rparr>"
  have chu: "charged u B j = charged s B j" for j by (simp add: charged_def u_def)
  have other: "sendContracts u c' = sendContracts s c'" if "c' \<noteq> c" for c' using that by (simp add: u_def)
  have inj: "c' = c" if "(i, c') \<in> set (openSendContracts s)" for c'
    using that c dist by (metis map_of_is_SomeI option.inject)
  have cid: "contractId (sendContracts s c') = j" if "(j, c') \<in> set (openSendContracts s)" for j c'
    using that ok unfolding send_contracts_ok_def by fast
  have u: "send_contracts_ok env B extra u"
  proof (rule send_contracts_okI)
    show "finite B" using fin by simp
    show "distinct (map fst (openSendContracts u))" using dist by (simp add: u_def)
    show "contractId (sendContracts u c') = j \<and> contract_ok (sendContracts u c') \<and>
      minUpdateByteCount (sendContracts u c') = ss_MinMessageByteCount (s_settings u) \<and> c' < s_nextPtr u"
      if "(j, c') \<in> set (openSendContracts u)" for j c'
      using that ok d(2) ds k by (cases "c' = c") (auto simp: send_contracts_ok_def u_def)
    show "(contractId (sendContracts u c'), c') \<in> set (openSendContracts u)" if "sendContract u = Some c'" for c'
      using that ok ds(1) by (cases "c' = c") (auto simp: send_contracts_ok_def u_def)
    show "case si_contractId (send_item u q) of None \<Rightarrow> True | Some j \<Rightarrow> j \<in> fst ` set (openSendContracts u)" if "q \<in> B" for q
      using that ok by (auto simp: send_contracts_ok_def u_def split: option.splits)
    show "charged u B j + (if sendContract u = Some c' then extra else 0) \<le> unackedByteCount (sendContracts u c')"
      if "(j, c') \<in> set (openSendContracts u)" for j c'
    proof (cases "c' = c")
      case True
      then have "j = i" using that k(1) cid [of j c'] by (simp add: u_def)
      then show ?thesis using True enough d(4) by (simp add: chu) (auto simp: u_def split: if_splits)
    next
      case False
      then have "j \<noteq> i" using that inj by (auto simp: u_def)
      moreover have "charged s (insert p B) j + (if sendContract s = Some c' then extra else 0) \<le> unackedByteCount (sendContracts s c')"
        using that ok unfolding send_contracts_ok_def by (force simp: u_def)
      ultimately show ?thesis using ch [of j] other [OF False] by (simp add: chu) (auto simp: u_def split: if_splits)
    qed
    show "sendContract u = None" if "s_noContract env u"
      using that ok by (simp add: send_contracts_ok_def u_def s_noContract_def)
  qed
  define v where "v = (if sendContract s \<noteq> Some c \<and> unackedByteCount d = 0 then closeSendContract c u else u)"
  have v: "send_contracts_ok env B extra v"
    using close_contract_ok [OF u, of i c] st c u by (auto simp: v_def u_def)
  have "same_stream s u" by (simp add: same_stream_def u_def)
  then have sv: "same_stream s v" using same_stream_close [of u c] same_stream_trans by (simp add: v_def)
  let ?t = "semit [ReturnBytes (si_transferFrameBytes (send_item s p))] (ackCallback (si_ackCallback (send_item s p)) None v)"
  have t: "same_send v ?t" by (rule same_send_trans [OF same_send_ackCallback same_send_semit]) simp
  have "ackItem p s = Some ?t"
    using Some m d(1) by (simp add: ackItem_def Let_def v_def u_def)
  then show ?thesis
    using v same_send_contracts [OF t] same_stream_trans [OF sv same_send_stream [OF t]] by (simp add: v_def u_def)
qed

section \<open>Items\<close>

text \<open>The queue operations keep every field of an item but its heap positions.\<close>

lemma more_fields:
  assumes "transferItem.more x = transferItem.more (y :: sendItem)"
  shows "si_contractId x = si_contractId y" "si_head x = si_head y" "si_hasContractFrame x = si_hasContractFrame y"
    "si_sendTime x = si_sendTime y" "si_resendTime x = si_resendTime y" "si_sendCount x = si_sendCount y"
    "si_transferFrameBytes x = si_transferFrameBytes y" "si_ackCallback x = si_ackCallback y"
  using assms by (cases x; cases y; simp)+

lemma contents_item:
  assumes "contents r = contents (q :: sendItem transferQueue)"
  shows "messageId (mem r p) = messageId (mem q p)" "messageByteCount (mem r p) = messageByteCount (mem q p)"
    "sequenceNumber (mem r p) = sequenceNumber (mem q p)" "si_contractId (mem r p) = si_contractId (mem q p)"
    "si_head (mem r p) = si_head (mem q p)" "si_hasContractFrame (mem r p) = si_hasContractFrame (mem q p)"
    "si_sendTime (mem r p) = si_sendTime (mem q p)" "si_resendTime (mem r p) = si_resendTime (mem q p)"
    "si_transferFrameBytes (mem r p) = si_transferFrameBytes (mem q p)" "si_ackCallback (mem r p) = si_ackCallback (mem q p)"
  by (rule mem_fields_cong [OF assms] more_fields [OF mem_fields_cong(4) [OF assms]])+

lemma item_ok_contents:
  assumes "contents r = contents (q :: sendItem transferQueue)"
  shows "item_ok env F n p (mem r p') = item_ok env F n p (mem q p')"
  unfolding item_ok_def contents_item [OF assms] ..

lemma contracts_cong:
  assumes ok: "send_contracts_ok env B extra s"
    and items: "\<And>p. p \<in> B \<Longrightarrow> si_contractId (send_item t p) = si_contractId (send_item s p) \<and>
      messageByteCount (send_item t p) = messageByteCount (send_item s p)"
    and same: "sendContracts t = sendContracts s" "sendContract t = sendContract s" "openSendContracts t = openSendContracts s"
      "s_settings t = s_settings s" "s_nextPtr s \<le> s_nextPtr t" "s_destination t = s_destination s"
      "s_intermediaryIds t = s_intermediaryIds s"
  shows "send_contracts_ok env B extra t"
proof (rule send_contracts_okI)
  show "finite B" "distinct (map fst (openSendContracts t))" using ok same by (simp_all add: send_contracts_ok_def)
  have ch: "charged t B i = charged s B i" for i by (rule charged_cong [OF items same(4)])
  fix i c assume "(i, c) \<in> set (openSendContracts t)"
  then have "(i, c) \<in> set (openSendContracts s)" using same by simp
  then show "contractId (sendContracts t c) = i \<and> contract_ok (sendContracts t c) \<and>
      minUpdateByteCount (sendContracts t c) = ss_MinMessageByteCount (s_settings t) \<and> c < s_nextPtr t"
    "charged t B i + (if sendContract t = Some c then extra else 0) \<le> unackedByteCount (sendContracts t c)"
    using ok same unfolding send_contracts_ok_def ch by fastforce+
next
  show "(contractId (sendContracts t c), c) \<in> set (openSendContracts t)" if "sendContract t = Some c" for c
    using that ok same by (simp add: send_contracts_ok_def)
  show "case si_contractId (send_item t p) of None \<Rightarrow> True | Some i \<Rightarrow> i \<in> fst ` set (openSendContracts t)" if "p \<in> B" for p
    using that ok same items [OF that] by (auto simp: send_contracts_ok_def split: option.splits)
  show "sendContract t = None" if "s_noContract env t"
    using that ok same s_noContract_cong [of t s env] by (simp add: send_contracts_ok_def)
qed

lemma compareResendTime_ok [simp]: "cmp_ok compareResendTime"
  by (auto simp: cmp_ok_def compareResendTime_def strip_def)

lemma items_ok_remove:
  assumes ok: "items_ok env F ps A s" and p: "p \<in> A"
  obtains q where "RemoveByMessageId (resendQueue s) (messageId (send_item s p)) = Some (q, Some p)"
    "items_ok env F ps (A - {p}) (s\<lparr>resendQueue := q\<rparr>)" "contents q = contents (resendQueue s)" "removed (resendQueue s) p q"
proof -
  have inv: "tq_inv (resendQueue s)" and A: "tq_items (resendQueue s) = A" using ok by (simp_all add: items_ok_def)
  then have "messageIdItems (resendQueue s) (messageId (send_item s p)) = Some p"
    using p tq_inv_message by blast
  then obtain q where q: "RemoveByMessageId (resendQueue s) (messageId (send_item s p)) = Some (q, Some p)" "removed (resendQueue s) p q"
    using RemoveByMessageId_Some [OF inv] by blast
  then have c: "contents q = contents (resendQueue s)" by (simp add: removed_def)
  have "items_ok env F ps (A - {p}) (s\<lparr>resendQueue := q\<rparr>)"
    using ok q(2) A unfolding items_ok_def by (auto simp: removed_def item_ok_contents [OF c] contents_item [OF c])
  then show ?thesis using that q c by blast
qed

lemma items_ok_tl:
  assumes "items_ok env F (p # ps) A s" "A \<subseteq> set ps"
  shows "items_ok env F ps A s"
proof -
  have ps: "p # ps = map fst (drop (length F - length (p # ps)) F)" "length (p # ps) \<le> length F"
    using assms(1) by (simp_all add: items_ok_def)
  from ps(2) have n: "Suc (length F - length (p # ps)) = length F - length ps" by simp
  have "ps = map fst (drop (length F - length ps) F)"
    using arg_cong [OF ps(1), of tl] unfolding n [symmetric] by (simp add: tl_drop map_tl [symmetric] drop_Suc)
  moreover have "item_ok env F (length F - length ps + i) (ps ! i) (send_item s (ps ! i))" if "i < length ps" for i
  proof -
    have "item_ok env F (length F - length (p # ps) + Suc i) ((p # ps) ! Suc i) (send_item s ((p # ps) ! Suc i))"
      using assms(1) that unfolding items_ok_def by (metis Suc_less_eq length_Cons)
    then show ?thesis unfolding nth_Cons_Suc add_Suc_right add_Suc [symmetric] n .
  qed
  moreover have "\<not> si_head (send_item s (ps ! i))" if "i < length ps" for i
    using assms(1) that unfolding items_ok_def by (metis Suc_less_eq length_Cons nat.distinct(1) nth_Cons_Suc)
  ultimately show ?thesis using assms by (auto simp: items_ok_def)
qed

lemma items_ok_distinct: "items_ok env F ps A s \<Longrightarrow> distinct ps"
  unfolding items_ok_def by (metis distinct_drop drop_map)

lemma written_ok_mono: "written_ok env F n b \<Longrightarrow> n \<le> m \<Longrightarrow> written_ok env F m b"
  unfolding written_ok_def by (meson order_trans)

section \<open>Receiving acks\<close>

definition answers :: "SendSequence \<Rightarrow> ptr list \<Rightarrow> send_error option \<Rightarrow> (nat \<times> send_error option) list" where
  "answers s ps e = concat (map (\<lambda>p. answer (si_ackCallback (send_item s p)) e) ps)"

lemma answers_cong:
  "contents (resendQueue t) = contents (resendQueue s) \<Longrightarrow> answers t ps e = answers s ps e"
  unfolding answers_def using contents_item(10) [of "resendQueue t" "resendQueue s"] by presburger

text \<open>What handling acks does not change.\<close>

definition same_ack :: "SendSequence \<Rightarrow> SendSequence \<Rightarrow> bool" where
  "same_ack s t \<longleftrightarrow> s_settings t = s_settings s \<and> s_nextSequenceNumber t = s_nextSequenceNumber s \<and>
     s_nextPtr t = s_nextPtr s \<and> s_packs t = s_packs s \<and> s_ackWindow t = s_ackWindow s \<and>
     writes (s_log t) = writes (s_log s)"

lemma same_ack_trans: "same_ack s t \<Longrightarrow> same_ack t u \<Longrightarrow> same_ack s u"
  by (simp add: same_ack_def)

lemma ackPrefix_ok:
  assumes "ss_core env F ps (set ps) 0 s"
  shows "\<exists>t k. ackPrefix n ps s = Some t \<and> k \<le> length ps \<and> sendItems t = drop k ps \<and>
    ss_core env F (drop k ps) (set (drop k ps)) 0 t \<and>
    (\<forall>i<k. sequenceNumber (send_item s (ps ! i)) \<le> n) \<and>
    (k < length ps \<longrightarrow> n < sequenceNumber (send_item s (ps ! k))) \<and>
    outcomes (s_log t) = outcomes (s_log s) @ answers s (take k ps) None \<and>
    contents (resendQueue t) = contents (resendQueue s) \<and> s_settings t = s_settings s \<and>
    s_nextSequenceNumber t = s_nextSequenceNumber s \<and> s_nextPtr t = s_nextPtr s \<and> s_packs t = s_packs s \<and>
    s_ackWindow t = s_ackWindow s \<and> writes (s_log t) = writes (s_log s)"
  using assms
proof (induction ps arbitrary: s)
  case Nil
  then show ?case by (auto simp: answers_def)
next
  case (Cons p ps)
  show ?case
  proof (cases "n < sequenceNumber (send_item s p)")
    case True
    then show ?thesis using Cons.prems by (auto simp: answers_def intro!: exI [of _ 0])
  next
    case False
    have items: "items_ok env F (p # ps) (set (p # ps)) s" and st: "send_settings_ok (s_settings s)"
      and con: "send_contracts_ok env (insert p (set ps)) 0 s" using Cons.prems by (simp_all add: ss_core_def)
    have p: "p \<notin> set ps" using items_ok_distinct [OF items] by simp
    obtain q where q: "RemoveByMessageId (resendQueue s) (messageId (send_item s p)) = Some (q, Some p)"
        "items_ok env F (p # ps) (set (p # ps) - {p}) (s\<lparr>resendQueue := q\<rparr>)" "contents q = contents (resendQueue s)"
      using items_ok_remove [OF items, of p] by auto
    note ci = contents_item [OF q(3)]
    define u where "u = s\<lparr>resendQueue := q\<rparr>"
    have "items_ok env F (p # ps) (set ps) u" using q(2) p by (simp add: u_def)
    then have iu: "items_ok env F ps (set ps) u" by (rule items_ok_tl) simp
    have cu: "send_contracts_ok env (insert p (set ps)) 0 u"
      by (rule contracts_cong [OF con]) (simp_all add: u_def ci)
    have "item_ok env F (length F - length (p # ps) + 0) ((p # ps) ! 0) (send_item s ((p # ps) ! 0))"
      using items unfolding items_ok_def by blast
    then have "messageByteCount (send_item u p) \<le> maxMessageByteCount"
      by (simp add: item_ok_def u_def ci)
    then obtain v where v: "ackItem p u = Some v" "send_contracts_ok env (set ps) 0 v" "same_stream u v"
        "outcomes (s_log v) = outcomes (s_log u) @ answer (si_ackCallback (send_item u p)) None"
      using ackItem_ok [OF cu p] st by (auto simp: u_def)
    have w: "\<forall>b\<in>set (writes (s_log u)). written_ok env F (length F - length ps) b"
      using Cons.prems unfolding ss_core_def by (auto simp: u_def intro: written_ok_mono)
    have "ss_core env F ps (set ps) 0 v"
    proof -
      note f = v(3) [unfolded same_stream_def]
      have "items_ok env F ps (set ps) v" using f iu unfolding items_ok_def by auto
      moreover have "rtt_part v" using f Cons.prems by (simp add: ss_core_def rtt_part_def u_def)
      ultimately show ?thesis using f v(2) w st Cons.prems unfolding ss_core_def by (simp add: u_def)
    qed
    then obtain t k where t: "ackPrefix n ps v = Some t" "k \<le> length ps" "sendItems t = drop k ps"
        "ss_core env F (drop k ps) (set (drop k ps)) 0 t"
        "\<forall>i<k. sequenceNumber (send_item v (ps ! i)) \<le> n"
        "k < length ps \<longrightarrow> n < sequenceNumber (send_item v (ps ! k))"
        "outcomes (s_log t) = outcomes (s_log v) @ answers v (take k ps) None"
        "contents (resendQueue t) = contents (resendQueue v)" "s_settings t = s_settings v"
        "s_nextSequenceNumber t = s_nextSequenceNumber v" "s_nextPtr t = s_nextPtr v" "s_packs t = s_packs v"
        "s_ackWindow t = s_ackWindow v" "writes (s_log t) = writes (s_log v)"
      using Cons.IH by blast
    note f = v(3) [unfolded same_stream_def u_def, simplified]
    have cv: "contents (resendQueue v) = contents (resendQueue s)" using f q(3) by simp
    note cvi = contents_item [OF cv]
    have run: "ackPrefix n (p # ps) s = Some t"
      using False q(1) v(1) t(1) by (simp add: u_def)
    have out: "outcomes (s_log t) = outcomes (s_log s) @ answers s (take (Suc k) (p # ps)) None"
      using t(7) v(4) answers_cong [OF cv] by (simp add: answers_def u_def ci)
    have seqs: "\<forall>i<Suc k. sequenceNumber (send_item s ((p # ps) ! i)) \<le> n"
      using t(5) False by (auto simp: cvi nth_Cons split: nat.splits)
    have sk: "k < length ps \<longrightarrow> n < sequenceNumber (send_item s (ps ! k))" using t(6) by (simp only: cvi)
    show ?thesis
      using run out seqs sk t(2-4,8-14) f cv by (intro exI [of _ t] exI [of _ "Suc k"]) (simp add: cvi)
  qed
qed

section \<open>Moving an item out of the queue and back\<close>

lemma items_ok_nth: "items_ok env F ps A s \<Longrightarrow> i < length ps \<Longrightarrow>
    item_ok env F (length F - length ps + i) (ps ! i) (send_item s (ps ! i))"
  unfolding items_ok_def by blast

lemma core_remove:
  assumes ok: "ss_core env F ps A extra s" and p: "p \<in> A"
  obtains q where "RemoveByMessageId (resendQueue s) (messageId (send_item s p)) = Some (q, Some p)"
    "ss_core env F ps (A - {p}) extra (s\<lparr>resendQueue := q\<rparr>)" "contents q = contents (resendQueue s)" "removed (resendQueue s) p q"
proof -
  have items: "items_ok env F ps A s" using ok by (simp add: ss_core_def)
  obtain q where q: "RemoveByMessageId (resendQueue s) (messageId (send_item s p)) = Some (q, Some p)"
      "items_ok env F ps (A - {p}) (s\<lparr>resendQueue := q\<rparr>)" "contents q = contents (resendQueue s)" "removed (resendQueue s) p q"
    using items_ok_remove [OF items p] by blast
  have "send_contracts_ok env (set ps) extra (s\<lparr>resendQueue := q\<rparr>)"
    using ok unfolding ss_core_def by (elim conjE) (rule contracts_cong, assumption, simp_all add: contents_item [OF q(3)])
  then have "ss_core env F ps (A - {p}) extra (s\<lparr>resendQueue := q\<rparr>)"
    using ok q(2) unfolding ss_core_def by (simp add: rtt_part_def)
  then show ?thesis using that q by blast
qed

lemma setSendItem_fields [simp]:
  "send_item (setSendItem s p x) p' = (if p' = p then x else send_item s p')" "sendItems (setSendItem s p x) = sendItems s"
  "s_settings (setSendItem s p x) = s_settings s" "s_log (setSendItem s p x) = s_log s"
  "s_nextSequenceNumber (setSendItem s p x) = s_nextSequenceNumber s" "s_nextPtr (setSendItem s p x) = s_nextPtr s"
  "s_packs (setSendItem s p x) = s_packs s" "s_ackWindow (setSendItem s p x) = s_ackWindow s"
  "rttWindow (setSendItem s p x) = rttWindow s" "sendContracts (setSendItem s p x) = sendContracts s"
  "sendContract (setSendItem s p x) = sendContract s" "openSendContracts (setSendItem s p x) = openSendContracts s"
  "s_destination (setSendItem s p x) = s_destination s" "s_intermediaryIds (setSendItem s p x) = s_intermediaryIds s"
  "tq_items (resendQueue (setSendItem s p x)) = tq_items (resendQueue s)" "cmp (resendQueue (setSendItem s p x)) = cmp (resendQueue s)"
  "orderedItems (resendQueue (setSendItem s p x)) = orderedItems (resendQueue s)"
  "sendContractAcked (setSendItem s p x) = sendContractAcked s" "contractMultiRouteWriter (setSendItem s p x) = contractMultiRouteWriter s"
  by (simp_all add: setSendItem_def)

lemma core_setSendItem:
  assumes ok: "ss_core env F ps A extra s" and p: "p \<notin> A"
    and x: "si_contractId x = si_contractId (send_item s p)" "messageByteCount x = messageByteCount (send_item s p)"
      "\<And>n. item_ok env F n p (send_item s p) \<Longrightarrow> item_ok env F n p x"
      "si_head x \<Longrightarrow> si_head (send_item s p) \<or> (\<exists>qs. ps = p # qs)"
  shows "ss_core env F ps A extra (setSendItem s p x)"
proof -
  have "tq_inv (resendQueue (setSendItem s p x))"
    using ok p tq_inv_alloc [of "resendQueue s" p x] unfolding setSendItem_def by (simp add: ss_core_def items_ok_def)
  moreover have items: "items_ok env F ps A s" using ok by (simp add: ss_core_def)
  moreover have "i = 0" if "i < length ps" "si_head (send_item (setSendItem s p x) (ps ! i))" for i
  proof (cases "ps ! i = p")
    case True
    then have "si_head x" using that(2) by simp
    then consider "si_head (send_item s p)" | qs where "ps = p # qs" using x(4) by blast
    then show ?thesis
    proof cases
      case 1
      then show ?thesis using that(1) True items unfolding items_ok_def by blast
    next
      case 2
      then have "ps ! 0 = ps ! i" using True by simp
      then show ?thesis using that(1) 2 items_ok_distinct [OF items] by (metis length_greater_0_conv list.distinct(1) nth_eq_iff_index_eq)
    qed
  next
    case False
    then show ?thesis using that items unfolding items_ok_def by (metis setSendItem_fields(1))
  qed
  ultimately have "items_ok env F ps A (setSendItem s p x)"
    using x(3) unfolding items_ok_def by auto
  moreover have "send_contracts_ok env (set ps) extra (setSendItem s p x)"
    using ok x(1,2) unfolding ss_core_def by (elim conjE) (rule contracts_cong, assumption, simp_all)
  ultimately show ?thesis using ok unfolding ss_core_def by (simp add: rtt_part_def)
qed

lemma items_ok_below:
  assumes "items_ok env F ps A s" "p \<in> set ps"
  shows "p \<in> {..<idCount}"
proof -
  have "set ps \<subseteq> set (map fst F)" using assms(1) unfolding items_ok_def by (metis drop_map set_drop_subset)
  moreover have "set (map fst F) \<subseteq> {..<idCount}" using assms(1) unfolding items_ok_def by blast
  ultimately show ?thesis using assms(2) by blast
qed

lemma core_Add:
  assumes ok: "ss_core env F ps A extra s" and env: "send_env_ok env" and p: "p \<in> set ps" "p \<notin> A"
  shows "ss_core env F ps (insert p A) extra (s\<lparr>resendQueue := Add (resendQueue s) p\<rparr>) \<and>
    contents (Add (resendQueue s) p) = contents (resendQueue s)"
proof -
  let ?q = "resendQueue s"
  have items: "items_ok env F ps A s" using ok by (simp add: ss_core_def)
  then have inv: "tq_inv ?q" "tq_items ?q = A" "A \<subseteq> set ps" "length F < 2 ^ 64" by (simp_all add: items_ok_def)
  note dist = items_ok_distinct [OF items]
  obtain i where i: "i < length ps" "ps ! i = p" using p by (auto simp: in_set_conv_nth)
  have new: "messageId (mem ?q p') \<noteq> messageId (mem ?q p) \<and> sequenceNumber (mem ?q p') \<noteq> sequenceNumber (mem ?q p)"
    if q: "p' \<in> A" for p'
  proof -
    obtain j where j: "j < length ps" "ps ! j = p'" using subsetD [OF inv(3) q] by (auto simp: in_set_conv_nth)
    have "p' \<noteq> p" using q p by blast
    then have "i \<noteq> j" using i j by blast
    let ?n = "length F - length ps"
    have len: "length ps \<le> length F" using items by (simp add: items_ok_def)
    have "item_ok env F (?n + i) p (send_item s p)" "item_ok env F (?n + j) p' (send_item s p')"
      using items_ok_nth [OF items i(1)] items_ok_nth [OF items j(1)] i j by simp_all
    then have "messageId (mem ?q p) = newId env p" "messageId (mem ?q p') = newId env p'"
      "sequenceNumber (mem ?q p) = of_nat (?n + i)" "sequenceNumber (mem ?q p') = of_nat (?n + j)"
      by (simp_all add: item_ok_def)
    moreover have "newId env p' \<noteq> newId env p"
    proof -
      have inj: "inj_on (newId env) {..<idCount}" using env by (simp add: send_env_ok_def)
      show ?thesis
        using \<open>p' \<noteq> p\<close> inj_on_eq_iff [OF inj items_ok_below [OF items subsetD [OF inv(3) q]] items_ok_below [OF items p(1)]]
        by simp
    qed
    moreover have "of_nat (?n + j) \<noteq> (of_nat (?n + i) :: u64)"
    proof -
      have "?n + j < 2 ^ 64" "?n + i < 2 ^ 64" using inv(4) i j len by linarith+
      then show ?thesis using \<open>i \<noteq> j\<close> u64_of_nat_eq [of "?n + j" "?n + i"] by simp
    qed
    ultimately show ?thesis by simp
  qed
  have "messageIdItems ?q (messageId (mem ?q p)) = None" "sequenceNumberItems ?q (sequenceNumber (mem ?q p)) = None"
    using new inv(2) tq_inv_message [OF inv(1), of "messageId (mem ?q p)"] tq_inv_sequence [OF inv(1), of "sequenceNumber (mem ?q p)"]
    by (metis not_Some_eq)+
  then have a: "tq_inv (Add ?q p)" "tq_items (Add ?q p) = insert p A" "contents (Add ?q p) = contents ?q" "cmp (Add ?q p) = cmp ?q"
    using Add_correct [OF inv(1), of p] p inv(2) by auto
  have "items_ok env F ps (insert p A) (s\<lparr>resendQueue := Add ?q p\<rparr>)"
    using items a p unfolding items_ok_def by (auto simp: item_ok_contents [OF a(3)] contents_item [OF a(3)])
  moreover have "send_contracts_ok env (set ps) extra (s\<lparr>resendQueue := Add ?q p\<rparr>)"
    using ok unfolding ss_core_def by (elim conjE) (rule contracts_cong, assumption, simp_all add: contents_item [OF a(3)])
  ultimately show ?thesis using ok a(3) unfolding ss_core_def by (simp add: rtt_part_def)
qed

lemma core_rtt:
  assumes "ss_core env F ps A extra s" "rw_view w l x" "minScaledRtt w = minScaledRtt (rttWindow s)"
    "maxScaledRtt w = maxScaledRtt (rttWindow s)"
  shows "ss_core env F ps A extra (s\<lparr>rttWindow := w\<rparr>)"
proof -
  have "send_contracts_ok env (set ps) extra (s\<lparr>rttWindow := w\<rparr>)"
    using assms(1) unfolding ss_core_def by (elim conjE) (rule contracts_cong, assumption, simp_all)
  then show ?thesis using assms unfolding ss_core_def items_ok_def rtt_part_def by auto
qed

lemma items_ok_update [simp]:
  "items_ok env F ps A (s\<lparr>s_ackWindow := w\<rparr>) = items_ok env F ps A s"
  "items_ok env F ps A (s\<lparr>rttWindow := r\<rparr>) = items_ok env F ps A s"
  "items_ok env F ps A (s\<lparr>sendContracts := cs\<rparr>) = items_ok env F ps A s"
  by (simp_all add: items_ok_def)

section \<open>What a handler of acks does\<close>

text \<open>
  A prefix of the pending items is acked: their callbacks are answered, in order; nothing is written. The
  fields of the items that identify them stay.
\<close>

definition same_ids :: "SendSequence \<Rightarrow> SendSequence \<Rightarrow> bool" where
  "same_ids s t \<longleftrightarrow> (\<forall>p. messageId (send_item t p) = messageId (send_item s p) \<and>
     sequenceNumber (send_item t p) = sequenceNumber (send_item s p) \<and>
     si_ackCallback (send_item t p) = si_ackCallback (send_item s p))"

definition acks_step :: "SendSequence \<Rightarrow> SendSequence \<Rightarrow> bool" where
  "acks_step s t \<longleftrightarrow> same_ids s t \<and> s_settings t = s_settings s \<and> s_nextSequenceNumber t = s_nextSequenceNumber s \<and>
     s_nextPtr t = s_nextPtr s \<and> s_packs t = s_packs s \<and> writes (s_log t) = writes (s_log s) \<and>
     (\<exists>k\<le>length (sendItems s). sendItems t = drop k (sendItems s) \<and>
        outcomes (s_log t) = outcomes (s_log s) @ answers s (take k (sendItems s)) None)"

lemma same_ids_refl [simp]: "same_ids s s"
  by (simp add: same_ids_def)

lemma same_ids_trans: "same_ids s t \<Longrightarrow> same_ids t u \<Longrightarrow> same_ids s u"
  by (simp add: same_ids_def)

lemma same_ids_contents: "contents (resendQueue t) = contents (resendQueue s) \<Longrightarrow> same_ids s t"
  using contents_item [of "resendQueue t" "resendQueue s"] unfolding same_ids_def by blast

lemma answers_same_ids: "same_ids s t \<Longrightarrow> answers t ps e = answers s ps e"
  by (simp add: answers_def same_ids_def)

lemma answers_append [simp]: "answers s (ps @ qs) e = answers s ps e @ answers s qs e"
  by (simp add: answers_def)

lemma answers_Nil [simp]: "answers s [] e = []"
  by (simp add: answers_def)

lemma acks_step_refl [simp]: "acks_step s s"
  by (auto simp: acks_step_def)

lemma acks_step_trans:
  assumes "acks_step s t" "acks_step t u"
  shows "acks_step s u"
proof -
  obtain k where k: "k \<le> length (sendItems s)" "sendItems t = drop k (sendItems s)"
      "outcomes (s_log t) = outcomes (s_log s) @ answers s (take k (sendItems s)) None"
    using assms(1) by (auto simp: acks_step_def)
  obtain j where j: "j \<le> length (sendItems t)" "sendItems u = drop j (sendItems t)"
      "outcomes (s_log u) = outcomes (s_log t) @ answers t (take j (sendItems t)) None"
    using assms(2) by (auto simp: acks_step_def)
  have "outcomes (s_log u) = outcomes (s_log s) @ answers s (take (k + j) (sendItems s)) None"
    using k(2,3) j(3) assms(1) answers_same_ids [of s t] by (simp add: acks_step_def take_add)
  moreover have "sendItems u = drop (k + j) (sendItems s)" "k + j \<le> length (sendItems s)"
    using k j by (simp_all add: add.commute)
  ultimately show ?thesis
    using assms unfolding acks_step_def by (auto intro: same_ids_trans)
qed

lemma closeTagOf_ok:
  assumes "ss_core env F ps A extra s"
  shows "\<exists>w. closeTagOf now tg s = Some (s\<lparr>rttWindow := w\<rparr>) \<and> ss_core env F ps A extra (s\<lparr>rttWindow := w\<rparr>)"
proof (cases tg)
  case None
  then show ?thesis using assms by (intro exI [of _ "rttWindow s"]) (simp add: closeTagOf_def)
next
  case (Some t)
  obtain l x where v: "rw_view (rttWindow s) l x" using assms by (auto simp: ss_core_def rtt_part_def)
  obtain w l' x' where w: "closeTag t now (rttWindow s) = Some w" "rw_view w l' x'" "rw_frame (rttWindow s) w"
    using rw_close_total [OF v] by blast
  then show ?thesis
    using Some core_rtt [OF assms w(2)] by (intro exI [of _ w]) (simp add: closeTagOf_def rw_frame_def)
qed

lemma selectiveAck_ok:
  assumes ok: "ss_inv env F s" and env: "send_env_ok env" and p: "p \<in> set (sendItems s)"
  shows "\<exists>t. selectiveAck now p s = Some t \<and> ss_inv env F t \<and> acks_step s t \<and> s_ackWindow t = s_ackWindow s \<and>
    sendItems t = sendItems s \<and> (\<forall>q. si_resendTime (send_item t q) =
      (if q = p then now + ss_SelectiveAckTimeout (s_settings s) else si_resendTime (send_item s q)))"
proof -
  let ?ps = "sendItems s"
  have core: "ss_core env F ?ps (set ?ps) 0 s" using ok by (simp add: ss_inv_def)
  obtain q where q: "RemoveByMessageId (resendQueue s) (messageId (send_item s p)) = Some (q, Some p)"
      "ss_core env F ?ps (set ?ps - {p}) 0 (s\<lparr>resendQueue := q\<rparr>)" "contents q = contents (resendQueue s)"
    using core_remove [OF core p] by blast
  define u where "u = s\<lparr>resendQueue := q\<rparr>"
  define x where "x = (send_item u p)\<lparr>si_resendTime := now + ss_SelectiveAckTimeout (s_settings s)\<rparr>"
  have cu: "ss_core env F ?ps (set ?ps - {p}) 0 (setSendItem u p x)"
    by (rule core_setSendItem) (use q(2) in \<open>simp_all add: u_def x_def item_ok_def\<close>)
  define t where "t = (setSendItem u p x)\<lparr>resendQueue := Add (resendQueue (setSendItem u p x)) p\<rparr>"
  have t: "ss_core env F ?ps (insert p (set ?ps - {p})) 0 t" "contents (resendQueue t) = contents (resendQueue (setSendItem u p x))"
    using core_Add [OF cu env p] by (simp_all add: t_def)
  have "same_ids s u" using same_ids_contents q(3) by (simp add: u_def)
  moreover have "same_ids u (setSendItem u p x)" by (simp add: same_ids_def x_def)
  ultimately have ids: "same_ids s t" using same_ids_contents [OF t(2)] same_ids_trans by blast
  have "selectiveAck now p s = Some t"
    using q(1) by (simp add: selectiveAck_def t_def u_def x_def Let_def)
  moreover have "sendItems t = ?ps" by (simp add: t_def u_def)
  moreover have "ss_inv env F t" using t(1) p by (simp add: ss_inv_def t_def u_def insert_absorb)
  moreover have "acks_step s t" using ids by (auto simp: acks_step_def t_def u_def)
  moreover have "s_ackWindow t = s_ackWindow s" by (simp add: t_def u_def)
  moreover have "si_resendTime (send_item t q') =
      (if q' = p then now + ss_SelectiveAckTimeout (s_settings s) else si_resendTime (send_item s q'))" for q'
    unfolding contents_item [OF t(2)] by (simp add: x_def u_def contents_item [OF q(3)])
  ultimately show ?thesis by blast
qed

lemma receiveAck_ok:
  assumes ok: "ss_inv env F s" and env: "send_env_ok env"
  shows "\<exists>t. receiveAck now m selective tg s = Some t \<and> ss_inv env F t \<and> acks_step s t \<and> s_ackWindow t = s_ackWindow s"
proof (cases "GetByMessageId (resendQueue s) m")
  case None
  then show ?thesis using ok by (simp add: receiveAck_def)
next
  case (Some p)
  have core: "ss_core env F (sendItems s) (set (sendItems s)) 0 s" using ok by (simp add: ss_inv_def)
  then have inv: "tq_inv (resendQueue s)" "tq_items (resendQueue s) = set (sendItems s)"
    by (simp_all add: ss_core_def items_ok_def)
  then have p: "p \<in> set (sendItems s)" using Some tq_inv_message [OF inv(1), of m p] by (simp add: GetByMessageId_def)
  obtain w where w: "closeTagOf now tg s = Some (s\<lparr>rttWindow := w\<rparr>)"
      "ss_core env F (sendItems s) (set (sendItems s)) 0 (s\<lparr>rttWindow := w\<rparr>)"
    using closeTagOf_ok [OF core] by blast
  define u where "u = s\<lparr>rttWindow := w\<rparr>"
  have u: "ss_inv env F u" "acks_step s u" "s_ackWindow u = s_ackWindow s" "sendItems u = sendItems s"
    using w(2) by (auto simp: u_def ss_inv_def acks_step_def same_ids_def)
  show ?thesis
  proof (cases selective)
    case True
    obtain t where "selectiveAck now p u = Some t" "ss_inv env F t" "acks_step u t" "s_ackWindow t = s_ackWindow u"
      using selectiveAck_ok [OF u(1) env, of p now] p u(4) by auto
    then show ?thesis
      using True Some w(1) u acks_step_trans [OF u(2)] by (simp add: receiveAck_def u_def)
  next
    case False
    let ?n = "sequenceNumber (send_item u p)"
    obtain t k where t: "ackPrefix ?n (sendItems u) u = Some t" "k \<le> length (sendItems u)" "sendItems t = drop k (sendItems u)"
        "ss_core env F (drop k (sendItems u)) (set (drop k (sendItems u))) 0 t"
        "outcomes (s_log t) = outcomes (s_log u) @ answers u (take k (sendItems u)) None"
        "contents (resendQueue t) = contents (resendQueue u)" "s_settings t = s_settings u"
        "s_nextSequenceNumber t = s_nextSequenceNumber u" "s_nextPtr t = s_nextPtr u" "s_packs t = s_packs u"
        "s_ackWindow t = s_ackWindow u" "writes (s_log t) = writes (s_log u)"
      using ackPrefix_ok [of env F "sendItems u" u ?n] u(1) unfolding ss_inv_def by blast
    have "acks_step u t" unfolding acks_step_def using t same_ids_contents by blast
    then show ?thesis
      using False Some w(1) u t acks_step_trans [OF u(2)] by (auto simp: receiveAck_def u_def ss_inv_def)
  qed
qed

lemma receiveAcks_ok:
  assumes "ss_inv env F s" "send_env_ok env"
  shows "\<exists>t. receiveAcks now mas s = Some t \<and> ss_inv env F t \<and> acks_step s t \<and> s_ackWindow t = s_ackWindow s"
  using assms(1)
proof (induction mas arbitrary: s)
  case (Cons ma mas)
  obtain u where u: "receiveAck now (fst ma) True (a_tag (snd ma)) s = Some u" "ss_inv env F u" "acks_step s u" "s_ackWindow u = s_ackWindow s"
    using receiveAck_ok [OF Cons.prems assms(2)] by blast
  then show ?case using Cons.IH [OF u(2)] acks_step_trans [OF u(3)] by auto
qed simp

lemma core_ackWindow:
  "ss_core env F ps A extra s \<Longrightarrow> ackWindow_ok w \<Longrightarrow> ss_core env F ps A extra (s\<lparr>s_ackWindow := w\<rparr>)"
proof -
  assume ok: "ss_core env F ps A extra s" "ackWindow_ok w"
  have "send_contracts_ok env (set ps) extra (s\<lparr>s_ackWindow := w\<rparr>)"
    using ok(1) unfolding ss_core_def by (elim conjE) (rule contracts_cong, assumption, simp_all)
  then show ?thesis using ok unfolding ss_core_def rtt_part_def by simp
qed

lemma applyAcks_ok:
  assumes ok: "ss_inv env F s" and env: "send_env_ok env"
  shows "\<exists>t. applyAcks now s = Some t \<and> ss_inv env F t \<and> acks_step s t"
proof -
  have "ackWindow_ok (s_ackWindow s)" using ok by (simp add: ss_inv_def ss_core_def)
  from Snapshot_Some [OF this, of True] obtain w sn where
    sn: "ackWindow_Snapshot (s_ackWindow s) True = Some (w, sn)" "ackWindow_ok w" "s_headAck sn = headAck (s_ackWindow s)"
      "s_ackUpdateCount sn = ackUpdateCount (s_ackWindow s)" by blast
  let ?u = "s\<lparr>s_ackWindow := w\<rparr>"
  have u: "ss_inv env F ?u" "acks_step s ?u"
    using ok core_ackWindow [OF _ sn(2)] by (auto simp: ss_inv_def acks_step_def same_ids_def)
  obtain v where v: "(if 0 < s_ackUpdateCount sn then do {
               h \<leftarrow> s_headAck sn;
               receiveAck now (a_messageId h) False (a_tag h) ?u
             } else Some ?u) = Some v" "ss_inv env F v" "acks_step ?u v"
  proof (cases "0 < s_ackUpdateCount sn")
    case True
    then obtain h where "s_headAck sn = Some h"
      using sn(3,4) ok by (cases "s_headAck sn") (auto simp: ss_inv_def ss_core_def ackWindow_ok_def)
    then show ?thesis using that True receiveAck_ok [OF u(1) env, of now "a_messageId h" False "a_tag h"] by auto
  next
    case False
    then show ?thesis using that [of ?u] u(1) by simp
  qed
  obtain t where t: "receiveAcks now (s_selectiveAcks sn) v = Some t" "ss_inv env F t" "acks_step v t"
    using receiveAcks_ok [OF v(2) env] by blast
  have "applyAcks now s = Some t" using sn(1) v(1) t(1) by (simp add: applyAcks_def)
  then show ?thesis using t acks_step_trans [OF u(2) acks_step_trans [OF v(3) t(3)]] by blast
qed

lemma ackArrives_ok:
  assumes "ss_inv env F s"
  shows "ss_inv env F (ackArrives a s) \<and> acks_step s (ackArrives a s) \<and> sendItems (ackArrives a s) = sendItems s"
proof -
  have w: "ackWindow_ok (s_ackWindow s)" using assms by (simp add: ss_inv_def ss_core_def)
  have "ss_inv env F (s\<lparr>s_ackWindow := ackWindow_Update (s_ackWindow s) b\<rparr>)" for b
    using assms core_ackWindow ackWindow_ok_Update [OF w] by (simp add: ss_inv_def)
  then show ?thesis
    using assms by (auto simp: ackArrives_def acks_step_def same_ids_def split: sum.splits option.splits)
qed

section \<open>Writing and resending\<close>

lemma openWriter_same:
  assumes "openContractMultiRouteWriter s = (t, d)"
  shows "same_send s t \<and> outcomes (s_log t) = outcomes (s_log s) \<and> s_idleCondition t = s_idleCondition s"
  using assms by (auto simp: openContractMultiRouteWriter_def Let_def same_send_def semit_def split: if_splits option.splits)

lemma writeItem_fields:
  "send_item (writeItem ok p s) = send_item s" "sendItems (writeItem ok p s) = sendItems s"
  "s_settings (writeItem ok p s) = s_settings s" "s_nextSequenceNumber (writeItem ok p s) = s_nextSequenceNumber s"
  "s_nextPtr (writeItem ok p s) = s_nextPtr s" "s_packs (writeItem ok p s) = s_packs s"
  "s_ackWindow (writeItem ok p s) = s_ackWindow s" "rttWindow (writeItem ok p s) = rttWindow s"
  "resendQueue (writeItem ok p s) = resendQueue s" "sendContracts (writeItem ok p s) = sendContracts s"
  "sendContract (writeItem ok p s) = sendContract s" "openSendContracts (writeItem ok p s) = openSendContracts s"
  "s_destination (writeItem ok p s) = s_destination s" "s_intermediaryIds (writeItem ok p s) = s_intermediaryIds s"
  "outcomes (s_log (writeItem ok p s)) = outcomes (s_log s)"
  "writes (s_log (writeItem ok p s)) = writes (s_log s) @ [si_transferFrameBytes (send_item s p)]"
proof -
  obtain t d where t: "openContractMultiRouteWriter s = (t, d)" by force
  note f = openWriter_same [OF t, unfolded same_send_def]
  show "send_item (writeItem ok p s) = send_item s" "sendItems (writeItem ok p s) = sendItems s"
    "s_settings (writeItem ok p s) = s_settings s" "s_nextSequenceNumber (writeItem ok p s) = s_nextSequenceNumber s"
    "s_nextPtr (writeItem ok p s) = s_nextPtr s" "s_packs (writeItem ok p s) = s_packs s"
    "s_ackWindow (writeItem ok p s) = s_ackWindow s" "rttWindow (writeItem ok p s) = rttWindow s"
    "resendQueue (writeItem ok p s) = resendQueue s" "sendContracts (writeItem ok p s) = sendContracts s"
    "sendContract (writeItem ok p s) = sendContract s" "openSendContracts (writeItem ok p s) = openSendContracts s"
    "s_destination (writeItem ok p s) = s_destination s" "s_intermediaryIds (writeItem ok p s) = s_intermediaryIds s"
    "outcomes (s_log (writeItem ok p s)) = outcomes (s_log s)"
    "writes (s_log (writeItem ok p s)) = writes (s_log s) @ [si_transferFrameBytes (send_item s p)]"
    using f by (simp_all add: writeItem_def t semit_def)
qed

lemma core_writeItem:
  assumes core: "ss_core env F ps A extra s" and w: "written_ok env F (length F - length ps) (si_transferFrameBytes (send_item s p))"
  shows "ss_core env F ps A extra (writeItem ok p s)"
proof -
  let ?t = "writeItem ok p s"
  have "ss_core env F ps A extra (?t\<lparr>s_log := s_log s\<rparr>)"
    using core by (subst core_cong [of _ s]) (simp_all add: writeItem_fields)
  moreover have "send_contracts_ok env (set ps) extra ?t"
    using core unfolding ss_core_def by (elim conjE) (rule contracts_cong, assumption, simp_all add: writeItem_fields)
  ultimately show ?thesis using w core unfolding ss_core_def items_ok_def rtt_part_def by (auto simp: writeItem_fields)
qed

text \<open>A pending item may be written: it carries its message, and it is a head only if it is the first.\<close>

lemma pending_written:
  assumes items: "items_ok env F ps A s" and p: "p \<in> set ps"
  shows "written_ok env F (length F - length ps) (si_transferFrameBytes (send_item s p))"
proof -
  obtain i where i: "i < length ps" "ps ! i = p" using p by (auto simp: in_set_conv_nth)
  have "item_ok env F (length F - length ps + i) p (send_item s p)" using items_ok_nth [OF items i(1)] i(2) by simp
  then obtain pack where "decodePack env (si_transferFrameBytes (send_item s p)) = Some pack"
      "carries env F (length F - length ps + i) pack" "pk_Head pack \<longrightarrow> si_head (send_item s p)"
    by (auto simp: item_ok_def)
  moreover have "si_head (send_item s p) \<longrightarrow> i = 0" using items i unfolding items_ok_def by blast
  ultimately show ?thesis unfolding written_ok_def by (metis add.right_neutral order_refl)
qed

text \<open>\<open>setHead\<close> keeps what the message carries.\<close>

lemma setHead_ok:
  assumes codec: "codec_ok env" and pack: "decodePack env (si_transferFrameBytes (send_item s p)) = Some pack"
    and con: "\<And>i. si_contractId (send_item s p) = Some i \<Longrightarrow> i \<in> fst ` set (openSendContracts s)"
  shows "\<exists>b pack'. setHead env now p s = Some (Inr b) \<and> decodePack env b = Some pack' \<and> pk_Head pack' \<and>
    pk_Nack pack' = pk_Nack pack \<and> pk_SequenceNumber pack' = pk_SequenceNumber pack \<and>
    pk_MessageId pack' = pk_MessageId pack \<and> pk_Frames pack' = pk_Frames pack"
proof -
  let ?x = "send_item s p"
  define h where "h = pack\<lparr>pk_Head := True, pk_Tag := Some (openTag now)\<rparr>"
  obtain pack' where p': "attachContract env s ?x h = Some pack'"
      "pk_Head pack'" "pk_Nack pack' = pk_Nack pack" "pk_SequenceNumber pack' = pk_SequenceNumber pack"
      "pk_MessageId pack' = pk_MessageId pack" "pk_Frames pack' = pk_Frames pack"
  proof (cases "si_contractId ?x")
    case None
    then show ?thesis using that [of h] by (simp add: h_def attachContract_def)
  next
    case (Some i)
    then obtain c where "map_of (openSendContracts s) i = Some c"
      using con by (metis map_of_eq_None_iff not_Some_eq)
    then show ?thesis using Some that by (cases "si_hasContractFrame ?x") (auto simp: h_def attachContract_def)
  qed
  obtain tf where tf: "unmarshalTransferFrame env (si_transferFrameBytes ?x) = Some tf"
    using pack by (auto simp: decodePack_def split: option.splits)
  show ?thesis
  proof (cases "tf_Pack tf")
    case (Some pk)
    then have "pk = pack" "tf_Frame tf = None" using pack tf by (auto simp: decodePack_def split: option.splits)
    obtain b where b: "marshalTransferFrame env (tf\<lparr>tf_Pack := Some pack'\<rparr>) = Some b"
        "unmarshalTransferFrame env b = Some (tf\<lparr>tf_Pack := Some pack'\<rparr>)"
      using codec by (auto simp: codec_ok_def)
    have "setHead env now p s = Some (Inr b)"
      using Some tf p'(1) b \<open>pk = pack\<close> by (simp add: setHead_def Let_def h_def [symmetric])
    moreover have "decodePack env b = Some pack'" using \<open>tf_Frame tf = None\<close> by (simp add: decodePack_def b)
    ultimately show ?thesis using p' by blast
  next
    case None
    then obtain f where f: "tf_Frame tf = Some f" "unmarshalPack env (f_MessageBytes f) = Some pack"
        "f_MessageType f = MessageType_TransferPack"
      using pack tf by (auto simp: decodePack_def split: option.splits if_splits)
    obtain pb where pb: "marshalPack env pack' = Some pb" "unmarshalPack env pb = Some pack'"
      using codec by (auto simp: codec_ok_def)
    let ?g = "tf\<lparr>tf_Frame := Some (f\<lparr>f_MessageBytes := pb\<rparr>)\<rparr>"
    obtain b where b: "marshalTransferFrame env ?g = Some b" "unmarshalTransferFrame env b = Some ?g"
      using codec by (auto simp: codec_ok_def)
    have "setHead env now p s = Some (Inr b)"
      using None tf p'(1) f pb b by (simp add: setHead_def Let_def h_def [symmetric])
    moreover have "decodePack env b = Some pack'" by (simp add: decodePack_def b None pb f(3))
    ultimately show ?thesis using p' by blast
  qed
qed

text \<open>What a resend does not change.\<close>

definition resend_step :: "SendSequence \<Rightarrow> SendSequence \<Rightarrow> bool" where
  "resend_step s t \<longleftrightarrow> same_ids s t \<and> s_settings t = s_settings s \<and> s_nextSequenceNumber t = s_nextSequenceNumber s \<and>
     s_nextPtr t = s_nextPtr s \<and> s_packs t = s_packs s \<and> sendItems t = sendItems s \<and> s_ackWindow t = s_ackWindow s \<and>
     outcomes (s_log t) = outcomes (s_log s)"

lemma resend_step_refl [simp]: "resend_step s s"
  by (simp add: resend_step_def)

lemma resend_step_trans: "resend_step s t \<Longrightarrow> resend_step t u \<Longrightarrow> resend_step s u"
  by (auto simp: resend_step_def intro: same_ids_trans)

lemma core_same_fields:
  assumes "ss_core env F ps A extra s"
  shows "ss_core env F ps A extra (semit es s) \<longleftrightarrow> (\<forall>b\<in>set (writes es). written_ok env F (length F - length ps) b)"
proof -
  have "send_contracts_ok env (set ps) extra (semit es s)"
    using assms unfolding ss_core_def by (elim conjE) (rule contracts_cong, assumption, simp_all add: semit_def)
  moreover have "items_ok env F ps A (semit es s) = items_ok env F ps A s" by (simp add: semit_def items_ok_def)
  ultimately show ?thesis using assms unfolding ss_core_def rtt_part_def by (auto simp: semit_def)
qed

text \<open>The log grows; the messages of \<open>W\<close> are written as they are afterwards, and only those of \<open>D\<close> may change.\<close>

definition resent :: "ptr set \<Rightarrow> ptr set \<Rightarrow> SendSequence \<Rightarrow> SendSequence \<Rightarrow> bool" where
  "resent D W s t \<longleftrightarrow> (\<exists>es. s_log t = s_log s @ es \<and>
     (\<forall>p\<in>W. si_transferFrameBytes (send_item t p) \<in> set (writes es))) \<and>
     (\<forall>p. p \<notin> D \<longrightarrow> si_transferFrameBytes (send_item t p) = si_transferFrameBytes (send_item s p))"

lemma resent_trans:
  assumes "resent D V s t" "resent E W t u" "V \<inter> E = {}"
  shows "resent (D \<union> E) (V \<union> W) s u"
proof -
  obtain es where es: "s_log t = s_log s @ es" "\<forall>p\<in>V. si_transferFrameBytes (send_item t p) \<in> set (writes es)"
    using assms(1) by (auto simp: resent_def)
  obtain fs where fs: "s_log u = s_log t @ fs" "\<forall>p\<in>W. si_transferFrameBytes (send_item u p) \<in> set (writes fs)"
    using assms(2) by (auto simp: resent_def)
  have "\<forall>p\<in>V. si_transferFrameBytes (send_item u p) = si_transferFrameBytes (send_item t p)"
    using assms(2,3) by (auto simp: resent_def)
  then have "\<forall>p\<in>V \<union> W. si_transferFrameBytes (send_item u p) \<in> set (writes (es @ fs))" using es(2) fs(2) by auto
  moreover have "s_log u = s_log s @ es @ fs" using es(1) fs(1) by simp
  moreover have "\<forall>p. p \<notin> D \<union> E \<longrightarrow> si_transferFrameBytes (send_item u p) = si_transferFrameBytes (send_item s p)"
    using assms(1,2) by (simp add: resent_def)
  ultimately show ?thesis unfolding resent_def by blast
qed

lemma resent_same:
  "s_log t = s_log s \<Longrightarrow> \<forall>p. si_transferFrameBytes (send_item t p) = si_transferFrameBytes (send_item s p) \<Longrightarrow> resent D {} s t"
  by (simp add: resent_def)

lemma resendBytes_ok:
  assumes core: "ss_core env F ps A 0 s" and ps: "sendItems s = ps" and env: "send_env_ok env"
    and p: "p \<in> set ps" "p \<notin> A"
  shows "\<exists>t. resendBytes env now p s = Some (t, None) \<and> ss_core env F ps A 0 t \<and> resend_step s t \<and>
    (\<forall>q. si_resendTime (send_item t q) = si_resendTime (send_item s q)) \<and> resent {p} {} s t"
proof -
  obtain first rest where fr: "ps = first # rest" using p by (cases ps) auto
  have items: "items_ok env F ps A s" using core by (simp add: ss_core_def)
  obtain i where i: "i < length ps" "ps ! i = p" using p by (auto simp: in_set_conv_nth)
  let ?n = "length F - length ps"
  have item: "item_ok env F (?n + i) p (send_item s p)" using items_ok_nth [OF items i(1)] i(2) by simp
  have first: "item_ok env F (?n + 0) first (send_item s first)" using items_ok_nth [OF items, of 0] fr by simp
  show ?thesis
  proof (cases "sequenceNumber (send_item s first) = sequenceNumber (send_item s p) \<and> \<not> si_head (send_item s p)")
    case False
    then have "resendBytes env now p s = Some (s, None)" using fr ps by (auto simp: resendBytes_def Let_def)
    then show ?thesis using core resent_same [of s s "{p}"] by auto
  next
    case True
    have lens: "length F < 2 ^ 64" "length ps \<le> length F" using items by (simp_all add: items_ok_def)
    then have "?n + 0 < 2 ^ 64" "?n + i < 2 ^ 64" using i by linarith+
    moreover have "(of_nat (?n + 0) :: u64) = of_nat (?n + i)" using True item first unfolding item_ok_def by metis
    ultimately have "?n + 0 = ?n + i" using u64_of_nat_eq by blast
    then have i0: "i = 0" by simp
    then have "first = p" using i fr by simp
    obtain pack where pack: "decodePack env (si_transferFrameBytes (send_item s p)) = Some pack" "carries env F (?n + i) pack"
      using item by (auto simp: item_ok_def)
    have con: "j \<in> fst ` set (openSendContracts s)" if "si_contractId (send_item s p) = Some j" for j
      using core p(1) that unfolding ss_core_def send_contracts_ok_def by fastforce
    have codec: "codec_ok env" using env by (simp add: send_env_ok_def)
    obtain b pack' where b: "setHead env now p s = Some (Inr b)" "decodePack env b = Some pack'" "pk_Head pack'"
        "pk_Nack pack' = pk_Nack pack" "pk_SequenceNumber pack' = pk_SequenceNumber pack"
        "pk_MessageId pack' = pk_MessageId pack" "pk_Frames pack' = pk_Frames pack"
      using setHead_ok [OF codec pack(1) con] by blast
    define u where "u = semit [ReturnBytes (si_transferFrameBytes (send_item s p))] s"
    define x where "x = (send_item s p)\<lparr>si_head := True, si_transferFrameBytes := b\<rparr>"
    have u: "ss_core env F ps A 0 u" using core_same_fields [OF core] by (simp add: u_def)
    have "carries env F m pack' = carries env F m pack" for m using b by (simp add: carries_def)
    then have "item_ok env F m p x" if "item_ok env F m p (send_item u p)" for m
      using that pack b by (auto simp: item_ok_def x_def u_def semit_def)
    then have "ss_core env F ps A 0 (setSendItem u p x)"
      using core_setSendItem [OF u p(2), of x] fr \<open>first = p\<close> by (simp add: x_def u_def semit_def)
    moreover have "resendBytes env now p s = Some (setSendItem u p x, None)"
      using True fr ps b(1) by (simp add: resendBytes_def Let_def u_def x_def)
    moreover have "resend_step s (setSendItem u p x)"
      by (simp add: resend_step_def same_ids_def x_def u_def) (simp add: semit_def)
    moreover have "si_resendTime (send_item (setSendItem u p x) q) = si_resendTime (send_item s q)" for q
      by (simp add: x_def u_def semit_def)
    moreover have "resent {p} {} s (setSendItem u p x)" by (simp add: resent_def x_def u_def) (simp add: semit_def)
    ultimately show ?thesis by blast
  qed
qed

lemma writeItem_resent: "resent {} {p} s (writeItem ok p s)"
proof -
  obtain t d where t: "openContractMultiRouteWriter s = (t, d)" by fastforce
  have "\<exists>es. s_log t = s_log s @ es"
    using t by (auto simp: openContractMultiRouteWriter_def Let_def semit_def split: if_splits option.splits)
  moreover have "resendQueue t = resendQueue s" using openWriter_same [OF t] by (simp add: same_send_def)
  ultimately show ?thesis using t by (auto simp: writeItem_def resent_def semit_def)
qed

lemma rtt_scaled:
  assumes "ss_core env F ps A extra s"
  shows "\<exists>w r. scaledRtt now (rttWindow s) = Some (w, r) \<and> 0 < r \<and> ss_core env F ps A extra (s\<lparr>rttWindow := w\<rparr>)"
proof -
  obtain l x where v: "rw_view (rttWindow s) l x" and b: "minScaledRtt (rttWindow s) = ss_MinResendInterval (s_settings s)"
      "maxScaledRtt (rttWindow s) = ss_MaxResendInterval (s_settings s)" "send_settings_ok (s_settings s)"
    using assms by (auto simp: ss_core_def rtt_part_def)
  have le: "minScaledRtt (rttWindow s) \<le> maxScaledRtt (rttWindow s)" "0 < minScaledRtt (rttWindow s)"
    using b by (simp_all add: send_settings_ok_def)
  obtain w r l' where w: "scaledRtt now (rttWindow s) = Some (w, r)" "rw_view w l' x" "rw_frame (rttWindow s) w"
      "minScaledRtt (rttWindow s) \<le> r"
    using scaledRtt_total [OF v le(1)] by blast
  moreover have "ss_core env F ps A extra (s\<lparr>rttWindow := w\<rparr>)"
    using core_rtt [OF assms w(2)] w(3) by (simp add: rw_frame_def)
  ultimately show ?thesis using le(2) by auto
qed

lemma resendSchedule_ok:
  assumes core: "ss_core env F ps A 0 s" and env: "send_env_ok env" and p: "p \<in> set ps" "p \<notin> A" and pos: "0 < itemAckTimeout"
  shows "\<exists>t. resendSchedule now itemAckTimeout p s = Some t \<and> ss_core env F ps (insert p A) 0 t \<and> resend_step s t \<and>
    now < si_resendTime (send_item t p) \<and> (\<forall>q. q \<noteq> p \<longrightarrow> si_resendTime (send_item t q) = si_resendTime (send_item s q)) \<and>
    resent {} {} s t"
proof -
  obtain w r where w: "scaledRtt now (rttWindow s) = Some (w, r)" "0 < r" "ss_core env F ps A 0 (s\<lparr>rttWindow := w\<rparr>)"
    using rtt_scaled [OF core] by blast
  define u where "u = s\<lparr>rttWindow := w\<rparr>"
  define x where "x = (send_item u p)\<lparr>si_sendCount := si_sendCount (send_item u p) + 1,
    si_resendTime := now + (if itemAckTimeout \<le> r then itemAckTimeout else r)\<rparr>"
  have x: "ss_core env F ps A 0 (setSendItem u p x)"
    by (rule core_setSendItem) (use w(3) p in \<open>simp_all add: u_def x_def item_ok_def\<close>)
  define t where "t = (setSendItem u p x)\<lparr>resendQueue := Add (resendQueue (setSendItem u p x)) p\<rparr>"
  have t: "ss_core env F ps (insert p A) 0 t" "contents (resendQueue t) = contents (resendQueue (setSendItem u p x))"
    using core_Add [OF x env p] by (simp_all add: t_def)
  note ct = contents_item [OF t(2)]
  have "same_ids s (setSendItem u p x)" by (simp add: same_ids_def x_def u_def)
  then have "same_ids s t" using same_ids_contents [OF t(2)] same_ids_trans by blast
  then have "resend_step s t" by (simp add: resend_step_def t_def u_def)
  moreover have "si_resendTime (send_item t q) = (if q = p then now + (if itemAckTimeout \<le> r then itemAckTimeout else r)
      else si_resendTime (send_item s q))" for q
    unfolding ct by (simp add: x_def u_def)
  moreover have "resendSchedule now itemAckTimeout p s = Some t"
    using w(1) by (simp add: resendSchedule_def t_def u_def x_def Let_def)
  moreover have "resent {} {} s t"
  proof (rule resent_same)
    show "s_log t = s_log s" by (simp add: t_def u_def)
    show "\<forall>q. si_transferFrameBytes (send_item t q) = si_transferFrameBytes (send_item s q)"
      unfolding ct by (simp add: x_def u_def)
  qed
  ultimately show ?thesis using t(1) pos w(2) by auto
qed

definition due :: "time \<Rightarrow> SendSequence \<Rightarrow> ptr set" where
  "due now s = {p \<in> tq_items (resendQueue s). si_resendTime (send_item s p) \<le> now}"

text \<open>
  The loop ends within its fuel, never fails to make a head, and afterwards no item is due (unless an item
  took too long to be acked).
\<close>

lemma resendLoop_ok:
  assumes "ss_inv env F s" "send_env_ok env" "card (due now s) < fuel"
  shows "\<exists>t r. resendLoop env now wr fuel to s = Some (t, r) \<and> ss_inv env F t \<and> resend_step s t \<and>
    (case r of Inl e \<Rightarrow> e = AckTimedOut | Inr _ \<Rightarrow> due now t = {} \<and> resent (due now s) (due now s) s t)"
  using assms(1,3)
proof (induction fuel arbitrary: to s)
  case (Suc fuel)
  let ?ps = "sendItems s"
  have core: "ss_core env F ?ps (set ?ps) 0 s" using Suc.prems by (simp add: ss_inv_def)
  then have inv: "tq_inv (resendQueue s)" "tq_items (resendQueue s) = set ?ps" "cmp (resendQueue s) = compareResendTime"
    by (simp_all add: ss_core_def items_ok_def)
  show ?case
  proof (cases "PeekFirst (resendQueue s)")
    case None
    then have "due now s = {}" using PeekFirst_None [of "resendQueue s"] by (simp add: due_def)
    then show ?thesis using None Suc.prems resent_same [of s s "{}"] by auto
  next
    case (Some p)
    have p: "p \<in> set ?ps" using PeekFirst_in [OF Some] inv(2) by simp
    let ?x = "send_item s p"
    let ?at = "si_sendTime ?x + ss_AckTimeout (s_settings s) - now"
    show ?thesis
    proof (cases "?at \<le> 0 \<or> now < si_resendTime ?x")
      case True
      have "due now s = {}" if "now < si_resendTime ?x"
      proof -
        have "si_resendTime ?x \<le> si_resendTime (send_item s q)" if "q \<in> set ?ps" for q
        proof -
          have "cmp (resendQueue s) ?x (send_item s q) \<le> 0" using PeekFirst_least [OF inv(1) Some] that inv(2) by simp
          then show ?thesis unfolding inv(3) by (auto simp: compareResendTime_def split: if_splits)
        qed
        then show ?thesis using that inv(2) by (force simp: due_def)
      qed
      then show ?thesis using True Some Suc.prems resent_same [of s s "{}"] by (auto simp: Let_def)
    next
      case False
      then have pos: "0 < ?at" and dp: "si_resendTime ?x \<le> now" by simp_all
      obtain q where q: "RemoveByMessageId (resendQueue s) (messageId ?x) = Some (q, Some p)"
          "ss_core env F ?ps (set ?ps - {p}) 0 (s\<lparr>resendQueue := q\<rparr>)" "contents q = contents (resendQueue s)"
        using core_remove [OF core p] by blast
      let ?u = "s\<lparr>resendQueue := q\<rparr>"
      have u: "resend_step s ?u" using same_ids_contents [of ?u s] q(3) by (simp add: resend_step_def)
      obtain v where v: "resendBytes env now p ?u = Some (v, None)" "ss_core env F ?ps (set ?ps - {p}) 0 v" "resend_step ?u v"
          "\<And>q. si_resendTime (send_item v q) = si_resendTime (send_item ?u q)" "resent {p} {} ?u v"
        using resendBytes_ok [OF q(2) _ assms(2) p] by auto
      have sv: "sendItems v = ?ps" using v(3) by (simp add: resend_step_def)
      let ?w = "writeItem (wr p) p v"
      have "items_ok env F ?ps (set ?ps - {p}) v" using v(2) by (simp add: ss_core_def)
      then have w: "ss_core env F ?ps (set ?ps - {p}) 0 ?w"
        using core_writeItem [OF v(2)] pending_written p by blast
      have "resend_step v ?w" by (simp add: resend_step_def same_ids_def writeItem_fields)
      obtain t where t: "resendSchedule now ?at p ?w = Some t" "ss_core env F ?ps (insert p (set ?ps - {p})) 0 t" "resend_step ?w t"
          "now < si_resendTime (send_item t p)" "\<And>q. q \<noteq> p \<Longrightarrow> si_resendTime (send_item t q) = si_resendTime (send_item ?w q)"
          "resent {} {} ?w t"
        using resendSchedule_ok [OF w assms(2) p _ pos] by auto
      have st: "resend_step s t"
        using u v(3) \<open>resend_step v ?w\<close> t(3) resend_step_trans by blast
      then have items: "sendItems t = ?ps" by (simp add: resend_step_def)
      have it: "ss_inv env F t" using t(2) p items by (simp add: ss_inv_def insert_absorb)
      have tt: "tq_items (resendQueue t) = set ?ps" using it items by (simp add: ss_inv_def ss_core_def items_ok_def)
      have same: "si_resendTime (send_item t r) = si_resendTime (send_item s r)" if "r \<noteq> p" for r
        using t(5) [OF that] v(4) contents_item(8) [OF q(3)] by (simp add: writeItem_fields)
      have due: "due now t = due now s - {p}"
      proof (rule set_eqI)
        fix r
        show "r \<in> due now t \<longleftrightarrow> r \<in> due now s - {p}"
          unfolding due_def tt inv(2) using same [of r] t(4) by (cases "r = p") auto
      qed
      have mem: "p \<in> due now s" "finite (due now s)" using dp p inv(2) by (auto simp: due_def)
      have "0 < card (due now s)" using mem by (auto simp: card_gt_0_iff)
      moreover have "card (due now t) = card (due now s) - 1" unfolding due by (rule card_Diff_singleton [OF mem(1)])
      ultimately have card: "card (due now t) < fuel" using Suc.prems(2) by linarith
      have loop: "resendLoop env now wr (Suc fuel) to s =
          resendLoop env now wr fuel (if ?at < to then ?at else to) t"
        using Some False q(1) v(1) t(1) by (simp add: Let_def)
      have "resent {} {} s ?u"
        by (rule resent_same) (simp_all add: contents_item [OF q(3)])
      from resent_trans [OF resent_trans [OF resent_trans [OF this v(5)] writeItem_resent] t(6)]
      have "resent {p} {p} s t" by simp
      from resent_trans [OF this, of "due now t" "due now t"]
      have "resent (due now s) (due now s) s z" if "resent (due now t) (due now t) t z" for z
        using that mem(1) unfolding due by (simp add: insert_absorb)
      note grow = this
      obtain z r where z: "resendLoop env now wr fuel (if ?at < to then ?at else to) t = Some (z, r)" "ss_inv env F z" "resend_step t z"
          "case r of Inl e \<Rightarrow> e = AckTimedOut | Inr _ \<Rightarrow> due now z = {} \<and> resent (due now t) (due now t) t z"
        using Suc.IH [OF it card] by blast
      have "case r of Inl e \<Rightarrow> e = AckTimedOut | Inr _ \<Rightarrow> due now z = {} \<and> resent (due now s) (due now s) s z"
        using z(4) grow by (cases r) simp_all
      with loop z(1,2) resend_step_trans [OF st z(3)] show ?thesis by auto
    qed
  qed
qed simp

lemma s_wait_ok:
  assumes inv: "ss_inv env F s" and env: "send_env_ok env"
  shows "\<exists>t r. s_wait env now wr s = Some (t, r) \<and> ss_inv env F t \<and> resend_step s t \<and>
    (case r of Inl e \<Rightarrow> e = AckTimedOut | Inr _ \<Rightarrow> due now t = {} \<and> resent (due now s) (due now s) s t)"
proof (cases "tq_Len (resendQueue s) = 0")
  case True
  then show ?thesis using inv resent_same [of s s "{}"] by (auto simp: s_wait_def due_def tq_Len_def)
next
  case False
  have "tq_inv (resendQueue s)" using inv by (simp add: ss_inv_def ss_core_def items_ok_def)
  then have "card (tq_items (resendQueue s)) = tq_Len (resendQueue s)"
    using distinct_card [OF tq_inv_distinct] by (simp add: tq_Len_def)
  moreover have "card (due now s) \<le> card (tq_items (resendQueue s))" by (rule card_mono) (auto simp: due_def)
  ultimately have "card (due now s) < Suc (tq_Len (resendQueue s))" by simp
  then show ?thesis using False resendLoop_ok [OF inv env] by (simp add: s_wait_def del: resendLoop.simps)
qed

section \<open>Sending\<close>

lemma decode_packFrame:
  assumes "codec_ok env"
  shows "decodePack env (case marshalTransferFrame env (packFrame env v path pack) of None \<Rightarrow> [] | Some b \<Rightarrow> b) = Some pack"
proof -
  obtain b where b: "marshalTransferFrame env (packFrame env v path pack) = Some b"
      "unmarshalTransferFrame env b = Some (packFrame env v path pack)"
    using assms by (auto simp: codec_ok_def)
  obtain pb where "marshalPack env pack = Some pb" "unmarshalPack env pb = Some pack"
    using assms by (auto simp: codec_ok_def)
  moreover have "tf_Pack (packFrame env v path pack) = (if 2 \<le> v then Some pack else None)"
    "tf_Frame (packFrame env v path pack) = (if 2 \<le> v then None else Some \<lparr>f_MessageType = MessageType_TransferPack,
       f_MessageBytes = (case marshalPack env pack of None \<Rightarrow> [] | Some b \<Rightarrow> b), f_Raw = False\<rparr>)"
    by (simp_all add: packFrame_def Let_def)
  ultimately show ?thesis using b by (simp add: decodePack_def)
qed

lemma carries_mono: "carries env F n pack \<Longrightarrow> carries env (F @ G) n pack"
  by (auto simp: carries_def nth_append)

lemma item_ok_mono: "item_ok env F n p x \<Longrightarrow> item_ok env (F @ G) n p x"
  unfolding item_ok_def using carries_mono by blast

lemma written_ok_append: "written_ok env F n b \<Longrightarrow> written_ok env (F @ G) n b"
  unfolding written_ok_def using carries_mono by blast

lemma pending_below: "items_ok env F ps A s \<Longrightarrow> p \<in> set ps \<Longrightarrow> p < s_nextPtr s"
proof -
  assume a: "items_ok env F ps A s" "p \<in> set ps"
  then have "ps = map fst (drop (length F - length ps) F)" by (simp add: items_ok_def)
  then have "p \<in> set (map fst (drop (length F - length ps) F))" using a(2) by metis
  then have "p \<in> set (map fst F)" by (auto dest: in_set_dropD)
  then show ?thesis using a(1) unfolding items_ok_def by blast
qed

lemma core_alloc:
  assumes core: "ss_core env F ps A extra s" and p: "p = s_nextPtr s"
  shows "ss_core env F ps A extra ((setSendItem s p x)\<lparr>s_nextPtr := p + 1\<rparr>)"
proof -
  have items: "items_ok env F ps A s" using core by (simp add: ss_core_def)
  then have ne: "q \<noteq> p" if "q \<in> set ps" for q using pending_below that p by blast
  have A: "A \<subseteq> set ps" using items by (simp add: items_ok_def)
  let ?t = "(setSendItem s p x)\<lparr>s_nextPtr := p + 1\<rparr>"
  have "tq_inv (resendQueue ?t)"
    using core ne A tq_inv_alloc [of "resendQueue s" p x] unfolding setSendItem_def by (auto simp: ss_core_def items_ok_def)
  moreover have "send_item ?t (ps ! i) = send_item s (ps ! i)" if "i < length ps" for i
    using ne [of "ps ! i"] that by simp
  ultimately have "items_ok env F ps A ?t"
    using items p unfolding items_ok_def by (auto simp: less_Suc_eq)
  moreover have "send_contracts_ok env (set ps) extra ?t"
    using core p ne unfolding ss_core_def by (elim conjE) (rule contracts_cong, assumption, auto)
  ultimately show ?thesis using core unfolding ss_core_def by (simp add: rtt_part_def)
qed

text \<open>The charge of a new message passes from the reserve of the current contract to the item.\<close>

lemma contracts_insert:
  assumes ok: "send_contracts_ok env B (charge (s_settings s) b + e) s" and p: "p \<notin> B"
    and x: "si_contractId (send_item s p) = map_option (contractId \<circ> sendContracts s) (sendContract s)"
      "messageByteCount (send_item s p) = b"
    and st: "send_settings_ok (s_settings s)"
  shows "send_contracts_ok env (insert p B) e s"
proof (rule send_contracts_okI)
  have fin: "finite (insert p B)" using ok by (simp add: send_contracts_ok_def)
  then show "finite (insert p B)" "distinct (map fst (openSendContracts s))" using ok by (simp_all add: send_contracts_ok_def)
  fix i c assume ic: "(i, c) \<in> set (openSendContracts s)"
  then show "contractId (sendContracts s c) = i \<and> contract_ok (sendContracts s c) \<and>
      minUpdateByteCount (sendContracts s c) = ss_MinMessageByteCount (s_settings s) \<and> c < s_nextPtr s"
    using ok unfolding send_contracts_ok_def by fast
  have ch: "charged s (insert p B) i = charged s B i + (if si_contractId (send_item s p) = Some i then charge (s_settings s) b else 0)"
    using charged_remove [OF fin, of p s i] p x(2) by simp
  have c: "charged s B i + (if sendContract s = Some c then charge (s_settings s) b + e else 0) \<le> unackedByteCount (sendContracts s c)"
    using ok ic unfolding send_contracts_ok_def by fast
  have "sendContract s = Some c" if "si_contractId (send_item s p) = Some i"
  proof -
    have "map_option (contractId \<circ> sendContracts s) (sendContract s) = Some i" using that x(1) by simp
    then obtain d where d: "sendContract s = Some d" "contractId (sendContracts s d) = i" by auto
    then have "(i, d) \<in> set (openSendContracts s)" using ok by (auto simp: send_contracts_ok_def)
    then have "d = c" using ic ok by (metis map_of_is_SomeI option.inject send_contracts_ok_def)
    then show ?thesis using d by simp
  qed
  then show "charged s (insert p B) i + (if sendContract s = Some c then e else 0) \<le> unackedByteCount (sendContracts s c)"
    using c ch charge_pos [OF st, of b] by (auto split: if_splits)
next
  show "(contractId (sendContracts s c), c) \<in> set (openSendContracts s)" if "sendContract s = Some c" for c
    using that ok by (simp add: send_contracts_ok_def)
  show "case si_contractId (send_item s q) of None \<Rightarrow> True | Some i \<Rightarrow> i \<in> fst ` set (openSendContracts s)" if "q \<in> insert p B" for q
  proof (cases "q = p")
    case True
    show ?thesis
    proof (cases "sendContract s")
      case None
      then show ?thesis using True x(1) by simp
    next
      case (Some c)
      then have "(contractId (sendContracts s c), c) \<in> set (openSendContracts s)" using ok by (simp add: send_contracts_ok_def)
      then show ?thesis using True x(1) Some by (simp add: rev_image_eqI)
    qed
  next
    case False
    then show ?thesis using that ok by (simp add: send_contracts_ok_def)
  qed
  show "sendContract s = None" if "s_noContract env s" using that ok by (simp add: send_contracts_ok_def)
qed

lemma core_extend:
  assumes core: "ss_core env F ps (set ps) (charge (s_settings s) b + e) s" and p: "p < s_nextPtr s" "p \<notin> fst ` set F" "p < idCount"
    and len: "length F + 1 < 2 ^ 64" and item: "item_ok env (F @ [(p, fs)]) (length F) p (send_item s p)"
    and head: "si_head (send_item s p) \<Longrightarrow> ps = []"
    and x: "si_contractId (send_item s p) = map_option (contractId \<circ> sendContracts s) (sendContract s)"
      "messageByteCount (send_item s p) = b"
  shows "ss_core env (F @ [(p, fs)]) (ps @ [p]) (set ps) e (s\<lparr>s_nextSequenceNumber := s_nextSequenceNumber s + 1\<rparr>)"
proof -
  let ?G = "F @ [(p, fs)]" and ?t = "s\<lparr>s_nextSequenceNumber := s_nextSequenceNumber s + 1\<rparr>"
  have items: "items_ok env F ps (set ps) s" and st: "send_settings_ok (s_settings s)"
    and con: "send_contracts_ok env (set ps) (charge (s_settings s) b + e) s" using core by (simp_all add: ss_core_def)
  have lp: "length ps \<le> length F" "ps = map fst (drop (length F - length ps) F)" using items by (simp_all add: items_ok_def)
  have base: "length ?G - length (ps @ [p]) = length F - length ps" by simp
  have "set ps \<subseteq> fst ` set F" using lp(2) by (metis image_mono set_drop_subset set_map)
  then have np: "p \<notin> set ps" using p(2) by blast
  have ps': "ps @ [p] = map fst (drop (length ?G - length (ps @ [p])) ?G)"
    unfolding base using lp by (simp add: drop_append)
  have its: "item_ok env ?G (length ?G - length (ps @ [p]) + i) ((ps @ [p]) ! i) (send_item ?t ((ps @ [p]) ! i))"
    if "i < length (ps @ [p])" for i
  proof (cases "i < length ps")
    case True
    then show ?thesis unfolding base using item_ok_mono [OF items_ok_nth [OF items True]] by (simp add: nth_append)
  next
    case False
    then have "i = length ps" using that by simp
    then show ?thesis unfolding base using item lp(1) by (simp add: nth_append)
  qed
  have heads: "i = 0" if "i < length (ps @ [p])" "si_head (send_item ?t ((ps @ [p]) ! i))" for i
  proof (cases "i < length ps")
    case True
    then show ?thesis using that items unfolding items_ok_def by (auto simp: nth_append)
  next
    case False
    then have "i = length ps" using that by simp
    then show ?thesis using that head by (simp add: nth_append)
  qed
  have "items_ok env ?G (ps @ [p]) (set ps) ?t"
    unfolding items_ok_def
    using items p len lp(1) by (intro conjI allI impI its heads ps') (auto simp: items_ok_def)
  moreover have "send_contracts_ok env (set (ps @ [p])) e ?t"
    using contracts_cong [OF contracts_insert [OF con np x st], of ?t] by simp
  moreover have "\<forall>b\<in>set (writes (s_log ?t)). written_ok env ?G (length ?G - length (ps @ [p])) b"
    unfolding base using core by (auto simp: ss_core_def intro: written_ok_append)
  ultimately show ?thesis using core unfolding ss_core_def by (simp add: rtt_part_def)
qed

end
