(* ===== verification/Send_Steps.thy ===== *)
theory Send_Steps
  imports Send_Invariant "HOL-Library.Sublist"
begin

text \<open>
  What the steps that send a message do to the invariant: numbering, charging, the contract that a message
  opens, the rounds of \<open>Run\<close>.
\<close>

definition kept_items :: "SendSequence \<Rightarrow> SendSequence \<Rightarrow> bool" where
  "kept_items s t \<longleftrightarrow> s_nextPtr s \<le> s_nextPtr t \<and> (\<forall>p. p < s_nextPtr s \<longrightarrow> messageId (send_item t p) = messageId (send_item s p) \<and>
     sequenceNumber (send_item t p) = sequenceNumber (send_item s p) \<and>
     si_ackCallback (send_item t p) = si_ackCallback (send_item s p))"

definition frames_of :: "Frame option \<Rightarrow> Frame list" where
  "frames_of frame = (case frame of None \<Rightarrow> [] | Some f \<Rightarrow> [f])"

text \<open>Whether a message goes out with a number: on request, and always while the contract is not acked.\<close>

definition numbered :: "bool \<Rightarrow> SendSequence \<Rightarrow> bool" where
  "numbered ack s \<longleftrightarrow> ack \<or> sendContract s \<noteq> None \<and> \<not> sendContractAcked s"

lemma sendWithSetContract_unfold:
  "sendWithSetContract env now ok frame cb ack setC s =
     (let a = numbered ack s; p = s_nextPtr s;
          pack = newPack env now frame a setC (a \<and> sendItems s = []) (if a then s_nextSequenceNumber s else 0) s in
      do {
        (w, rtt) \<leftarrow> scaledRtt now (rttWindow s);
        let x = newSendItem env now rtt cb pack s;
        let u = writeItem ok p ((setSendItem (s\<lparr>s_nextSequenceNumber := s_nextSequenceNumber s + (if a then 1 else 0), rttWindow := w\<rparr>) p x)\<lparr>s_nextPtr := p + 1\<rparr>);
        t \<leftarrow> (if a then Some (u\<lparr>sendItems := sendItems u @ [p], resendQueue := Add (resendQueue u) p\<rparr>)
              else if ok then ackItem p u
              else Some (semit [ReturnBytes (si_transferFrameBytes (send_item u p))] (ackCallback cb (Some WriteFailed) u)));
        Some (semit (sentBuffers env (ss_ProtocolVersion (s_settings t)) pack) t)
      })"
proof -
  have np: "newPack env now frame a c h n (s\<lparr>s_nextSequenceNumber := m\<rparr>) = newPack env now frame a c h n s" for a c h n m
    by (simp add: newPack_def cong: option.case_cong)
  have ni: "newSendItem env now r cb pk (s\<lparr>s_nextSequenceNumber := m, rttWindow := w\<rparr>) = newSendItem env now r cb pk s" for r pk m w
    by (simp add: newSendItem_def packPath_def split: option.splits)
  have nj: "newSendItem env now r cb pk (s\<lparr>rttWindow := w\<rparr>) = newSendItem env now r cb pk s" for r pk w
    by (simp add: newSendItem_def packPath_def split: option.splits)
  have ack: "(if sendContract s \<noteq> None \<and> \<not> sendContractAcked s then True else ack) = numbered ack s"
    by (simp add: numbered_def)
  show ?thesis
    unfolding sendWithSetContract_def ack Let_def
    by (cases "numbered ack s"; cases ok) (simp_all add: np ni nj writeItem_fields)
qed

lemma contracts_extra_mono:
  assumes ok: "send_contracts_ok env B extra s" and le: "sendContract s = None \<or> e \<le> extra"
  shows "send_contracts_ok env B e s"
proof -
  have "charged s B i + (if sendContract s = Some c then e else 0) \<le> unackedByteCount (sendContracts s c)"
    if "(i, c) \<in> set (openSendContracts s)" for i c
  proof -
    have "charged s B i + (if sendContract s = Some c then extra else 0) \<le> unackedByteCount (sendContracts s c)"
      using ok that unfolding send_contracts_ok_def by blast
    then show ?thesis using le by (auto split: if_splits)
  qed
  then have "\<forall>(i, c)\<in>set (openSendContracts s).
      charged s B i + (if sendContract s = Some c then e else 0) \<le> unackedByteCount (sendContracts s c)"
    by fast
  with ok [unfolded send_contracts_ok_def] show ?thesis
    unfolding send_contracts_ok_def by (elim conjE) (intro conjI; assumption)
qed

lemma core_extra_mono: "ss_core env F ps A extra s \<Longrightarrow> e \<le> extra \<Longrightarrow> ss_core env F ps A e s"
  unfolding ss_core_def using contracts_extra_mono [of env "set ps" extra s e] by blast

lemma core_settings: "ss_core env F ps A extra s \<Longrightarrow> send_settings_ok (s_settings s)"
  by (simp add: ss_core_def)

lemma core_items: "ss_core env F ps A extra s \<Longrightarrow> items_ok env F ps A s"
  by (simp add: ss_core_def)

lemma core_fresh:
  assumes "ss_core env F ps A extra s"
  shows "s_nextPtr s \<notin> fst ` set F" "s_nextPtr s \<notin> set ps"
proof -
  note items = core_items [OF assms]
  have "\<forall>p\<in>set (map fst F). p < s_nextPtr s" using items unfolding items_ok_def by blast
  then show "s_nextPtr s \<notin> fst ` set F" by auto
  show "s_nextPtr s \<notin> set ps" using pending_below [OF items] by blast
qed

lemma newPack_fields [simp]:
  "pk_Nack (newPack env now frame a c h n s) = (\<not> a)" "pk_Head (newPack env now frame a c h n s) = h"
  "pk_SequenceNumber (newPack env now frame a c h n s) = n" "pk_Frames (newPack env now frame a c h n s) = frames_of frame"
  by (simp_all add: newPack_def frames_of_def split: option.splits)

lemma newPack_MessageId:
  "send_env_ok env \<Longrightarrow> pk_MessageId (newPack env now frame a c h n s) = newId env (s_nextPtr s)"
  by (simp add: newPack_def Id_Bytes_def send_env_ok_def id_ok_def)

lemma newSendItem_fields [simp]:
  "messageId (newSendItem env now r cb pk s) = newId env (s_nextPtr s)"
  "messageByteCount (newSendItem env now r cb pk s) = MessageByteCount (pk_Frames pk)"
  "sequenceNumber (newSendItem env now r cb pk s) = pk_SequenceNumber pk"
  "si_contractId (newSendItem env now r cb pk s) = map_option (contractId \<circ> sendContracts s) (sendContract s)"
  "si_head (newSendItem env now r cb pk s) = pk_Head pk" "si_ackCallback (newSendItem env now r cb pk s) = cb"
  by (simp_all add: newSendItem_def)

lemma newSendItem_decode:
  "send_env_ok env \<Longrightarrow> decodePack env (si_transferFrameBytes (newSendItem env now r cb pk s)) = Some pk"
  by (simp add: newSendItem_def decode_packFrame send_env_ok_def)

text \<open>The message is built, numbered, charged and written.\<close>

lemma numbered_item:
  assumes core: "ss_core env F ps (set ps) (charge (s_settings s) (MessageByteCount (frames_of frame)) + e) s"
    and env: "send_env_ok env" and len: "length F + 1 < 2 ^ 64" and ps: "sendItems s = ps"
    and frame: "0 \<le> MessageByteCount (frames_of frame)" "MessageByteCount (frames_of frame) \<le> maxMessageByteCount"
    and p: "p = s_nextPtr s" "p < idCount"
    and pack: "pack = newPack env now frame True setC (sendItems s = []) (s_nextSequenceNumber s) s"
    and u: "u = (setSendItem s p (newSendItem env now r cb pack s))\<lparr>s_nextPtr := p + 1\<rparr>"
  shows "ss_core env (F @ [(p, frames_of frame)]) (ps @ [p]) (set ps) e (u\<lparr>s_nextSequenceNumber := s_nextSequenceNumber s + 1\<rparr>)"
proof -
  let ?x = "newSendItem env now r cb pack s"
  have fresh: "p \<notin> fst ` set F" "p \<notin> set ps" using core_fresh [OF core] p(1) by simp_all
  have n: "s_nextSequenceNumber s = of_nat (length F)" using core by (simp add: ss_core_def items_ok_def)
  have x: "send_item u p = ?x" by (simp add: u)
  have item: "item_ok env (F @ [(p, frames_of frame)]) (length F) p ?x"
    using newSendItem_decode [OF env, of now r cb pack s] frame len n p
    by (auto simp: item_ok_def carries_def frame_ok_def pack newPack_MessageId [OF env])
  have u1: "ss_core env F ps (set ps) (charge (s_settings u) (MessageByteCount (frames_of frame)) + e) u"
    using core_alloc [OF core p(1)] by (simp add: u)
  have "ss_core env (F @ [(p, frames_of frame)]) (ps @ [p]) (set ps) e (u\<lparr>s_nextSequenceNumber := s_nextSequenceNumber u + 1\<rparr>)"
    by (rule core_extend [OF u1 _ fresh(1) p(2) len]) (use item ps in \<open>simp_all add: x u pack\<close>)
  then show ?thesis by (simp add: u)
qed

text \<open>What sending leaves alone, numbered or not.\<close>

definition send_step :: "SendSequence \<Rightarrow> SendSequence \<Rightarrow> bool" where
  "send_step s t \<longleftrightarrow> kept_items s t \<and> s_settings t = s_settings s \<and> s_packs t = s_packs s \<and>
     s_destination t = s_destination s \<and> s_intermediaryIds t = s_intermediaryIds s \<and> s_ackWindow t = s_ackWindow s"

lemma send_step_refl [simp]: "send_step s s"
  by (simp add: send_step_def kept_items_def)

lemma send_step_trans: "send_step s t \<Longrightarrow> send_step t u \<Longrightarrow> send_step s u"
  by (simp add: send_step_def kept_items_def)

text \<open>The stream after a send, and the answers that the send itself gives.\<close>

definition sent_stream :: "bool \<Rightarrow> ptr \<Rightarrow> Frame option \<Rightarrow> stream \<Rightarrow> stream" where
  "sent_stream a p frame F = (if a then F @ [(p, frames_of frame)] else F)"

lemma same_stream_step: "same_stream s t \<Longrightarrow> send_step s t"
  by (simp add: same_stream_def send_step_def kept_items_def)

lemma send_step_semit [simp]: "send_step s (semit es s)"
  by (simp add: send_step_def kept_items_def semit_def)

lemma core_semit: "ss_core env F ps A extra s \<Longrightarrow> writes es = [] \<Longrightarrow> ss_core env F ps A extra (semit es s)"
  by (simp add: core_same_fields)

lemma newPack_rtt [simp]: "newPack env now frame a c h n (s\<lparr>rttWindow := w\<rparr>) = newPack env now frame a c h n s"
  by (simp add: newPack_def cong: option.case_cong)

lemma newSendItem_rtt [simp]: "newSendItem env now r cb pk (s\<lparr>rttWindow := w\<rparr>) = newSendItem env now r cb pk s"
  by (simp add: newSendItem_def packPath_def split: option.splits)

lemma sendItems_queue: "t\<lparr>resendQueue := q, sendItems := l\<rparr> = t\<lparr>sendItems := l, resendQueue := q\<rparr>" for t :: SendSequence
  by (cases t) simp

lemma sendWithSetContract_ok:
  assumes core: "ss_core env F ps (set ps) (charge (s_settings s) (MessageByteCount (frames_of frame)) + e) s"
    and env: "send_env_ok env" and len: "length F + 1 < 2 ^ 64" and ps: "sendItems s = ps" and e: "0 \<le> e"
    and frame: "frame_ok (frames_of frame)" and a: "a = numbered ack s" and p: "p = s_nextPtr s"
    and room: "p < idCount"
  shows "\<exists>t qs. sendWithSetContract env now ok frame cb ack setC s = Some t \<and>
    ss_core env (sent_stream a p frame F) qs (set qs) e t \<and> sendItems t = qs \<and> send_step s t \<and>
    qs = (if a then ps @ [p] else ps) \<and> (a \<longrightarrow> si_ackCallback (send_item t p) = cb) \<and> s_nextPtr t = p + 1 \<and>
    outcomes (s_log t) = outcomes (s_log s) @ (if a then [] else answer cb (if ok then None else Some WriteFailed))"
proof -
  note fresh = core_fresh [OF core, folded p]
  obtain w r where r: "scaledRtt now (rttWindow s) = Some (w, r)"
      and core1: "ss_core env F ps (set ps) (charge (s_settings s) (MessageByteCount (frames_of frame)) + e) (s\<lparr>rttWindow := w\<rparr>)"
    using rtt_scaled [OF core] by blast
  let ?s = "s\<lparr>rttWindow := w\<rparr>"
  show ?thesis
  proof (cases a)
    case True
    define pack where "pack = newPack env now frame True setC (sendItems ?s = []) (s_nextSequenceNumber ?s) ?s"
    define u where "u = (setSendItem ?s p (newSendItem env now r cb pack ?s))\<lparr>s_nextPtr := p + 1\<rparr>"
    let ?F = "F @ [(p, frames_of frame)]" and ?u = "u\<lparr>s_nextSequenceNumber := s_nextSequenceNumber s + 1\<rparr>"
    have u: "ss_core env ?F (ps @ [p]) (set ps) e ?u"
      using numbered_item [OF _ env len _ _ _ _ room pack_def u_def] core1 ps frame p by (simp add: frame_ok_def)
    let ?w = "writeItem ok p ?u"
    have w: "ss_core env ?F (ps @ [p]) (set ps) e ?w"
      by (rule core_writeItem [OF u pending_written [OF core_items [OF u]]]) simp
    let ?v = "?w\<lparr>resendQueue := Add (resendQueue ?w) p\<rparr>"
    have v: "ss_core env ?F (ps @ [p]) (insert p (set ps)) e ?v" "contents (resendQueue ?v) = contents (resendQueue ?w)"
      using core_Add [OF w env, of p] fresh by simp_all
    let ?t = "semit (sentBuffers env (ss_ProtocolVersion (s_settings s)) pack) (?v\<lparr>sendItems := ps @ [p]\<rparr>)"
    have "sendWithSetContract env now ok frame cb ack setC s = Some ?t"
    proof -
      have "?u = (setSendItem (s\<lparr>s_nextSequenceNumber := s_nextSequenceNumber s + 1, rttWindow := w\<rparr>) p
          (newSendItem env now r cb pack s))\<lparr>s_nextPtr := p + 1\<rparr>"
        unfolding u_def newSendItem_rtt by (cases s) (simp add: setSendItem_def)
      moreover have "?v\<lparr>sendItems := ps @ [p]\<rparr> = ?w\<lparr>sendItems := sendItems ?w @ [p], resendQueue := Add (resendQueue ?w) p\<rparr>"
        using ps sendItems_queue [where t = ?w] by (simp add: writeItem_fields u_def)
      ultimately show ?thesis
        using True p r by (simp add: sendWithSetContract_unfold a [symmetric] Let_def pack_def writeItem_fields)
    qed
    moreover have "ss_core env ?F (ps @ [p]) (set (ps @ [p])) e ?t"
      using v(1) by (intro core_semit) simp_all
    moreover have "send_step s ?t" "si_ackCallback (send_item ?t p) = cb"
      using contents_item [OF v(2)] p by (auto simp: send_step_def kept_items_def semit_def u_def writeItem_fields)
    moreover have "outcomes (s_log ?t) = outcomes (s_log s)" "s_nextPtr ?t = p + 1"
      by (simp_all add: u_def writeItem_fields semit_def)
    ultimately show ?thesis using True by (auto simp: sent_stream_def semit_def)
  next
    case False
    define pack where "pack = newPack env now frame False setC False 0 s"
    define u where "u = (setSendItem ?s p (newSendItem env now r cb pack s))\<lparr>s_nextPtr := p + 1\<rparr>"
    let ?b = "MessageByteCount (frames_of frame)"
    have u: "ss_core env F ps (set ps) (charge (s_settings s) ?b + e) u"
      unfolding u_def using core_alloc [OF core1, of p] p by simp
    have x: "send_item u p = newSendItem env now r cb pack s" by (simp add: u_def)
    let ?w = "writeItem ok p u"
    have w: "ss_core env F ps (set ps) (charge (s_settings s) ?b + e) ?w"
      by (rule core_writeItem [OF u]) (use frame in \<open>simp add: x written_ok_def newSendItem_decode [OF env] pack_def\<close>)
    have s: "s_settings ?w = s_settings s" "send_step s ?w" "sendItems ?w = ps" "outcomes (s_log ?w) = outcomes (s_log s)"
      "s_nextPtr ?w = p + 1"
      using p ps by (auto simp: u_def writeItem_fields send_step_def kept_items_def)
    have st: "send_settings_ok (s_settings s)" by (rule core_settings [OF core])
    show ?thesis
    proof (cases ok)
      case True
      have "send_contracts_ok env (set ps) (charge (s_settings ?w) ?b + e) ?w" using w s(1) by (simp add: ss_core_def)
      then have "send_contracts_ok env (insert p (set ps)) e ?w"
        by (rule contracts_insert [OF _ fresh(2)]) (use st s(1) in \<open>simp_all add: x writeItem_fields u_def pack_def\<close>)
      from ackItem_ok [OF this fresh(2)] obtain t where t: "ackItem p ?w = Some t" "send_contracts_ok env (set ps) e t"
          "same_stream ?w t" "outcomes (s_log t) = outcomes (s_log s) @ answer cb None"
        using st s e frame by (auto simp: x writeItem_fields pack_def frame_ok_def)
      let ?t = "semit (sentBuffers env (ss_ProtocolVersion (s_settings t)) pack) t"
      have "sendWithSetContract env now ok frame cb ack setC s = Some ?t"
        using False True p r t(1) by (simp add: sendWithSetContract_unfold a [symmetric] Let_def pack_def u_def)
      moreover have "ss_core env F ps (set ps) e ?t"
        by (rule core_semit [OF same_stream_core [OF t(3) w t(2)]]) simp
      moreover have "send_step s ?t" using send_step_trans [OF s(2) same_stream_step [OF t(3)]] send_step_trans by fastforce
      moreover have "sendItems ?t = ps" "s_nextPtr ?t = p + 1" using t(3) s by (simp_all add: semit_def same_stream_def)
      ultimately show ?thesis using False True t(4) by (simp add: sent_stream_def)
    next
      case False
      let ?a = "ackCallback cb (Some WriteFailed) ?w"
      let ?t = "semit (sentBuffers env (ss_ProtocolVersion (s_settings s)) pack)
        (semit [ReturnBytes (si_transferFrameBytes (send_item ?w p))] ?a)"
      have sw: "same_send ?w ?a" by simp
      have st': "s_settings ?a = s_settings s" using sw s(1) by (simp add: same_send_def)
      have "sendWithSetContract env now ok frame cb ack setC s = Some ?t"
        using False \<open>\<not> a\<close> p r st' by (simp add: sendWithSetContract_unfold a [symmetric] Let_def pack_def u_def semit_def)
      moreover have "ss_core env F ps (set ps) e ?a"
        using core_extra_mono [OF w, of e] charge_pos [OF st, of ?b] same_send_core [OF sw] by simp
      then have "ss_core env F ps (set ps) e ?t" by (intro core_semit) simp_all
      moreover have "send_step s ?a" by (rule send_step_trans [OF s(2) same_stream_step [OF same_send_stream [OF sw]]])
      then have "send_step s ?t" using send_step_trans send_step_semit by blast
      moreover have "sendItems ?t = ps" "s_nextPtr ?t = p + 1" using sw s by (simp_all add: semit_def same_send_def)
      ultimately show ?thesis using False \<open>\<not> a\<close> s(4) by (simp add: sent_stream_def)
    qed
  qed
qed

section \<open>Paying\<close>

text \<open>Changes of the contracts that keep the charges covered.\<close>

lemma contracts_alloc:
  assumes ok: "send_contracts_ok env B extra s" and p: "p = s_nextPtr s"
  shows "send_contracts_ok env B extra (s\<lparr>sendContracts := (sendContracts s)(p := k), s_nextPtr := p + 1\<rparr>)" (is "send_contracts_ok _ _ _ ?t")
proof -
  have below: "c < p" if "(i, c) \<in> set (openSendContracts s)" for i c
    using ok that p unfolding send_contracts_ok_def by fast
  have same: "sendContracts ?t c = sendContracts s c" if "c < p" for c using that by simp
  have ch: "charged ?t B i = charged s B i" for i by (simp add: charged_def)
  show ?thesis
  proof (rule send_contracts_okI)
    show "finite B" "distinct (map fst (openSendContracts ?t))" using ok by (simp_all add: send_contracts_ok_def)
    fix i c assume "(i, c) \<in> set (openSendContracts ?t)"
    then have c: "(i, c) \<in> set (openSendContracts s)" by simp
    then show "contractId (sendContracts ?t c) = i \<and> contract_ok (sendContracts ?t c) \<and>
        minUpdateByteCount (sendContracts ?t c) = ss_MinMessageByteCount (s_settings ?t) \<and> c < s_nextPtr ?t"
      using ok same [OF below [OF c]] below [OF c] unfolding send_contracts_ok_def by fastforce
    have "charged s B i + (if sendContract s = Some c then extra else 0) \<le> unackedByteCount (sendContracts s c)"
      using ok c unfolding send_contracts_ok_def by fast
    then show "charged ?t B i + (if sendContract ?t = Some c then extra else 0) \<le> unackedByteCount (sendContracts ?t c)"
      using same [OF below [OF c]] ch [of i] by simp
  next
    fix c assume "sendContract ?t = Some c"
    then have c: "(contractId (sendContracts s c), c) \<in> set (openSendContracts s)"
      using ok by (simp add: send_contracts_ok_def)
    then show "(contractId (sendContracts ?t c), c) \<in> set (openSendContracts ?t)"
      using same [OF below [OF c]] by simp
  next
    show "case si_contractId (send_item ?t q) of None \<Rightarrow> True | Some i \<Rightarrow> i \<in> fst ` set (openSendContracts ?t)" if "q \<in> B" for q
      using ok that by (auto simp: send_contracts_ok_def split: option.splits)
    show "sendContract ?t = None" if "s_noContract env ?t"
      using that ok by (simp add: send_contracts_ok_def s_noContract_def)
  qed
qed

lemma contracts_swap:
  assumes ok: "send_contracts_ok env B extra s" and c: "sendContract s = Some c"
    and d: "contract_ok d" "contract_static d = contract_static (sendContracts s c)"
      "unackedByteCount d = unackedByteCount (sendContracts s c) + n" and n: "0 \<le> n"
  shows "send_contracts_ok env B (extra + n) (s\<lparr>sendContracts := (sendContracts s)(c := d)\<rparr>)" (is "send_contracts_ok _ _ _ ?t")
proof (rule send_contracts_okI)
  note ds = contract_static_fields [OF d(2)]
  have ch: "charged ?t B i = charged s B i" for i by (simp add: charged_def)
  show "finite B" "distinct (map fst (openSendContracts ?t))" using ok by (simp_all add: send_contracts_ok_def)
  fix i c' assume "(i, c') \<in> set (openSendContracts ?t)"
  then have c': "(i, c') \<in> set (openSendContracts s)" by simp
  then have f: "contractId (sendContracts s c') = i \<and> contract_ok (sendContracts s c') \<and>
      minUpdateByteCount (sendContracts s c') = ss_MinMessageByteCount (s_settings s) \<and> c' < s_nextPtr s"
    "charged s B i + (if sendContract s = Some c' then extra else 0) \<le> unackedByteCount (sendContracts s c')"
    using ok unfolding send_contracts_ok_def by fast+
  show "contractId (sendContracts ?t c') = i \<and> contract_ok (sendContracts ?t c') \<and>
      minUpdateByteCount (sendContracts ?t c') = ss_MinMessageByteCount (s_settings ?t) \<and> c' < s_nextPtr ?t"
    using f(1) d(1) ds by (cases "c' = c") simp_all
  show "charged ?t B i + (if sendContract ?t = Some c' then extra + n else 0) \<le> unackedByteCount (sendContracts ?t c')"
    using f(2) d(3) c by (simp add: ch split: if_splits)
next
  note ds = contract_static_fields [OF d(2)]
  show "(contractId (sendContracts ?t c'), c') \<in> set (openSendContracts ?t)" if "sendContract ?t = Some c'" for c'
    using that ok ds(1) c by (simp add: send_contracts_ok_def)
  show "case si_contractId (send_item ?t q) of None \<Rightarrow> True | Some i \<Rightarrow> i \<in> fst ` set (openSendContracts ?t)" if "q \<in> B" for q
    using ok that by (auto simp: send_contracts_ok_def split: option.splits)
  show "sendContract ?t = None" if "s_noContract env ?t"
    using that ok by (simp add: send_contracts_ok_def s_noContract_def)
qed

lemma update_new: "i \<notin> fst ` set al \<Longrightarrow> AList.update i c al = al @ [(i, c)]"
  by (induction al) auto

lemma contracts_forget:
  "send_contracts_ok env B extra s \<Longrightarrow> send_contracts_ok env B 0 (s\<lparr>sendContract := None\<rparr>)"
  if "0 \<le> extra"
proof -
  assume ok: "send_contracts_ok env B extra s"
  let ?t = "s\<lparr>sendContract := None\<rparr>"
  have ch: "charged ?t B i = charged s B i" for i by (simp add: charged_def)
  have "charged ?t B i + (if sendContract ?t = Some c then 0 else 0) \<le> unackedByteCount (sendContracts ?t c)"
    if "(i, c) \<in> set (openSendContracts ?t)" for i c
  proof -
    have "charged s B i + (if sendContract s = Some c then extra else 0) \<le> unackedByteCount (sendContracts s c)"
      using ok that unfolding send_contracts_ok_def by fastforce
    then show ?thesis using \<open>0 \<le> extra\<close> by (simp add: ch split: if_splits)
  qed
  then show ?thesis
    using ok by (intro send_contracts_okI) (auto simp: send_contracts_ok_def split: option.splits)
qed

lemma contracts_open:
  assumes ok: "send_contracts_ok env B 0 (s\<lparr>sendContract := None\<rparr>)" and i: "i \<notin> fst ` set (openSendContracts s)"
    and c: "contractId (sendContracts s c) = i" "contract_ok (sendContracts s c)" "c < s_nextPtr s"
      "minUpdateByteCount (sendContracts s c) = ss_MinMessageByteCount (s_settings s)"
    and extra: "extra \<le> unackedByteCount (sendContracts s c)" "\<not> s_noContract env s"
  shows "send_contracts_ok env B extra (s\<lparr>openSendContracts := AList.update i c (openSendContracts s),
    sendContract := Some c, sendContractAcked := False\<rparr>)" (is "send_contracts_ok _ _ _ ?t")
proof -
  let ?u = "s\<lparr>sendContract := None\<rparr>"
  have upd: "AList.update i c (openSendContracts s) = openSendContracts s @ [(i, c)]" by (rule update_new [OF i])
  have ch: "charged ?t B j = charged ?u B j" for j by (simp add: charged_def)
  have "{p \<in> B. si_contractId (send_item ?u p) = Some i} = {}"
    using ok i by (auto simp: send_contracts_ok_def split: option.splits)
  then have zero: "charged ?u B i = 0" unfolding charged_def by (simp only: sum.empty)
  have old: "charged ?u B j \<le> unackedByteCount (sendContracts s d)" "0 \<le> unackedByteCount (sendContracts s d)"
    "contractId (sendContracts s d) = j"
    if "(j, d) \<in> set (openSendContracts s)" for j d
    using ok that unfolding send_contracts_ok_def contract_ok_def by fastforce+
  show ?thesis
  proof (rule send_contracts_okI)
    show "finite B" "distinct (map fst (openSendContracts ?t))"
      using ok i by (auto simp: send_contracts_ok_def upd)
    fix j d assume "(j, d) \<in> set (openSendContracts ?t)"
    then have d: "(j, d) \<in> set (openSendContracts s) \<or> j = i \<and> d = c" by (auto simp: upd)
    then show "contractId (sendContracts ?t d) = j \<and> contract_ok (sendContracts ?t d) \<and>
        minUpdateByteCount (sendContracts ?t d) = ss_MinMessageByteCount (s_settings ?t) \<and> d < s_nextPtr ?t"
      using ok c unfolding send_contracts_ok_def by fastforce
    show "charged ?t B j + (if sendContract ?t = Some d then extra else 0) \<le> unackedByteCount (sendContracts ?t d)"
      using d
    proof
      assume d: "(j, d) \<in> set (openSendContracts s)"
      then have "d \<noteq> c" using old(3) [OF d] c(1) i by force
      then show ?thesis using old(1) [OF d] by (simp add: ch)
    qed (use zero extra(1) in \<open>simp add: ch\<close>)
  next
    show "(contractId (sendContracts ?t d), d) \<in> set (openSendContracts ?t)" if "sendContract ?t = Some d" for d
      using that c(1) upd by auto
    show "case si_contractId (send_item ?t q) of None \<Rightarrow> True | Some j \<Rightarrow> j \<in> fst ` set (openSendContracts ?t)" if "q \<in> B" for q
      using ok that by (auto simp: send_contracts_ok_def upd split: option.splits)
    show "sendContract ?t = None" if "s_noContract env ?t"
      using that extra(2) by (simp add: s_noContract_def)
  qed
qed

text \<open>\<open>setContract\<close> closes the old contract when nothing of it is unacked, and opens the new one.\<close>

lemma s_setContract_ok:
  assumes ok: "send_contracts_ok env B 0 s" and st: "send_settings_ok (s_settings s)"
    and i: "contractId (sendContracts s c) \<notin> fst ` set (openSendContracts s)"
    and c: "contract_ok (sendContracts s c)" "c < s_nextPtr s"
      "minUpdateByteCount (sendContracts s c) = ss_MinMessageByteCount (s_settings s)"
    and extra: "extra \<le> unackedByteCount (sendContracts s c)" "\<not> s_noContract env s"
  shows "send_contracts_ok env B extra (s_setContract c s) \<and> same_stream s (s_setContract c s) \<and>
    outcomes (s_log (s_setContract c s)) = outcomes (s_log s) \<and> sendContract (s_setContract c s) = Some c \<and>
    sendContractAcked (s_setContract c s) = False"
proof -
  define u where "u = (case sendContract s of None \<Rightarrow> s
    | Some k \<Rightarrow> if unackedByteCount (sendContracts s k) = 0 then closeSendContract k s else s)"
  have set: "s_setContract c s = u\<lparr>openSendContracts := AList.update (contractId (sendContracts u c)) c (openSendContracts u),
      sendContract := Some c, sendContractAcked := False\<rparr>"
    by (simp add: s_setContract_def u_def Let_def)
  have su: "same_stream s u" "outcomes (s_log u) = outcomes (s_log s)" "sendContracts u = sendContracts s"
    by (auto simp: u_def same_stream_def same_stream_close [unfolded same_stream_def] split: option.splits)
  have sub: "fst ` set (openSendContracts u) \<subseteq> fst ` set (openSendContracts s)"
    by (auto simp: u_def AList.delete_eq split: option.splits)
  have u: "send_contracts_ok env B 0 (u\<lparr>sendContract := None\<rparr>)"
  proof (cases "sendContract s")
    case None
    then show ?thesis using contracts_forget [OF _ ok] by (simp add: u_def)
  next
    case (Some k)
    let ?s = "s\<lparr>sendContract := None\<rparr>"
    have s: "send_contracts_ok env B 0 ?s" using contracts_forget [OF _ ok] by simp
    have k: "(contractId (sendContracts s k), k) \<in> set (openSendContracts s)" using ok Some by (simp add: send_contracts_ok_def)
    have "(closeSendContract k s)\<lparr>sendContract := None\<rparr> = closeSendContract k ?s"
      by (cases s) (simp add: closeSendContract_def semit_def Let_def)
    then show ?thesis
      using close_contract_ok [OF s _ _ _ _, of "contractId (sendContracts s k)" k] k st s Some by (simp add: u_def)
  qed
  have "send_contracts_ok env B extra (s_setContract c s)"
    unfolding set by (rule contracts_open [OF u]) (use i c extra su sub s_noContract_cong [of u s env] in
      \<open>auto simp: same_stream_def\<close>)
  moreover have "same_stream s (s_setContract c s)" using su(1) by (simp add: set same_stream_def)
  ultimately show ?thesis using su(2) by (simp add: set)
qed

text \<open>
  What paying does: at most one message is added to the stream, the one with the new contract; it has no frames
  and its answer goes to no caller. Afterwards \<open>e\<close> bytes are charged for the message to come.
\<close>

definition paid :: "send_env \<Rightarrow> stream \<Rightarrow> stream \<Rightarrow> int \<Rightarrow> SendSequence \<Rightarrow> SendSequence \<Rightarrow> bool" where
  "paid env F F' e s t \<longleftrightarrow> ss_core env F' (sendItems t) (set (sendItems t)) e t \<and> send_step s t \<and>
     outcomes (s_log t) = outcomes (s_log s) \<and> s_nextPtr t + 2 * length F \<le> s_nextPtr s + 2 * length F' \<and>
     (F' = F \<and> sendItems t = sendItems s \<or>
      (\<exists>p c. F' = F @ [(p, [])] \<and> sendItems t = sendItems s @ [p] \<and> si_ackCallback (send_item t p) = ContractCallback c))"

lemma MessageByteCount_Nil [simp]: "MessageByteCount [] = 0"
  by (simp add: MessageByteCount_def)

text \<open>Addresses and sequence numbers for \<open>n\<close> more messages are left.\<close>

definition room :: "nat \<Rightarrow> stream \<Rightarrow> SendSequence \<Rightarrow> bool" where
  "room n F s \<longleftrightarrow> length F + n < 2 ^ 64 \<and> s_nextPtr s + n < idCount"

lemma paid_none: "ss_inv env F s \<Longrightarrow> paid env F F 0 s s"
  by (simp add: paid_def ss_inv_def)

lemma core_new_contract:
  assumes core: "ss_core env F ps A x s" and p: "p = s_nextPtr s"
    and con: "send_contracts_ok env (set ps) extra (s\<lparr>sendContracts := cs, s_nextPtr := p + 1\<rparr>)"
  shows "ss_core env F ps A extra (s\<lparr>sendContracts := cs, s_nextPtr := p + 1\<rparr>)"
proof -
  have "items_ok env F ps A (s\<lparr>sendContracts := cs, s_nextPtr := p + 1\<rparr>)"
    using core_items [OF core] p unfolding items_ok_def by (auto simp: less_Suc_eq)
  then show ?thesis using core con by (simp add: ss_core_def rtt_part_def)
qed

lemma setNextContract_ok:
  assumes inv: "ss_inv env F s" and env: "send_env_ok env" and len: "room 1 F s"
    and b: "b \<le> maxMessageByteCount" and pay: "\<not> s_noContract env s"
  shows "\<exists>t ok F'. setNextContract env a b c s = Some (t, ok) \<and> (\<not> ok \<longrightarrow> F' = F) \<and>
    paid env F F' (if ok then charge (s_settings s) b else 0) s t"
proof -
  have core: "ss_core env F (sendItems s) (set (sendItems s)) 0 s" using inv by (simp add: ss_inv_def)
  note st = core_settings [OF core]
  let ?st = "s_settings s" and ?p = "s_nextPtr s"
  let ?new = "newSequenceContract (unmarshalStoredContract env) (newId env ?p) ''s'' c
    (ss_MinMessageByteCount ?st) (ss_ContractFillFraction ?st)"
  show ?thesis
  proof (cases ?new)
    case (Inl x)
    then show ?thesis using paid_none [OF inv] by (auto simp: setNextContract_def)
  next
    case (Inr k)
    have k: "contract_ok k" "unackedByteCount k = 0" "minUpdateByteCount k = ss_MinMessageByteCount ?st"
      using contract_ok_new_fraction [OF Inr] st env by (auto simp: send_settings_ok_def send_env_ok_def)
    obtain k1 first where k1: "contract_update k 0 = (k1, first)" by (cases "contract_update k 0")
    obtain k2 second where k2: "contract_update k1 b = (k2, second)" by (cases "contract_update k1 b")
    show ?thesis
    proof (cases "map_of (openSendContracts s) (contractId k) = None \<and> first \<and> second")
      case False
      have "paid env F F 0 s (semit [CloseSendContract (contractId k1) 0 0] s)"
        using core_semit [OF core, of "[CloseSendContract (contractId k1) 0 0]"] by (simp add: paid_def) (simp add: semit_def)
      moreover have "setNextContract env a b c s = Some (s, False) \<or>
          setNextContract env a b c s = Some (semit [CloseSendContract (contractId k1) 0 0] s, False)"
        using False by (auto simp: setNextContract_def Inr k1 k2)
      ultimately show ?thesis using paid_none [OF inv] by auto
    next
      case True
      note u1 = contract_update_ok [OF k(1) _ k1] and u2 = contract_update_ok [OF _ b k2]
      have k1': "contract_ok k1" "contract_static k1 = contract_static k" "unackedByteCount k1 = charge ?st 0"
        using u1 True k(2,3) by (simp_all add: maxMessageByteCount_def effectiveByteCount_def charge_def)
      note s1 = contract_static_fields [OF k1'(2)]
      have k2': "contract_ok k2" "contract_static k2 = contract_static k" "unackedByteCount k2 = charge ?st 0 + charge ?st b"
        using u2 True k1' k(3) s1 by (simp_all add: effectiveByteCount_def charge_def)
      note s2 = contract_static_fields [OF k2'(2)]
      let ?e = "charge ?st 0 + charge ?st b"
      define v where "v = s\<lparr>sendContracts := (sendContracts s)(?p := k2), s_nextPtr := ?p + 1\<rparr>"
      define w where "w = s_setContract ?p v"
      have v: "send_contracts_ok env (set (sendItems s)) 0 v"
        unfolding v_def by (rule contracts_alloc [OF _ refl]) (use core in \<open>simp add: ss_core_def\<close>)
      have cv: "ss_core env F (sendItems s) (set (sendItems s)) 0 v"
        using core_new_contract [OF core refl, where cs = "(sendContracts s)(?p := k2)"] v by (simp add: v_def)
      have sv: "send_step s v" "sendItems v = sendItems s" "s_settings v = s_settings s" "s_nextPtr v = ?p + 1"
          "outcomes (s_log v) = outcomes (s_log s)"
        by (simp_all add: send_step_def kept_items_def v_def)
      have "contractId k \<notin> fst ` set (openSendContracts s)" using True by (auto simp: map_of_eq_None_iff)
      then have w: "send_contracts_ok env (set (sendItems s)) ?e w" "same_stream v w"
          "outcomes (s_log w) = outcomes (s_log v)" "sendContract w = Some ?p" "sendContractAcked w = False"
        using s_setContract_ok [OF v, of ?p ?e] st k2' s2 k(3) pay s_noContract_cong [of v s env]
        by (simp_all add: w_def v_def)
      note sw = send_step_trans [OF sv(1) same_stream_step [OF w(2)]]
      have w': "s_settings w = s_settings s" "sendItems w = sendItems s" "s_nextPtr w = ?p + 1"
        using w(2) sv by (simp_all add: same_stream_def)
      have cw: "ss_core env F (sendItems s) (set (sendItems s)) (charge (s_settings w) (MessageByteCount (frames_of None)) + charge ?st b) w"
        using same_stream_core [OF w(2) cv w(1)] w'(1) by (simp add: frames_of_def)
      have pos: "0 \<le> charge ?st b" using charge_pos [OF st] by (simp add: less_imp_le)
      have num: "numbered True w" by (simp add: numbered_def)
      have fr: "frame_ok (frames_of None)" "sendItems w = sendItems s"
        using w'(2) by (simp_all add: frame_ok_def frames_of_def maxMessageByteCount_def)
      have wr: "length F + 1 < 2 ^ 64" "s_nextPtr w < idCount" using len w'(3) by (simp_all add: room_def)
      obtain t where t: "sendWithSetContract env (at_now a) (at_writeOk a) None (ContractCallback ?p) True True w = Some t"
          "ss_core env (F @ [(s_nextPtr w, [])]) (sendItems s @ [s_nextPtr w]) (set (sendItems s @ [s_nextPtr w])) (charge ?st b) t"
          "sendItems t = sendItems s @ [s_nextPtr w]" "send_step w t" "outcomes (s_log t) = outcomes (s_log w)"
          "si_ackCallback (send_item t (s_nextPtr w)) = ContractCallback ?p" "s_nextPtr t = s_nextPtr w + 1"
        using sendWithSetContract_ok [OF cw env wr(1) fr(2) pos fr(1) refl refl wr(2),
            where ack = True and now = "at_now a" and ok = "at_writeOk a" and cb = "ContractCallback ?p" and setC = True] num
        by (auto simp: sent_stream_def frames_of_def)
      have "paid env F (F @ [(s_nextPtr w, [])]) (charge ?st b) s t"
        using t(2-) w(3) w'(3) sv(5) send_step_trans [OF sw t(4)] by (simp add: paid_def)
      moreover have "setNextContract env a b c s = Some (t, True)"
        using True Inr k1 k2 t(1) by (simp add: setNextContract_def v_def w_def Let_def)
      ultimately show ?thesis by auto
    qed
  qed
qed

lemma paid_semit:
  assumes "paid env F F' e s t" "writes es = []" "outcomes es = []"
  shows "paid env F F' e s (semit es t)"
proof -
  have "send_step s (semit es t)" using assms(1) send_step_trans send_step_semit by (fastforce simp: paid_def)
  moreover have "ss_core env F' (sendItems t) (set (sendItems t)) e (semit es t)"
    using assms core_semit by (simp add: paid_def)
  ultimately show ?thesis using assms(1,3) by (simp add: paid_def) (simp add: semit_def)
qed

lemma paid_index: "paid env F F' e s t \<Longrightarrow> paid env F F' e s (t\<lparr>contractSeqIndex := j\<rparr>)"
  by (simp add: paid_def send_step_def kept_items_def)

lemma paid_inv: "paid env F F 0 s t \<Longrightarrow> ss_inv env F t"
  unfolding paid_def ss_inv_def by blast

lemma paid_settings: "paid env F F' e s t \<Longrightarrow> s_settings t = s_settings s"
  by (simp add: paid_def send_step_def)

lemma paid_trans:
  assumes "paid env F F 0 s t" "sendItems t = sendItems s" "paid env F F' e t u"
  shows "paid env F F' e s u"
  using assms send_step_trans [of s t u] by (auto simp: paid_def)

lemma paid_room: "paid env F F e s t \<Longrightarrow> room n F s \<Longrightarrow> room n F t"
  by (simp add: paid_def room_def)

lemma paid_room_ptr: "paid env F F e s t \<Longrightarrow> s_nextPtr t \<le> s_nextPtr s"
  by (simp add: paid_def)

lemma paid_same: "paid env F F e s t \<Longrightarrow> sendItems t = sendItems s"
  by (simp add: paid_def)

lemma paid_noContract: "paid env F F' e s t \<Longrightarrow> s_noContract env t = s_noContract env s"
  by (rule s_noContract_cong) (simp_all add: paid_def send_step_def)

lemma nextContract_ok:
  assumes inv: "ss_inv env F s" and env: "send_env_ok env" and len: "room 1 F s"
    and b: "b \<le> maxMessageByteCount" and pay: "\<not> s_noContract env s"
  shows "\<exists>t ok F'. nextContract env a b s = Some (t, ok) \<and> (\<not> ok \<longrightarrow> F' = F) \<and>
    paid env F F' (if ok then charge (s_settings s) b else 0) s t"
proof (cases "at_contract a")
  case None
  then show ?thesis using paid_none [OF inv] by (auto simp: nextContract_def)
next
  case (Some c)
  obtain t ok F' where t: "setNextContract env a b c s = Some (t, ok)" "\<not> ok \<longrightarrow> F' = F"
      "paid env F F' (if ok then charge (s_settings s) b else 0) s t"
    using setNextContract_ok [OF assms] by blast
  show ?thesis
  proof (cases ok)
    case True
    have "paid env F F' (charge (s_settings s) b) s (semit [CreateContract k m n] (t\<lparr>contractSeqIndex := j\<rparr>))" for k m n j
      using t(3) True by (intro paid_semit paid_index) simp_all
    then show ?thesis using Some t(1) True by (simp add: nextContract_def Let_def) blast
  next
    case False
    then show ?thesis using Some t by (simp add: nextContract_def) blast
  qed
qed

lemma retryContract_ok:
  assumes "ss_inv env F s" and env: "send_env_ok env" and b: "b \<le> maxMessageByteCount"
    and "\<not> s_noContract env s" "room 1 F s"
  shows "\<exists>t ok F'. retryContract env endTime b as s = Some (t, ok) \<and> (\<not> ok \<longrightarrow> F' = F) \<and>
    paid env F F' (if ok then charge (s_settings s) b else 0) s t"
  using assms(1,4,5)
proof (induction as arbitrary: s)
  case Nil
  then show ?case using paid_none by fastforce
next
  case (Cons a as)
  show ?case
  proof (cases "at_done a \<or> endTime - at_now a \<le> 0")
    case True
    then show ?thesis using paid_none [OF Cons.prems(1)] by auto
  next
    case False
    define u where "u = semit [CreateContract (s_contractKey s) (contractSeqIndex s)
      (requestByteCount (int64 (int64 (b + b) + ss_MinMessageByteCount (s_settings s))) (ss_ContractFillFraction (s_settings s)))] s"
    have u: "paid env F F 0 s u" unfolding u_def by (intro paid_semit paid_none [OF Cons.prems(1)]) simp_all
    note su = paid_settings [OF u] paid_same [OF u]
    have pay: "\<not> s_noContract env u" using Cons.prems(2) paid_noContract [OF u] by simp
    obtain t ok F' where t: "nextContract env a b u = Some (t, ok)" "\<not> ok \<longrightarrow> F' = F"
        "paid env F F' (if ok then charge (s_settings u) b else 0) u t"
      using nextContract_ok [OF paid_inv [OF u] env paid_room [OF u Cons.prems(3)] b pay] by blast
    have st: "paid env F F' (if ok then charge (s_settings s) b else 0) s t"
      using paid_trans [OF u su(2) t(3)] unfolding su(1) .
    show ?thesis
    proof (cases ok)
      case True
      then show ?thesis using False t(1) st by (simp add: u_def Let_def) blast
    next
      case no: False
      then have tF: "paid env F F 0 s t" using st t(2) by simp
      have "\<not> s_noContract env t" using Cons.prems(2) paid_noContract [OF tF] by simp
      from Cons.IH [OF paid_inv [OF tF] this paid_room [OF tF Cons.prems(3)]] obtain v ok' G where
          v: "retryContract env endTime b as t = Some (v, ok')" "\<not> ok' \<longrightarrow> G = F"
            "paid env F G (if ok' then charge (s_settings t) b else 0) t v" by blast
      have "paid env F G (if ok' then charge (s_settings s) b else 0) s v"
        using paid_trans [OF tF paid_same [OF tF] v(3)] unfolding paid_settings [OF tF] .
      moreover have "retryContract env endTime b (a # as) s = Some (v, ok')"
        using False no t(1) v(1) by (simp add: u_def Let_def)
      ultimately show ?thesis using v(2) by blast
    qed
  qed
qed

text \<open>A message fits when a standard contract can pay for it.\<close>

definition fits :: "send_env \<Rightarrow> SendBufferSettings \<Rightarrow> ByteCount \<Rightarrow> bool" where
  "fits env st b \<longleftrightarrow> int64 (b + ss_MinMessageByteCount st) \<le>
     floatToInt64 (float32 (float32 (of_int (standardContractTransferByteCount env)) * ss_ContractFillFraction st))"

lemma createContract_ok:
  assumes inv: "ss_inv env F s" and env: "send_env_ok env" and len: "room 1 F s"
    and b: "b \<le> maxMessageByteCount" and pay: "\<not> s_noContract env s" and fits: "fits env (s_settings s) b"
  shows "\<exists>t ok F'. createContract env now a as b s = Some (t, ok) \<and> (\<not> ok \<longrightarrow> F' = F) \<and>
    paid env F F' (if ok then charge (s_settings s) b else 0) s t"
proof -
  obtain t ok F' where t: "nextContract env a b s = Some (t, ok)" "\<not> ok \<longrightarrow> F' = F"
      "paid env F F' (if ok then charge (s_settings s) b else 0) s t"
    using nextContract_ok [OF inv env len b pay] by blast
  have small: "\<not> floatToInt64 (float32 (float32 (of_int (standardContractTransferByteCount env)) * ss_ContractFillFraction (s_settings s)))
      < int64 (b + ss_MinMessageByteCount (s_settings s))"
    using fits by (simp add: fits_def)
  show ?thesis
  proof (cases ok)
    case True
    then show ?thesis using small t by (simp add: createContract_def) blast
  next
    case no: False
    then have tF: "paid env F F 0 s t" using t(2,3) by simp
    have "\<not> s_noContract env t" using pay paid_noContract [OF tF] by simp
    from retryContract_ok [OF paid_inv [OF tF] env b this paid_room [OF tF len], of "now + ss_CreateContractTimeout (s_settings s)" as]
    obtain u ok' G where u: "retryContract env (now + ss_CreateContractTimeout (s_settings s)) b as t = Some (u, ok')"
        "\<not> ok' \<longrightarrow> G = F" "paid env F G (if ok' then charge (s_settings t) b else 0) t u"
      by blast
    have "paid env F G (if ok' then charge (s_settings s) b else 0) s u"
      using paid_trans [OF tF paid_same [OF tF] u(3)] unfolding paid_settings [OF tF] .
    moreover have "createContract env now a as b s = Some (u, ok')"
      using small no t(1) u(1) paid_settings [OF tF] by (simp add: createContract_def)
    ultimately show ?thesis using u(2) by blast
  qed
qed

lemma s_updateContract_ok:
  assumes inv: "ss_inv env F s" and env: "send_env_ok env" and len: "room 1 F s"
    and b: "b \<le> maxMessageByteCount" and fits: "fits env (s_settings s) b"
  shows "\<exists>t ok F'. s_updateContract env now a as b s = Some (t, ok) \<and> (\<not> ok \<longrightarrow> F' = F) \<and>
    paid env F F' (if ok then charge (s_settings s) b else 0) s t"
proof -
  have core: "ss_core env F (sendItems s) (set (sendItems s)) 0 s" using inv by (simp add: ss_inv_def)
  have con: "send_contracts_ok env (set (sendItems s)) 0 s" using core by (simp add: ss_core_def)
  show ?thesis
  proof (cases "s_noContract env s")
    case True
    then have none: "sendContract s = None" using con by (simp add: send_contracts_ok_def)
    then have "send_contracts_ok env (set (sendItems s)) (charge (s_settings s) b) s"
      by (intro contracts_extra_mono [OF con]) simp
    then have "paid env F F (charge (s_settings s) b) s s" using core by (simp add: paid_def ss_core_def)
    then show ?thesis using True by (auto simp: s_updateContract_def)
  next
    case pay: False
    show ?thesis
    proof (cases "sendContract s")
      case None
      then show ?thesis using createContract_ok [OF inv env len b pay fits] pay by (simp add: s_updateContract_def)
    next
      case (Some c)
      obtain k success where k: "contract_update (sendContracts s c) b = (k, success)" by (cases "contract_update (sendContracts s c) b")
      have c: "contract_ok (sendContracts s c)" "minUpdateByteCount (sendContracts s c) = ss_MinMessageByteCount (s_settings s)"
        using con Some unfolding send_contracts_ok_def by fastforce+
      note u = contract_update_ok [OF c(1) b k]
      let ?n = "if success then charge (s_settings s) b else 0" and ?t = "s\<lparr>sendContracts := (sendContracts s)(c := k)\<rparr>"
      have "0 \<le> ?n" using charge_pos [OF core_settings [OF core], of b] by simp
      then have "send_contracts_ok env (set (sendItems s)) (0 + ?n) ?t"
        using contracts_swap [OF con Some u(1,2), of ?n] u(4) c(2) by (simp add: effectiveByteCount_def charge_def)
      moreover have "same_stream s ?t" by (simp add: same_stream_def)
      ultimately have t: "paid env F F ?n s ?t"
        using same_stream_core [of s ?t, OF _ core] same_stream_step [of s ?t] by (simp add: paid_def)
      show ?thesis
      proof (cases success)
        case True
        then show ?thesis using pay Some k t by (auto simp: s_updateContract_def)
      next
        case False
        then have tF: "paid env F F 0 s ?t" using t by simp
        have "\<not> s_noContract env ?t" "fits env (s_settings ?t) b" using pay paid_noContract [OF tF] fits by simp_all
        from createContract_ok [OF paid_inv [OF tF] env paid_room [OF tF len] b this, of now a as] obtain v ok G where
            v: "createContract env now a as b ?t = Some (v, ok)" "\<not> ok \<longrightarrow> G = F"
              "paid env F G (if ok then charge (s_settings ?t) b else 0) ?t v" by blast
        from paid_trans [OF tF _ v(3)] have "paid env F G (if ok then charge (s_settings s) b else 0) s v"
          unfolding paid_settings [OF tF] by simp
        moreover have "s_updateContract env now a as b s = Some (v, ok)"
          using pay Some k False v(1) by (simp add: s_updateContract_def)
        ultimately show ?thesis using v(2) by blast
      qed
    qed
  qed
qed

section \<open>The answers owed\<close>

text \<open>The callers that got an answer, and those whose message is pending.\<close>

definition ledger :: "SendSequence \<Rightarrow> nat multiset" where
  "ledger s = mset (map fst (outcomes (s_log s))) + mset (map fst (answers s (sendItems s) None))"

definition pack_answers :: "SendPack list \<Rightarrow> nat multiset" where
  "pack_answers packs = mset (concat (map (\<lambda>pack. map fst (answer (sp_AckCallback pack) None)) packs))"

lemma pack_answers_simps [simp]:
  "pack_answers [] = {#}" "pack_answers (pack # packs) = mset (map fst (answer (sp_AckCallback pack) None)) + pack_answers packs"
  "pack_answers (packs @ packs') = pack_answers packs + pack_answers packs'"
  by (simp_all add: pack_answers_def)

lemma answer_fst: "map fst (answer f e) = map fst (answer f None)"
  by (simp add: answer_def split: AckFunction.splits)

lemma answers_fst: "map fst (answers s ps e) = map fst (answers s ps None)"
  by (simp add: answers_def map_concat comp_def answer_fst [of _ e])

lemma ledger_acks:
  assumes "acks_step s t"
  shows "ledger t = ledger s"
proof -
  obtain k where k: "same_ids s t" "sendItems t = drop k (sendItems s)"
      "outcomes (s_log t) = outcomes (s_log s) @ answers s (take k (sendItems s)) None"
    using assms by (auto simp: acks_step_def)
  have "answers s (sendItems s) None = answers s (take k (sendItems s)) None @ answers s (drop k (sendItems s)) None"
    using answers_append [of s "take k (sendItems s)" "drop k (sendItems s)" None] by simp
  then show ?thesis by (simp add: ledger_def k answers_same_ids [OF k(1)])
qed

lemma ledger_resend: "resend_step s t \<Longrightarrow> ledger t = ledger s"
  by (auto simp: ledger_def resend_step_def answers_same_ids)

lemma answers_kept: "kept_items s t \<Longrightarrow> \<forall>p\<in>set ps. p < s_nextPtr s \<Longrightarrow> answers t ps e = answers s ps e"
  by (simp add: answers_def kept_items_def cong: map_cong)

lemma answers_send: "send_step s t \<Longrightarrow> ss_core env F ps A x s \<Longrightarrow> answers t ps e = answers s ps e"
  using pending_below [OF core_items] by (intro answers_kept) (auto simp: send_step_def)

lemma ledger_paid:
  assumes "ss_inv env F s" "paid env F F' e s t"
  shows "ledger t = ledger s"
proof -
  have "answers t (sendItems t) None = answers s (sendItems s) None"
    using assms answers_send [of s t env F "sendItems s" "set (sendItems s)" 0 None]
    by (auto simp: paid_def ss_inv_def answers_def answer_def)
  then show ?thesis using assms(2) by (simp add: ledger_def paid_def)
qed

section \<open>The rounds of the loop\<close>

definition send_pack_ok :: "send_env \<Rightarrow> SendBufferSettings \<Rightarrow> SendPack \<Rightarrow> bool" where
  "send_pack_ok env st pack \<longleftrightarrow> sp_MessageByteCount pack = MessageByteCount [sp_Frame pack] \<and> frame_ok [sp_Frame pack] \<and>
     fits env st (sp_MessageByteCount pack)"

text \<open>
  The frames of the stream grow by those of the packs taken; a pack may be missing only when it asked for no
  ack, or when the sequence stopped at it.
\<close>

definition stream_frames :: "stream \<Rightarrow> Frame list" where
  "stream_frames F = concat (map snd F)"

definition grown :: "SendPack list \<Rightarrow> bool \<Rightarrow> stream \<Rightarrow> stream \<Rightarrow> bool" where
  "grown taken stopped F F' \<longleftrightarrow> (\<exists>fs. stream_frames F' = stream_frames F @ fs \<and> subseq fs (map sp_Frame taken) \<and>
     ((\<forall>pack\<in>set taken. to_Ack (sp_TransferOptions pack)) \<longrightarrow>
       prefix fs (map sp_Frame taken) \<and> (\<not> stopped \<longrightarrow> fs = map sp_Frame taken))) \<and> prefix F F'"

lemma grown_refl [simp]: "grown [] stopped F F"
  by (simp add: grown_def)

lemma paid_frames:
  assumes "paid env F F' e s t"
  shows "stream_frames F' = stream_frames F" "prefix F F'" "length F' \<le> length F + 1"
  using assms by (auto simp: paid_def stream_frames_def)

text \<open>
  The callers that were told of success, in order, and those whose message is pending. As long as every message
  is to be acked, they are those of the packs taken, in order; and as many callers were told of success as
  there are frames in the acked part of the stream.
\<close>

definition confirmed :: "SendSequence \<Rightarrow> nat list" where
  "confirmed s = map fst (filter (\<lambda>(n, e). e = None) (outcomes (s_log s)))"

definition owed :: "SendSequence \<Rightarrow> nat list" where
  "owed s = map fst (answers s (sendItems s) None)"

definition pack_ids :: "SendPack list \<Rightarrow> nat list" where
  "pack_ids packs = concat (map (\<lambda>pack. map fst (answer (sp_AckCallback pack) None)) packs)"

lemma pack_ids_Nil [simp]: "pack_ids [] = []"
  by (simp add: pack_ids_def)

definition asked :: "SendPack \<Rightarrow> bool" where
  "asked pack \<longleftrightarrow> to_Ack (sp_TransferOptions pack) \<and> (\<exists>n. sp_AckCallback pack = UserCallback n)"

definition acked_count :: "stream \<Rightarrow> SendSequence \<Rightarrow> nat" where
  "acked_count F s = length F - length (sendItems s)"

definition tally :: "stream \<Rightarrow> SendSequence \<Rightarrow> bool" where
  "tally F s \<longleftrightarrow> length (sendItems s) \<le> length F \<and>
     map (\<lambda>p. length (answer (si_ackCallback (send_item s p)) None)) (sendItems s) =
       map (\<lambda>x. length (snd x)) (drop (acked_count F s) F) \<and>
     length (confirmed s) = length (stream_frames (take (acked_count F s) F))"

definition promised :: "SendPack list \<Rightarrow> bool \<Rightarrow> stream \<Rightarrow> stream \<Rightarrow> SendSequence \<Rightarrow> SendSequence \<Rightarrow> bool" where
  "promised taken stopped F F' s t \<longleftrightarrow> ((\<forall>pack\<in>set taken. asked pack) \<longrightarrow> tally F s \<longrightarrow> tally F' t \<and>
     (\<exists>is. confirmed t @ owed t = confirmed s @ owed s @ is \<and> prefix is (pack_ids taken) \<and>
       (\<not> stopped \<longrightarrow> is = pack_ids taken)))"

lemma promised_refl [simp]: "promised [] stopped F F s s"
  by (simp add: promised_def)

lemma promised_trans:
  assumes "promised as False F G s u" "promised bs e G H u t"
  shows "promised (as @ bs) e F H s t"
proof -
  have "tally H t \<and> (\<exists>is. confirmed t @ owed t = confirmed s @ owed s @ is \<and> prefix is (pack_ids (as @ bs)) \<and>
       (\<not> e \<longrightarrow> is = pack_ids (as @ bs)))" if all: "\<forall>pack\<in>set (as @ bs). asked pack" "tally F s"
  proof -
    have u: "tally G u" "confirmed u @ owed u = confirmed s @ owed s @ pack_ids as"
      using assms(1) all by (auto simp: promised_def)
    then obtain js where "tally H t" "confirmed t @ owed t = confirmed u @ owed u @ js" "prefix js (pack_ids bs)"
        "\<not> e \<longrightarrow> js = pack_ids bs"
      using assms(2) all by (auto simp: promised_def)
    then show ?thesis using u(2) by (intro conjI exI [of _ "pack_ids as @ js"]) (auto simp: pack_ids_def)
  qed
  then show ?thesis by (simp add: promised_def)
qed

text \<open>What does not change the callbacks, the pending messages and the answers given.\<close>

lemma promised_same:
  assumes "sendItems t = sendItems s" "outcomes (s_log t) = outcomes (s_log s)"
    "\<forall>p\<in>set (sendItems s). si_ackCallback (send_item t p) = si_ackCallback (send_item s p)"
  shows "promised [] stopped F F s t"
proof -
  have "confirmed t = confirmed s" "owed t = owed s"
    using assms by (simp_all add: confirmed_def owed_def answers_def cong: map_cong)
  moreover have "tally F t = tally F s"
    using assms by (simp add: tally_def acked_count_def confirmed_def cong: map_cong)
  ultimately show ?thesis by (simp add: promised_def pack_ids_def)
qed

lemma answers_length:
  "length (answers s ps None) = sum_list (map (\<lambda>p. length (answer (si_ackCallback (send_item s p)) None)) ps)"
  by (simp add: answers_def length_concat comp_def)

lemma stream_frames_length: "length (stream_frames F) = sum_list (map (\<lambda>x. length (snd x)) F)"
  by (simp add: stream_frames_def length_concat comp_def)

lemma promised_acks:
  assumes "acks_step s t"
  shows "promised [] stopped F F s t"
proof -
  obtain k where k: "same_ids s t" "k \<le> length (sendItems s)" "sendItems t = drop k (sendItems s)"
      "outcomes (s_log t) = outcomes (s_log s) @ answers s (take k (sendItems s)) None"
    using assms by (auto simp: acks_step_def)
  have ids: "si_ackCallback (send_item t p) = si_ackCallback (send_item s p)" for p using k(1) by (simp add: same_ids_def)
  have "filter (\<lambda>(n, e). e = None) (answers s ps None) = answers s ps None" for ps
    by (rule filter_True) (auto simp: answers_def answer_def split: AckFunction.splits)
  then have c: "confirmed t = confirmed s @ map fst (answers s (take k (sendItems s)) None)"
    using k(4) by (simp add: confirmed_def)
  moreover have o: "owed t = map fst (answers s (drop k (sendItems s)) None)"
    by (simp add: owed_def answers_same_ids [OF k(1)] k(3))
  moreover have "owed s = map fst (answers s (take k (sendItems s)) None) @ map fst (answers s (drop k (sendItems s)) None)"
    using answers_append [of s "take k (sendItems s)" "drop k (sendItems s)" None] by (simp add: owed_def)
  moreover have "tally F t" if y: "tally F s"
  proof -
    let ?a = "acked_count F s" and ?l = "\<lambda>p. length (answer (si_ackCallback (send_item s p)) None)"
    have y': "length (sendItems s) \<le> length F" "map ?l (sendItems s) = map (\<lambda>x. length (snd x)) (drop ?a F)"
      "length (confirmed s) = length (stream_frames (take ?a F))" using y by (simp_all add: tally_def)
    have a: "acked_count F t = ?a + k" using y'(1) k(2,3) by (simp add: acked_count_def)
    have "map ?l (take k (sendItems s)) = map (\<lambda>x. length (snd x)) (take k (drop ?a F))"
      using y'(2) by (simp only: take_map [symmetric])
    then have "length (answers s (take k (sendItems s)) None) = length (stream_frames (take k (drop ?a F)))"
      by (simp only: answers_length stream_frames_length)
    moreover have "take (?a + k) F = take ?a F @ take k (drop ?a F)" by (rule take_add)
    ultimately have "length (confirmed t) = length (stream_frames (take (acked_count F t) F))"
      using y'(3) a by (simp add: c stream_frames_def)
    moreover have "map ?l (drop k (sendItems s)) = map (\<lambda>x. length (snd x)) (drop k (drop ?a F))"
      using y'(2) by (simp only: drop_map [symmetric])
    ultimately show ?thesis using y'(1) k(2,3) a by (simp add: tally_def ids add.commute)
  qed
  ultimately show ?thesis by (simp add: promised_def pack_ids_def)
qed

lemma promised_nil: "promised [] False F F' s t \<Longrightarrow> promised [] e F F' s t"
  by (simp add: promised_def)

text \<open>A message is added to the stream, with as many frames as its callback tells callers.\<close>

lemma tally_append:
  assumes y: "tally F s" and old: "\<forall>p\<in>set (sendItems s). si_ackCallback (send_item t p) = si_ackCallback (send_item s p)"
    and new: "sendItems t = sendItems s @ [p]" "length (answer (si_ackCallback (send_item t p)) None) = length fs"
    and out: "outcomes (s_log t) = outcomes (s_log s)"
  shows "tally (F @ [(p', fs)]) t \<and>
    confirmed t @ owed t = confirmed s @ owed s @ map fst (answer (si_ackCallback (send_item t p)) None)"
proof -
  have c: "confirmed t = confirmed s" using out by (simp add: confirmed_def)
  have "answers t (sendItems s) None = answers s (sendItems s) None" using old by (simp add: answers_def cong: map_cong)
  then have "owed t = owed s @ map fst (answer (si_ackCallback (send_item t p)) None)"
    by (simp add: owed_def new(1)) (simp add: answers_def)
  moreover have a: "acked_count (F @ [(p', fs)]) t = acked_count F s" using y new(1) by (simp add: acked_count_def tally_def)
  moreover have "acked_count F s \<le> length F" by (simp add: acked_count_def)
  moreover have "map (\<lambda>p. length (answer (si_ackCallback (send_item t p)) None)) (sendItems s) =
      map (\<lambda>p. length (answer (si_ackCallback (send_item s p)) None)) (sendItems s)"
    using old by simp
  then have m: "map (\<lambda>p. length (answer (si_ackCallback (send_item t p)) None)) (sendItems s) =
      map (\<lambda>x. length (snd x)) (drop (acked_count F s) F)"
    using y unfolding tally_def by (elim conjE) (rule trans)
  moreover have "length (sendItems s) \<le> length F" "length (confirmed s) = length (stream_frames (take (acked_count F s) F))"
    using y by (simp_all add: tally_def)
  ultimately show ?thesis using new c by (simp add: tally_def m)
qed

lemma promised_paid:
  assumes "ss_inv env F s" "paid env F F' e s t"
  shows "promised [] False F F' s t"
proof -
  have st: "send_step s t" "outcomes (s_log t) = outcomes (s_log s)" using assms(2) by (simp_all add: paid_def)
  have "\<forall>p\<in>set (sendItems s). p < s_nextPtr s"
    using pending_below [of env F "sendItems s" "set (sendItems s)" s] assms(1) by (simp add: ss_inv_def ss_core_def)
  then have old: "\<forall>p\<in>set (sendItems s). si_ackCallback (send_item t p) = si_ackCallback (send_item s p)"
    using st(1) by (simp add: send_step_def kept_items_def)
  consider "F' = F" "sendItems t = sendItems s"
    | p c where "F' = F @ [(p, [])]" "sendItems t = sendItems s @ [p]" "si_ackCallback (send_item t p) = ContractCallback c"
    using assms(2) unfolding paid_def by blast
  then show ?thesis
  proof cases
    case 1
    then show ?thesis using promised_same [OF _ st(2) old] by simp
  next
    case 2
    then show ?thesis using tally_append [OF _ old 2(2) _ st(2), of F "[]" p] by (simp add: promised_def answer_def)
  qed
qed

lemma promised_send:
  assumes "sendItems u = (if n then sendItems t @ [p] else sendItems t)" "n \<longrightarrow> si_ackCallback (send_item u p) = sp_AckCallback pack"
    "outcomes (s_log u) = outcomes (s_log t) @ (if n then [] else out)" "asked pack \<longrightarrow> n"
    "\<forall>p\<in>set (sendItems t). si_ackCallback (send_item u p) = si_ackCallback (send_item t p)"
  shows "promised [pack] False F (sent_stream n p (Some f) F) t u"
proof -
  have "tally (F @ [(p, [f])]) u \<and> confirmed u @ owed u = confirmed t @ owed t @ pack_ids [pack]" if "asked pack" "tally F t"
    using tally_append [OF that(2) assms(5), of p "[f]" p] assms(1-4) that(1) by (auto simp: asked_def answer_def pack_ids_def)
  moreover have "asked pack \<longrightarrow> sent_stream n p (Some f) F = F @ [(p, [f])]"
    using assms(4) by (simp add: sent_stream_def frames_of_def)
  ultimately show ?thesis by (auto simp: promised_def)
qed

lemma promised_refuse:
  assumes "sendItems u = sendItems t" "outcomes (s_log u) = outcomes (s_log t) @ answer f (Some err)"
    "\<forall>p\<in>set (sendItems t). si_ackCallback (send_item u p) = si_ackCallback (send_item t p)"
  shows "promised [pack] True F F t u"
proof -
  have "filter (\<lambda>(n, e). e = None) (answer f (Some err)) = []" by (auto simp: answer_def split: AckFunction.splits)
  then have "confirmed u = confirmed t" using assms(2) by (simp add: confirmed_def)
  moreover have "owed u = owed t" using assms(1,3) by (simp add: owed_def answers_def cong: map_cong)
  moreover have "tally F u = tally F t"
    using assms(1,3) \<open>confirmed u = confirmed t\<close> by (simp add: tally_def acked_count_def cong: map_cong)
  ultimately show ?thesis by (simp add: promised_def)
qed

lemma promised_resend: "resend_step s t \<Longrightarrow> promised [] stopped F F s t"
  by (rule promised_same) (auto simp: resend_step_def same_ids_def)

text \<open>One step of a run: the invariant, the answers owed and the growth of the stream.\<close>

definition run_step :: "send_env \<Rightarrow> stream \<Rightarrow> stream \<Rightarrow> nat \<Rightarrow> send_exit option \<Rightarrow> SendSequence \<Rightarrow> SendSequence \<Rightarrow> bool" where
  "run_step env F F' n e s t \<longleftrightarrow> ss_inv env F' t \<and> s_settings t = s_settings s \<and> length F' \<le> length F + n \<and> s_nextPtr t \<le> s_nextPtr s + n \<and>
     ledger t + pack_answers (s_packs t) = ledger s + pack_answers (s_packs s) \<and>
     (\<exists>taken. s_packs s = taken @ s_packs t \<and> grown taken (e \<noteq> None) F F' \<and> promised taken (e \<noteq> None) F F' s t)"

text \<open>The \<open>select\<close> of a round acks nothing.\<close>

definition nothing_acked :: "stream \<Rightarrow> stream \<Rightarrow> SendSequence \<Rightarrow> SendSequence \<Rightarrow> bool" where
  "nothing_acked F F' s t \<longleftrightarrow> s_ackWindow t = s_ackWindow s \<and> acked_count F' t = acked_count F s"

lemma nothing_acked_refl [simp]: "nothing_acked F F s s"
  by (simp add: nothing_acked_def)

lemma run_step_keep:
  assumes "ss_inv env F t" "s_settings t = s_settings s" "ledger t = ledger s" "s_packs t = s_packs s" "s_nextPtr t = s_nextPtr s"
    "promised [] False F F s t"
  shows "run_step env F F n e s t"
  using assms promised_nil by (auto simp: run_step_def intro: exI [of _ "[]"])

lemma run_step_after:
  assumes "run_step env F F' n e t u" "s_settings t = s_settings s" "ledger t = ledger s" "s_packs t = s_packs s"
    "s_nextPtr t = s_nextPtr s" "promised [] False F F s t"
  shows "run_step env F F' n e s u"
proof -
  obtain taken where "s_packs t = taken @ s_packs u" "grown taken (e \<noteq> None) F F'" "promised taken (e \<noteq> None) F F' t u"
    using assms(1) by (auto simp: run_step_def)
  then have "s_packs s = taken @ s_packs u \<and> grown taken (e \<noteq> None) F F' \<and> promised taken (e \<noteq> None) F F' s u"
    using promised_trans [OF assms(6), of taken "e \<noteq> None" F' u] assms(4) by simp
  then show ?thesis using assms(1-5) unfolding run_step_def by auto
qed

lemma ss_inv_packs [simp]: "ss_inv env F (s\<lparr>s_packs := k\<rparr>) = ss_inv env F s"
  by (simp add: ss_inv_def)

lemma ledger_packs [simp]: "ledger (s\<lparr>s_packs := k\<rparr>) = ledger s"
  by (simp add: ledger_def answers_def)

lemma ledger_semit [simp]: "outcomes es = [] \<Longrightarrow> ledger (semit es s) = ledger s"
  by (simp add: ledger_def answers_def semit_def)

lemma same_send_inv: "same_send s t \<Longrightarrow> ss_inv env F t = ss_inv env F s"
  unfolding ss_inv_def using same_send_core [of s t] by (auto simp: same_send_def)

lemma ledger_answer: "ledger (ackCallback f e s) = ledger s + mset (map fst (answer f None))"
proof -
  have "same_send s (ackCallback f e s)" by simp
  then have "sendItems (ackCallback f e s) = sendItems s" "answers (ackCallback f e s) = answers s"
    by (auto simp: same_send_def answers_def fun_eq_iff)
  then show ?thesis by (simp add: ledger_def answer_fst [of f e])
qed

lemma run_step_take:
  assumes "ss_inv env F' t" "s_settings t = s_settings s" "s_packs s = pack # s_packs t"
    "ledger t = ledger s + mset (map fst (answer (sp_AckCallback pack) None))" "grown [pack] (e \<noteq> None) F F'"
    "length F' \<le> length F + 3" "s_nextPtr t \<le> s_nextPtr s + 3"
    "promised [pack] (e \<noteq> None) F F' s t"
  shows "run_step env F F' 3 e s t"
  using assms by (auto simp: run_step_def intro!: exI [of _ "[pack]"])

lemma run_takePack_ok:
  assumes inv: "ss_inv env F s" and env: "send_env_ok env" and len: "room 3 F s"
    and packs: "\<forall>pack\<in>set (s_packs s). send_pack_ok env (s_settings s) pack"
  shows "\<exists>t e F'. run_takePack env now wr a as s = Some (t, e) \<and> run_step env F F' 3 e s t \<and> nothing_acked F F' s t"
proof (cases "s_packs s = [] \<or> \<not> s_canQueue s")
  case True
  then show ?thesis using run_step_keep [OF inv, of s 3 None]
    by (auto simp: run_takePack_def split: list.splits)
next
  case False
  then obtain pack rest where p: "s_packs s = pack # rest" and can: "s_canQueue s" by (cases "s_packs s") auto
  let ?s = "s\<lparr>s_packs := rest\<rparr>" and ?b = "sp_MessageByteCount pack"
  have ok: "send_pack_ok env (s_settings s) pack" using packs p by simp
  then have b: "?b = MessageByteCount (frames_of (Some (sp_Frame pack)))" "frame_ok (frames_of (Some (sp_Frame pack)))" "fits env (s_settings s) ?b"
    by (auto simp: send_pack_ok_def frames_of_def)
  have inv': "ss_inv env F ?s" using inv by simp
  obtain t success G where t: "s_updateContract env now a as ?b ?s = Some (t, success)" "\<not> success \<longrightarrow> G = F"
      "paid env F G (if success then charge (s_settings s) ?b else 0) ?s t"
  proof -
    have "room 1 F ?s" "?b \<le> maxMessageByteCount" "fits env (s_settings ?s) ?b"
      using b len by (simp_all add: frame_ok_def room_def)
    note u = s_updateContract_ok [OF inv' env this, of now a as]
    have "s_settings ?s = s_settings s" by simp
    from u [unfolded this] show ?thesis using that by blast
  qed
  note G = paid_frames [OF t(3)]
  have led: "ledger t = ledger s" using ledger_paid [OF inv' t(3)] by simp
  have st: "send_step ?s t" using t(3) by (simp add: paid_def)
  then have t': "s_settings t = s_settings s" "s_packs t = rest" "s_ackWindow t = s_ackWindow s" by (simp_all add: send_step_def)
  have pr: "promised [] False F G s t"
    using promised_paid [OF inv' t(3)] promised_trans [OF promised_same [of ?s s] promised_paid [OF inv' t(3)]] by simp
  have "length (sendItems s) \<le> length F" using inv by (simp add: ss_inv_def ss_core_def items_ok_def)
  then have acked: "nothing_acked F G s t" "length (sendItems t) \<le> length G"
    using t(3) t'(3) by (auto simp: nothing_acked_def acked_count_def paid_def)
  show ?thesis
  proof (cases success)
    case False
    let ?u = "semit [ReturnBytes (f_MessageBytes (sp_Frame pack))] (ackCallback (sp_AckCallback pack) (Some NoContractError) t)"
    have tF: "paid env F F 0 ?s t" using False t by simp
    have same: "same_send t ?u" by (rule same_send_trans [OF same_send_ackCallback same_send_semit]) simp
    have take: "run_takePack env now wr a as s = Some (?u, Some SendWithoutContract)"
      using p can t(1) False by (simp add: run_takePack_def)
    have "ss_inv env F ?u" using same_send_inv [OF same] paid_inv [OF tF] by simp
    moreover have "s_settings ?u = s_settings s" "s_packs ?u = rest" using same t' by (simp_all add: same_send_def)
    moreover have "ledger ?u = ledger s + mset (map fst (answer (sp_AckCallback pack) None))"
      using led by (simp add: ledger_answer)
    moreover have "s_nextPtr ?u \<le> s_nextPtr s + 3"
      using same paid_room_ptr [OF tF] by (simp add: same_send_def)
    moreover have "grown [pack] True F F" by (auto simp: grown_def)
    moreover have "promised [pack] True F F t ?u"
      by (rule promised_refuse [where f = "sp_AckCallback pack" and err = NoContractError]) (use same in \<open>simp_all add: same_send_def\<close>)
    then have "promised [pack] True F F s ?u" using promised_trans [OF pr, of "[pack]" True F ?u] False t(2) by simp
    moreover have "nothing_acked F F s ?u" using acked(1) same False t(2) by (simp add: nothing_acked_def acked_count_def same_send_def)
    ultimately have "run_step env F F 3 (Some SendWithoutContract) s ?u \<and> nothing_acked F F s ?u"
      using p by (intro conjI run_step_take) simp_all
    with take show ?thesis by blast
  next
    case True
    let ?cb = "sp_AckCallback pack" and ?f = "Some (sp_Frame pack)" and ?n = "numbered (to_Ack (sp_TransferOptions pack)) t"
    have core: "ss_core env G (sendItems t) (set (sendItems t)) (charge (s_settings t) (MessageByteCount (frames_of ?f)) + 0) t"
      using t(3) True t'(1) b(1) by (simp add: paid_def)
    have "s_nextPtr t \<le> s_nextPtr s + 2" using t(3) G(3) by (simp add: paid_def)
    then have r: "length G + 1 < 2 ^ 64" "s_nextPtr t < idCount" "s_nextPtr t + 1 \<le> s_nextPtr s + 3"
      using G(3) len by (simp_all add: room_def)
    obtain u qs where u: "send env now wr (sp_Frame pack) ?cb (to_Ack (sp_TransferOptions pack)) t = Some u"
        "ss_core env (sent_stream ?n (s_nextPtr t) ?f G) qs (set qs) 0 u" "sendItems u = qs" "send_step t u"
        "qs = (if ?n then sendItems t @ [s_nextPtr t] else sendItems t)"
        "?n \<longrightarrow> si_ackCallback (send_item u (s_nextPtr t)) = ?cb"
        "outcomes (s_log u) = outcomes (s_log t) @ (if ?n then [] else answer ?cb (if wr then None else Some WriteFailed))"
        "s_nextPtr u = s_nextPtr t + 1"
      using sendWithSetContract_ok [OF core env r(1) refl order_refl b(2) refl refl r(2),
        where ack = "to_Ack (sp_TransferOptions pack)" and now = now and ok = wr and cb = ?cb and setC = False]
      unfolding send_def by blast
    have take: "run_takePack env now wr a as s = Some (u, None)"
      using p can t(1) True u(1) by (simp add: run_takePack_def)
    have "ss_inv env (sent_stream ?n (s_nextPtr t) ?f G) u" using u(2,3) by (simp add: ss_inv_def)
    moreover have "s_settings u = s_settings s" "s_packs u = rest" using u(4) t' by (simp_all add: send_step_def)
    moreover have "s_nextPtr u \<le> s_nextPtr s + 3" using u(8) r(3) by simp
    moreover have "ledger u = ledger s + mset (map fst (answer ?cb None))"
    proof -
      have "answers u (sendItems t) None = answers t (sendItems t) None" by (rule answers_send [OF u(4) core])
      then have "ledger u = ledger t + mset (map fst (answer ?cb None))"
        using u(3,5-7) arg_cong [OF answer_fst [of ?cb "Some WriteFailed"], of mset] by (cases ?n) (auto simp: ledger_def answers_def)
      then show ?thesis using led by simp
    qed
    moreover have "grown [pack] False F (sent_stream ?n (s_nextPtr t) ?f G)" "length (sent_stream ?n (s_nextPtr t) ?f G) \<le> length F + 3"
      using G by (auto simp: grown_def sent_stream_def stream_frames_def frames_of_def numbered_def)
    moreover have "promised [pack] False G (sent_stream ?n (s_nextPtr t) ?f G) t u"
    proof (rule promised_send)
      have "\<forall>p\<in>set (sendItems t). p < s_nextPtr t" using pending_below [OF core_items [OF core]] by blast
      then show "\<forall>p\<in>set (sendItems t). si_ackCallback (send_item u p) = si_ackCallback (send_item t p)"
        using u(4) by (simp add: send_step_def kept_items_def)
    qed (use u(3,5-7) in \<open>auto simp: asked_def numbered_def\<close>)
    then have "promised [pack] False F (sent_stream ?n (s_nextPtr t) ?f G) s u"
      using promised_trans [OF pr, of "[pack]"] by simp
    moreover have "nothing_acked F (sent_stream ?n (s_nextPtr t) ?f G) s u"
      using acked u(3-5) by (auto simp: nothing_acked_def acked_count_def sent_stream_def send_step_def)
    ultimately have "run_step env F (sent_stream ?n (s_nextPtr t) ?f G) 3 None s u \<and>
        nothing_acked F (sent_stream ?n (s_nextPtr t) ?f G) s u"
      using p by (intro conjI run_step_take) simp_all
    with take show ?thesis by blast
  qed
qed

lemma run_step_idle: "ss_inv env F s \<Longrightarrow> run_step env F F 3 e s (s\<lparr>s_idleCondition := c\<rparr>)"
  by (rule run_step_keep) (simp_all add: ss_inv_def ledger_def answers_def promised_same)

lemma run_sendTimer_ok:
  assumes "ss_inv env F s" "run_sendTimer cp calls s = (t, e)"
  shows "run_step env F F 3 e s t \<and> nothing_acked F F s t"
proof -
  obtain c where "t = s\<lparr>s_idleCondition := c\<rparr>"
    using assms(2) by (force simp: run_sendTimer_def Let_def split: if_splits prod.splits)
  then show ?thesis using run_step_idle [OF assms(1)] by (simp add: nothing_acked_def acked_count_def)
qed

text \<open>
  What a cumulative ack settles: the acked count moves at most to just after the acked message. \<open>window_upto\<close>
  bounds the message that the head of the ack window names.
\<close>

lemma pending_number:
  assumes items: "items_ok env F ps A s" and i: "i < length ps"
  shows "sequenceNumber (send_item s (ps ! i)) = of_nat (length F - length ps + i)" "length F - length ps + i < 2 ^ 64"
proof -
  show "sequenceNumber (send_item s (ps ! i)) = of_nat (length F - length ps + i)"
    using items_ok_nth [OF items i] by (simp add: item_ok_def)
  have "length ps \<le> length F" "length F < 2 ^ 64" using items by (simp_all add: items_ok_def)
  then show "length F - length ps + i < 2 ^ 64" using i by linarith
qed

lemma receiveAck_settles:
  assumes inv: "ss_inv env F s" and env: "send_env_ok env" and i: "i < length (sendItems s)"
  shows "\<exists>t. receiveAck now (messageId (send_item s (sendItems s ! i))) False tg s = Some t \<and>
    sendItems t = drop (Suc i) (sendItems s) \<and> set (orderedItems (resendQueue t)) = set (drop (Suc i) (sendItems s)) \<and>
    outcomes (s_log t) = outcomes (s_log s) @ answers s (take (Suc i) (sendItems s)) None"
proof -
  let ?ps = "sendItems s" and ?p = "sendItems s ! i"
  have core: "ss_core env F ?ps (set ?ps) 0 s" using inv by (simp add: ss_inv_def)
  note items = core_items [OF core]
  have q: "tq_inv (resendQueue s)" "set (orderedItems (resendQueue s)) = set ?ps" using items by (simp_all add: items_ok_def)
  have get: "GetByMessageId (resendQueue s) (messageId (send_item s ?p)) = Some ?p"
    using tq_inv_message [OF q(1), of "messageId (send_item s ?p)" ?p] q(2) i by (simp add: GetByMessageId_def)
  obtain w where w: "closeTagOf now tg s = Some (s\<lparr>rttWindow := w\<rparr>)" "ss_core env F ?ps (set ?ps) 0 (s\<lparr>rttWindow := w\<rparr>)"
    using closeTagOf_ok [OF core] by blast
  let ?u = "s\<lparr>rttWindow := w\<rparr>" and ?n = "sequenceNumber (send_item s ?p)"
  obtain t k where t: "ackPrefix ?n ?ps ?u = Some t" "k \<le> length ?ps" "sendItems t = drop k ?ps"
      "ss_core env F (drop k ?ps) (set (drop k ?ps)) 0 t" "\<forall>j<k. sequenceNumber (send_item ?u (?ps ! j)) \<le> ?n"
      "k < length ?ps \<longrightarrow> ?n < sequenceNumber (send_item ?u (?ps ! k))"
      "outcomes (s_log t) = outcomes (s_log ?u) @ answers ?u (take k ?ps) None"
    using ackPrefix_ok [OF w(2), of ?n] by blast
  have less: "sequenceNumber (send_item s (?ps ! j)) \<le> ?n \<longleftrightarrow> j \<le> i" if "j < length ?ps" for j
    unfolding pending_number(1) [OF items that] pending_number(1) [OF items i]
      u64_of_nat_le [OF pending_number(2) [OF items that] pending_number(2) [OF items i]] by simp
  have "i < k" using t(2,6) less [of k] i by (cases "k < length ?ps") auto
  moreover have "k \<le> Suc i"
  proof (rule ccontr)
    assume "\<not> k \<le> Suc i"
    then have "Suc i < k" "Suc i < length ?ps" using t(2) by simp_all
    then show False using t(5) less [of "Suc i"] by auto
  qed
  ultimately have k: "k = Suc i" by simp
  have "receiveAck now (messageId (send_item s ?p)) False tg s = Some t"
    using get w(1) t(1) by (simp add: receiveAck_def)
  moreover have "answers ?u (take k ?ps) None = answers s (take k ?ps) None" by (simp add: answers_def)
  moreover have "set (orderedItems (resendQueue t)) = set (drop (Suc i) ?ps)"
    using core_items [OF t(4)] k unfolding items_ok_def by blast
  ultimately show ?thesis using t(3,7) k by auto
qed

definition acks_upto :: "send_env \<Rightarrow> stream \<Rightarrow> nat \<Rightarrow> Id \<Rightarrow> bool" where
  "acks_upto env F B m \<longleftrightarrow> (\<forall>j<length F. newId env (fst (F ! j)) = m \<longrightarrow> j < B)"

definition window_upto :: "send_env \<Rightarrow> stream \<Rightarrow> nat \<Rightarrow> SendSequence \<Rightarrow> bool" where
  "window_upto env F B s \<longleftrightarrow> (\<forall>h. headAck (s_ackWindow s) = Some h \<longrightarrow> acks_upto env F B (a_messageId h))"

lemma acked_by_id:
  assumes inv: "ss_inv env F s" and get: "GetByMessageId (resendQueue s) m = Some p"
  obtains i where "i < length (sendItems s)" "p = sendItems s ! i" "m = messageId (send_item s p)"
    "m = newId env (fst (F ! (acked_count F s + i)))"
proof -
  have items: "items_ok env F (sendItems s) (set (sendItems s)) s" using inv by (simp add: ss_inv_def ss_core_def)
  then have q: "tq_inv (resendQueue s)" "tq_items (resendQueue s) = set (sendItems s)" by (simp_all add: items_ok_def)
  have p: "p \<in> set (sendItems s)" "messageId (send_item s p) = m"
    using get tq_inv_message [OF q(1), of m p] q(2) by (simp_all add: GetByMessageId_def)
  then obtain i where i: "i < length (sendItems s)" "p = sendItems s ! i" by (metis in_set_conv_nth)
  have "m = newId env p" using items_ok_nth [OF items i(1)] p(2) i(2) by (simp add: item_ok_def)
  moreover have "sendItems s = map fst (drop (acked_count F s) F)" "length (sendItems s) \<le> length F"
    using items by (simp_all add: items_ok_def acked_count_def)
  then have "p = fst (F ! (acked_count F s + i))"
    using i by (metis acked_count_def diff_le_self length_drop length_map nth_drop nth_map)
  ultimately show thesis using that i p by simp
qed

lemma receiveAck_upto:
  assumes inv: "ss_inv env F s" and env: "send_env_ok env" and t: "receiveAck now m selective tg s = Some t"
  shows "selective \<Longrightarrow> sendItems t = sendItems s"
    "acks_upto env F B m \<Longrightarrow> acked_count F t \<le> max (acked_count F s) B"
proof -
  have "(selective \<longrightarrow> sendItems t = sendItems s) \<and> (acks_upto env F B m \<longrightarrow> acked_count F t \<le> max (acked_count F s) B)"
  proof (cases "GetByMessageId (resendQueue s) m")
    case None
    then show ?thesis using t by (simp add: receiveAck_def)
  next
    case (Some p)
    obtain i where i: "i < length (sendItems s)" "p = sendItems s ! i" "m = messageId (send_item s p)"
        "m = newId env (fst (F ! (acked_count F s + i)))"
      using acked_by_id [OF inv Some] by blast
    have n: "length (sendItems s) \<le> length F" using inv by (simp add: ss_inv_def ss_core_def items_ok_def)
    show ?thesis
    proof (cases selective)
      case True
      have core: "ss_core env F (sendItems s) (set (sendItems s)) 0 s" using inv by (simp add: ss_inv_def)
      obtain w where w: "closeTagOf now tg s = Some (s\<lparr>rttWindow := w\<rparr>)"
          "ss_core env F (sendItems s) (set (sendItems s)) 0 (s\<lparr>rttWindow := w\<rparr>)"
        using closeTagOf_ok [OF core] by blast
      let ?s = "s\<lparr>rttWindow := w\<rparr>"
      have inv': "ss_inv env F ?s" "p \<in> set (sendItems ?s)" using w(2) i by (simp_all add: ss_inv_def)
      have "sendItems t = sendItems s"
        using selectiveAck_ok [OF inv'(1) env inv'(2), of now] t Some True w(1) by (auto simp: receiveAck_def)
      then show ?thesis by (simp add: acked_count_def)
    next
      case False
      have "sendItems t = drop (Suc i) (sendItems s)"
        using receiveAck_settles [OF inv env i(1), of now tg] t i False by auto
      then have "acked_count F t = acked_count F s + Suc i" using i(1) n by (simp add: acked_count_def)
      moreover have "acked_count F s + i < B" if "acks_upto env F B m"
        using that i n unfolding acks_upto_def by (simp add: acked_count_def)
      ultimately show ?thesis using False by auto
    qed
  qed
  then show "selective \<Longrightarrow> sendItems t = sendItems s"
    "acks_upto env F B m \<Longrightarrow> acked_count F t \<le> max (acked_count F s) B" by simp_all
qed

lemma receiveAcks_items:
  assumes "ss_inv env F s" "send_env_ok env" "receiveAcks now mas s = Some t"
  shows "sendItems t = sendItems s"
  using assms
proof (induction mas arbitrary: s)
  case (Cons ma mas)
  obtain u where u: "receiveAck now (fst ma) True (a_tag (snd ma)) s = Some u" "ss_inv env F u"
    using receiveAck_ok [OF Cons.prems(1,2)] by blast
  then show ?case using Cons.IH [OF u(2) Cons.prems(2)] receiveAck_upto(1) [OF Cons.prems(1,2) u(1)] Cons.prems(3) by simp
qed simp

lemma receiveAcks_window:
  assumes "ss_inv env F s" "send_env_ok env" "receiveAcks now mas s = Some t"
  shows "s_ackWindow t = s_ackWindow s"
  using receiveAcks_ok [OF assms(1,2), of now mas] assms(3) by simp

lemma applyAcks_upto:
  assumes inv: "ss_inv env F s" and env: "send_env_ok env" and t: "applyAcks now s = Some t"
  shows "headAck (s_ackWindow t) = headAck (s_ackWindow s)"
    "window_upto env F B s \<Longrightarrow> acked_count F t \<le> max (acked_count F s) B"
proof -
  have "ackWindow_ok (s_ackWindow s)" using inv by (simp add: ss_inv_def ss_core_def)
  from Snapshot_Some [OF this, of True] obtain w sn where
    sn: "ackWindow_Snapshot (s_ackWindow s) True = Some (w, sn)" "ackWindow_ok w" "s_headAck sn = headAck (s_ackWindow s)"
      "s_ackUpdateCount sn = ackUpdateCount (s_ackWindow s)" "headAck w = headAck (s_ackWindow s)" by force
  let ?u = "s\<lparr>s_ackWindow := w\<rparr>"
  have u: "ss_inv env F ?u" using inv core_ackWindow [OF _ sn(2)] by (simp add: ss_inv_def)
  obtain v where v: "(if 0 < s_ackUpdateCount sn then do {
               h \<leftarrow> s_headAck sn;
               receiveAck now (a_messageId h) False (a_tag h) ?u
             } else Some ?u) = Some v" "receiveAcks now (s_selectiveAcks sn) v = Some t"
  proof -
    have "Option.bind (if 0 < s_ackUpdateCount sn then do {
               h \<leftarrow> s_headAck sn;
               receiveAck now (a_messageId h) False (a_tag h) ?u
             } else Some ?u) (receiveAcks now (s_selectiveAcks sn)) = Some t"
      using t sn(1) by (simp add: applyAcks_def Let_def)
    then show thesis using that unfolding bind_eq_Some_conv by blast
  qed
  have "ss_inv env F v \<and> headAck (s_ackWindow v) = headAck (s_ackWindow s) \<and>
    (window_upto env F B s \<longrightarrow> acked_count F v \<le> max (acked_count F s) B)"
  proof (cases "0 < s_ackUpdateCount sn")
    case True
    then obtain h where h: "s_headAck sn = Some h" "receiveAck now (a_messageId h) False (a_tag h) ?u = Some v"
      using v(1) by (cases "s_headAck sn") auto
    note R = receiveAck_ok [OF u env, of now "a_messageId h" False "a_tag h"] receiveAck_upto(2) [OF u env h(2), of B]
    show ?thesis using R h sn(3,5) by (auto simp: window_upto_def acked_count_def)
  next
    case False
    then show ?thesis using v(1) u sn(5) by (auto simp: acked_count_def)
  qed
  then show "headAck (s_ackWindow t) = headAck (s_ackWindow s)"
    "window_upto env F B s \<Longrightarrow> acked_count F t \<le> max (acked_count F s) B"
    using receiveAcks_window [OF _ env v(2)] receiveAcks_items [OF _ env v(2)] by (auto simp: acked_count_def)
qed

text \<open>What a round acks: at most what the ack window says.\<close>

definition round_acks :: "send_env \<Rightarrow> stream \<Rightarrow> stream \<Rightarrow> SendSequence \<Rightarrow> SendSequence \<Rightarrow> bool" where
  "round_acks env F F' s t \<longleftrightarrow> headAck (s_ackWindow t) = headAck (s_ackWindow s) \<and>
     (\<forall>B. window_upto env F B s \<longrightarrow> acked_count F' t \<le> max (acked_count F s) B)"

lemma s_round_ok:
  assumes inv: "ss_inv env F s" and env: "send_env_ok env" and len: "room 3 F s"
    and packs: "\<forall>pack\<in>set (s_packs s). send_pack_ok env (s_settings s) pack"
  shows "\<exists>t e F'. s_round env now wr choice s = Some (t, e) \<and> run_step env F F' 3 e s t \<and> round_acks env F F' s t"
proof -
  obtain u where u: "applyAcks now s = Some u" "ss_inv env F u" "acks_step s u" using applyAcks_ok [OF inv env] by blast
  obtain v r where v: "s_wait env now wr u = Some (v, r)" "ss_inv env F v" "resend_step u v"
    using s_wait_ok [OF u(2) env] by blast
  have sv: "s_settings v = s_settings s" "ledger v = ledger s" "s_packs v = s_packs s" "s_nextPtr v = s_nextPtr s"
    using u(3) v(3) ledger_acks [OF u(3)] ledger_resend [OF v(3)] by (simp_all add: acks_step_def resend_step_def)
  have "promised [] False F F s v"
    using promised_trans [OF promised_acks [OF u(3)] promised_resend [OF v(3), where stopped = False]] by simp
  note after = run_step_after [OF _ sv this]
  have keep: "run_step env F F 3 e v v" for e by (rule run_step_keep [OF v(2)]) simp_all
  have acks: "round_acks env F F' s t" if "nothing_acked F F' v t" for F' t
    using applyAcks_upto [OF inv env u(1)] that v(3)
    by (simp add: round_acks_def nothing_acked_def resend_step_def acked_count_def)
  show ?thesis
  proof (cases r)
    case (Inl e)
    have "s_round env now wr choice s = Some (v, Some e)" using u(1) v(1) Inl by (simp add: s_round_def)
    with after [OF keep] acks [OF nothing_acked_refl] show ?thesis by blast
  next
    case (Inr d)
    have "\<exists>t e F'. run_choice env now choice v = Some (t, e) \<and> run_step env F F' 3 e v t \<and> nothing_acked F F' v t"
    proof (cases choice)
      case (TakePack ok a as)
      then show ?thesis using run_takePack_ok [OF v(2) env, of now] packs sv len by (simp add: run_choice_def room_def)
    next
      case (SendTimer calls)
      obtain t e where t: "run_sendTimer (Checkpoint (s_idleCondition v)) calls v = (t, e)" by fastforce
      show ?thesis using SendTimer t run_sendTimer_ok [OF v(2) t] by (auto simp: run_choice_def)
    next
      case ContextDone
      then show ?thesis using keep nothing_acked_refl [of F v] by (auto simp: run_choice_def simp del: nothing_acked_refl)
    next
      case AckNotify
      then show ?thesis using keep nothing_acked_refl [of F v] by (auto simp: run_choice_def simp del: nothing_acked_refl)
    qed
    then obtain t e F' where t: "run_choice env now choice v = Some (t, e)" "run_step env F F' 3 e v t" "nothing_acked F F' v t"
      by blast
    have "s_round env now wr choice s = Some (t, e)" using u(1) v(1) Inr t(1) by (simp add: s_round_def)
    with after [OF t(2)] acks [OF t(3)] show ?thesis by blast
  qed
qed

section \<open>Whole runs\<close>

definition queued :: "send_input list \<Rightarrow> SendPack list" where
  "queued is = List.map_filter (\<lambda>i. case i of PackQueued pack \<Rightarrow> Some pack | _ \<Rightarrow> None) is"

lemma queued_simps [simp]:
  "queued [] = []" "queued (PackQueued pack # is) = pack # queued is" "queued (AckArrives a # is) = queued is"
  "queued (Round now wr choice # is) = queued is"
  by (simp_all add: queued_def map_filter_def)

lemma grown_trans:
  assumes "grown as False F G" "grown bs e G H"
  shows "grown (as @ bs) e F H"
proof -
  obtain fs gs where fs: "stream_frames G = stream_frames F @ fs" "subseq fs (map sp_Frame as)"
      "(\<forall>pack\<in>set as. to_Ack (sp_TransferOptions pack)) \<longrightarrow> fs = map sp_Frame as"
    and gs: "stream_frames H = stream_frames G @ gs" "subseq gs (map sp_Frame bs)"
      "(\<forall>pack\<in>set bs. to_Ack (sp_TransferOptions pack)) \<longrightarrow> prefix gs (map sp_Frame bs) \<and> (\<not> e \<longrightarrow> gs = map sp_Frame bs)"
    using assms unfolding grown_def by blast
  have "subseq (fs @ gs) (map sp_Frame (as @ bs))" using fs(2) gs(2) by (simp add: list_emb_append_mono)
  then show ?thesis
    using assms fs gs by (auto simp: grown_def intro!: exI [of _ "fs @ gs"])
qed

text \<open>A part of a run during which the packs \<open>q\<close> were queued.\<close>

definition send_ran :: "send_env \<Rightarrow> stream \<Rightarrow> stream \<Rightarrow> SendPack list \<Rightarrow> send_exit option \<Rightarrow> SendSequence \<Rightarrow> SendSequence \<Rightarrow> bool" where
  "send_ran env F F' q e s t \<longleftrightarrow> ss_inv env F' t \<and> s_settings t = s_settings s \<and>
     ledger t + pack_answers (s_packs t) = ledger s + pack_answers (s_packs s) + pack_answers q \<and>
     (\<exists>taken. s_packs s @ q = taken @ s_packs t \<and> grown taken (e \<noteq> None) F F' \<and> promised taken (e \<noteq> None) F F' s t)"

lemma send_ran_trans:
  assumes "send_ran env F G q None s u" "send_ran env G H q' e u t"
  shows "send_ran env F H (q @ q') e s t"
proof -
  obtain a where a: "s_packs s @ q = a @ s_packs u" "grown a False F G" "promised a False F G s u"
    using assms(1) by (auto simp: send_ran_def)
  obtain b where b: "s_packs u @ q' = b @ s_packs t" "grown b (e \<noteq> None) G H" "promised b (e \<noteq> None) G H u t"
    using assms(2) unfolding send_ran_def by blast
  have "s_packs s @ q @ q' = (a @ b) @ s_packs t" using a(1) b(1) by (metis append.assoc)
  then have "\<exists>taken. s_packs s @ q @ q' = taken @ s_packs t \<and> grown taken (e \<noteq> None) F H \<and> promised taken (e \<noteq> None) F H s t"
    using grown_trans [OF a(2) b(2)] promised_trans [OF a(3) b(3)] by blast
  moreover have "ledger t + pack_answers (s_packs t) = ledger s + pack_answers (s_packs s) + pack_answers (q @ q')"
    using assms by (simp add: send_ran_def add.assoc)
  ultimately show ?thesis using assms by (simp add: send_ran_def)
qed

lemma send_ran_refl: "ss_inv env F s \<Longrightarrow> send_ran env F F [] e s s"
  by (simp add: send_ran_def)

lemma send_input_ok:
  assumes inv: "ss_inv env F s" and env: "send_env_ok env" and len: "room 3 F s"
    and packs: "\<forall>pack\<in>set (s_packs s @ queued [i]). send_pack_ok env (s_settings s) pack"
  shows "\<exists>t e F'. send_input_step env i s = Some (t, e) \<and> send_ran env F F' (queued [i]) e s t \<and>
    length F' \<le> length F + 3 \<and> s_nextPtr t \<le> s_nextPtr s + 3 \<and> (case i of
      PackQueued pack \<Rightarrow> nothing_acked F F' s t | AckArrives a \<Rightarrow> acked_count F' t = acked_count F s \<and> t = ackArrives a s \<and> F' = F
    | Round now wr choice \<Rightarrow> round_acks env F F' s t)"
proof (cases i)
  case (PackQueued pack)
  let ?t = "s\<lparr>s_packs := s_packs s @ [pack]\<rparr>"
  have "promised [] False F F s ?t" by (rule promised_same) simp_all
  then have "send_ran env F F [pack] None s ?t" using inv by (auto simp: send_ran_def intro!: exI [of _ "[]"])
  then show ?thesis using PackQueued by (auto simp: send_input_step_def nothing_acked_def acked_count_def)
next
  case (AckArrives a)
  have a: "ss_inv env F (ackArrives a s)" "acks_step s (ackArrives a s)" "sendItems (ackArrives a s) = sendItems s"
    using ackArrives_ok [OF inv] by simp_all
  then have "send_ran env F F [] None s (ackArrives a s)"
    using ledger_acks [of s "ackArrives a s"] promised_acks [OF a(2), of False F]
    by (auto simp: send_ran_def acks_step_def intro!: exI [of _ "[]"])
  moreover have "acked_count F (ackArrives a s) = acked_count F s" using a(3) by (simp add: acked_count_def)
  moreover have "s_nextPtr (ackArrives a s) = s_nextPtr s" using ackArrives_ok [OF inv, of a] by (simp add: acks_step_def)
  ultimately show ?thesis using AckArrives by (auto simp: send_input_step_def intro!: exI [of _ F])
next
  case (Round now wr choice)
  obtain t e F' where t: "s_round env now wr choice s = Some (t, e)" "run_step env F F' 3 e s t" "round_acks env F F' s t"
    using s_round_ok [OF inv env len, of now wr choice] packs by (auto simp: Round)
  have "send_ran env F F' [] e s t" using t(2) by (simp add: send_ran_def run_step_def)
  moreover have "length F' \<le> length F + 3" "s_nextPtr t \<le> s_nextPtr s + 3" using t(2) by (simp_all add: run_step_def)
  ultimately show ?thesis using Round t(1,3) by (auto simp: send_input_step_def)
qed

lemma queued_append [simp]: "queued (is @ js) = queued is @ queued js"
  by (simp add: queued_def map_filter_def)

lemma queued_Cons: "queued (i # is) = queued [i] @ queued is"
  using queued_append [of "[i]" "is"] by simp

lemma send_run_ok:
  assumes "ss_inv env F s" and env: "send_env_ok env" and "room (3 * length is + 3) F s"
    and "\<forall>pack\<in>set (s_packs s @ queued is). send_pack_ok env (s_settings s) pack"
  shows "\<exists>t e F' n. send_run env is s = Some (t, e) \<and> n \<le> length is \<and> (e = None \<longrightarrow> n = length is) \<and>
    send_ran env F F' (queued (take n is)) e s t"
  using assms(1,3,4)
proof (induction "is" arbitrary: F s)
  case Nil
  then show ?case using send_ran_refl [OF Nil(1)] by auto
next
  case (Cons i "is")
  have "room 3 F s" "\<forall>pack\<in>set (s_packs s @ queued [i]). send_pack_ok env (s_settings s) pack"
    using Cons.prems(2,3) queued_Cons [of i "is"] by (auto simp: room_def)
  from send_input_ok [OF Cons.prems(1) env this] obtain u e G where
      u: "send_input_step env i s = Some (u, e)" "send_ran env F G (queued [i]) e s u" "length G \<le> length F + 3"
        "s_nextPtr u \<le> s_nextPtr s + 3"
    by blast
  show ?case
  proof (cases e)
    case None
    have inv: "ss_inv env G u" and st: "s_settings u = s_settings s" using u(2) by (simp_all add: send_ran_def)
    obtain taken where "s_packs s @ queued [i] = taken @ s_packs u" using u(2) by (auto simp: send_ran_def)
    then have "set (s_packs u) \<subseteq> set (s_packs s @ queued [i])" by simp
    then have "\<forall>pack\<in>set (s_packs u @ queued is). send_pack_ok env (s_settings u) pack"
      using Cons.prems(3) queued_Cons [of i "is"] st by auto
    moreover have "room (3 * length is + 3) G u" using u(3,4) Cons.prems(2) by (simp add: room_def)
    ultimately obtain t e' H n where t: "send_run env is u = Some (t, e')" "n \<le> length is" "e' = None \<longrightarrow> n = length is"
        "send_ran env G H (queued (take n is)) e' u t"
      using Cons.IH [OF inv] by blast
    have "send_ran env F H (queued (take (Suc n) (i # is))) e' s t"
      using send_ran_trans [OF _ t(4)] u(2) None by (simp add: queued_Cons [of i "take n is"])
    moreover have "send_run env (i # is) s = Some (t, e')" using u(1) None t(1) by simp
    ultimately show ?thesis using t(2,3) by (intro exI [of _ t] exI [of _ e'] exI [of _ H] exI [of _ "Suc n"]) simp
  next
    case (Some x)
    have "send_ran env F G (queued (take 1 (i # is))) e s u" using u(2) by simp
    moreover have "send_run env (i # is) s = Some (u, e)" using u(1) Some by simp
    ultimately show ?thesis using Some by (intro exI [of _ u] exI [of _ e] exI [of _ G] exI [of _ 1]) simp
  qed
qed

end
