(* ===== verification/Wire_Codec.thy ===== *)
theory Wire_Codec
  imports Send_Steps
begin

text \<open>
  A self-delimiting encoding of transfer frames and packs. It stands for the protobuf codec where a theorem
  about an arbitrary codec is applied at a concrete one.
\<close>

definition codec :: "('a \<Rightarrow> byte list) \<Rightarrow> (byte list \<Rightarrow> ('a \<times> byte list) option) \<Rightarrow> bool" where
  "codec e d \<longleftrightarrow> (\<forall>x r. d (e x @ r) = Some (x, r))"

named_theorems codecs

lemma codecD: "codec e d \<Longrightarrow> d (e x @ r) = Some (x, r)"
  by (simp add: codec_def)

definition enc_byte :: "byte \<Rightarrow> byte list" where
  "enc_byte b = [b]"

definition dec_byte :: "byte list \<Rightarrow> (byte \<times> byte list) option" where
  "dec_byte bs = (case bs of [] \<Rightarrow> None | b # r \<Rightarrow> Some (b, r))"

lemma codec_byte [codecs]: "codec enc_byte dec_byte"
  by (simp add: codec_def enc_byte_def dec_byte_def)

definition enc_pair :: "('a \<Rightarrow> byte list) \<Rightarrow> ('b \<Rightarrow> byte list) \<Rightarrow> 'a \<times> 'b \<Rightarrow> byte list" where
  "enc_pair e f p = e (fst p) @ f (snd p)"

definition dec_pair ::
    "(byte list \<Rightarrow> ('a \<times> byte list) option) \<Rightarrow> (byte list \<Rightarrow> ('b \<times> byte list) option) \<Rightarrow> byte list \<Rightarrow> (('a \<times> 'b) \<times> byte list) option" where
  "dec_pair d g bs = do { (x, r) \<leftarrow> d bs; (y, r) \<leftarrow> g r; Some ((x, y), r) }"

lemma codec_pair [codecs]: "codec e d \<Longrightarrow> codec f g \<Longrightarrow> codec (enc_pair e f) (dec_pair d g)"
  by (simp add: codec_def enc_pair_def dec_pair_def)

definition dec_map :: "('a \<Rightarrow> 'b) \<Rightarrow> (byte list \<Rightarrow> ('a \<times> byte list) option) \<Rightarrow> byte list \<Rightarrow> ('b \<times> byte list) option" where
  "dec_map f d bs = map_option (\<lambda>(x, r). (f x, r)) (d bs)"

lemma codec_map: "codec e d \<Longrightarrow> (\<And>x. f (g x) = x) \<Longrightarrow> codec (e \<circ> g) (dec_map f d)"
  by (simp add: codec_def dec_map_def)

definition enc_option :: "('a \<Rightarrow> byte list) \<Rightarrow> 'a option \<Rightarrow> byte list" where
  "enc_option e x = (case x of None \<Rightarrow> [0] | Some y \<Rightarrow> 1 # e y)"

definition dec_option :: "(byte list \<Rightarrow> ('a \<times> byte list) option) \<Rightarrow> byte list \<Rightarrow> ('a option \<times> byte list) option" where
  "dec_option d bs = (case bs of [] \<Rightarrow> None
     | b # r \<Rightarrow> if b = 0 then Some (None, r) else map_option (\<lambda>(x, r). (Some x, r)) (d r))"

lemma codec_option [codecs]: "codec e d \<Longrightarrow> codec (enc_option e) (dec_option d)"
  by (auto simp: codec_def enc_option_def dec_option_def split: option.splits)

primrec enc_list :: "('a \<Rightarrow> byte list) \<Rightarrow> 'a list \<Rightarrow> byte list" where
  "enc_list e [] = [0]"
| "enc_list e (x # xs) = 1 # e x @ enc_list e xs"

primrec dec_items :: "nat \<Rightarrow> (byte list \<Rightarrow> ('a \<times> byte list) option) \<Rightarrow> byte list \<Rightarrow> ('a list \<times> byte list) option" where
  "dec_items 0 d bs = None"
| "dec_items (Suc n) d bs = (case bs of [] \<Rightarrow> None
     | b # r \<Rightarrow> if b = 0 then Some ([], r) else do { (x, r) \<leftarrow> d r; (xs, r) \<leftarrow> dec_items n d r; Some (x # xs, r) })"

definition dec_list :: "(byte list \<Rightarrow> ('a \<times> byte list) option) \<Rightarrow> byte list \<Rightarrow> ('a list \<times> byte list) option" where
  "dec_list d bs = dec_items (length bs) d bs"

lemma dec_items_enc: "codec e d \<Longrightarrow> length xs < n \<Longrightarrow> dec_items n d (enc_list e xs @ r) = Some (xs, r)"
  by (induction xs arbitrary: n) (case_tac n; simp add: codec_def)+

lemma enc_list_length: "length xs < length (enc_list e xs)"
  by (induction xs) auto

lemma codec_list [codecs]: "codec e d \<Longrightarrow> codec (enc_list e) (dec_list d)"
  unfolding codec_def [of "enc_list e"] dec_list_def
  using dec_items_enc enc_list_length by (metis length_append trans_less_add1)

definition enc_bool :: "bool \<Rightarrow> byte list" where
  "enc_bool = enc_byte \<circ> (\<lambda>b. if b then 1 else 0)"

definition dec_bool :: "byte list \<Rightarrow> (bool \<times> byte list) option" where
  "dec_bool = dec_map (\<lambda>b. b = 1) dec_byte"

lemma codec_bool [codecs]: "codec enc_bool dec_bool"
  unfolding enc_bool_def dec_bool_def by (rule codec_map [OF codec_byte]) simp

text \<open>Numbers are lists of bits; an integer has its sign first.\<close>

fun nat_bits :: "nat \<Rightarrow> bool list" where
  "nat_bits n = (if n = 0 then [] else odd n # nat_bits (n div 2))"

declare nat_bits.simps [simp del]

primrec bits_nat :: "bool list \<Rightarrow> nat" where
  "bits_nat [] = 0"
| "bits_nat (b # bs) = (if b then 1 else 0) + 2 * bits_nat bs"

lemma bits_nat_bits: "bits_nat (nat_bits n) = n"
  by (induction n rule: nat_bits.induct) (subst nat_bits.simps, auto)

definition enc_u64 :: "u64 \<Rightarrow> byte list" where
  "enc_u64 = enc_list enc_bool \<circ> (\<lambda>w. nat_bits (unat w))"

definition dec_u64 :: "byte list \<Rightarrow> (u64 \<times> byte list) option" where
  "dec_u64 = dec_map (\<lambda>bs. of_nat (bits_nat bs)) (dec_list dec_bool)"

lemma codec_u64 [codecs]: "codec enc_u64 dec_u64"
  unfolding enc_u64_def dec_u64_def by (rule codec_map) (intro codecs, simp add: bits_nat_bits)

definition enc_int :: "int \<Rightarrow> byte list" where
  "enc_int = enc_list enc_bool \<circ> (\<lambda>i. (i < 0) # nat_bits (nat \<bar>i\<bar>))"

definition dec_int :: "byte list \<Rightarrow> (int \<times> byte list) option" where
  "dec_int = dec_map (\<lambda>bs. if hd bs then - int (bits_nat (tl bs)) else int (bits_nat (tl bs))) (dec_list dec_bool)"

lemma codec_int [codecs]: "codec enc_int dec_int"
  unfolding enc_int_def dec_int_def by (rule codec_map) (intro codecs, simp add: bits_nat_bits)

text \<open>The messages, as tuples of their fields.\<close>

definition enc_Tag :: "Tag \<Rightarrow> byte list" where
  "enc_Tag = enc_u64 \<circ> tag_SendTime"

definition dec_Tag :: "byte list \<Rightarrow> (Tag \<times> byte list) option" where
  "dec_Tag = dec_map (\<lambda>n. \<lparr>tag_SendTime = n\<rparr>) dec_u64"

lemma codec_Tag [codecs]: "codec enc_Tag dec_Tag"
  unfolding enc_Tag_def dec_Tag_def by (rule codec_map) (intro codecs, simp)

definition enc_bytes :: "byte list \<Rightarrow> byte list" where
  "enc_bytes = enc_list enc_byte"

definition dec_bytes :: "byte list \<Rightarrow> (byte list \<times> byte list) option" where
  "dec_bytes = dec_list dec_byte"

lemma codec_bytes [codecs]: "codec enc_bytes dec_bytes"
  unfolding enc_bytes_def dec_bytes_def by (intro codecs)

definition enc_Frame :: "Frame \<Rightarrow> byte list" where
  "enc_Frame = enc_pair enc_int (enc_pair enc_bytes enc_bool) \<circ> (\<lambda>f. (f_MessageType f, f_MessageBytes f, f_Raw f))"

definition dec_Frame :: "byte list \<Rightarrow> (Frame \<times> byte list) option" where
  "dec_Frame = dec_map (\<lambda>(t, b, r). \<lparr>f_MessageType = t, f_MessageBytes = b, f_Raw = r\<rparr>)
     (dec_pair dec_int (dec_pair dec_bytes dec_bool))"

lemma codec_Frame [codecs]: "codec enc_Frame dec_Frame"
  unfolding enc_Frame_def dec_Frame_def by (rule codec_map) (intro codecs, simp)

definition enc_Pack :: "Pack \<Rightarrow> byte list" where
  "enc_Pack = enc_pair enc_bytes (enc_pair enc_bytes (enc_pair enc_u64 (enc_pair enc_bool (enc_pair (enc_list enc_Frame)
     (enc_pair enc_bool (enc_pair (enc_option enc_Frame) (enc_pair (enc_option enc_Tag) (enc_option enc_bytes)))))))) \<circ>
     (\<lambda>p. (pk_MessageId p, pk_SequenceId p, pk_SequenceNumber p, pk_Head p, pk_Frames p, pk_Nack p, pk_ContractFrame p,
       pk_Tag p, pk_ContractId p))"

definition dec_Pack :: "byte list \<Rightarrow> (Pack \<times> byte list) option" where
  "dec_Pack = dec_map (\<lambda>(m, s, n, h, fs, na, c, t, i). \<lparr>pk_MessageId = m, pk_SequenceId = s, pk_SequenceNumber = n,
       pk_Head = h, pk_Frames = fs, pk_Nack = na, pk_ContractFrame = c, pk_Tag = t, pk_ContractId = i\<rparr>)
     (dec_pair dec_bytes (dec_pair dec_bytes (dec_pair dec_u64 (dec_pair dec_bool (dec_pair (dec_list dec_Frame)
     (dec_pair dec_bool (dec_pair (dec_option dec_Frame) (dec_pair (dec_option dec_Tag) (dec_option dec_bytes)))))))))"

lemma codec_Pack [codecs]: "codec enc_Pack dec_Pack"
  unfolding enc_Pack_def dec_Pack_def by (rule codec_map) (intro codecs, simp)

definition enc_Ack :: "Ack \<Rightarrow> byte list" where
  "enc_Ack = enc_pair enc_bytes (enc_pair enc_bytes (enc_pair enc_bool (enc_option enc_Tag))) \<circ>
     (\<lambda>k. (k_MessageId k, k_SequenceId k, k_Selective k, k_Tag k))"

definition dec_Ack :: "byte list \<Rightarrow> (Ack \<times> byte list) option" where
  "dec_Ack = dec_map (\<lambda>(m, s, l, t). \<lparr>k_MessageId = m, k_SequenceId = s, k_Selective = l, k_Tag = t\<rparr>)
     (dec_pair dec_bytes (dec_pair dec_bytes (dec_pair dec_bool (dec_option dec_Tag))))"

lemma codec_Ack [codecs]: "codec enc_Ack dec_Ack"
  unfolding enc_Ack_def dec_Ack_def by (rule codec_map) (intro codecs, simp)

definition enc_Path :: "ProtoTransferPath \<Rightarrow> byte list" where
  "enc_Path = enc_pair (enc_option enc_bytes) (enc_pair (enc_option enc_bytes) (enc_option enc_bytes)) \<circ>
     (\<lambda>p. (p_SourceId p, p_DestinationId p, p_StreamId p))"

definition dec_Path :: "byte list \<Rightarrow> (ProtoTransferPath \<times> byte list) option" where
  "dec_Path = dec_map (\<lambda>(s, d, i). \<lparr>p_SourceId = s, p_DestinationId = d, p_StreamId = i\<rparr>)
     (dec_pair (dec_option dec_bytes) (dec_pair (dec_option dec_bytes) (dec_option dec_bytes)))"

lemma codec_Path [codecs]: "codec enc_Path dec_Path"
  unfolding enc_Path_def dec_Path_def by (rule codec_map) (intro codecs, simp)

definition enc_TransferFrame :: "TransferFrame \<Rightarrow> byte list" where
  "enc_TransferFrame = enc_pair enc_Path (enc_pair (enc_option enc_int) (enc_pair (enc_option enc_Pack)
     (enc_pair (enc_option enc_Ack) (enc_option enc_Frame)))) \<circ>
     (\<lambda>t. (tf_TransferPath t, tf_MessageType t, tf_Pack t, tf_Ack t, tf_Frame t))"

definition dec_TransferFrame :: "byte list \<Rightarrow> (TransferFrame \<times> byte list) option" where
  "dec_TransferFrame = dec_map (\<lambda>(p, m, k, a, f). \<lparr>tf_TransferPath = p, tf_MessageType = m, tf_Pack = k, tf_Ack = a, tf_Frame = f\<rparr>)
     (dec_pair dec_Path (dec_pair (dec_option dec_int) (dec_pair (dec_option dec_Pack)
     (dec_pair (dec_option dec_Ack) (dec_option dec_Frame)))))"

lemma codec_TransferFrame [codecs]: "codec enc_TransferFrame dec_TransferFrame"
  unfolding enc_TransferFrame_def dec_TransferFrame_def by (rule codec_map) (intro codecs, simp)

section \<open>An example environment\<close>

text \<open>Distinct ids: the address in unary, counted modulo two bytes at the front of sixteen.\<close>

text \<open>Ids: the address in the first eight bytes, the low byte first.\<close>

definition example_newId :: "nat \<Rightarrow> Id" where
  "example_newId n = map (\<lambda>i. ucast (drop_bit (8 * i) (of_nat n :: u64))) [0..<8] @ replicate 8 0"

lemma u64_bytes_eqI:
  assumes "\<And>i. i < 8 \<Longrightarrow> (ucast (drop_bit (8 * i) v) :: byte) = ucast (drop_bit (8 * i) w)"
  shows "v = (w :: u64)"
proof (rule bit_word_eqI)
  fix j assume "j < LENGTH(64)"
  then have "j div 8 < 8" by simp
  from arg_cong [OF assms [OF this], of "\<lambda>b. bit b (j mod 8)"] show "bit v j = bit w j"
    by (simp add: bit_simps)
qed

lemma example_newId_inj: "inj_on example_newId {..<idCount}"
proof (rule inj_onI)
  fix n m assume nm: "n \<in> {..<idCount}" "m \<in> {..<idCount}" and eq: "example_newId n = example_newId m"
  have "(of_nat n :: u64) = of_nat m"
  proof (rule u64_bytes_eqI)
    fix i :: nat assume "i < 8"
    moreover have "example_newId n ! i = example_newId m ! i" using eq by simp
    ultimately show "(ucast (drop_bit (8 * i) (of_nat n :: u64)) :: byte) = ucast (drop_bit (8 * i) (of_nat m :: u64))"
      by (simp add: example_newId_def nth_append del: upt_Suc upt.simps)
  qed
  then show "n = m" using nm by (simp add: idCount_def u64_of_nat_eq)
qed

definition example_send_env :: send_env where
  "example_send_env = \<lparr>sendNoContract = \<lambda>_. False, standardContractTransferByteCount = 65536,
     unmarshalStoredContract = \<lambda>_. Some (example_stored 65536), marshalContract = \<lambda>_. [],
     marshalPack = \<lambda>p. Some (enc_Pack p), unmarshalPack = \<lambda>b. map_option fst (dec_Pack b),
     marshalTransferFrame = \<lambda>t. Some (enc_TransferFrame t), unmarshalTransferFrame = \<lambda>b. map_option fst (dec_TransferFrame b),
     newId = example_newId\<rparr>"

lemma example_send_env_ok [simp]: "send_env_ok example_send_env"
proof -
  have "dec_Pack (enc_Pack p) = Some (p, [])" "dec_TransferFrame (enc_TransferFrame t) = Some (t, [])" for p t
    using codecD [OF codec_Pack, of p "[]"] codecD [OF codec_TransferFrame, of t "[]"] by simp_all
  then have "codec_ok example_send_env" by (simp add: codec_ok_def example_send_env_def)
  moreover have "length (example_newId n) = 16" for n by (simp add: example_newId_def)
  ultimately show ?thesis
    by (simp add: send_env_ok_def) (simp add: example_send_env_def example_newId_inj id_ok_def example_stored_def maxStoredByteCount_def)
qed

lemma default_send_settings_ok [simp]: "send_settings_ok DefaultSendBufferSettings"
  by (simp add: send_settings_ok_def DefaultSendBufferSettings_def maxMessageByteCount_def)

definition example_send_settings :: SendBufferSettings where
  "example_send_settings = DefaultSendBufferSettings\<lparr>ss_RttScale := 1, ss_RttWindowSize := 2\<rparr>"

lemma example_send_settings_ok [simp]: "send_settings_ok example_send_settings"
  using default_send_settings_ok by (simp add: send_settings_ok_def example_send_settings_def)

definition example_frame :: "nat \<Rightarrow> Frame" where
  "example_frame n = \<lparr>f_MessageType = 7, f_MessageBytes = [of_nat n, 1], f_Raw = False\<rparr>"

definition example_send_pack :: "nat \<Rightarrow> SendPack" where
  "example_send_pack n = \<lparr>sp_TransferOptions = \<lparr>to_Ack = True, to_CompanionContract = False, to_ForceStream = False\<rparr>,
     sp_Frame = example_frame n, sp_Destination = DestinationId example_id, sp_IntermediaryIds = emptyMultiHopId,
     sp_AckCallback = UserCallback n, sp_MessageByteCount = 2\<rparr>"

lemma example_fits: "fits example_send_env example_send_settings 2"
  by code_simp

lemma example_send_pack_ok [simp]: "send_pack_ok example_send_env example_send_settings (example_send_pack n)"
  using example_fits
  by (simp add: send_pack_ok_def example_send_pack_def example_frame_def frame_ok_def MessageByteCount_def int64_def
      maxMessageByteCount_def)

definition example_send_item :: sendItem where
  "example_send_item = \<lparr>messageId = [], messageByteCount = 0, sequenceNumber = 0, heapIndex = 0, maxHeapIndex = 0,
     si_contractId = None, si_head = False, si_hasContractFrame = False, si_sendTime = 0, si_resendTime = 0,
     si_sendCount = 0, si_transferFrameBytes = [], si_ackCallback = UserCallback 0\<rparr>"

definition example_sender :: "SendSequence option" where
  "example_sender = NewSendSequence zeroId (DestinationId example_id) emptyMultiHopId False False example_id
     example_send_settings (\<lambda>_. example_send_item) (\<lambda>_. example_contract) (\<lambda>_. newRttWindowItem 0 0)"

definition example_attempt :: contract_attempt where
  "example_attempt = \<lparr>at_done = False, at_now = 0,
     at_contract = Some \<lparr>StoredContractBytes = [], StoredContractHmac = [], c_ProvideMode = 0\<rparr>, at_writeOk = True\<rparr>"

text \<open>
  Two packs are queued and sent, after the message with the contract. All three are acked at once by the ack
  of the third message, which is at address 3; address 0 is the contract.
\<close>

definition example_ack_of :: "nat \<Rightarrow> Ack" where
  "example_ack_of p = \<lparr>k_MessageId = example_newId p, k_SequenceId = example_id, k_Selective = False, k_Tag = None\<rparr>"

definition example_send_inputs :: "send_input list" where
  "example_send_inputs =
     [PackQueued (example_send_pack 1), PackQueued (example_send_pack 2),
      Round 0 (\<lambda>_. True) (TakePack True example_attempt []), Round 1 (\<lambda>_. True) (TakePack True example_attempt []),
      AckArrives (example_ack_of 3), Round 2 (\<lambda>_. True) AckNotify]"

end
