(* ===== verification/Send_Properties.thy ===== *)
theory Send_Properties
  imports Wire_Codec
begin

text \<open>
  The properties of the sending end: a run from a new sequence is safe, acks settle a prefix of what is
  pending, due messages are written again, and every caller gets exactly one answer.
\<close>

section \<open>The start and the end of a run\<close>

lemma NewSendSequence_ok:
  assumes "send_settings_ok st"
  obtains s where "NewSendSequence client dst via companion force sid st items cs samples = Some s" "ss_inv env [] s"
    "s_settings s = st" "s_packs s = []" "ledger s = {#}" "s_nextPtr s = 0" "s_log s = []" "sendItems s = []"
    "sendContract s = None" "headAck (s_ackWindow s) = None"
proof -
  obtain w where w: "NewRttWindow (ss_RttWindowSize st) (ss_RttWindowTimeout st) (ss_RttScale st) (ss_MinResendInterval st)
        (ss_MaxResendInterval st) samples = Some w" "rw_view w [] None" "minScaledRtt w = ss_MinResendInterval st"
      "maxScaledRtt w = ss_MaxResendInterval st"
    using rw_view_new [of "ss_RttWindowSize st" "ss_RttWindowTimeout st" "ss_RttScale st" "ss_MinResendInterval st"
      "ss_MaxResendInterval st" samples] assms by (auto simp: send_settings_ok_def)
  define s where "s = \<lparr>s_clientId = client, s_destination = dst, s_intermediaryIds = via, s_companionContract = companion,
         s_forceStream = force, s_sequenceId = sid, s_settings = st, sendContracts = cs, sendContract = None,
         sendContractAcked = False, openSendContracts = [], s_packs = [], resendQueue = newResendQueue items,
         sendItems = [], s_nextSequenceNumber = 0, s_idleCondition = NewIdleCondition, rttWindow = w,
         contractMultiRouteWriter = None, contractSeqIndex = 0, s_ackWindow = newSequenceAckWindow,
         s_nextPtr = 0, s_log = []\<rparr>"
  have "tq_inv (newResendQueue items)" "tq_items (newResendQueue items) = {}" "cmp (newResendQueue items) = compareResendTime"
    by (simp_all add: newResendQueue_def tq_inv_new)
  then have "items_ok env [] [] {} s" by (simp add: items_ok_def s_def)
  moreover have "send_contracts_ok env {} 0 s" by (simp add: send_contracts_ok_def s_def)
  moreover have "rtt_part s" using w(2-4) by (auto simp: rtt_part_def s_def)
  ultimately have "ss_inv env [] s" using assms by (simp add: ss_inv_def ss_core_def) (simp add: s_def)
  moreover have "NewSendSequence client dst via companion force sid st items cs samples = Some s"
    using w(1) by (simp add: NewSendSequence_def s_def)
  ultimately show thesis by (intro that [of s]) (simp_all add: s_def ledger_def newSequenceAckWindow_def)
qed
text \<open>The deferred function of \<open>Run\<close> answers what is pending, \<open>Close\<close> what is still in the channel.\<close>

lemma ledger_contracts_exit: "outcomes (s_log (fold closeSendContractOnExit cs s)) = outcomes (s_log s) \<and>
    resendQueue (fold closeSendContractOnExit cs s) = resendQueue s \<and> s_packs (fold closeSendContractOnExit cs s) = s_packs s"
  by (induction cs arbitrary: s) (simp_all add: closeSendContractOnExit_def Let_def semit_def)

lemma ackCallback_kept:
  "resendQueue (ackCallback f e s) = resendQueue s" "s_packs (ackCallback f e s) = s_packs s"
  "sendItems (ackCallback f e s) = sendItems s"
  by (simp_all add: ackCallback_def semit_def setContractAcked_def split: AckFunction.splits)

lemma semit_kept:
  "resendQueue (semit es s) = resendQueue s" "s_packs (semit es s) = s_packs s" "sendItems (semit es s) = sendItems s"
  by (simp_all add: semit_def)

lemma discard_items_exit: "outcomes (s_log (fold discardItemOnExit ps s)) = outcomes (s_log s) @ answers s ps (Some SendSequenceClosed) \<and>
    resendQueue (fold discardItemOnExit ps s) = resendQueue s \<and> s_packs (fold discardItemOnExit ps s) = s_packs s"
  by (induction ps arbitrary: s) (simp_all add: discardItemOnExit_def answers_def semit_kept ackCallback_kept)

lemma cleanup_outcomes:
  "outcomes (s_log (send_exit_cleanup s)) = outcomes (s_log s) @ answers s (orderedItems (resendQueue s)) (Some SendSequenceClosed) \<and>
   s_packs (send_exit_cleanup s) = s_packs s"
  using ledger_contracts_exit [of "openSendContracts s" s]
    discard_items_exit [of "orderedItems (resendQueue s)" "fold closeSendContractOnExit (openSendContracts s) s"]
  by (simp add: send_exit_cleanup_def Let_def closeContractMultiRouteWriter_def semit_kept answers_def split: option.splits)

lemma close_packs:
  "outcomes (s_log (fold (\<lambda>pack s. semit [ReturnBytes (f_MessageBytes (sp_Frame pack))] (ackCallback (sp_AckCallback pack)
     (Some SendSequenceClosed) s)) packs s)) =
   outcomes (s_log s) @ concat (map (\<lambda>pack. answer (sp_AckCallback pack) (Some SendSequenceClosed)) packs)"
  by (induction packs arbitrary: s) simp_all

lemma Close_outcomes:
  "outcomes (s_log (SendSequence_Close s)) =
   outcomes (s_log s) @ concat (map (\<lambda>pack. answer (sp_AckCallback pack) (Some SendSequenceClosed)) (s_packs s))"
  by (simp add: SendSequence_Close_def close_packs)

lemma answers_perm: "mset ps = mset qs \<Longrightarrow> mset (map fst (answers s ps e)) = mset (map fst (answers s qs None))"
proof -
  assume "mset ps = mset qs"
  then have "mset (answers s ps None) = mset (answers s qs None)"
    unfolding answers_def mset_concat map_map comp_def by (simp only: mset_map flip: sum_mset_sum_list)
  then show ?thesis using answers_fst [of s ps e] by simp
qed

lemma all_answered:
  assumes "ss_inv env F s"
  shows "mset (map fst (outcomes (s_log (SendSequence_Close (send_exit_cleanup s))))) = ledger s + pack_answers (s_packs s)"
proof -
  have core: "items_ok env F (sendItems s) (set (sendItems s)) s" using assms by (simp add: ss_inv_def ss_core_def)
  have "distinct (orderedItems (resendQueue s))" "distinct (sendItems s)"
    using core items_ok_distinct [OF core] tq_inv_distinct by (auto simp: items_ok_def)
  then have "mset (orderedItems (resendQueue s)) = mset (sendItems s)"
    using core by (simp add: items_ok_def set_eq_iff_mset_eq_distinct)
  from answers_perm [OF this, of s "Some SendSequenceClosed"] show ?thesis
    by (simp add: Close_outcomes cleanup_outcomes ledger_def pack_answers_def map_concat comp_def answer_fst [of _ "Some SendSequenceClosed"]
        del: mset_map)
qed

section \<open>Runs of a new sequence\<close>

lemma new_run:
  assumes "send_settings_ok st" "send_env_ok env" "\<forall>pack\<in>set (queued is). send_pack_ok env st pack" "3 * length is + 3 < 2 ^ 64"
  obtains s t e F n where "NewSendSequence client dst via companion force sid st items cs samples = Some s"
    "send_run env is s = Some (t, e)" "ss_inv env F t" "s_settings t = st" "n \<le> length is" "e = None \<longrightarrow> n = length is"
    "ledger t + pack_answers (s_packs t) = pack_answers (queued (take n is))"
    "\<exists>taken. queued (take n is) = taken @ s_packs t \<and> grown taken (e \<noteq> None) [] F"
proof -
  obtain s where s: "NewSendSequence client dst via companion force sid st items cs samples = Some s" "ss_inv env [] s"
      "s_settings s = st" "s_packs s = []" "ledger s = {#}" "s_nextPtr s = 0"
    using NewSendSequence_ok [OF assms(1)] by blast
  have room: "room (3 * length is + 3) [] s" using assms(4) s(6) by (simp add: room_def idCount_def)
  have packs: "\<forall>pack\<in>set (s_packs s @ queued is). send_pack_ok env (s_settings s) pack" using assms(3) s(3,4) by simp
  obtain t e F n where t: "send_run env is s = Some (t, e)" "n \<le> length is" "e = None \<longrightarrow> n = length is"
      "send_ran env [] F (queued (take n is)) e s t"
    using send_run_ok [OF s(2) assms(2) room packs] by blast
  show thesis
    by (rule that [OF s(1) t(1) _ _ t(2,3)]) (use t(4) s in \<open>auto simp: send_ran_def\<close>)
qed




lemma example_queued: "\<forall>pack\<in>set (queued example_send_inputs). send_pack_ok example_send_env example_send_settings pack"
  "3 * length example_send_inputs + 3 < 2 ^ 64"
  by (simp_all add: example_send_inputs_def)


text \<open>
  C7: Every caller gets exactly one answer: after a run, whatever made it stop, the deferred function of \<open>Run\<close>
  and \<open>Close\<close> have called the callback of every pack that was queued, and each once.
\<close>

theorem send_answers_once:
  assumes "send_settings_ok st" "send_env_ok env" "\<forall>pack\<in>set (queued is). send_pack_ok env st pack" "3 * length is + 3 < 2 ^ 64"
  shows "\<exists>s t e n. NewSendSequence client dst via companion force sid st items cs samples = Some s \<and>
    send_run env is s = Some (t, e) \<and> n \<le> length is \<and> (e = None \<longrightarrow> n = length is) \<and>
    mset (map fst (outcomes (s_log (SendSequence_Close (send_exit_cleanup t))))) = pack_answers (queued (take n is))"
proof -
  obtain s t e F n where t: "NewSendSequence client dst via companion force sid st items cs samples = Some s"
      "send_run env is s = Some (t, e)" "ss_inv env F t" "n \<le> length is" "e = None \<longrightarrow> n = length is"
      "ledger t + pack_answers (s_packs t) = pack_answers (queued (take n is))"
    by (rule new_run [OF assms])
  then show ?thesis using all_answered [OF t(3)] by auto
qed

theorem send_answers_once_witness:
  "\<exists>s t e n. example_sender = Some s \<and> send_run example_send_env example_send_inputs s = Some (t, e) \<and>
    (e = None \<longrightarrow> n = 6) \<and>
    mset (map fst (outcomes (s_log (SendSequence_Close (send_exit_cleanup t))))) = pack_answers (queued (take n example_send_inputs))"
proof -
  have "length example_send_inputs = 6" by (simp add: example_send_inputs_def)
  then show ?thesis
    using send_answers_once [OF example_send_settings_ok example_send_env_ok example_queued] unfolding example_sender_def by metis
qed

text \<open>
  C8: Everything a run writes is a pack. A pack without a number is a message that asked for no ack; a numbered one
  is message \<open>n\<close> of one stream, with the same frames each time it is written. The frames of the stream are
  those of the queued packs, in the order in which they were queued; when every pack asked for an ack none is
  left out.
\<close>

theorem send_writes_stream:
  assumes "send_settings_ok st" "send_env_ok env" "\<forall>pack\<in>set (queued is). send_pack_ok env st pack" "3 * length is + 3 < 2 ^ 64"
  shows "\<exists>s t e msgs. NewSendSequence client dst via companion force sid st items cs samples = Some s \<and>
    send_run env is s = Some (t, e) \<and>
    (\<forall>b\<in>set (writes (s_log t)). \<exists>pack. decodePack env b = Some pack \<and>
       (pk_Nack pack \<or> unat (pk_SequenceNumber pack) < length msgs \<and> pk_Frames pack = msgs ! unat (pk_SequenceNumber pack))) \<and>
    subseq (concat msgs) (map sp_Frame (queued is)) \<and>
    ((\<forall>pack\<in>set (queued is). to_Ack (sp_TransferOptions pack)) \<longrightarrow> prefix (concat msgs) (map sp_Frame (queued is)))"
proof -
  obtain s t e F n where t: "NewSendSequence client dst via companion force sid st items cs samples = Some s"
      "send_run env is s = Some (t, e)" "ss_inv env F t" "n \<le> length is"
      "\<exists>taken. queued (take n is) = taken @ s_packs t \<and> grown taken (e \<noteq> None) [] F"
    by (rule new_run [OF assms])
  obtain taken where taken: "queued (take n is) = taken @ s_packs t" "grown taken (e \<noteq> None) [] F" using t(5) by blast
  have q: "queued is = taken @ s_packs t @ queued (drop n is)"
    using queued_append [of "take n is" "drop n is"] taken(1) by simp
  have sub: "subseq (stream_frames F) (map sp_Frame taken)"
    and pre: "(\<forall>pack\<in>set taken. to_Ack (sp_TransferOptions pack)) \<longrightarrow> prefix (stream_frames F) (map sp_Frame taken)"
    using taken(2) by (auto simp: grown_def stream_frames_def)
  have "subseq (stream_frames F) (map sp_Frame (queued is))"
    using sub subseq_order.trans prefix_imp_subseq [of "map sp_Frame taken" "map sp_Frame (queued is)"] by (auto simp: q)
  moreover have "prefix (stream_frames F) (map sp_Frame (queued is))"
    if "\<forall>pack\<in>set (queued is). to_Ack (sp_TransferOptions pack)"
    using pre that by (auto simp: q intro: prefix_order.trans)
  moreover have "\<exists>pack. decodePack env b = Some pack \<and> (pk_Nack pack \<or>
      unat (pk_SequenceNumber pack) < length (map snd F) \<and> pk_Frames pack = map snd F ! unat (pk_SequenceNumber pack))"
    if "b \<in> set (writes (s_log t))" for b
  proof -
    have "written_ok env F (length F - length (sendItems t)) b" using t(3) that by (simp add: ss_inv_def ss_core_def)
    then show ?thesis by (auto simp: written_ok_def carries_def)
  qed
  ultimately show ?thesis using t(1,2) unfolding stream_frames_def
    by (intro exI [of _ s] exI [of _ t] exI [of _ e] exI [of _ "map snd F"] conjI) auto
qed

theorem send_writes_stream_witness:
  "\<exists>s t e msgs. example_sender = Some s \<and> send_run example_send_env example_send_inputs s = Some (t, e) \<and>
    prefix (concat msgs) [example_frame 1, example_frame 2]"
proof -
  have "\<forall>pack\<in>set (queued example_send_inputs). to_Ack (sp_TransferOptions pack)"
    "map sp_Frame (queued example_send_inputs) = [example_frame 1, example_frame 2]"
    by (simp_all add: example_send_inputs_def example_send_pack_def)
  then show ?thesis
    using send_writes_stream [OF example_send_settings_ok example_send_env_ok example_queued] unfolding example_sender_def by metis
qed

section \<open>Acks\<close>

text \<open>
  C9: A cumulative ack of a pending message settles that message and everything sent before it: exactly this
  prefix leaves the pending items and the resend queue, and the callbacks of its messages, and no others,
  are called without error, each once and in the order of sending. An ack of a message that is not pending
  changes nothing.
\<close>

theorem ack_settles_prefix:
  assumes inv: "ss_inv env F s" and env: "send_env_ok env" and i: "i < length (sendItems s)"
  shows "\<exists>t. receiveAck now (messageId (send_item s (sendItems s ! i))) False tg s = Some t \<and>
    sendItems t = drop (Suc i) (sendItems s) \<and> set (orderedItems (resendQueue t)) = set (drop (Suc i) (sendItems s)) \<and>
    outcomes (s_log t) = outcomes (s_log s) @ answers s (take (Suc i) (sendItems s)) None"
  by (rule receiveAck_settles [OF assms])

text \<open>A sequence with one pending message.\<close>

lemma example_sent:
  obtains s t where "example_sender = Some s" "send example_send_env 0 True (example_frame 1) (UserCallback 1) True s = Some t"
    "ss_inv example_send_env [(0, [example_frame 1])] t" "sendItems t = [0]" "si_ackCallback (send_item t 0) = UserCallback 1"
    "outcomes (s_log t) = []" "messageId (send_item t 0) = example_newId 0"
proof -
  obtain s where s: "example_sender = Some s" "ss_inv example_send_env [] s" "s_settings s = example_send_settings"
      "s_packs s = []" "s_nextPtr s = 0" "s_log s = []" "sendItems s = []" "sendContract s = None"
    using NewSendSequence_ok [OF example_send_settings_ok] unfolding example_sender_def by metis
  have core: "ss_core example_send_env [] [] (set []) 0 s" using s(2,7) by (simp add: ss_inv_def)
  have frame: "frame_ok (frames_of (Some (example_frame 1)))" using example_send_pack_ok [of 1]
    by (simp add: send_pack_ok_def frames_of_def example_send_pack_def)
  have "ss_core example_send_env [] [] (set []) (charge (s_settings s) (MessageByteCount (frames_of (Some (example_frame 1)))) + 0) s"
    using core contracts_extra_mono [of example_send_env "{}" 0 s] s(8) by (simp add: ss_core_def)
  from sendWithSetContract_ok [OF this example_send_env_ok _ s(7) order_refl frame refl refl, where ack = True and setC = False and
      now = 0 and ok = True and cb = "UserCallback 1"] s(5)
  obtain t where t: "send example_send_env 0 True (example_frame 1) (UserCallback 1) True s = Some t"
      "ss_core example_send_env [(0, [example_frame 1])] [0] {0} 0 t" "sendItems t = [0]"
      "si_ackCallback (send_item t 0) = UserCallback 1" "outcomes (s_log t) = outcomes (s_log s)"
    by (auto simp: send_def numbered_def sent_stream_def frames_of_def idCount_def)
  have "item_ok example_send_env [(0, [example_frame 1])] (1 - 1 + 0) ([0] ! 0) (send_item t ([0] ! 0))"
    using items_ok_nth [OF core_items [OF t(2)], of 0] by simp
  then have "messageId (send_item t 0) = example_newId 0" by (simp add: item_ok_def) (simp add: example_send_env_def)
  then show thesis using that s(1,6) t by (simp add: ss_inv_def)
qed

theorem ack_settles_prefix_witness:
  "\<exists>s t u. example_sender = Some s \<and> send example_send_env 0 True (example_frame 1) (UserCallback 1) True s = Some t \<and>
    receiveAck 1 (example_newId 0) False None t = Some u \<and> sendItems u = [] \<and> outcomes (s_log u) = [(1, None)]"
proof (rule example_sent)
  fix s t assume t: "example_sender = Some s" "send example_send_env 0 True (example_frame 1) (UserCallback 1) True s = Some t"
    "ss_inv example_send_env [(0, [example_frame 1])] t" "sendItems t = [0]" "si_ackCallback (send_item t 0) = UserCallback 1"
    "outcomes (s_log t) = []" "messageId (send_item t 0) = example_newId 0"
  then have "0 < length (sendItems t)" by simp
  from ack_settles_prefix [OF t(3) example_send_env_ok this, of 1 None] t show ?thesis
    by (auto simp: answers_def answer_def)
qed

text \<open>
  C10: Before it waits, \<open>Run\<close> writes every message again whose resend time has come: the inner loop ends, the
  only reason to stop is a message that took too long to be acked, and otherwise each message that was due
  has been written and is due again only later. Nothing is acked or lost on the way.
\<close>

theorem send_resends_due:
  assumes inv: "ss_inv env F s" and env: "send_env_ok env"
  shows "\<exists>t r. s_wait env now wr s = Some (t, r) \<and> sendItems t = sendItems s \<and> outcomes (s_log t) = outcomes (s_log s) \<and>
    (case r of Inl e \<Rightarrow> e = AckTimedOut
     | Inr _ \<Rightarrow> (\<forall>p\<in>set (sendItems s). now < si_resendTime (send_item t p)) \<and>
         (\<exists>es. s_log t = s_log s @ es \<and> (\<forall>p\<in>set (sendItems s). si_resendTime (send_item s p) \<le> now \<longrightarrow>
            si_transferFrameBytes (send_item t p) \<in> set (writes es))))"
proof -
  obtain t r where t: "s_wait env now wr s = Some (t, r)" "ss_inv env F t" "resend_step s t"
      "case r of Inl e \<Rightarrow> e = AckTimedOut | Inr _ \<Rightarrow> due now t = {} \<and> resent (due now s) (due now s) s t"
    using s_wait_ok [OF inv env] by blast
  have st: "sendItems t = sendItems s" "outcomes (s_log t) = outcomes (s_log s)" using t(3) by (simp_all add: resend_step_def)
  have q: "tq_items (resendQueue s) = set (sendItems s)" "tq_items (resendQueue t) = set (sendItems s)"
    using inv t(2) st(1) by (simp_all add: ss_inv_def ss_core_def items_ok_def)
  show ?thesis
  proof (cases r)
    case (Inl e)
    then show ?thesis using t(1,4) st by auto
  next
    case (Inr d)
    have "\<forall>p\<in>set (sendItems s). now < si_resendTime (send_item t p)" using t(4) Inr q(2) by (auto simp: due_def not_le)
    moreover obtain es where "s_log t = s_log s @ es" "\<forall>p\<in>due now s. si_transferFrameBytes (send_item t p) \<in> set (writes es)"
      using t(4) Inr by (auto simp: resent_def)
    ultimately show ?thesis using t(1) st Inr q(1) by (auto simp: due_def)
  qed
qed

theorem send_resends_due_witness:
  "\<exists>s t u r. example_sender = Some s \<and> send example_send_env 0 True (example_frame 1) (UserCallback 1) True s = Some t \<and>
    s_wait example_send_env (2 * 10 ^ 9) (\<lambda>_. True) t = Some (u, r) \<and> sendItems u = [0]"
proof (rule example_sent)
  fix s t assume t: "example_sender = Some s" "send example_send_env 0 True (example_frame 1) (UserCallback 1) True s = Some t"
    "ss_inv example_send_env [(0, [example_frame 1])] t" "sendItems t = [0]"
  from send_resends_due [OF t(3) example_send_env_ok, of "2 * 10 ^ 9" "\<lambda>_. True"] t show ?thesis by auto
qed

text \<open>
  A selective ack settles nothing: the message stays pending and no callback is called; its next resend is
  put off by the selective ack timeout, and the other messages keep their times.
\<close>

theorem selective_ack_postpones:
  assumes inv: "ss_inv env F s" and env: "send_env_ok env" and p: "p \<in> set (sendItems s)"
  shows "\<exists>t. receiveAck now (messageId (send_item s p)) True tg s = Some t \<and> sendItems t = sendItems s \<and>
    set (orderedItems (resendQueue t)) = set (sendItems s) \<and> outcomes (s_log t) = outcomes (s_log s) \<and>
    (\<forall>q. si_resendTime (send_item t q) =
      (if q = p then now + ss_SelectiveAckTimeout (s_settings s) else si_resendTime (send_item s q)))"
proof -
  let ?ps = "sendItems s"
  have core: "ss_core env F ?ps (set ?ps) 0 s" using inv by (simp add: ss_inv_def)
  note items = core_items [OF core]
  have q: "tq_inv (resendQueue s)" "set (orderedItems (resendQueue s)) = set ?ps" using items by (simp_all add: items_ok_def)
  have get: "GetByMessageId (resendQueue s) (messageId (send_item s p)) = Some p"
    using tq_inv_message [OF q(1), of "messageId (send_item s p)" p] q(2) p by (simp add: GetByMessageId_def)
  obtain w where w: "closeTagOf now tg s = Some (s\<lparr>rttWindow := w\<rparr>)" "ss_core env F ?ps (set ?ps) 0 (s\<lparr>rttWindow := w\<rparr>)"
    using closeTagOf_ok [OF core] by blast
  let ?s = "s\<lparr>rttWindow := w\<rparr>"
  have inv': "ss_inv env F ?s" using w(2) by (simp add: ss_inv_def)
  have p': "p \<in> set (sendItems ?s)" using p by simp
  obtain t where t: "selectiveAck now p ?s = Some t" "ss_inv env F t" "acks_step ?s t" "sendItems t = ?ps"
      "\<forall>q. si_resendTime (send_item t q) =
        (if q = p then now + ss_SelectiveAckTimeout (s_settings ?s) else si_resendTime (send_item ?s q))"
    using selectiveAck_ok [OF inv' env p', of now] by auto
  have "outcomes (s_log t) = outcomes (s_log s)"
  proof -
    obtain k where k: "k \<le> length ?ps" "?ps = drop k ?ps" "outcomes (s_log t) = outcomes (s_log s) @ answers ?s (take k ?ps) None"
      using t(3,4) by (auto simp: acks_step_def)
    have "length ?ps = length ?ps - k" using arg_cong [OF k(2), of length] by simp
    then have "k = 0 \<or> ?ps = []" using k(1) by (cases ?ps) auto
    then show ?thesis using k(3) by auto
  qed
  moreover have "set (orderedItems (resendQueue t)) = set ?ps"
    using t(2,4) unfolding ss_inv_def ss_core_def items_ok_def by simp
  moreover have "receiveAck now (messageId (send_item s p)) True tg s = Some t" using get w(1) t(1) by (simp add: receiveAck_def)
  ultimately show ?thesis using t(4,5) by auto
qed

theorem selective_ack_postpones_witness:
  "\<exists>s t u. example_sender = Some s \<and> send example_send_env 0 True (example_frame 1) (UserCallback 1) True s = Some t \<and>
    receiveAck 1 (example_newId 0) True None t = Some u \<and> sendItems u = [0] \<and>
    si_resendTime (send_item u 0) = 1 + ss_SelectiveAckTimeout (s_settings t)"
proof (rule example_sent)
  fix s t assume t: "example_sender = Some s" "send example_send_env 0 True (example_frame 1) (UserCallback 1) True s = Some t"
    "ss_inv example_send_env [(0, [example_frame 1])] t" "sendItems t = [0]" "messageId (send_item t 0) = example_newId 0"
  then have "0 \<in> set (sendItems t)" by simp
  from selective_ack_postpones [OF t(3) example_send_env_ok this, of 1 None] t show ?thesis by auto
qed

end
