(* ===== verification/Client_Buffers.thy ===== *)
theory Client_Buffers
  imports Receive_Sequence Send_Sequence
begin

text \<open>
  The client between the transports and the sequences (\<open>Client\<close>, \<open>SendBuffer\<close>, \<open>ReceiveBuffer\<close>,
  \<open>ForwardBuffer\<close> and \<open>ForwardSequence\<close> in transfer.go): a transfer frame that was read is routed to the sequence
  it is for, a message to send is routed to the sequence of its destination, and sequences are created,
  replaced and removed. A sequence is a pointer here; what it does is in the theories of the sequences.
\<close>

section \<open>Reading: the loop of \<open>Client.run\<close>\<close>

text \<open>
  \<open>c_unmarshalFiltered\<close> decodes the path only: \<open>None\<close> is an error, \<open>Some None\<close> a message without a path.
\<close>

record client_env =
  c_unmarshalFiltered :: "byte list \<Rightarrow> ProtoTransferPath option option"
  c_unmarshalTransferFrame :: "byte list \<Rightarrow> TransferFrame option"
  c_unmarshalPack :: "byte list \<Rightarrow> Pack option"
  c_unmarshalAck :: "byte list \<Rightarrow> Ack option"
  c_isStreamOpen :: "Id \<Rightarrow> bool"

datatype client_action =
    ReturnFrame "byte list"
  | ReportBadMessage TransferPath ByteCount
  | ToSendBuffer TransferPath Ack
  | ToReceiveBuffer ReceivePack
  | ToForwardCallbacks TransferPath "byte list"

text \<open>The ack and the pack of a frame; the older form carries one of them as bytes. \<open>None\<close> is a bad message.\<close>

definition frameContent :: "client_env \<Rightarrow> TransferFrame \<Rightarrow> (Ack option \<times> Pack option) option" where
  "frameContent env tf =
     (case tf_Frame tf of None \<Rightarrow> Some (tf_Ack tf, tf_Pack tf)
      | Some f \<Rightarrow>
          if f_MessageType f = MessageType_TransferAck then
            map_option (\<lambda>a. (Some a, tf_Pack tf)) (c_unmarshalAck env (f_MessageBytes f))
          else if f_MessageType f = MessageType_TransferPack then
            map_option (\<lambda>p. (tf_Ack tf, Some p)) (c_unmarshalPack env (f_MessageBytes f))
          else None)"

definition packAction :: "TransferPath \<Rightarrow> byte list \<Rightarrow> Pack \<Rightarrow> client_action" where
  "packAction src bytes pack =
     (case IdFromBytes (pk_SequenceId pack) of Inl _ \<Rightarrow> ReturnFrame bytes
      | Inr i \<Rightarrow> ToReceiveBuffer \<lparr>rp_Source = src, rp_SequenceId = i, rp_Pack = pack, rp_ReceiveCallback = 0,
          rp_MessageByteCount = MessageByteCount (pk_Frames pack), rp_TransferFrameBytes = bytes\<rparr>)"

definition toLocal :: "client_env \<Rightarrow> Id \<Rightarrow> TransferPath \<Rightarrow> bool" where
  "toLocal env clientId path =
     (if IsStream path then c_isStreamOpen env (streamId path) else destinationId path = clientId)"

text \<open>What one frame leads to, in order.\<close>

definition Client_dispatch :: "client_env \<Rightarrow> Id \<Rightarrow> byte list \<Rightarrow> client_action list" where
  "Client_dispatch env clientId bytes =
     (case c_unmarshalFiltered env bytes of None \<Rightarrow> [ReturnFrame bytes]
      | Some None \<Rightarrow> [ReturnFrame bytes]
      | Some (Some m) \<Rightarrow>
          (case TransferPathFromProtobuf m of Inl _ \<Rightarrow> [ReturnFrame bytes]
           | Inr path \<Rightarrow>
               let src = SourceMask path;
                   bad = [ReportBadMessage src (int (length bytes)), ReturnFrame bytes]
               in if toLocal env clientId path then
                    (case Option.bind (c_unmarshalTransferFrame env bytes) (frameContent env) of None \<Rightarrow> bad
                     | Some (ack, pack) \<Rightarrow>
                         (case ack of None \<Rightarrow> [] | Some a \<Rightarrow> [ToSendBuffer (Reverse src) a, ReturnFrame bytes]) @
                         (case pack of None \<Rightarrow> [] | Some p \<Rightarrow> [packAction src bytes p]))
                  else [ToForwardCallbacks path bytes]))"

text \<open>The audit of a bad message is sent at once.\<close>

definition updatePeerAudit :: "(ProtoPeerAudit \<Rightarrow> bool) \<Rightarrow> time \<Rightarrow> TransferPath \<Rightarrow> (PeerAudit \<Rightarrow> PeerAudit) \<Rightarrow> ProtoPeerAudit list" where
  "updatePeerAudit marshal now src f =
     (let (a, early) = audit_Update marshal now f (NewSequencePeerAudit src 0);
          (_, late) = audit_Complete marshal a
      in early @ late)"

definition ReportAbuse :: "(ProtoPeerAudit \<Rightarrow> bool) \<Rightarrow> time \<Rightarrow> TransferPath \<Rightarrow> ProtoPeerAudit list" where
  "ReportAbuse marshal now src = updatePeerAudit marshal now src (\<lambda>a. a\<lparr>Abuse := True\<rparr>)"

section \<open>Sending and forwarding\<close>

definition DefaultTransferOpts :: TransferOptions where
  "DefaultTransferOpts = \<lparr>to_Ack = True, to_CompanionContract = False, to_ForceStream = False\<rparr>"

datatype transfer_opt = OptTransfer TransferOptions | OptSetAck bool | OptSetForceStream bool | OptSetCompanionContract bool
  | OptCtx

definition NoAck :: transfer_opt where
  "NoAck = OptSetAck False"

definition CompanionContract :: transfer_opt where
  "CompanionContract = OptSetCompanionContract True"

definition ForceStream :: transfer_opt where
  "ForceStream = OptSetForceStream True"

definition applyOpt :: "TransferOptions \<Rightarrow> transfer_opt \<Rightarrow> TransferOptions" where
  "applyOpt o1 v = (case v of OptTransfer o2 \<Rightarrow> o2 | OptSetAck a \<Rightarrow> o1\<lparr>to_Ack := a\<rparr>
     | OptSetForceStream f \<Rightarrow> o1\<lparr>to_ForceStream := f\<rparr> | OptSetCompanionContract c \<Rightarrow> o1\<lparr>to_CompanionContract := c\<rparr>
     | OptCtx \<Rightarrow> o1)"

datatype send_route = Loopback SendPack | ViaSendBuffer SendPack

text \<open>\<open>None\<close> is the panic without a destination; \<open>Inl\<close> the error of a client that is done.\<close>

definition sendWithTimeoutDetailed ::
    "bool \<Rightarrow> Id \<Rightarrow> Frame \<Rightarrow> TransferPath \<Rightarrow> MultiHopId \<Rightarrow> AckFunction \<Rightarrow> transfer_opt list \<Rightarrow> (unit + send_route) option" where
  "sendWithTimeoutDetailed isDone clientId frame destination intermediaryIds cb opts =
     (if \<not> IsDestinationMask destination then None
      else if isDone then Some (Inl ())
      else
        let pack = \<lparr>sp_TransferOptions = foldl applyOpt DefaultTransferOpts opts, sp_Frame = frame, sp_Destination = destination,
              sp_IntermediaryIds = intermediaryIds, sp_AckCallback = cb,
              sp_MessageByteCount = int (length (f_MessageBytes frame))\<rparr>
        in Some (Inr (if destinationId destination = clientId then Loopback pack else ViaSendBuffer pack)))"

definition SendWithTimeoutDetailed ::
    "bool \<Rightarrow> Id \<Rightarrow> Frame \<Rightarrow> TransferPath \<Rightarrow> AckFunction \<Rightarrow> transfer_opt list \<Rightarrow> (unit + send_route) option" where
  "SendWithTimeoutDetailed isDone clientId frame destination cb opts =
     sendWithTimeoutDetailed isDone clientId frame destination emptyMultiHopId cb opts"

text \<open>A multi hop send goes to the last id, by way of the others.\<close>

definition SendMultiHopWithTimeoutDetailed ::
    "bool \<Rightarrow> Id \<Rightarrow> Frame \<Rightarrow> MultiHopId \<Rightarrow> AckFunction \<Rightarrow> transfer_opt list \<Rightarrow> (unit + send_route) option" where
  "SendMultiHopWithTimeoutDetailed isDone clientId frame destination cb opts =
     (if MultiHop_Len destination = 0 then Some (Inl ())
      else do {
        (intermediaryIds, d) \<leftarrow> MultiHop_SplitTail destination;
        sendWithTimeoutDetailed isDone clientId frame (DestinationId d) intermediaryIds cb opts
      })"

definition SendControl ::
    "bool \<Rightarrow> Id \<Rightarrow> Frame \<Rightarrow> AckFunction \<Rightarrow> (unit + send_route) option" where
  "SendControl isDone clientId frame cb = SendWithTimeoutDetailed isDone clientId frame (DestinationId ControlId) cb []"

text \<open>The goroutine that serves the loopback channel: the message is received at once and answered.\<close>

datatype loopback_event = LoopbackReceive TransferPath "Frame list" int | LoopbackAnswer AckFunction | LoopbackReturn "byte list"

definition serveLoopback :: "Id \<Rightarrow> SendPack \<Rightarrow> loopback_event list" where
  "serveLoopback clientId pack =
     [LoopbackReceive (SourceId clientId) [sp_Frame pack] ProvideMode_Network, LoopbackAnswer (sp_AckCallback pack),
      LoopbackReturn (f_MessageBytes (sp_Frame pack))]"

record ForwardPack =
  fp_Destination :: TransferPath
  fp_TransferFrameBytes :: "byte list"

datatype forward_error = ForwardDone | ForwardBadFrame | ForwardBadPath id_error

text \<open>The path of the frame is read without a test that there is one: \<open>None\<close> is the nil dereference.\<close>

definition ForwardWithTimeoutDetailed :: "client_env \<Rightarrow> bool \<Rightarrow> byte list \<Rightarrow> (forward_error + ForwardPack) option" where
  "ForwardWithTimeoutDetailed env isDone bytes =
     (if isDone then Some (Inl ForwardDone)
      else (case c_unmarshalFiltered env bytes of None \<Rightarrow> Some (Inl ForwardBadFrame)
        | Some None \<Rightarrow> None
        | Some (Some m) \<Rightarrow>
            Some (case TransferPathFromProtobuf m of Inl e \<Rightarrow> Inl (ForwardBadPath e)
              | Inr path \<Rightarrow> Inr \<lparr>fp_Destination = DestinationMask path, fp_TransferFrameBytes = bytes\<rparr>)))"

section \<open>The registries of sequences\<close>

text \<open>
  \<open>SendBuffer\<close> and \<open>ForwardBuffer\<close> hold one open sequence per key. A caller whose sequence turned out closed
  asks again and names it (\<open>skip\<close>); a sequence is removed by its own goroutine once \<open>Run\<close> is over, unless it
  was replaced before. \<open>sb_cancelled\<close> are the sequences that were told to stop.
\<close>

record sendSequenceId =
  sk_Destination :: TransferPath
  sk_IntermediaryIds :: MultiHopId
  sk_CompanionContract :: bool
  sk_ForceStream :: bool

record SendBuffer =
  sendSequences :: "sendSequenceId \<Rightarrow> ptr option"
  sendSequencesByDestination :: "TransferPath \<Rightarrow> ptr list option"
  sendSequenceDestinations :: "ptr \<Rightarrow> TransferPath list option"
  sb_cancelled :: "ptr set"
  sb_nextPtr :: ptr

definition NewSendBuffer :: SendBuffer where
  "NewSendBuffer = \<lparr>sendSequences = \<lambda>_. None, sendSequencesByDestination = \<lambda>_. None, sendSequenceDestinations = \<lambda>_. None,
     sb_cancelled = {}, sb_nextPtr = 0\<rparr>"

definition sendSequenceIdOf :: "SendPack \<Rightarrow> sendSequenceId" where
  "sendSequenceIdOf pack = \<lparr>sk_Destination = sp_Destination pack, sk_IntermediaryIds = sp_IntermediaryIds pack,
     sk_CompanionContract = to_CompanionContract (sp_TransferOptions pack),
     sk_ForceStream = to_ForceStream (sp_TransferOptions pack)\<rparr>"

definition initSendSequence :: "sendSequenceId \<Rightarrow> ptr option \<Rightarrow> SendBuffer \<Rightarrow> SendBuffer \<times> ptr" where
  "initSendSequence k skip b =
     (case sendSequences b k of
        Some p \<Rightarrow> if skip \<noteq> Some p then (b, p)
          else (let q = sb_nextPtr b in
            (b\<lparr>sb_cancelled := insert p (sb_cancelled b), sendSequences := (sendSequences b)(k \<mapsto> q), sb_nextPtr := q + 1\<rparr>, q))
      | None \<Rightarrow> (let q = sb_nextPtr b in (b\<lparr>sendSequences := (sendSequences b)(k \<mapsto> q), sb_nextPtr := q + 1\<rparr>, q)))"

definition AssociateDestination_sb :: "ptr \<Rightarrow> TransferPath \<Rightarrow> SendBuffer \<Rightarrow> SendBuffer" where
  "AssociateDestination_sb p d b =
     (let seqs = (case sendSequencesByDestination b d of None \<Rightarrow> [] | Some qs \<Rightarrow> qs);
          dests = (case sendSequenceDestinations b p of None \<Rightarrow> [] | Some ds \<Rightarrow> ds)
      in b\<lparr>sendSequencesByDestination := (sendSequencesByDestination b)(d \<mapsto> List.insert p seqs),
          sendSequenceDestinations := (sendSequenceDestinations b)(p \<mapsto> List.insert d dests)\<rparr>)"

text \<open>One round of the loop of the cleanup: the sequence leaves one of its destinations.\<close>

definition leaveDestination :: "ptr \<Rightarrow> TransferPath \<Rightarrow> SendBuffer \<Rightarrow> SendBuffer" where
  "leaveDestination p d b =
     (case sendSequencesByDestination b d of None \<Rightarrow> b
      | Some qs \<Rightarrow> let qs = removeAll p qs in
          b\<lparr>sendSequencesByDestination := (sendSequencesByDestination b)(d := (if qs = [] then None else Some qs))\<rparr>)"


text \<open>
  \<open>Pack\<close> tries twice. \<open>isDone\<close> tells whether the client is done at each try, \<open>packTo\<close> what the sequence answers:
  an error when it is closed, whether it took the pack otherwise.
\<close>

definition SendBuffer_tryPack ::
    "sendSequenceId \<Rightarrow> bool \<Rightarrow> (ptr \<Rightarrow> unit + bool) \<Rightarrow> ptr option \<Rightarrow> SendBuffer \<Rightarrow> SendBuffer \<times> ptr option \<times> (unit + bool)" where
  "SendBuffer_tryPack k isDone packTo skip b =
     (if isDone then (b, None, Inl ())
      else case initSendSequence k skip b of (b, p) \<Rightarrow> (b, Some p, packTo p))"

definition SendBuffer_Pack ::
    "sendSequenceId \<Rightarrow> bool \<Rightarrow> bool \<Rightarrow> (ptr \<Rightarrow> unit + bool) \<Rightarrow> SendBuffer \<Rightarrow> SendBuffer \<times> (unit + bool)" where
  "SendBuffer_Pack k done1 done2 packTo b =
     (case SendBuffer_tryPack k done1 packTo None b of
        (b, Some p, Inl _) \<Rightarrow> (case SendBuffer_tryPack k done2 packTo (Some p) b of (b, _, r) \<Rightarrow> (b, r))
      | (b, _, r) \<Rightarrow> (b, r))"

text \<open>
  \<open>Ack\<close> hands the ack to the first sequence of the destination and stops there; \<open>order\<close> is the order in which
  Go iterates over the map. \<open>ackTo\<close> is the answer of \<open>SendSequence.Ack\<close>. The result tells which sequence got
  the ack, if any did, and the success.
\<close>

definition SendBuffer_Ack ::
    "(ptr list \<Rightarrow> ptr list) \<Rightarrow> (ptr \<Rightarrow> unit + bool) \<Rightarrow> TransferPath \<Rightarrow> SendBuffer \<Rightarrow> ptr option \<times> bool" where
  "SendBuffer_Ack order ackTo d b =
     (case order (case sendSequencesByDestination b d of None \<Rightarrow> [] | Some qs \<Rightarrow> qs) of
        [] \<Rightarrow> (None, False)
      | p # _ \<Rightarrow> (Some p, ackTo p = Inr True))"

definition SendBuffer_ResendQueueSize ::
    "(ptr \<Rightarrow> nat \<times> ByteCount \<times> Id) \<Rightarrow> sendSequenceId \<Rightarrow> SendBuffer \<Rightarrow> nat \<times> ByteCount \<times> Id" where
  "SendBuffer_ResendQueueSize sizeOf k b = (case sendSequences b k of Some p \<Rightarrow> sizeOf p | None \<Rightarrow> (0, 0, zeroId))"


section \<open>Forwarding\<close>

record ForwardBuffer =
  forwardSequences :: "TransferPath \<Rightarrow> ptr option"
  fb_cancelled :: "ptr set"
  fb_nextPtr :: ptr

definition NewForwardBuffer :: ForwardBuffer where
  "NewForwardBuffer = \<lparr>forwardSequences = \<lambda>_. None, fb_cancelled = {}, fb_nextPtr = 0\<rparr>"

definition initForwardSequence :: "TransferPath \<Rightarrow> ptr option \<Rightarrow> ForwardBuffer \<Rightarrow> ForwardBuffer \<times> ptr" where
  "initForwardSequence d skip b =
     (case forwardSequences b d of
        Some p \<Rightarrow> if skip \<noteq> Some p then (b, p)
          else (let q = fb_nextPtr b in
            (b\<lparr>fb_cancelled := insert p (fb_cancelled b), forwardSequences := (forwardSequences b)(d \<mapsto> q), fb_nextPtr := q + 1\<rparr>, q))
      | None \<Rightarrow> (let q = fb_nextPtr b in (b\<lparr>forwardSequences := (forwardSequences b)(d \<mapsto> q), fb_nextPtr := q + 1\<rparr>, q)))"

definition cleanupForwardSequence :: "TransferPath \<Rightarrow> ptr \<Rightarrow> ForwardBuffer \<Rightarrow> ForwardBuffer" where
  "cleanupForwardSequence d p b =
     (if forwardSequences b d = Some p then b\<lparr>forwardSequences := (forwardSequences b)(d := None)\<rparr> else b)"

definition ForwardBuffer_Pack ::
    "TransferPath \<Rightarrow> bool \<Rightarrow> bool \<Rightarrow> (ptr \<Rightarrow> unit + bool) \<Rightarrow> ForwardBuffer \<Rightarrow> ForwardBuffer \<times> (unit + bool)" where
  "ForwardBuffer_Pack d done1 done2 packTo b =
     (if done1 then (b, Inl ())
      else case initForwardSequence d None b of (b, p) \<Rightarrow>
        (case packTo p of Inr r \<Rightarrow> (b, Inr r)
         | Inl _ \<Rightarrow> if done2 then (b, Inl ())
             else case initForwardSequence d (Some p) b of (b, q) \<Rightarrow> (b, packTo q)))"

definition ForwardBuffer_Cancel :: "ForwardBuffer \<Rightarrow> ForwardBuffer" where
  "ForwardBuffer_Cancel b = b\<lparr>fb_cancelled := fb_cancelled b \<union> ran (forwardSequences b)\<rparr>"

text \<open>
  A forward sequence writes the frames of its channel in order, and closes when it was idle for long enough.
  \<open>fs_log\<close> holds the frames written with the outcome of the write, and the buffers returned.
\<close>

datatype forward_event = ForwardWrite TransferPath "byte list" bool | ForwardReturn "byte list"

record ForwardSequence =
  fs_destination :: TransferPath
  fs_bufferSize :: nat
  fs_packs :: "ForwardPack list"
  fs_idleCondition :: IdleCondition
  fs_log :: "forward_event list"

definition NewForwardSequence :: "TransferPath \<Rightarrow> nat \<Rightarrow> ForwardSequence" where
  "NewForwardSequence d n = \<lparr>fs_destination = d, fs_bufferSize = n, fs_packs = [], fs_idleCondition = NewIdleCondition, fs_log = []\<rparr>"

definition ForwardSequence_Pack_open :: "bool \<Rightarrow> ForwardSequence \<Rightarrow> ForwardSequence \<times> bool" where
  "ForwardSequence_Pack_open cancelled s =
     (if cancelled then (s, False)
      else case UpdateOpen (fs_idleCondition s) of (c, success) \<Rightarrow> (s\<lparr>fs_idleCondition := c\<rparr>, success))"

datatype forward_select = ForwardSelectDone | ForwardSelectSend | ForwardSelectTimeout

definition ForwardSequence_Pack_select ::
    "forward_select \<Rightarrow> ForwardPack \<Rightarrow> ForwardSequence \<Rightarrow> (ForwardSequence \<times> (unit + bool)) option" where
  "ForwardSequence_Pack_select sel pack s =
     (let s = s\<lparr>fs_idleCondition := UpdateClose (fs_idleCondition s)\<rparr> in
      case sel of
        ForwardSelectDone \<Rightarrow> Some (s, Inl ())
      | ForwardSelectSend \<Rightarrow> if length (fs_packs s) < fs_bufferSize s
          then Some (s\<lparr>fs_packs := fs_packs s @ [pack]\<rparr>, Inr True) else None
      | ForwardSelectTimeout \<Rightarrow> Some (s, Inr False))"

datatype forward_choice = ForwardContextDone | ForwardTake bool | ForwardIdle "idle_call list"

text \<open>One round of \<open>Run\<close>; the flag tells that it returns.\<close>

definition forward_round :: "forward_choice \<Rightarrow> ForwardSequence \<Rightarrow> ForwardSequence \<times> bool" where
  "forward_round choice s =
     (let checkpointId = Checkpoint (fs_idleCondition s) in
      case choice of
        ForwardContextDone \<Rightarrow> (s, True)
      | ForwardTake ok \<Rightarrow>
          (case fs_packs s of [] \<Rightarrow> (s, False)
           | pack # packs \<Rightarrow> (s\<lparr>fs_packs := packs, fs_log := fs_log s @
               [ForwardWrite (fs_destination s) (fp_TransferFrameBytes pack) ok, ForwardReturn (fp_TransferFrameBytes pack)]\<rparr>, False))
      | ForwardIdle calls \<Rightarrow>
          (case Idle_Close (fst (idle_calls calls (fs_idleCondition s))) checkpointId of (c, done') \<Rightarrow>
             (s\<lparr>fs_idleCondition := c\<rparr>, done')))"

primrec forward_run :: "forward_choice list \<Rightarrow> ForwardSequence \<Rightarrow> ForwardSequence \<times> bool" where
  "forward_run [] s = (s, False)"
| "forward_run (c # cs) s = (case forward_round c s of (s, True) \<Rightarrow> (s, True) | (s, False) \<Rightarrow> forward_run cs s)"

text \<open>\<open>Close\<close> closes the channel; what is left in it is not looked at any more.\<close>

definition ForwardSequence_Close :: "ForwardSequence \<Rightarrow> ForwardSequence" where
  "ForwardSequence_Close s = s\<lparr>fs_packs := []\<rparr>"

section \<open>The receive buffer\<close>

text \<open>
  One sequence per source: \<open>headReceiveSequenceIds\<close> names it. A pack of a newer sequence replaces the sequence of
  the source after it has exited; a pack of an older one is dropped.
\<close>

type_synonym receiveSequenceId = "TransferPath \<times> Id"

record ReceiveBuffer =
  receiveSequences :: "receiveSequenceId \<Rightarrow> ptr option"
  headReceiveSequenceIds :: "TransferPath \<Rightarrow> receiveSequenceId option"
  rb_cancelled :: "ptr set"
  rb_nextPtr :: ptr

definition NewReceiveBuffer :: ReceiveBuffer where
  "NewReceiveBuffer = \<lparr>receiveSequences = \<lambda>_. None, headReceiveSequenceIds = \<lambda>_. None, rb_cancelled = {}, rb_nextPtr = 0\<rparr>"

definition startReceiveSequence :: "receiveSequenceId \<Rightarrow> ReceiveBuffer \<Rightarrow> ReceiveBuffer \<times> ptr" where
  "startReceiveSequence k b =
     (let p = rb_nextPtr b in
      (b\<lparr>receiveSequences := (receiveSequences b)(k \<mapsto> p), headReceiveSequenceIds := (headReceiveSequenceIds b)(fst k \<mapsto> k),
         rb_nextPtr := p + 1\<rparr>, p))"

text \<open>
  \<open>None\<close> is a panic: an incorrect head, an upgrade to the same sequence, a head without a sequence. The second
  component is \<open>None\<close> when the pack is dropped.
\<close>

definition initReceiveSequence :: "receiveSequenceId \<Rightarrow> ptr option \<Rightarrow> ReceiveBuffer \<Rightarrow> (ReceiveBuffer \<times> ptr option) option" where
  "initReceiveSequence k skip b =
     (case receiveSequences b k of
        Some p \<Rightarrow>
          if skip \<noteq> Some p then Some (b, Some p)
          else
            let b = b\<lparr>rb_cancelled := insert p (rb_cancelled b)\<rparr> in
            (if (case headReceiveSequenceIds b (fst k) of None \<Rightarrow> (emptyPath, zeroId) | Some h \<Rightarrow> h) \<noteq> k then None
             else (case startReceiveSequence k b of (b, q) \<Rightarrow> Some (b, Some q)))
      | None \<Rightarrow>
          (case headReceiveSequenceIds b (fst k) of
             None \<Rightarrow> (case startReceiveSequence k b of (b, q) \<Rightarrow> Some (b, Some q))
           | Some h \<Rightarrow>
               if Id_LessThan (snd k) (snd h) then Some (b, None)
               else if snd h = snd k then None
               else do {
                 p \<leftarrow> receiveSequences b h;
                 let b = b\<lparr>rb_cancelled := insert p (rb_cancelled b), receiveSequences := (receiveSequences b)(h := None)\<rparr>;
                 (case startReceiveSequence k b of (b, q) \<Rightarrow> Some (b, Some q))
               }))"

definition cleanupReceiveSequence :: "receiveSequenceId \<Rightarrow> ptr \<Rightarrow> ReceiveBuffer \<Rightarrow> ReceiveBuffer" where
  "cleanupReceiveSequence k p b =
     (if receiveSequences b k = Some p then
        b\<lparr>receiveSequences := (receiveSequences b)(k := None),
          headReceiveSequenceIds := (headReceiveSequenceIds b)(fst k := None)\<rparr>
      else b)"

definition ReceiveBuffer_Pack ::
    "receiveSequenceId \<Rightarrow> bool \<Rightarrow> bool \<Rightarrow> (ptr \<Rightarrow> unit + bool) \<Rightarrow> ReceiveBuffer \<Rightarrow> (ReceiveBuffer \<times> (unit + bool)) option" where
  "ReceiveBuffer_Pack k done1 done2 packTo b =
     (if done1 then Some (b, Inl ())
      else do {
        (b, p) \<leftarrow> initReceiveSequence k None b;
        case p of None \<Rightarrow> Some (b, Inr True)
        | Some p \<Rightarrow>
            (case packTo p of Inr r \<Rightarrow> Some (b, Inr r)
             | Inl _ \<Rightarrow>
                 if done2 then Some (b, Inl ())
                 else do {
                   (b, q) \<leftarrow> initReceiveSequence k (Some p) b;
                   Some (case q of None \<Rightarrow> (b, Inr True) | Some q \<Rightarrow> (b, packTo q))
                 })
      })"

definition ReceiveBuffer_ReceiveQueueSize :: "(ptr \<Rightarrow> nat \<times> ByteCount) \<Rightarrow> receiveSequenceId \<Rightarrow> ReceiveBuffer \<Rightarrow> nat \<times> ByteCount" where
  "ReceiveBuffer_ReceiveQueueSize sizeOf k b = (case receiveSequences b k of Some p \<Rightarrow> sizeOf p | None \<Rightarrow> (0, 0))"

definition ReceiveBuffer_Cancel :: "ReceiveBuffer \<Rightarrow> ReceiveBuffer" where
  "ReceiveBuffer_Cancel b = b\<lparr>rb_cancelled := rb_cancelled b \<union> ran (receiveSequences b)\<rparr>"

section \<open>The interface of the registries\<close>

text \<open>
  What a caller of \<open>Pack\<close> relies on: the sequence it gets is the registered one, a retry never gets the sequence
  that was closed, other keys are left alone, and the goroutine of a sequence that was replaced does not
  remove its successor.
\<close>

locale sequence_registry =
  fixes valid :: "'b \<Rightarrow> bool" and lookup :: "'b \<Rightarrow> 'k \<Rightarrow> ptr option"
    and init :: "'k \<Rightarrow> ptr option \<Rightarrow> 'b \<Rightarrow> 'b \<times> ptr" and cleanup :: "'k \<Rightarrow> ptr \<Rightarrow> 'b \<Rightarrow> 'b"
  assumes init_valid: "valid b \<Longrightarrow> init k skip b = (b', p) \<Longrightarrow> valid b'"
    and cleanup_valid: "valid b \<Longrightarrow> valid (cleanup k p b)"
    and init_registers: "init k skip b = (b', p) \<Longrightarrow> lookup b' k = Some p"
    and init_keeps: "init k None b = (b', p) \<Longrightarrow> lookup b k = Some q \<Longrightarrow> b' = b \<and> p = q"
    and init_skips: "valid b \<Longrightarrow> init k (Some q) b = (b', p) \<Longrightarrow> lookup b k = Some q \<Longrightarrow> p \<noteq> q"
    and init_other: "init k skip b = (b', p) \<Longrightarrow> k' \<noteq> k \<Longrightarrow> lookup b' k' = lookup b k'"
    and cleanup_lookup: "lookup (cleanup k p b) k' = (if k' = k \<and> lookup b k = Some p then None else lookup b k')"
begin

lemma retry_is_new:
  assumes "valid b" "init k None b = (b1, p)" "init k (Some p) b1 = (b2, q)"
  shows "valid b2 \<and> q \<noteq> p \<and> lookup b2 k = Some q"
  using assms init_valid init_registers init_skips by metis

text \<open>The exit of a sequence that was replaced changes no entry; that of the current one only its own.\<close>

lemma replaced_exit:
  assumes "valid b" "init k None b = (b1, p)" "init k (Some p) b1 = (b2, q)"
  shows "lookup (cleanup k p b2) k' = lookup b2 k'"
  using retry_is_new [OF assms] by (simp add: cleanup_lookup)

lemma found_again:
  assumes "init k skip b = (b1, p)" "init k None b1 = (b2, q)"
  shows "q = p \<and> b2 = b1"
  using assms init_registers init_keeps by metis

end


definition fb_valid :: "ForwardBuffer \<Rightarrow> bool" where
  "fb_valid b \<longleftrightarrow> (\<forall>k p. forwardSequences b k = Some p \<longrightarrow> p < fb_nextPtr b)"

lemma leaveDestination_registry [simp]:
  "sendSequences (leaveDestination p d b) = sendSequences b" "sb_nextPtr (leaveDestination p d b) = sb_nextPtr b"
  "sendSequenceDestinations (leaveDestination p d b) = sendSequenceDestinations b"
  by (simp_all add: leaveDestination_def Let_def split: option.splits)

lemma leaveDestinations_registry [simp]:
  "sendSequences (fold (leaveDestination p) ds b) = sendSequences b"
  "sb_nextPtr (fold (leaveDestination p) ds b) = sb_nextPtr b"
  "sendSequenceDestinations (fold (leaveDestination p) ds b) = sendSequenceDestinations b"
  by (induction ds arbitrary: b) simp_all



interpretation forwards: sequence_registry fb_valid forwardSequences initForwardSequence cleanupForwardSequence
  by unfold_locales
    (auto simp: fb_valid_def initForwardSequence_def cleanupForwardSequence_def Let_def less_Suc_eq
      split: option.splits if_splits prod.splits)

section \<open>Which sequences a destination has\<close>

text \<open>The two maps of the send buffer are each other's inverse, and no entry is empty.\<close>

definition of_destination :: "SendBuffer \<Rightarrow> TransferPath \<Rightarrow> ptr set" where
  "of_destination b d = (case sendSequencesByDestination b d of None \<Rightarrow> {} | Some qs \<Rightarrow> set qs)"

definition of_sequence :: "SendBuffer \<Rightarrow> ptr \<Rightarrow> TransferPath set" where
  "of_sequence b p = (case sendSequenceDestinations b p of None \<Rightarrow> {} | Some ds \<Rightarrow> set ds)"





lemma of_destination_update [simp]:
  "of_destination (b\<lparr>sendSequences := x\<rparr>) = of_destination b" "of_sequence (b\<lparr>sendSequences := x\<rparr>) = of_sequence b"
  "of_destination (b\<lparr>sendSequenceDestinations := y\<rparr>) = of_destination b"
  by (simp_all add: of_destination_def of_sequence_def fun_eq_iff)




section \<open>The steps of the receive buffer\<close>

text \<open>
  What can happen between two critical sections: a pack looks its sequence up, for the first time or again after
  its sequence was closed (\<open>skip\<close>), the goroutine of a sequence cleans up after \<open>Run\<close>, the client cancels.
\<close>

inductive rb_step :: "ReceiveBuffer \<Rightarrow> ReceiveBuffer \<Rightarrow> bool" where
  lookup: "initReceiveSequence k skip b = Some (b', p) \<Longrightarrow> rb_step b b'"
| exit: "rb_step b (cleanupReceiveSequence k p b)"
| cancel: "rb_step b (ReceiveBuffer_Cancel b)"

inductive rb_reach :: "ReceiveBuffer \<Rightarrow> bool" where
  start: "rb_reach NewReceiveBuffer"
| step: "rb_reach b \<Longrightarrow> rb_step b b' \<Longrightarrow> rb_reach b'"

inductive_cases rb_stepE: "rb_step b b'"

text \<open>A source has a head exactly when it has a sequence, and the head is that sequence.\<close>

definition rb_inv :: "ReceiveBuffer \<Rightarrow> bool" where
  "rb_inv b \<longleftrightarrow> (\<forall>src h. headReceiveSequenceIds b src = Some h \<longrightarrow> fst h = src \<and> receiveSequences b h \<noteq> None) \<and>
     (\<forall>k. receiveSequences b k \<noteq> None \<longrightarrow> headReceiveSequenceIds b (fst k) = Some k)"

lemma rb_invD:
  assumes "rb_inv b"
  shows "headReceiveSequenceIds b src = Some h \<Longrightarrow> fst h = src \<and> receiveSequences b h \<noteq> None"
    "receiveSequences b k = Some p \<Longrightarrow> headReceiveSequenceIds b (fst k) = Some k"
  using assms unfolding rb_inv_def by blast+

lemma rb_inv_cancelled [simp]: "rb_inv (b\<lparr>rb_cancelled := x\<rparr>) = rb_inv b"
  by (simp add: rb_inv_def)

lemma start_rb_inv:
  assumes inv: "rb_inv b" and h: "headReceiveSequenceIds b (fst k) = None \<or> headReceiveSequenceIds b (fst k) = Some k"
    and s: "startReceiveSequence k b = (b', q)"
  shows "rb_inv b'"
proof -
  have b': "receiveSequences b' = (receiveSequences b)(k \<mapsto> q)" "headReceiveSequenceIds b' = (headReceiveSequenceIds b)(fst k \<mapsto> k)"
    using s by (auto simp: startReceiveSequence_def Let_def)
  show ?thesis
  proof (unfold rb_inv_def b', intro conjI allI impI)
    fix src h assume "((headReceiveSequenceIds b)(fst k \<mapsto> k)) src = Some h"
    then show "fst h = src" "((receiveSequences b)(k \<mapsto> q)) h \<noteq> None"
      using rb_invD(1) [OF inv, of src h] by (auto split: if_splits)
  next
    fix k' assume k': "((receiveSequences b)(k \<mapsto> q)) k' \<noteq> None"
    then show "((headReceiveSequenceIds b)(fst k \<mapsto> k)) (fst k') = Some k'"
      using rb_invD(2) [OF inv, of k'] h by (cases "k' = k") auto
  qed
qed

lemma rb_inv_drop:
  assumes inv: "rb_inv b" and h: "receiveSequences b h \<noteq> None"
  shows "rb_inv (b\<lparr>receiveSequences := (receiveSequences b)(h := None),
    headReceiveSequenceIds := (headReceiveSequenceIds b)(fst h := None)\<rparr>)"
  (is "rb_inv ?b")
  unfolding rb_inv_def
proof (intro conjI allI impI)
  fix src h' assume "headReceiveSequenceIds ?b src = Some h'"
  then have "headReceiveSequenceIds b src = Some h'" "src \<noteq> fst h" by (auto split: if_splits)
  then show "fst h' = src" "receiveSequences ?b h' \<noteq> None" using rb_invD(1) [OF inv, of src h'] by auto
next
  fix k assume "receiveSequences ?b k \<noteq> None"
  then have k: "receiveSequences b k \<noteq> None" "k \<noteq> h" by (auto split: if_splits)
  then have "headReceiveSequenceIds b (fst k) = Some k" "headReceiveSequenceIds b (fst h) = Some h"
    using h rb_invD(2) [OF inv] by blast+
  then show "headReceiveSequenceIds ?b (fst k) = Some k" using k(2) by auto
qed

text \<open>What a lookup does, by the four cases of the code; there is no panic.\<close>

lemma initReceiveSequence_cases:
  assumes inv: "rb_inv b"
  obtains (found) p where "receiveSequences b k = Some p" "skip \<noteq> Some p" "initReceiveSequence k skip b = Some (b, Some p)"
  | (replaced) p b' q where "receiveSequences b k = Some p" "skip = Some p" "initReceiveSequence k skip b = Some (b', Some q)"
      "startReceiveSequence k (b\<lparr>rb_cancelled := insert p (rb_cancelled b)\<rparr>) = (b', q)"
  | (fresh) b' q where "receiveSequences b k = None" "headReceiveSequenceIds b (fst k) = None"
      "initReceiveSequence k skip b = Some (b', Some q)" "startReceiveSequence k b = (b', q)"
  | (older) h where "receiveSequences b k = None" "headReceiveSequenceIds b (fst k) = Some h" "Id_LessThan (snd k) (snd h)"
      "initReceiveSequence k skip b = Some (b, None)"
  | (newer) h p b' q where "receiveSequences b k = None" "headReceiveSequenceIds b (fst k) = Some h"
      "\<not> Id_LessThan (snd k) (snd h)" "receiveSequences b h = Some p" "initReceiveSequence k skip b = Some (b', Some q)"
      "startReceiveSequence k (b\<lparr>rb_cancelled := insert p (rb_cancelled b), receiveSequences := (receiveSequences b)(h := None)\<rparr>) = (b', q)"
proof (cases "receiveSequences b k")
  case (Some p)
  then have h: "headReceiveSequenceIds b (fst k) = Some k" using rb_invD(2) [OF inv] by blast
  obtain b' q where "startReceiveSequence k (b\<lparr>rb_cancelled := insert p (rb_cancelled b)\<rparr>) = (b', q)" by force
  then show thesis using Some h found [of p] replaced [of p b' q] by (cases "skip = Some p") (simp_all add: initReceiveSequence_def)
next
  case None
  show thesis
  proof (cases "headReceiveSequenceIds b (fst k)")
    case head: None
    obtain b' q where "startReceiveSequence k b = (b', q)" by force
    then show thesis using None head fresh [of b' q] by (simp add: initReceiveSequence_def)
  next
    case (Some h)
    then obtain p where p: "receiveSequences b h = Some p" "fst h = fst k" using rb_invD(1) [OF inv] by blast
    then have "snd h \<noteq> snd k" using None by (metis option.distinct(1) prod.collapse)
    moreover obtain b' q where "startReceiveSequence k
        (b\<lparr>rb_cancelled := insert p (rb_cancelled b), receiveSequences := (receiveSequences b)(h := None)\<rparr>) = (b', q)" by force
    ultimately show thesis using None Some p older [of h] newer [of h p b' q]
      by (cases "Id_LessThan (snd k) (snd h)") (simp_all add: initReceiveSequence_def Let_def)
  qed
qed

lemma initReceiveSequence_inv:
  assumes inv: "rb_inv b" and i: "initReceiveSequence k skip b = Some (b', p)"
  shows "rb_inv b'"
  using inv
proof (cases rule: initReceiveSequence_cases [of b k skip])
  case (replaced p b'' q)
  then have "headReceiveSequenceIds b (fst k) = Some k" using rb_invD(2) [OF inv] by blast
  then show ?thesis using start_rb_inv [OF _ _ replaced(4)] inv replaced(3) i by simp
next
  case (fresh b'' q)
  then show ?thesis using start_rb_inv [OF inv _ fresh(4)] i by simp
next
  case (newer h p b'' q)
  let ?c = "b\<lparr>rb_cancelled := insert p (rb_cancelled b), receiveSequences := (receiveSequences b)(h := None)\<rparr>"
  have "fst h = fst k" using rb_invD(1) [OF inv newer(2)] by simp
  then have "rb_inv (?c\<lparr>headReceiveSequenceIds := (headReceiveSequenceIds b)(fst k := None)\<rparr>)"
    using rb_inv_drop [OF inv, of h] newer(4) by (simp add: rb_inv_def)
  moreover have "startReceiveSequence k (?c\<lparr>headReceiveSequenceIds := (headReceiveSequenceIds b)(fst k := None)\<rparr>) = (b'', q)"
    using newer(6) by (auto simp: startReceiveSequence_def Let_def)
  ultimately show ?thesis using start_rb_inv [of "?c\<lparr>headReceiveSequenceIds := (headReceiveSequenceIds b)(fst k := None)\<rparr>" k b'' q]
      newer(5) i by simp
qed (use inv i in auto)

lemma rb_step_inv: "rb_step b b' \<Longrightarrow> rb_inv b \<Longrightarrow> rb_inv b'"
proof (erule rb_stepE)
  fix k p assume "rb_inv b" "b' = cleanupReceiveSequence k p b"
  then show "rb_inv b'" using rb_inv_drop [of b k] by (auto simp: cleanupReceiveSequence_def)
qed (auto simp: ReceiveBuffer_Cancel_def initReceiveSequence_inv)

lemma rb_reach_inv: "rb_reach b \<Longrightarrow> rb_inv b"
proof (induction rule: rb_reach.induct)
  case start
  then show ?case by (simp add: rb_inv_def NewReceiveBuffer_def)
qed (rule rb_step_inv)

section \<open>The steps of the send buffer\<close>



text \<open>Which frames of a run were written, and which were still to be.\<close>

definition forwarded :: "forward_event list \<Rightarrow> byte list list" where
  "forwarded es = List.map_filter (\<lambda>e. case e of ForwardWrite _ b _ \<Rightarrow> Some b | _ \<Rightarrow> None) es"

lemma forwarded_simps [simp]:
  "forwarded [] = []" "forwarded (es @ fs) = forwarded es @ forwarded fs" "forwarded (ForwardWrite d b ok # es) = b # forwarded es"
  "forwarded (ForwardReturn b # es) = forwarded es"
  by (simp_all add: forwarded_def map_filter_def)

lemma forward_round_order:
  "forward_round c s = (t, e) \<Longrightarrow> forwarded (fs_log t) @ map fp_TransferFrameBytes (fs_packs t) =
     forwarded (fs_log s) @ map fp_TransferFrameBytes (fs_packs s)"
  by (auto simp: forward_round_def Let_def split: forward_choice.splits list.splits prod.splits)

section \<open>Properties\<close>

text \<open>
  C19: The registry of receive sequences never reaches one of its panics (incorrect head sequence, upgrade of a
  sequence by itself, a head without a sequence), whatever packs, exits and cancellations come in whatever
  order, and a source never has two registered sequences.
\<close>

theorem receive_buffer_safe:
  assumes "rb_reach b"
  shows "(\<forall>k done1 done2 packTo. ReceiveBuffer_Pack k done1 done2 packTo b \<noteq> None) \<and>
    (\<forall>k k'. receiveSequences b k \<noteq> None \<and> receiveSequences b k' \<noteq> None \<and> fst k = fst k' \<longrightarrow> k = k')"
proof (intro conjI allI impI)
  have inv: "rb_inv b" by (rule rb_reach_inv [OF assms])
  have look: "\<exists>b' p. initReceiveSequence k skip b = Some (b', p) \<and> rb_inv b'" if "rb_inv b" for k skip b
    using that initReceiveSequence_inv [OF that] by (cases rule: initReceiveSequence_cases [of b k skip]) blast+
  fix k done1 done2 packTo
  obtain b1 p where 1: "initReceiveSequence k None b = Some (b1, p)" "rb_inv b1" using look [OF inv] by blast
  show "ReceiveBuffer_Pack k done1 done2 packTo b \<noteq> None"
  proof (cases p)
    case None
    then show ?thesis using 1 by (simp add: ReceiveBuffer_Pack_def)
  next
    case (Some x)
    obtain b2 q where "initReceiveSequence k (Some x) b1 = Some (b2, q)" using look [OF 1(2)] by blast
    then show ?thesis using 1 Some by (simp add: ReceiveBuffer_Pack_def split: sum.splits)
  qed
next
  fix k k' assume "receiveSequences b k \<noteq> None \<and> receiveSequences b k' \<noteq> None \<and> fst k = fst k'"
  then show "k = k'" using rb_invD(2) [OF rb_reach_inv [OF assms]] by (metis option.inject not_None_eq)
qed

definition example_path :: TransferPath where
  "example_path = SourceId (replicate 16 1)"

definition example_registry :: ReceiveBuffer where
  "example_registry = fst (startReceiveSequence (example_path, replicate 16 2) NewReceiveBuffer)"

lemma example_registry_reach: "rb_reach example_registry"
proof -
  have "initReceiveSequence (example_path, replicate 16 2) None NewReceiveBuffer = Some (example_registry, Some 0)"
    by (simp add: initReceiveSequence_def NewReceiveBuffer_def example_registry_def startReceiveSequence_def Let_def)
  then show ?thesis using rb_reach.start rb_reach.step rb_step.lookup by blast
qed

theorem receive_buffer_safe_witness:
  "ReceiveBuffer_Pack (example_path, replicate 16 3) False False (\<lambda>_. Inl ()) example_registry \<noteq> None"
  using receive_buffer_safe [OF example_registry_reach] by blast

text \<open>
  The newest sequence of a source wins: a pack of an older sequence than the registered one is dropped and
  changes nothing; a pack of a newer one cancels the registered sequence and takes its place.
\<close>

theorem receive_buffer_newest_wins:
  assumes "rb_reach b" "receiveSequences b (src, i) = Some p"
    and "j \<noteq> i"
  shows "if Id_LessThan j i then ReceiveBuffer_Pack (src, j) False done2 packTo b = Some (b, Inr True)
    else (\<exists>b' q. initReceiveSequence (src, j) None b = Some (b', Some q) \<and> q = rb_nextPtr b \<and>
       p \<in> rb_cancelled b' \<and> receiveSequences b' = (receiveSequences b)((src, i) := None, (src, j) := Some q))"
proof -
  have inv: "rb_inv b" by (rule rb_reach_inv [OF assms(1)])
  have head: "headReceiveSequenceIds b src = Some (src, i)" using rb_invD(2) [OF inv assms(2)] by simp
  have free: "receiveSequences b (src, j) = None"
  proof (cases "receiveSequences b (src, j)")
    case (Some q)
    then show ?thesis using rb_invD(2) [OF inv Some] head assms(3) by simp
  qed
  show ?thesis
    using free head assms(2,3) by (simp add: ReceiveBuffer_Pack_def initReceiveSequence_def startReceiveSequence_def Let_def)
qed

theorem receive_buffer_newest_wins_witness:
  "ReceiveBuffer_Pack (example_path, replicate 16 1) False False (\<lambda>_. Inr True) example_registry = Some (example_registry, Inr True)"
proof -
  have "receiveSequences example_registry (example_path, replicate 16 2) = Some 0"
    by (simp add: example_registry_def startReceiveSequence_def NewReceiveBuffer_def Let_def)
  moreover have "Id_LessThan (replicate 16 1) (replicate 16 2)" "replicate 16 (1 :: byte) \<noteq> replicate 16 2" by code_simp+
  ultimately show ?thesis
    using receive_buffer_newest_wins [OF example_registry_reach, of example_path "replicate 16 2" 0 "replicate 16 1" False "\<lambda>_. Inr True"]
    by simp
qed



text \<open>
  An ack can miss its sequence: with two sequences open to one destination (one of them over a companion
  contract, say), \<open>Ack\<close> hands it to the first one of the map and stops there, whose answer is that the ack is not
  its own; the sequence that waits for the ack gets it only when the map happens to yield it first.
\<close>

theorem ack_misses_sequence:
  "let b = AssociateDestination_sb 1 example_path (AssociateDestination_sb 0 example_path NewSendBuffer);
       ackTo = (\<lambda>p. Inr (p = 1))
   in SendBuffer_Ack id ackTo example_path b = (Some 1, True) \<and> SendBuffer_Ack rev ackTo example_path b = (Some 0, False)"
  by (simp add: SendBuffer_Ack_def AssociateDestination_sb_def NewSendBuffer_def Let_def List.insert_def)

text \<open>
  A forward sequence writes the frames that it was given in order, each once, and returns each buffer after
  its write: at any time, what it has written and what its channel still holds are the frames given to it.
\<close>

theorem forward_in_order:
  "forwarded (fs_log (fst (forward_run choices s))) @ map fp_TransferFrameBytes (fs_packs (fst (forward_run choices s))) =
     forwarded (fs_log s) @ map fp_TransferFrameBytes (fs_packs s)"
proof (induction choices arbitrary: s)
  case (Cons c cs)
  obtain t e where t: "forward_round c s = (t, e)" by force
  then show ?case using forward_round_order [OF t] Cons.IH [of t] by (cases e) simp_all
qed simp

text \<open>A frame without a path is dropped when it arrives, but panics when it is to be forwarded.\<close>

lemma forward_without_path:
  assumes "c_unmarshalFiltered env bytes = Some None"
  shows "Client_dispatch env clientId bytes = [ReturnFrame bytes]" "ForwardWithTimeoutDetailed env False bytes = None"
  using assms by (simp_all add: Client_dispatch_def ForwardWithTimeoutDetailed_def)

end
