(* ===== verification/End_To_End.thy ===== *)
theory End_To_End
  imports Receive_Properties Send_Properties Client_Buffers
begin

text \<open>
  A sender and a receiver joined by a network that loses, repeats, delays and reorders frames at will: every
  frame that one side wrote may reach the other side at any later time, any number of times, or never. Frames
  pass the dispatch of the client that reads them. The two sides keep their promises to each other: what
  the sender takes for acked has been handed over by the receiver.
\<close>

section \<open>The joined system\<close>



datatype system_event =
    PackGiven SendPack
  | SenderRound time "ptr \<Rightarrow> bool" send_choice
  | FrameReaches time "byte list"
  | ReceiverTimer time "idle_call list"
  | AcksGoOut
  | AckReaches "byte list"









section \<open>What the two sides share\<close>


















section \<open>The steps of the sender\<close>


section \<open>The steps of the receiver\<close>










section \<open>Whole runs\<close>

definition given :: "system_event list \<Rightarrow> SendPack list" where
  "given evs = List.map_filter (\<lambda>ev. case ev of PackGiven pack \<Rightarrow> Some pack | _ \<Rightarrow> None) evs"

lemma given_simps [simp]:
  "given [] = []" "given (PackGiven pack # evs) = pack # given evs" "given (SenderRound now ok c # evs) = given evs"
  "given (FrameReaches now b # evs) = given evs" "given (ReceiverTimer now calls # evs) = given evs"
  "given (AcksGoOut # evs) = given evs" "given (AckReaches b # evs) = given evs"
  by (simp_all add: given_def map_filter_def)








lemma pack_ids_append [simp]: "pack_ids (p @ q) = pack_ids p @ pack_ids q"
  by (simp add: pack_ids_def)


section \<open>Properties\<close>

section \<open>An example of a joined system\<close>













lemma given_append [simp]: "given (xs @ ys) = given xs @ given ys"
  by (simp add: given_def map_filter_def)



end
