(* ===== verification/Frame_Codec.thy ===== *)
theory Frame_Codec
  imports Sequence_Contract
begin

text \<open>
  Messages and their frames (frame.go): a frame is a message type with the bytes of the message; from protocol
  version 2 the IP messages are carried raw. The messages of transfer.proto, ip.proto and test.proto that the
  two functions know, and the control messages of contracts.
\<close>

section \<open>Messages\<close>

record PricedContract = StoredContract +
  s_Priority :: "32 word option"

record CreateContract =
  cc_DestinationId :: "byte list option"
  cc_TransferByteCount :: u64
  cc_Companion :: bool
  cc_UsedContractIds :: "byte list list"
  cc_IntermediaryIds :: "byte list list option"
  cc_StreamId :: "byte list option"
  cc_ForceStream :: "bool option"

record CreateContractResult =
  cr_Error :: "int option"
  cr_Contract :: "Contract option"
  cr_CreateContract :: "CreateContract option"

record CloseContract =
  xc_ContractId :: "byte list"
  xc_AckedByteCount :: u64
  xc_UnackedByteCount :: u64
  xc_Checkpoint :: bool

record Auth =
  au_ByJwt :: string
  au_AppVersion :: string
  au_InstanceId :: "byte list"

record StreamOpen =
  so_SourceId :: "byte list option"
  so_DestinationId :: "byte list option"
  so_StreamId :: "byte list"

record SimpleMessage =
  sm_MessageIndex :: "32 word"
  sm_MessageCount :: "32 word"
  sm_Content :: string

text \<open>
  An IP packet message may lack its packet (\<open>None\<close> is the nil pointer). \<open>Msg_Other\<close> stands for every message
  that \<open>ToFrame\<close> does not know, with its Go type.
\<close>

datatype message =
    Msg_Pack Pack | Msg_Ack Ack | Msg_Contract Contract | Msg_Provide "(int \<times> byte list) list" | Msg_Auth Auth
  | Msg_StreamOpen StreamOpen | Msg_StreamClose "byte list"
  | Msg_CreateContract CreateContract | Msg_CreateContractResult CreateContractResult | Msg_CloseContract CloseContract
  | Msg_PeerAudit ProtoPeerAudit | Msg_SimpleMessage SimpleMessage
  | Msg_IpPacketToProvider "byte list option" | Msg_IpPacketFromProvider "byte list option" | Msg_IpPing
  | Msg_ControlPing | Msg_ProvidePing | Msg_Other string

datatype frame_error = UnknownMessageType | MarshalError | UnmarshalError

section \<open>Frames\<close>

definition messageType :: "message \<Rightarrow> int option" where
  "messageType m = (case m of
     Msg_Pack _ \<Rightarrow> Some MessageType_TransferPack
   | Msg_Ack _ \<Rightarrow> Some MessageType_TransferAck
   | Msg_Contract _ \<Rightarrow> Some MessageType_TransferContract
   | Msg_Provide _ \<Rightarrow> Some 3
   | Msg_Auth _ \<Rightarrow> Some 4
   | Msg_StreamOpen _ \<Rightarrow> Some 8
   | Msg_StreamClose _ \<Rightarrow> Some 9
   | Msg_CreateContract _ \<Rightarrow> Some 10
   | Msg_CreateContractResult _ \<Rightarrow> Some 11
   | Msg_CloseContract _ \<Rightarrow> Some 12
   | Msg_PeerAudit _ \<Rightarrow> Some 13
   | Msg_SimpleMessage _ \<Rightarrow> Some 14
   | Msg_IpPacketToProvider _ \<Rightarrow> Some 15
   | Msg_IpPacketFromProvider _ \<Rightarrow> Some 16
   | Msg_IpPing \<Rightarrow> Some 17
   | Msg_ControlPing \<Rightarrow> Some 18
   | Msg_ProvidePing \<Rightarrow> Some 19
   | Msg_Other _ \<Rightarrow> None)"

text \<open>
  \<open>marshal\<close> is \<open>ProtoMarshal\<close>; \<open>unmarshal t\<close> is \<open>ProtoUnmarshal\<close> into an empty message of type \<open>t\<close>. \<open>None\<close> of
  \<open>ToFrame\<close> is the nil dereference of a raw message without its packet.
\<close>

definition ToFrame :: "(message \<Rightarrow> byte list option) \<Rightarrow> message \<Rightarrow> int \<Rightarrow> (frame_error + Frame) option" where
  "ToFrame marshal m protocolVersion =
     (case messageType m of None \<Rightarrow> Some (Inl UnknownMessageType)
      | Some t \<Rightarrow>
          let marshalled = (case marshal m of None \<Rightarrow> Inl MarshalError
                | Some b \<Rightarrow> Inr \<lparr>f_MessageType = t, f_MessageBytes = b, f_Raw = False\<rparr>);
              raw = (\<lambda>packet. map_option (\<lambda>b. Inr \<lparr>f_MessageType = t, f_MessageBytes = b, f_Raw = True\<rparr>) packet)
          in if 2 \<le> protocolVersion then
               (case m of Msg_IpPacketToProvider packet \<Rightarrow> raw packet
                | Msg_IpPacketFromProvider packet \<Rightarrow> raw packet
                | Msg_IpPing \<Rightarrow> raw (Some [])
                | _ \<Rightarrow> Some marshalled)
             else Some marshalled)"

definition FromFrame :: "(int \<Rightarrow> byte list \<Rightarrow> message option) \<Rightarrow> Frame \<Rightarrow> frame_error + message" where
  "FromFrame unmarshal f =
     (let t = f_MessageType f in
      if t = 15 \<and> f_Raw f then Inr (Msg_IpPacketToProvider (Some (f_MessageBytes f)))
      else if t = 16 \<and> f_Raw f then Inr (Msg_IpPacketFromProvider (Some (f_MessageBytes f)))
      else if t = 17 \<and> f_Raw f then Inr Msg_IpPing
      else if t \<in> {0, 1, 2, 3, 4, 8, 9, 10, 11, 12, 13, 14, 15, 16, 17, 18, 19} then
        (case unmarshal t (f_MessageBytes f) of None \<Rightarrow> Inl UnmarshalError | Some m \<Rightarrow> Inr m)
      else Inl UnknownMessageType)"

text \<open>A frame as bytes; \<open>marshalFrame\<close> and \<open>unmarshalFrame\<close> are the functions of the protobuf library at \<open>Frame\<close>.\<close>

definition EncodeFrame ::
    "(message \<Rightarrow> byte list option) \<Rightarrow> (Frame \<Rightarrow> byte list option) \<Rightarrow> message \<Rightarrow> int \<Rightarrow> (frame_error + byte list) option" where
  "EncodeFrame marshal marshalFrame m protocolVersion =
     map_option (\<lambda>r. case r of Inl e \<Rightarrow> Inl e
       | Inr f \<Rightarrow> (case marshalFrame f of None \<Rightarrow> Inl MarshalError | Some b \<Rightarrow> Inr b)) (ToFrame marshal m protocolVersion)"

definition DecodeFrame ::
    "(int \<Rightarrow> byte list \<Rightarrow> message option) \<Rightarrow> (byte list \<Rightarrow> Frame option) \<Rightarrow> byte list \<Rightarrow> frame_error + message" where
  "DecodeFrame unmarshal unmarshalFrame b =
     (case unmarshalFrame b of None \<Rightarrow> Inl UnmarshalError | Some f \<Rightarrow> FromFrame unmarshal f)"

text \<open>What the two functions rely on: protobuf decodes what it encoded, for the type that was encoded.\<close>

definition messages_decode :: "(message \<Rightarrow> byte list option) \<Rightarrow> (int \<Rightarrow> byte list \<Rightarrow> message option) \<Rightarrow> bool" where
  "messages_decode marshal unmarshal \<longleftrightarrow>
     (\<forall>m b t. marshal m = Some b \<and> messageType m = Some t \<longrightarrow> unmarshal t b = Some m)"

lemma messageType_known: "messageType m = Some t \<Longrightarrow> t \<in> {0, 1, 2, 3, 4, 8, 9, 10, 11, 12, 13, 14, 15, 16, 17, 18, 19}"
  by (cases m) (simp_all add: messageType_def MessageType_TransferPack_def MessageType_TransferAck_def
      MessageType_TransferContract_def)

definition raw_kind :: "message \<Rightarrow> bool" where
  "raw_kind m = (case m of Msg_IpPacketToProvider _ \<Rightarrow> True | Msg_IpPacketFromProvider _ \<Rightarrow> True | Msg_IpPing \<Rightarrow> True | _ \<Rightarrow> False)"

lemma ToFrame_marshalled:
  assumes "messageType m = Some t" "\<not> (2 \<le> v \<and> raw_kind m)"
  shows "ToFrame marshal m v = Some (case marshal m of None \<Rightarrow> Inl MarshalError
    | Some b \<Rightarrow> Inr \<lparr>f_MessageType = t, f_MessageBytes = b, f_Raw = False\<rparr>)"
  using assms by (cases m) (simp_all add: ToFrame_def raw_kind_def Let_def)

lemma FromFrame_ToFrame:
  assumes "messages_decode marshal unmarshal" "ToFrame marshal m v = Some (Inr f)"
  shows "FromFrame unmarshal f = Inr m"
proof -
  obtain t where t: "messageType m = Some t" using assms(2) by (cases "messageType m") (simp_all add: ToFrame_def)
  show ?thesis
  proof (cases "2 \<le> v \<and> raw_kind m")
    case True
    then show ?thesis using assms(2) by (cases m) (auto simp: raw_kind_def ToFrame_def FromFrame_def messageType_def)
  next
    case False
    then obtain b where b: "marshal m = Some b" "f = \<lparr>f_MessageType = t, f_MessageBytes = b, f_Raw = False\<rparr>"
      using assms(2) ToFrame_marshalled [OF t False, of marshal] by (auto split: option.splits)
    then have "unmarshal t b = Some m" using assms(1) t by (simp add: messages_decode_def)
    then show ?thesis using b(2) messageType_known [OF t] by (simp add: FromFrame_def Let_def)
  qed
qed

section \<open>Properties\<close>

text \<open>
  C18: A message that was encoded into a frame, and the frame into bytes, is decoded back from them, for every protocol
  version and also for the raw IP messages.
\<close>

theorem frame_roundtrip:
  assumes "messages_decode marshal unmarshal" "\<forall>f b. marshalFrame f = Some b \<longrightarrow> unmarshalFrame b = Some f"
    and "EncodeFrame marshal marshalFrame m v = Some (Inr b)"
  shows "DecodeFrame unmarshal unmarshalFrame b = Inr m"
proof -
  obtain f where f: "ToFrame marshal m v = Some (Inr f)" "marshalFrame f = Some b"
    using assms(3) that by (cases "ToFrame marshal m v") (auto simp: EncodeFrame_def split: sum.split_asm option.split_asm)
  then show ?thesis using FromFrame_ToFrame [OF assms(1) f(1)] assms(2) by (simp add: DecodeFrame_def)
qed

text \<open>A codec for the empty messages and the stream close; frames carry their type in front.\<close>

definition example_marshal :: "message \<Rightarrow> byte list option" where
  "example_marshal m = (case m of Msg_StreamClose b \<Rightarrow> Some b | Msg_ControlPing \<Rightarrow> Some [] | Msg_ProvidePing \<Rightarrow> Some []
     | _ \<Rightarrow> None)"

definition example_unmarshal :: "int \<Rightarrow> byte list \<Rightarrow> message option" where
  "example_unmarshal t b = (if t = 9 then Some (Msg_StreamClose b) else if t = 18 then Some Msg_ControlPing
     else if t = 19 then Some Msg_ProvidePing else None)"

definition example_marshalFrame :: "Frame \<Rightarrow> byte list option" where
  "example_marshalFrame f = (if 0 \<le> f_MessageType f \<and> f_MessageType f < 256 then
     Some (of_int (f_MessageType f) # (if f_Raw f then 1 else 0) # f_MessageBytes f) else None)"

definition example_unmarshalFrame :: "byte list \<Rightarrow> Frame option" where
  "example_unmarshalFrame b = (case b of t # r # b \<Rightarrow> Some \<lparr>f_MessageType = uint t, f_MessageBytes = b, f_Raw = (r = 1)\<rparr>
     | _ \<Rightarrow> None)"

theorem frame_roundtrip_witness:
  "\<exists>b c. EncodeFrame example_marshal example_marshalFrame (Msg_IpPacketToProvider (Some [1, 2])) 2 = Some (Inr b) \<and>
    DecodeFrame example_unmarshal example_unmarshalFrame b = Inr (Msg_IpPacketToProvider (Some [1, 2])) \<and>
    EncodeFrame example_marshal example_marshalFrame (Msg_StreamClose [7]) 2 = Some (Inr c) \<and>
    DecodeFrame example_unmarshal example_unmarshalFrame c = Inr (Msg_StreamClose [7])"
proof -
  have m: "messages_decode example_marshal example_unmarshal"
    by (auto simp: messages_decode_def example_marshal_def example_unmarshal_def messageType_def split: message.splits)
  have f: "\<forall>f b. example_marshalFrame f = Some b \<longrightarrow> example_unmarshalFrame b = Some f"
    by (auto simp: example_marshalFrame_def example_unmarshalFrame_def unsigned_of_int take_bit_int_eq_self split: if_splits)
  obtain b c where "EncodeFrame example_marshal example_marshalFrame (Msg_IpPacketToProvider (Some [1, 2])) 2 = Some (Inr b)"
      "EncodeFrame example_marshal example_marshalFrame (Msg_StreamClose [7]) 2 = Some (Inr c)"
    by (simp add: EncodeFrame_def ToFrame_def messageType_def example_marshal_def example_marshalFrame_def)
  then show ?thesis using frame_roundtrip [OF m f] by blast
qed

end
