(* ===== verification/Contract_Manager.thy ===== *)
theory Contract_Manager
  imports Frame_Codec
begin

text \<open>
  The contract manager (transfer_contract_manager.go): the provide modes and their secret keys, the queues of
  contracts per destination that send sequences take from, the control messages that create and close contracts,
  and the local statistics. A queue is a pointer, because a caller of \<open>TakeContract\<close> holds on to it.

  The main facts: a contract is handed out at most once; the key of a request is recovered from its echo; the size
  of a requested contract grows from the initial to the standard size. Three theorems show defects: the signature
  of a contract does not depend on the contract, a flush can detach a waiting caller from its queue, and a
  contract that is rejected is not reported.
\<close>

section \<open>Data\<close>

definition emptyContractKey :: ContractKey where
  "emptyContractKey = \<lparr>ck_Destination = emptyPath, ck_IntermediaryIds = emptyMultiHopId, ck_CompanionContract = False,
     ck_ForceStream = False\<rparr>"

definition ContractKey_Legacy :: "ContractKey \<Rightarrow> ContractKey" where
  "ContractKey_Legacy k = emptyContractKey\<lparr>ck_Destination := ck_Destination k\<rparr>"

record ContractStatus =
  st_Key :: ContractKey
  st_Error :: "int option"
  st_Premium :: bool

record ContractManagerStats =
  ContractOpenCount :: int
  ContractCloseCount :: int
  ContractOpenByteCounts :: "(Id \<times> ByteCount) list"
  ContractOpenKeys :: "(Id \<times> ContractKey) list"
  ContractCloseByteCount :: ByteCount
  ReceiveContractCloseByteCount :: ByteCount

definition NewContractManagerStats :: ContractManagerStats where
  "NewContractManagerStats = \<lparr>ContractOpenCount = 0, ContractCloseCount = 0, ContractOpenByteCounts = [],
     ContractOpenKeys = [], ContractCloseByteCount = 0, ReceiveContractCloseByteCount = 0\<rparr>"

definition ContractOpenByteCount :: "ContractManagerStats \<Rightarrow> ByteCount" where
  "ContractOpenByteCount s = fold (\<lambda>(_, b) c. int64 (c + b)) (ContractOpenByteCounts s) 0"

record ContractManagerSettings =
  cs_InitialContractTransferByteCount :: ByteCount
  cs_StandardContractTransferByteCount :: ByteCount
  cs_ContractTransferByteSeqScale :: u64
  cs_NetworkEventTimeEnableContracts :: time
  cs_LegacyCreateContract :: bool
  cs_ProvidePingTimeout :: duration
  cs_ProtocolVersion :: int
  cs_TrackUsedContracts :: bool

text \<open>Times are nanoseconds since 1970: the first of May 2024, and Go's zero time.\<close>

definition DefaultContractManagerSettings :: "int \<Rightarrow> ContractManagerSettings" where
  "DefaultContractManagerSettings defaultProtocolVersion =
     \<lparr>cs_InitialContractTransferByteCount = kib 16, cs_StandardContractTransferByteCount = mib 128,
      cs_ContractTransferByteSeqScale = 4, cs_NetworkEventTimeEnableContracts = 1714521600 * 1000000000,
      cs_LegacyCreateContract = True, cs_ProvidePingTimeout = 0, cs_ProtocolVersion = defaultProtocolVersion,
      cs_TrackUsedContracts = False\<rparr>"

definition DefaultContractManagerSettingsNoNetworkEvents :: "int \<Rightarrow> ContractManagerSettings" where
  "DefaultContractManagerSettingsNoNetworkEvents v =
     (DefaultContractManagerSettings v)\<lparr>cs_NetworkEventTimeEnableContracts := - 62135596800 * 1000000000\<rparr>"

definition ContractsEnabled :: "ContractManagerSettings \<Rightarrow> time \<Rightarrow> bool" where
  "ContractsEnabled st now = (cs_NetworkEventTimeEnableContracts st < now)"

section \<open>The queue of contracts of one destination\<close>

text \<open>
  Go's map of contracts is an association list; \<open>order\<close> arranges its keys in the order in which Go iterates over
  it at that moment. The used ids are a list without repetitions.
\<close>

record contractQueue =
  cq_updateMonitor :: Monitor
  cq_openCount :: int
  cq_contracts :: "(Id \<times> Contract) list"
  cq_trackUsedContracts :: bool
  cq_usedContractIds :: "Id list"

definition newContractQueue :: "bool \<Rightarrow> contractQueue" where
  "newContractQueue track = \<lparr>cq_updateMonitor = NewMonitor, cq_openCount = 0, cq_contracts = [],
     cq_trackUsedContracts = track, cq_usedContractIds = []\<rparr>"

definition cq_Open :: "contractQueue \<Rightarrow> contractQueue" where
  "cq_Open q = q\<lparr>cq_openCount := cq_openCount q + 1\<rparr>"

definition cq_Close :: "contractQueue \<Rightarrow> contractQueue" where
  "cq_Close q = q\<lparr>cq_openCount := cq_openCount q - 1\<rparr>"

definition cq_Poll :: "(Id list \<Rightarrow> Id list) \<Rightarrow> contractQueue \<Rightarrow> contractQueue \<times> Contract option" where
  "cq_Poll order q =
     (if cq_contracts q = [] then (q, None)
      else
        let i = hd (order (map fst (cq_contracts q)))
        in (q\<lparr>cq_contracts := AList.delete i (cq_contracts q)\<rparr>, map_of (cq_contracts q) i))"

definition cq_Add :: "Contract \<Rightarrow> 'a StoredContract_scheme \<Rightarrow> contractQueue \<Rightarrow> contractQueue" where
  "cq_Add c stored q =
     (case IdFromBytes (s_ContractId stored) of Inl _ \<Rightarrow> q
      | Inr i \<Rightarrow>
          let added = q\<lparr>cq_contracts := AList.update i c (cq_contracts q), cq_updateMonitor := NotifyAll (cq_updateMonitor q)\<rparr>
          in if map_of (cq_contracts q) i \<noteq> None then added
             else if i \<notin> set (cq_usedContractIds q) then
               (if cq_trackUsedContracts q then added\<lparr>cq_usedContractIds := List.insert i (cq_usedContractIds q)\<rparr> else added)
             else q)"

definition RemoveUsedContract :: "Id \<Rightarrow> contractQueue \<Rightarrow> contractQueue" where
  "RemoveUsedContract i q = q\<lparr>cq_usedContractIds := removeAll i (cq_usedContractIds q)\<rparr>"

definition cq_Flush :: "bool \<Rightarrow> contractQueue \<Rightarrow> contractQueue \<times> Contract list" where
  "cq_Flush removeUsedContractIds q =
     (q\<lparr>cq_contracts := [], cq_usedContractIds := (if removeUsedContractIds then [] else cq_usedContractIds q)\<rparr>,
      map snd (cq_contracts q))"

definition cq_IsDone :: "contractQueue \<Rightarrow> bool" where
  "cq_IsDone q = (\<not> 0 < cq_openCount q \<and> cq_contracts q = [] \<and> cq_usedContractIds q = [])"

definition UsedContractIdBytes :: "contractQueue \<Rightarrow> byte list list" where
  "UsedContractIdBytes q = map Id_Bytes (cq_usedContractIds q)"

section \<open>The manager\<close>

text \<open>
  \<open>hmac key msg\<close> is HMAC-SHA256. A Go \<open>hash.Hash\<close> is its key and what was written to it; \<open>Sum b\<close> appends the
  digest of what was written to \<open>b\<close>.
\<close>

record contract_manager_env =
  m_unmarshalStored :: "byte list \<Rightarrow> PricedContract option"
  m_unmarshalCreateContractResult :: "byte list \<Rightarrow> CreateContractResult option"
  m_marshal :: "message \<Rightarrow> byte list option"
  m_hmac :: "byte list \<Rightarrow> byte list \<Rightarrow> byte list"

record hash =
  h_key :: "byte list"
  h_written :: "byte list"

definition hmac_New :: "byte list \<Rightarrow> hash" where
  "hmac_New key = \<lparr>h_key = key, h_written = []\<rparr>"

definition hash_Sum :: "contract_manager_env \<Rightarrow> hash \<Rightarrow> byte list \<Rightarrow> byte list" where
  "hash_Sum env h b = b @ m_hmac env (h_key h) (h_written h)"

text \<open>\<open>m_log\<close> holds the frames sent and the statuses reported, in order.\<close>

datatype manager_event =
    SyncProvide Frame
  | SendOob Frame
  | ReportStatus ContractStatus

record ContractManager =
  m_clientId :: Id
  m_settings :: ContractManagerSettings
  provideSecretKeys :: "(int \<times> byte list) list"
  provideModes :: "(int \<times> bool) list"
  providePaused :: bool
  provideMonitor :: Monitor
  destinationContracts :: "(ContractKey \<times> ptr) list"
  contractQueues :: "ptr \<Rightarrow> contractQueue"
  m_nextPtr :: ptr
  receiveNoContractClientIds :: "Id \<Rightarrow> bool option"
  sendNoContractClientIds :: "Id \<Rightarrow> bool option"
  localStats :: ContractManagerStats
  m_log :: "manager_event list"

definition NewContractManager :: "Id \<Rightarrow> ContractManagerSettings \<Rightarrow> ContractManager" where
  "NewContractManager clientId st =
     \<lparr>m_clientId = clientId, m_settings = st, provideSecretKeys = [], provideModes = [], providePaused = False,
      provideMonitor = NewMonitor, destinationContracts = [], contractQueues = (\<lambda>_. newContractQueue (cs_TrackUsedContracts st)),
      m_nextPtr = 0, receiveNoContractClientIds = [ControlId \<mapsto> True, clientId \<mapsto> True],
      sendNoContractClientIds = [ControlId \<mapsto> True, clientId \<mapsto> True], localStats = NewContractManagerStats, m_log = []\<rparr>"

definition m_emit :: "manager_event list \<Rightarrow> ContractManager \<Rightarrow> ContractManager" where
  "m_emit es m = m\<lparr>m_log := m_log m @ es\<rparr>"

section \<open>Provide modes and keys\<close>

definition ProvideMode_Stream :: int where
  "ProvideMode_Stream = 4"

definition controlFrame :: "contract_manager_env \<Rightarrow> message \<Rightarrow> ContractManager \<Rightarrow> Frame option" where
  "controlFrame env msg m =
     (case ToFrame (m_marshal env) msg (cs_ProtocolVersion (m_settings m)) of Some (Inr f) \<Rightarrow> Some f | _ \<Rightarrow> None)"

definition LoadProvideSecretKeys :: "(int \<times> byte list) list \<Rightarrow> ContractManager \<Rightarrow> ContractManager" where
  "LoadProvideSecretKeys keys m = m\<lparr>provideSecretKeys := AList.updates (map fst keys) (map snd keys) (provideSecretKeys m)\<rparr>"

text \<open>\<open>fresh\<close> are the 32 bytes drawn for a mode that has no key.\<close>

definition ensureKey :: "(int \<Rightarrow> byte list) \<Rightarrow> int \<Rightarrow> (int \<times> byte list) list \<Rightarrow> (int \<times> byte list) list" where
  "ensureKey fresh mode keys = (if map_of keys mode = None then AList.update mode (fresh mode) keys else keys)"

definition InitProvideSecretKeys :: "(int \<Rightarrow> byte list) \<Rightarrow> ContractManager \<Rightarrow> ContractManager" where
  "InitProvideSecretKeys fresh m = m\<lparr>provideSecretKeys := fold (ensureKey fresh) [0, 1, 2, 3, 4, 5] (provideSecretKeys m)\<rparr>"

text \<open>The keys that are sent to the platform: while paused only the mode for return traffic.\<close>

definition provideKeys :: "ContractManager \<Rightarrow> (int \<times> byte list) list" where
  "provideKeys m = List.map_filter (\<lambda>(mode, allow).
       if allow \<and> (\<not> providePaused m \<or> mode = ProvideMode_Stream)
       then map_option (\<lambda>key. (mode, key)) (map_of (provideSecretKeys m) mode) else None) (provideModes m)"

definition provideFrame :: "contract_manager_env \<Rightarrow> ContractManager \<Rightarrow> Frame option" where
  "provideFrame env m = controlFrame env (Msg_Provide (provideKeys m)) m"

definition SetProvidePaused :: "contract_manager_env \<Rightarrow> bool \<Rightarrow> ContractManager \<Rightarrow> ContractManager \<times> bool" where
  "SetProvidePaused env paused m =
     (if providePaused m \<noteq> paused then
        let m = m\<lparr>providePaused := paused, provideMonitor := NotifyAll (provideMonitor m)\<rparr>
        in (case provideFrame env m of None \<Rightarrow> m | Some f \<Rightarrow> m_emit [SyncProvide f] m, True)
      else (m, False))"

text \<open>
  The flag is false when the frame could not be made and the callback was called with the error. The modes are a
  map of Go, in the order of its iteration.
\<close>

definition SetProvideModes :: "contract_manager_env \<Rightarrow> (int \<Rightarrow> byte list) \<Rightarrow> (int \<times> bool) list \<Rightarrow> ContractManager \<Rightarrow> ContractManager \<times> bool" where
  "SetProvideModes env fresh modes m =
     (let m = m\<lparr>provideSecretKeys := fold (\<lambda>(mode, allow) keys. if allow then ensureKey fresh mode keys else keys) modes
                  (provideSecretKeys m),
              provideModes := modes, provideMonitor := NotifyAll (provideMonitor m)\<rparr>
      in case provideFrame env m of None \<Rightarrow> (m, False) | Some f \<Rightarrow> (m_emit [SyncProvide f] m, True))"

definition SetProvideModesWithReturnTraffic ::
    "contract_manager_env \<Rightarrow> (int \<Rightarrow> byte list) \<Rightarrow> (int \<times> bool) list \<Rightarrow> ContractManager \<Rightarrow> ContractManager \<times> bool" where
  "SetProvideModesWithReturnTraffic env fresh modes m =
     SetProvideModes env fresh (AList.update ProvideMode_Stream True modes) m"

definition GetProvideSecretKey :: "int \<Rightarrow> ContractManager \<Rightarrow> byte list option" where
  "GetProvideSecretKey mode m =
     (if map_of (provideModes m) mode \<noteq> Some True then None else map_of (provideSecretKeys m) mode)"

text \<open>\<open>RequireProvideSecretKey\<close> panics without the key.\<close>

definition RequireProvideSecretKey :: "int \<Rightarrow> ContractManager \<Rightarrow> byte list option" where
  "RequireProvideSecretKey mode m = GetProvideSecretKey mode m"

text \<open>The digest is of what was written to the hash, and nothing was: \<open>Sum\<close> gets the contract.\<close>

definition Verify :: "contract_manager_env \<Rightarrow> byte list \<Rightarrow> byte list \<Rightarrow> int \<Rightarrow> ContractManager \<Rightarrow> bool" where
  "Verify env storedContractHmac storedContractBytes mode m =
     (if providePaused m \<and> mode \<noteq> ProvideMode_Stream then False
      else if map_of (provideModes m) mode \<noteq> Some True then False
      else case map_of (provideSecretKeys m) mode of None \<Rightarrow> False
        | Some key \<Rightarrow>
            let mac = hmac_New key;
                expectedHmac = hash_Sum env mac storedContractBytes
            in storedContractHmac = expectedHmac)"

text \<open>The ping of a provider waits until the client provides publicly.\<close>

definition providePublic :: "ContractManager \<Rightarrow> bool" where
  "providePublic m = (\<not> providePaused m \<and>
     (map_of (provideModes m) 3 = Some True \<or> map_of (provideModes m) 5 = Some True))"

section \<open>Peers without contracts\<close>

definition AddNoContractPeer :: "Id \<Rightarrow> ContractManager \<Rightarrow> ContractManager" where
  "AddNoContractPeer i m = m\<lparr>sendNoContractClientIds := (sendNoContractClientIds m)(i \<mapsto> True),
     receiveNoContractClientIds := (receiveNoContractClientIds m)(i \<mapsto> True)\<rparr>"

definition SendNoContract :: "time \<Rightarrow> Id \<Rightarrow> ContractManager \<Rightarrow> bool" where
  "SendNoContract now i m =
     (case sendNoContractClientIds m i of Some allow \<Rightarrow> allow | None \<Rightarrow> \<not> ContractsEnabled (m_settings m) now)"

definition ReceiveNoContract :: "time \<Rightarrow> Id \<Rightarrow> ContractManager \<Rightarrow> bool" where
  "ReceiveNoContract now i m =
     (case receiveNoContractClientIds m i of Some allow \<Rightarrow> allow | None \<Rightarrow> \<not> ContractsEnabled (m_settings m) now)"

section \<open>Queues\<close>

definition queueKey :: "ContractManager \<Rightarrow> ContractKey \<Rightarrow> ContractKey" where
  "queueKey m k = (if cs_LegacyCreateContract (m_settings m) then ContractKey_Legacy k else k)"

definition updQueue :: "ptr \<Rightarrow> (contractQueue \<Rightarrow> contractQueue) \<Rightarrow> ContractManager \<Rightarrow> ContractManager" where
  "updQueue p f m = m\<lparr>contractQueues := (contractQueues m)(p := f (contractQueues m p))\<rparr>"

definition openContractQueue :: "ContractKey \<Rightarrow> ContractManager \<Rightarrow> ContractManager \<times> ptr" where
  "openContractQueue k m =
     (case map_of (destinationContracts m) (queueKey m k) of
        Some p \<Rightarrow> (updQueue p cq_Open m, p)
      | None \<Rightarrow>
          let p = m_nextPtr m;
              m = m\<lparr>contractQueues := (contractQueues m)(p := newContractQueue (cs_TrackUsedContracts (m_settings m))),
                   destinationContracts := AList.update (queueKey m k) p (destinationContracts m), m_nextPtr := p + 1\<rparr>
          in (updQueue p cq_Open m, p))"

definition closeContractQueueWithForceRemove :: "ContractKey \<Rightarrow> bool \<Rightarrow> ContractManager \<Rightarrow> ContractManager" where
  "closeContractQueueWithForceRemove k forceRemove m =
     (case map_of (destinationContracts m) (queueKey m k) of None \<Rightarrow> m
      | Some p \<Rightarrow>
          let m = updQueue p cq_Close m
          in if cq_IsDone (contractQueues m p) \<or> forceRemove
             then m\<lparr>destinationContracts := AList.delete (queueKey m k) (destinationContracts m)\<rparr> else m)"

definition closeContractQueue :: "ContractKey \<Rightarrow> ContractManager \<Rightarrow> ContractManager" where
  "closeContractQueue k m = closeContractQueueWithForceRemove k False m"

text \<open>
  \<open>TakeContract\<close> opens the queue, polls it at once and after each notification until it has a contract or the time
  is over, and closes the queue. One poll is \<open>takePoll\<close>; a call that does not wait is \<open>TakeContract\<close>.
\<close>

definition takePoll :: "(Id list \<Rightarrow> Id list) \<Rightarrow> ptr \<Rightarrow> ContractManager \<Rightarrow> ContractManager \<times> Contract option" where
  "takePoll order p m = (case cq_Poll order (contractQueues m p) of (q, c) \<Rightarrow> (updQueue p (\<lambda>_. q) m, c))"

definition TakeContract :: "(Id list \<Rightarrow> Id list) \<Rightarrow> ContractKey \<Rightarrow> ContractManager \<Rightarrow> ContractManager \<times> Contract option" where
  "TakeContract order k m =
     (case openContractQueue k m of (m, p) \<Rightarrow>
        (case takePoll order p m of (m, c) \<Rightarrow> (closeContractQueue k m, c)))"

section \<open>Contracts that arrive\<close>

datatype add_error = AddBadContract | AddBadPath id_error | AddWrongSource | AddBadContractId id_error

text \<open>
  The contract is put into the queue of the key it was requested with. Its id is known to be good there, and the
  error of \<open>Add\<close> is not looked at.
\<close>

definition addContract :: "contract_manager_env \<Rightarrow> ContractKey \<Rightarrow> Contract \<Rightarrow> ContractManager \<Rightarrow> ContractManager \<times> add_error option" where
  "addContract env k c m =
     (case m_unmarshalStored env (StoredContractBytes c) of None \<Rightarrow> (m, Some AddBadContract)
      | Some stored \<Rightarrow>
          (case TransferPathFromBytes (s_SourceId stored) (s_DestinationId stored) (s_StreamId stored) of
             Inl e \<Rightarrow> (m, Some (AddBadPath e))
           | Inr path \<Rightarrow>
               if \<not> IsStream path \<and> sourceId path \<noteq> m_clientId m then (m, Some AddWrongSource)
               else (case IdFromBytes (s_ContractId stored) of Inl e \<Rightarrow> (m, Some (AddBadContractId e))
                 | Inr i \<Rightarrow>
                     (case openContractQueue k m of (m, p) \<Rightarrow>
                        let m = updQueue p (cq_Add c stored) m;
                            m = closeContractQueue k m;
                            s = localStats m
                        in (m\<lparr>localStats := s\<lparr>ContractOpenCount := int64 (ContractOpenCount s + 1),
                              ContractOpenByteCounts := AList.update i (int64 (uint (s_TransferByteCount stored))) (ContractOpenByteCounts s),
                              ContractOpenKeys := AList.update i k (ContractOpenKeys s)\<rparr>\<rparr>, None)))))"

datatype control_result = ContractFor ContractKey Contract | ContractErrorFor ContractKey int

text \<open>
  The key of a result: the flags and the intermediaries of the echoed request, the destination of the request for
  an error and of the contract for a contract.
\<close>

definition requestKey :: "CreateContractResult \<Rightarrow> ContractKey" where
  "requestKey r =
     (case cr_CreateContract r of None \<Rightarrow> emptyContractKey
      | Some v \<Rightarrow> emptyContractKey\<lparr>ck_CompanionContract := cc_Companion v,
          ck_ForceStream := (case cc_ForceStream v of None \<Rightarrow> False | Some b \<Rightarrow> b),
          ck_IntermediaryIds := (case cc_IntermediaryIds v of None \<Rightarrow> emptyMultiHopId
            | Some bs \<Rightarrow> (case MultiHopIdFromBytes bs of Inl _ \<Rightarrow> emptyMultiHopId | Inr ids \<Rightarrow> ids))\<rparr>)"

definition addResult :: "contract_manager_env \<Rightarrow> CreateContractResult \<Rightarrow> control_result option" where
  "addResult env r =
     (case cr_Error r of
        Some e \<Rightarrow>
          (case cr_CreateContract r of None \<Rightarrow> Some (ContractErrorFor (requestKey r) e)
           | Some v \<Rightarrow> (case TransferPathFromBytes None (cc_DestinationId v) (cc_StreamId v) of Inl _ \<Rightarrow> None
               | Inr d \<Rightarrow> Some (ContractErrorFor ((requestKey r)\<lparr>ck_Destination := d\<rparr>) e)))
      | None \<Rightarrow>
          (case cr_Contract r of None \<Rightarrow> None
           | Some c \<Rightarrow> (case m_unmarshalStored env (StoredContractBytes c) of None \<Rightarrow> None
               | Some stored \<Rightarrow> (case TransferPathFromBytes None (s_DestinationId stored) (s_StreamId stored) of Inl _ \<Rightarrow> None
                   | Inr d \<Rightarrow> Some (ContractFor ((requestKey r)\<lparr>ck_Destination := d\<rparr>) c)))))"

definition parseControlFrame :: "contract_manager_env \<Rightarrow> Frame \<Rightarrow> control_result option" where
  "parseControlFrame env f =
     (if f_MessageType f = 11 then Option.bind (m_unmarshalCreateContractResult env (f_MessageBytes f)) (addResult env) else None)"

text \<open>
  One contract is added, and its status reported; the status of a contract that was rejected is made and dropped.
  The results of several frames are collected in a map per key (the last result of a key counts) before they are
  added, in an order of Go's choice.
\<close>

definition receiveContract :: "contract_manager_env \<Rightarrow> ContractKey \<Rightarrow> Contract \<Rightarrow> ContractManager \<Rightarrow> ContractManager" where
  "receiveContract env k c m =
     (case addContract env k c m of
        (m, Some _) \<Rightarrow> m
      | (m, None) \<Rightarrow>
          (case m_unmarshalStored env (StoredContractBytes c) of None \<Rightarrow> m
           | Some stored \<Rightarrow>
               m_emit [ReportStatus \<lparr>st_Key = k, st_Error = None,
                 st_Premium = (case s_Priority stored of None \<Rightarrow> False | Some priority \<Rightarrow> 0 < priority)\<rparr>] m))"

definition ContractManager_Receive ::
    "contract_manager_env \<Rightarrow> (ContractKey list \<Rightarrow> ContractKey list) \<Rightarrow> TransferPath \<Rightarrow> Frame list \<Rightarrow> ContractManager \<Rightarrow> ContractManager" where
  "ContractManager_Receive env order source frames m =
     (if \<not> IsControlSource source then m
      else
        let results = List.map_filter (parseControlFrame env) frames;
            contracts = fold (\<lambda>r cs. case r of ContractFor k c \<Rightarrow> AList.update k c cs | _ \<Rightarrow> cs) results [];
            errors = fold (\<lambda>r es. case r of ContractErrorFor k e \<Rightarrow> AList.update k e es | _ \<Rightarrow> es) results [];
            m = fold (\<lambda>k m. case map_of contracts k of None \<Rightarrow> m | Some c \<Rightarrow> receiveContract env k c m)
                  (order (map fst contracts)) m
        in fold (\<lambda>k m. m_emit [ReportStatus \<lparr>st_Key = k, st_Error = map_of errors k, st_Premium = False\<rparr>] m)
             (order (map fst errors)) m)"

section \<open>Requests\<close>

text \<open>The size of the requested contract; the product is of \<open>uint64\<close>.\<close>

definition contractByteCount :: "ContractManagerSettings \<Rightarrow> u64 \<Rightarrow> ByteCount \<Rightarrow> ByteCount" where
  "contractByteCount st contractSeqIndex minByteCount =
     (let target =
        (if cs_ContractTransferByteSeqScale st \<le> contractSeqIndex then cs_StandardContractTransferByteCount st
         else int64 (cs_InitialContractTransferByteCount st + sint
           ((contractSeqIndex * word_of_int (int64 (cs_StandardContractTransferByteCount st - cs_InitialContractTransferByteCount st)))
              div cs_ContractTransferByteSeqScale st)))
      in max target minByteCount)"

definition createContractMessage :: "ContractManagerSettings \<Rightarrow> ContractKey \<Rightarrow> u64 \<Rightarrow> ByteCount \<Rightarrow> byte list list \<Rightarrow> CreateContract" where
  "createContractMessage st k contractSeqIndex minByteCount used =
     \<lparr>cc_DestinationId = Some (Id_Bytes (destinationId (ck_Destination k))),
      cc_TransferByteCount = word_of_int (contractByteCount st contractSeqIndex minByteCount),
      cc_Companion = ck_CompanionContract k, cc_UsedContractIds = used,
      cc_IntermediaryIds = Some (MultiHop_Bytes (ck_IntermediaryIds k)),
      cc_StreamId = Some (Id_Bytes (streamId (ck_Destination k))), cc_ForceStream = Some (ck_ForceStream k)\<rparr>"

text \<open>The reply to the request arrives later, at \<open>Receive\<close>.\<close>

definition CreateContract_m :: "contract_manager_env \<Rightarrow> ContractKey \<Rightarrow> u64 \<Rightarrow> ByteCount \<Rightarrow> ContractManager \<Rightarrow> ContractManager" where
  "CreateContract_m env k contractSeqIndex minByteCount m =
     (case openContractQueue k m of (m, p) \<Rightarrow>
        let used = (if cs_TrackUsedContracts (m_settings m) then UsedContractIdBytes (contractQueues m p) else []);
            msg = createContractMessage (m_settings m) k contractSeqIndex minByteCount used;
            m = (case controlFrame env (Msg_CreateContract msg) m of None \<Rightarrow> m | Some f \<Rightarrow> m_emit [SendOob f] m)
        in closeContractQueue k m)"

text \<open>
  A contract is closed in the statistics at once and at the platform by a message; \<open>contractClosed\<close> is the reply
  for a contract that was opened here.
\<close>

definition CloseContractWithCheckpoint ::
    "contract_manager_env \<Rightarrow> Id \<Rightarrow> ByteCount \<Rightarrow> ByteCount \<Rightarrow> bool \<Rightarrow> ContractManager \<Rightarrow> ContractManager \<times> ContractKey option" where
  "CloseContractWithCheckpoint env i acked unacked checkpoint m =
     (let s = localStats m;
          opened = map_of (ContractOpenByteCounts s) i \<noteq> None;
          key = (case map_of (ContractOpenKeys s) i of None \<Rightarrow> emptyContractKey | Some k \<Rightarrow> k);
          m = (if opened then
                 m\<lparr>localStats := s\<lparr>ContractCloseCount := int64 (ContractCloseCount s + 1),
                   ContractOpenByteCounts := AList.delete i (ContractOpenByteCounts s),
                   ContractOpenKeys := AList.delete i (ContractOpenKeys s),
                   ContractCloseByteCount := int64 (ContractCloseByteCount s + acked)\<rparr>\<rparr>
               else m\<lparr>localStats := s\<lparr>ReceiveContractCloseByteCount := int64 (ReceiveContractCloseByteCount s + acked)\<rparr>\<rparr>);
          msg = \<lparr>xc_ContractId = Id_Bytes i, xc_AckedByteCount = word_of_int acked, xc_UnackedByteCount = word_of_int unacked,
                 xc_Checkpoint = checkpoint\<rparr>
      in case controlFrame env (Msg_CloseContract msg) m of None \<Rightarrow> (m, None)
         | Some f \<Rightarrow> (m_emit [SendOob f] m, if opened then Some key else None))"

definition contractClosed :: "ContractKey \<Rightarrow> Id \<Rightarrow> ContractManager \<Rightarrow> ContractManager" where
  "contractClosed k i m =
     (case openContractQueue k m of (m, p) \<Rightarrow> closeContractQueue k (updQueue p (RemoveUsedContract i) m))"

definition CheckpointContract_m :: "contract_manager_env \<Rightarrow> Id \<Rightarrow> ByteCount \<Rightarrow> ByteCount \<Rightarrow> ContractManager \<Rightarrow> ContractManager" where
  "CheckpointContract_m env i acked unacked m = fst (CloseContractWithCheckpoint env i acked unacked True m)"

definition CloseContract_m :: "contract_manager_env \<Rightarrow> Id \<Rightarrow> ByteCount \<Rightarrow> ByteCount \<Rightarrow> ContractManager \<Rightarrow> ContractManager" where
  "CloseContract_m env i acked unacked m = fst (CloseContractWithCheckpoint env i acked unacked False m)"

definition closeContracts :: "contract_manager_env \<Rightarrow> Contract list \<Rightarrow> ContractManager \<Rightarrow> ContractManager \<times> Id list" where
  "closeContracts env cs m =
     fold (\<lambda>c (m, is). case m_unmarshalStored env (StoredContractBytes c) of None \<Rightarrow> (m, is)
         | Some stored \<Rightarrow> (case IdFromBytes (s_ContractId stored) of Inl _ \<Rightarrow> (m, is)
             | Inr i \<Rightarrow> (CloseContract_m env i 0 0 m, is @ [i]))) cs (m, [])"

definition ContractManager_Flush ::
    "contract_manager_env \<Rightarrow> (ptr list \<Rightarrow> ptr list) \<Rightarrow> bool \<Rightarrow> ContractManager \<Rightarrow> ContractManager \<times> Id list" where
  "ContractManager_Flush env order resetUsedContractIds m =
     (let (m, cs) = fold (\<lambda>p (m, cs). case cq_Flush resetUsedContractIds (contractQueues m p) of (q, fs) \<Rightarrow>
            (updQueue p (\<lambda>_. q) m, cs @ fs)) (order (map snd (destinationContracts m))) (m, [])
      in closeContracts env cs m)"

definition FlushContractQueue_m ::
    "contract_manager_env \<Rightarrow> ContractKey \<Rightarrow> bool \<Rightarrow> ContractManager \<Rightarrow> ContractManager \<times> Id list" where
  "FlushContractQueue_m env k resetUsedContractIds m =
     (case openContractQueue k m of (m, p) \<Rightarrow>
        (case cq_Flush resetUsedContractIds (contractQueues m p) of (q, cs) \<Rightarrow>
          (case closeContracts env cs (updQueue p (\<lambda>_. q) m) of (m, is) \<Rightarrow>
             (closeContractQueueWithForceRemove k True m, is))))"

definition LocalStats :: "ContractManager \<Rightarrow> ContractManagerStats" where
  "LocalStats m = (localStats m)\<lparr>ContractOpenKeys := []\<rparr>"

definition ResetLocalStats :: "ContractManager \<Rightarrow> ContractManager" where
  "ResetLocalStats m = m\<lparr>localStats := NewContractManagerStats\<rparr>"

section \<open>What a queue hands out\<close>













section \<open>The manager over time\<close>

text \<open>
  The manager with the callers that wait in \<open>TakeContract\<close>, each with its key and its queue; the contracts that
  arrived and those that were taken are kept with their keys.
\<close>

datatype manager_call =
    CallTake ContractKey "Id list \<Rightarrow> Id list"
  | CallWait ContractKey
  | CallPoll nat "Id list \<Rightarrow> Id list"
  | CallLeave nat
  | CallArrive ContractKey Contract
  | CallRequest ContractKey u64 ByteCount
  | CallClose Id ByteCount ByteCount bool
  | CallClosed ContractKey Id
  | CallFlush "ptr list \<Rightarrow> ptr list" bool
  | CallFlushQueue ContractKey bool

record manager_run =
  mr_manager :: ContractManager
  mr_waiting :: "(ContractKey \<times> ptr) list"
  mr_arrived :: "(ContractKey \<times> Contract) list"
  mr_taken :: "(ContractKey \<times> Contract) list"

definition take_result :: "ContractKey \<Rightarrow> ContractManager \<times> Contract option \<Rightarrow> manager_run \<Rightarrow> manager_run" where
  "take_result k r w = (case r of (m, c) \<Rightarrow>
     w\<lparr>mr_manager := m, mr_taken := mr_taken w @ (case c of None \<Rightarrow> [] | Some c \<Rightarrow> [(k, c)])\<rparr>)"

definition manager_step :: "contract_manager_env \<Rightarrow> manager_call \<Rightarrow> manager_run \<Rightarrow> manager_run" where
  "manager_step env call w =
     (let m = mr_manager w in
      case call of
        CallTake k order \<Rightarrow> take_result k (TakeContract order k m) w
      | CallWait k \<Rightarrow> (case openContractQueue k m of (m, p) \<Rightarrow> w\<lparr>mr_manager := m, mr_waiting := mr_waiting w @ [(k, p)]\<rparr>)
      | CallPoll i order \<Rightarrow>
          if i < length (mr_waiting w) then
            (case mr_waiting w ! i of (k, p) \<Rightarrow> take_result k (takePoll order p m) w)
          else w
      | CallLeave i \<Rightarrow>
          if i < length (mr_waiting w) then
            w\<lparr>mr_manager := closeContractQueue (fst (mr_waiting w ! i)) m,
              mr_waiting := take i (mr_waiting w) @ drop (Suc i) (mr_waiting w)\<rparr>
          else w
      | CallArrive k c \<Rightarrow>
          (case addContract env k c m of (m, e) \<Rightarrow>
             w\<lparr>mr_manager := m, mr_arrived := mr_arrived w @ (if e = None then [(k, c)] else [])\<rparr>)
      | CallRequest k i n \<Rightarrow> w\<lparr>mr_manager := CreateContract_m env k i n m\<rparr>
      | CallClose i a u cp \<Rightarrow> w\<lparr>mr_manager := fst (CloseContractWithCheckpoint env i a u cp m)\<rparr>
      | CallClosed k i \<Rightarrow> w\<lparr>mr_manager := contractClosed k i m\<rparr>
      | CallFlush order reset \<Rightarrow> w\<lparr>mr_manager := fst (ContractManager_Flush env order reset m)\<rparr>
      | CallFlushQueue k reset \<Rightarrow> w\<lparr>mr_manager := fst (FlushContractQueue_m env k reset m)\<rparr>)"

definition manager_calls :: "contract_manager_env \<Rightarrow> manager_call list \<Rightarrow> manager_run \<Rightarrow> manager_run" where
  "manager_calls env calls w = fold (manager_step env) calls w"

definition manager_start :: "Id \<Rightarrow> ContractManagerSettings \<Rightarrow> manager_run" where
  "manager_start clientId st =
     \<lparr>mr_manager = NewContractManager clientId st, mr_waiting = [], mr_arrived = [], mr_taken = []\<rparr>"

text \<open>
  Every queue has an owner, the key that it was made for; what it holds arrived for that key, and whoever holds on
  to it asked for that key. \<open>G\<close> are the contracts that arrived.
\<close>

definition owned :: "(ptr \<Rightarrow> ContractKey) \<Rightarrow> (ContractKey \<times> Contract) list \<Rightarrow> ContractManager \<Rightarrow> bool" where
  "owned ow G m \<longleftrightarrow>
     (\<forall>(k, p)\<in>set (destinationContracts m). p < m_nextPtr m \<and> ow p = k) \<and>
     (\<forall>p<m_nextPtr m. \<forall>(i, c)\<in>set (cq_contracts (contractQueues m p)). \<exists>k. (k, c) \<in> set G \<and> queueKey m k = ow p)"

lemma owned_mono: "owned ow G m \<Longrightarrow> set G \<subseteq> set G' \<Longrightarrow> owned ow G' m"
  unfolding owned_def by fastforce

text \<open>Operations that change a queue without adding a contract to it, and nothing else that \<open>owned\<close> looks at.\<close>

lemma updQueue_fields [simp]:
  "destinationContracts (updQueue p f m) = destinationContracts m" "m_nextPtr (updQueue p f m) = m_nextPtr m"
  "m_settings (updQueue p f m) = m_settings m" "queueKey (updQueue p f m) = queueKey m"
  by (auto simp: updQueue_def queueKey_def)

lemma owned_queue:
  assumes "owned ow G m" "set (cq_contracts (f (contractQueues m p))) \<subseteq> set (cq_contracts (contractQueues m p))"
  shows "owned ow G (updQueue p f m)"
proof -
  have "\<exists>k. (k, c) \<in> set G \<and> queueKey m k = ow q"
    if "q < m_nextPtr m" "(i, c) \<in> set (cq_contracts (contractQueues (updQueue p f m) q))" for q i c
    using assms that by (cases "q = p") (fastforce simp: owned_def updQueue_def)+
  then show ?thesis using assms(1) by (auto simp: owned_def)
qed

lemma owned_same:
  assumes "owned ow G m" "destinationContracts m' = destinationContracts m" "contractQueues m' = contractQueues m"
    "m_nextPtr m' = m_nextPtr m" "m_settings m' = m_settings m"
  shows "owned ow G m'"
  using assms unfolding owned_def queueKey_def by simp

lemma owned_delete: "owned ow G m \<Longrightarrow> owned ow G (m\<lparr>destinationContracts := AList.delete k (destinationContracts m)\<rparr>)"
  unfolding owned_def queueKey_def by (auto simp: AList.delete_eq)

lemma queue_op_contracts [simp]:
  "cq_contracts (cq_Open q) = cq_contracts q" "cq_contracts (cq_Close q) = cq_contracts q"
  "cq_contracts (RemoveUsedContract i q) = cq_contracts q" "cq_contracts (fst (cq_Flush b q)) = []"
  by (simp_all add: cq_Open_def cq_Close_def RemoveUsedContract_def cq_Flush_def)

lemma openContractQueue_owned:
  assumes "owned ow G m" "openContractQueue k m = (m', p)"
  obtains ow' where "owned ow' G m'" "ow' p = queueKey m k" "p < m_nextPtr m'" "\<forall>q<m_nextPtr m. ow' q = ow q"
    "m_nextPtr m \<le> m_nextPtr m'" "m_settings m' = m_settings m"
proof (cases "map_of (destinationContracts m) (queueKey m k)")
  case (Some q)
  then have "(queueKey m k, q) \<in> set (destinationContracts m)" by (rule map_of_SomeD)
  moreover have m': "m' = updQueue q cq_Open m" "p = q" using assms(2) Some by (auto simp: openContractQueue_def)
  ultimately have "p < m_nextPtr m" "ow p = queueKey m k" using assms(1) by (auto simp: owned_def)
  moreover have "owned ow G m'" unfolding m' by (rule owned_queue [OF assms(1)]) simp
  ultimately show thesis using that [of ow] m' by (simp add: updQueue_def)
next
  case None
  define n where "n = m\<lparr>contractQueues := (contractQueues m)(m_nextPtr m := newContractQueue (cs_TrackUsedContracts (m_settings m))),
    destinationContracts := AList.update (queueKey m k) (m_nextPtr m) (destinationContracts m), m_nextPtr := m_nextPtr m + 1\<rparr>"
  have m': "m' = updQueue p cq_Open n" "p = m_nextPtr m"
    using assms(2) None by (auto simp: openContractQueue_def Let_def n_def)
  have "owned (ow(p := queueKey m k)) G n"
    using assms(1) set_AList_update [of "queueKey m k" "m_nextPtr m" "destinationContracts m"] m'(2)
    unfolding owned_def n_def queueKey_def by (fastforce simp: newContractQueue_def less_Suc_eq)
  then have "owned (ow(p := queueKey m k)) G m'" unfolding m'(1) by (rule owned_queue) simp
  then show thesis using that [of "ow(p := queueKey m k)"] m' by (simp add: updQueue_def n_def)
qed

lemma closeContractQueue_owned:
  assumes "owned ow G m"
  shows "owned ow G (closeContractQueueWithForceRemove k b m)"
    "m_nextPtr (closeContractQueueWithForceRemove k b m) = m_nextPtr m"
    "m_settings (closeContractQueueWithForceRemove k b m) = m_settings m"
proof -
  have "owned ow G (updQueue p cq_Close m)" for p by (rule owned_queue [OF assms]) simp
  from this owned_delete [OF this] show "owned ow G (closeContractQueueWithForceRemove k b m)"
    using assms unfolding closeContractQueueWithForceRemove_def Let_def by (simp split: option.split)
qed (simp_all add: closeContractQueueWithForceRemove_def Let_def updQueue_def split: option.split)

text \<open>A change of the manager under which queues keep their owners.\<close>

definition evolves :: "(ContractKey \<times> Contract) list \<Rightarrow> ContractManager \<Rightarrow> ContractManager \<Rightarrow> bool" where
  "evolves G m m' \<longleftrightarrow> m_settings m' = m_settings m \<and> m_nextPtr m \<le> m_nextPtr m' \<and>
     (\<forall>ow. owned ow G m \<longrightarrow> (\<exists>ow'. owned ow' G m' \<and> (\<forall>q<m_nextPtr m. ow' q = ow q)))"

lemma evolves_refl [simp]: "evolves G m m"
  by (auto simp: evolves_def)

lemma evolves_trans:
  assumes "evolves G m n" "evolves G n l"
  shows "evolves G m l"
proof -
  have "\<exists>ow2. owned ow2 G l \<and> (\<forall>q<m_nextPtr m. ow2 q = ow q)" if ow: "owned ow G m" for ow
  proof -
    obtain ow1 where o1: "owned ow1 G n" "\<forall>q<m_nextPtr m. ow1 q = ow q" using assms(1) ow by (auto simp: evolves_def)
    obtain ow2 where "owned ow2 G l" "\<forall>q<m_nextPtr n. ow2 q = ow1 q" using assms(2) o1(1) by (auto simp: evolves_def)
    then show ?thesis using o1(2) assms(1) by (auto simp: evolves_def)
  qed
  then show ?thesis using assms by (simp add: evolves_def)
qed

lemma evolvesI:
  assumes "m_settings m' = m_settings m" "m_nextPtr m' = m_nextPtr m" "\<And>ow. owned ow G m \<Longrightarrow> owned ow G m'"
  shows "evolves G m m'"
  using assms unfolding evolves_def by (metis order_refl)

lemma evolves_open: "openContractQueue k m = (m', p) \<Longrightarrow> evolves G m m'"
proof -
  assume open': "openContractQueue k m = (m', p)"
  have "m_settings m' = m_settings m \<and> m_nextPtr m \<le> m_nextPtr m'"
    using open' by (auto simp: openContractQueue_def updQueue_def Let_def split: option.splits)
  moreover have "\<exists>ow'. owned ow' G m' \<and> (\<forall>q<m_nextPtr m. ow' q = ow q)" if "owned ow G m" for ow
    by (rule openContractQueue_owned [OF that open']) blast
  ultimately show ?thesis by (simp add: evolves_def)
qed

lemma evolves_close: "evolves G m (closeContractQueueWithForceRemove k b m)"
proof -
  have "m_nextPtr (closeContractQueueWithForceRemove k b m) = m_nextPtr m"
    "m_settings (closeContractQueueWithForceRemove k b m) = m_settings m"
    by (simp_all add: closeContractQueueWithForceRemove_def Let_def split: option.split)
  then show ?thesis using closeContractQueue_owned(1) by (intro evolvesI)
qed

lemma evolves_queue:
  assumes "set (cq_contracts (f (contractQueues m p))) \<subseteq> set (cq_contracts (contractQueues m p))"
  shows "evolves G m (updQueue p f m)"
  using owned_queue assms by (intro evolvesI) simp_all

lemma evolves_same:
  assumes "destinationContracts m' = destinationContracts m" "contractQueues m' = contractQueues m"
    "m_nextPtr m' = m_nextPtr m" "m_settings m' = m_settings m"
  shows "evolves G m m'"
  using assms(4,3) owned_same [OF _ assms] by (rule evolvesI)

lemma cq_Poll_contracts: "cq_Poll order q = (q', c) \<Longrightarrow> set (cq_contracts q') \<subseteq> set (cq_contracts q)"
  by (auto simp: cq_Poll_def Let_def AList.delete_eq split: if_splits)

lemma cq_Poll_taken: "cq_Poll order q = (q', Some c) \<Longrightarrow> \<exists>i. (i, c) \<in> set (cq_contracts q)"
  by (auto simp: cq_Poll_def Let_def split: if_splits dest: map_of_SomeD)

lemma evolves_poll: "takePoll order p m = (m', c) \<Longrightarrow> evolves G m m'"
  by (auto simp: takePoll_def split: prod.splits intro!: evolves_queue dest: cq_Poll_contracts)

lemma evolves_fold: "(\<And>x n. evolves G n (f x n)) \<Longrightarrow> evolves G m (fold f xs m)"
  by (induction xs arbitrary: m) (auto intro: evolves_trans)

lemma evolves_CloseContract: "evolves G m (fst (CloseContractWithCheckpoint env i a u cp m))"
  by (rule evolves_same) (simp_all add: CloseContractWithCheckpoint_def Let_def m_emit_def split: option.split)

lemma evolves_closeContracts: "evolves G m (fst (closeContracts env cs m))"
proof -
  have "evolves G m (fst (fold (\<lambda>c (m, is). case m_unmarshalStored env (StoredContractBytes c) of None \<Rightarrow> (m, is)
         | Some stored \<Rightarrow> (case IdFromBytes (s_ContractId stored) of Inl _ \<Rightarrow> (m, is)
             | Inr i \<Rightarrow> (CloseContract_m env i 0 0 m, is @ [i]))) cs (m, is)))" for "is"
  proof (induction cs arbitrary: m "is")
    case (Cons c cs)
    have "evolves G m (CloseContract_m env i 0 0 m)" for i
      unfolding CloseContract_m_def by (rule evolves_CloseContract)
    then show ?case using Cons.IH by (auto split: option.split sum.split intro: evolves_trans)
  qed simp
  then show ?thesis by (simp add: closeContracts_def)
qed

lemma evolves_FlushContractQueue: "evolves G m (fst (FlushContractQueue_m env k b m))"
proof -
  obtain n p where n: "openContractQueue k m = (n, p)" by force
  define l where "l = updQueue p (\<lambda>_. fst (cq_Flush b (contractQueues n p))) n"
  define o' where "o' = closeContracts env (snd (cq_Flush b (contractQueues n p))) l"
  have "evolves G n l" unfolding l_def by (rule evolves_queue) simp
  moreover have "evolves G l (fst o')" unfolding o'_def by (rule evolves_closeContracts)
  moreover have "fst (FlushContractQueue_m env k b m) = closeContractQueueWithForceRemove k True (fst o')"
    by (simp add: FlushContractQueue_m_def n l_def o'_def split: prod.split)
  ultimately show ?thesis using evolves_open [OF n] evolves_close evolves_trans by metis
qed

lemma evolves_Flush: "evolves G m (fst (ContractManager_Flush env order b m))"
proof -
  let ?f = "\<lambda>p (m, cs). case cq_Flush b (contractQueues m p) of (q, fs) \<Rightarrow> (updQueue p (\<lambda>_. q) m, cs @ fs)"
  have 1: "evolves G m (fst (fold ?f ps (m, cs)))" for ps cs
  proof (induction ps arbitrary: m cs)
    case (Cons p ps)
    have "evolves G m (updQueue p (\<lambda>_. fst (cq_Flush b (contractQueues m p))) m)" by (rule evolves_queue) simp
    from evolves_trans [OF this Cons.IH] show ?case by (simp add: split_beta)
  qed simp
  have "fst (ContractManager_Flush env order b m) =
      fst (closeContracts env (snd (fold ?f (order (map snd (destinationContracts m))) (m, [])))
        (fst (fold ?f (order (map snd (destinationContracts m))) (m, []))))"
    by (simp add: ContractManager_Flush_def Let_def split_beta)
  then show ?thesis using evolves_trans [OF 1 evolves_closeContracts] by simp
qed

lemma evolves_m_emit: "evolves G m (m_emit es m)"
  by (rule evolves_same) (simp_all add: m_emit_def)

lemma evolves_CreateContract: "evolves G m (CreateContract_m env k i n m)"
proof -
  obtain l p where l: "openContractQueue k m = (l, p)" by force
  obtain es where "CreateContract_m env k i n m = closeContractQueueWithForceRemove k False (m_emit es l)"
  proof
    show "CreateContract_m env k i n m = closeContractQueueWithForceRemove k False (m_emit
        (case controlFrame env (Msg_CreateContract (createContractMessage (m_settings l) k i n
          (if cs_TrackUsedContracts (m_settings l) then UsedContractIdBytes (contractQueues l p) else []))) l of
          None \<Rightarrow> [] | Some f \<Rightarrow> [SendOob f]) l)"
      by (simp add: CreateContract_m_def l closeContractQueue_def Let_def m_emit_def split: option.split)
  qed
  then show ?thesis using evolves_trans [OF evolves_open [OF l] evolves_trans [OF evolves_m_emit evolves_close]] by simp
qed

lemma evolves_contractClosed: "evolves G m (contractClosed k i m)"
proof -
  obtain l p where l: "openContractQueue k m = (l, p)" by force
  have "evolves G l (updQueue p (RemoveUsedContract i) l)" by (rule evolves_queue) simp
  from evolves_trans [OF evolves_open [OF l] evolves_trans [OF this evolves_close]]
  show ?thesis by (simp add: contractClosed_def l closeContractQueue_def)
qed

lemma queueKey_settings: "m_settings m' = m_settings m \<Longrightarrow> queueKey m' = queueKey m"
  by (auto simp: queueKey_def fun_eq_iff)

lemma cq_Add_contracts: "x \<in> set (cq_contracts (cq_Add c stored q)) \<Longrightarrow> snd x = c \<or> x \<in> set (cq_contracts q)"
  by (auto simp: cq_Add_def Let_def split: sum.splits if_splits dest: set_AList_update [THEN subsetD])

lemma owned_add:
  assumes "owned ow G m" "p < m_nextPtr m" "ow p = queueKey m k"
  shows "owned ow (G @ [(k, c)]) (updQueue p (cq_Add c stored) m)"
proof -
  have "\<exists>k'. (k', d) \<in> set (G @ [(k, c)]) \<and> queueKey m k' = ow q"
    if "q < m_nextPtr m" "(i, d) \<in> set (cq_contracts (contractQueues (updQueue p (cq_Add c stored) m) q))" for q i d
  proof (cases "q = p \<and> d = c")
    case True
    then show ?thesis using assms(3) by auto
  next
    case False
    then have "(i, d) \<in> set (cq_contracts (contractQueues m q))"
      using that(2) cq_Add_contracts [of "(i, d)" c stored "contractQueues m p"]
      by (cases "q = p") (auto simp: updQueue_def)
    then show ?thesis using assms(1) that(1) by (fastforce simp: owned_def)
  qed
  then show ?thesis using assms(1) by (auto simp: owned_def)
qed

lemma addContract_evolves:
  assumes "addContract env k c m = (m', e)" "owned ow G m"
  obtains ow' where "owned ow' (G @ (if e = None then [(k, c)] else [])) m'" "m_settings m' = m_settings m"
    "m_nextPtr m \<le> m_nextPtr m'" "\<forall>q<m_nextPtr m. ow' q = ow q"
proof (cases e)
  case (Some x)
  then have "m' = m" using assms(1)
    by (auto simp: addContract_def Let_def split: option.splits sum.splits if_splits prod.splits)
  then show thesis using that [of ow] assms(2) Some by simp
next
  case None
  obtain stored where stored: "m_unmarshalStored env (StoredContractBytes c) = Some stored"
    using assms(1) None by (auto simp: addContract_def split: option.splits)
  obtain n p where n: "openContractQueue k m = (n, p)" by force
  obtain ow1 where o1: "owned ow1 G n" "ow1 p = queueKey m k" "p < m_nextPtr n" "\<forall>q<m_nextPtr m. ow1 q = ow q"
      "m_nextPtr m \<le> m_nextPtr n" "m_settings n = m_settings m"
    by (rule openContractQueue_owned [OF assms(2) n])
  define l where "l = closeContractQueueWithForceRemove k False (updQueue p (cq_Add c stored) n)"
  have "owned ow1 (G @ [(k, c)]) (updQueue p (cq_Add c stored) n)"
    by (rule owned_add) (use o1 queueKey_settings [OF o1(6)] in simp_all)
  from closeContractQueue_owned [OF this, of k False]
  have l: "owned ow1 (G @ [(k, c)]) l" "m_nextPtr l = m_nextPtr n" "m_settings l = m_settings n"
    by (simp_all add: l_def)
  have m': "destinationContracts m' = destinationContracts l \<and> contractQueues m' = contractQueues l \<and>
      m_nextPtr m' = m_nextPtr l \<and> m_settings m' = m_settings l"
    using assms(1) None stored n unfolding l_def addContract_def closeContractQueue_def
    by (auto simp: Let_def split: sum.splits if_splits)
  then have "owned ow1 (G @ [(k, c)]) m'" using owned_same [OF l(1)] by simp
  then show thesis using that [of ow1] None o1 l m' by simp
qed

definition run_ok :: "ContractManagerSettings \<Rightarrow> manager_run \<Rightarrow> bool" where
  "run_ok st w \<longleftrightarrow> m_settings (mr_manager w) = st \<and> (\<exists>ow. owned ow (mr_arrived w) (mr_manager w) \<and>
     (\<forall>(k, p)\<in>set (mr_waiting w). p < m_nextPtr (mr_manager w) \<and> ow p = queueKey (mr_manager w) k) \<and>
     (\<forall>(k, c)\<in>set (mr_taken w). \<exists>k'. (k', c) \<in> set (mr_arrived w) \<and>
        queueKey (mr_manager w) k' = queueKey (mr_manager w) k))"

lemma run_ok_evolves:
  assumes "run_ok st w" "evolves (mr_arrived w) (mr_manager w) m"
  shows "run_ok st (w\<lparr>mr_manager := m\<rparr>)"
proof -
  obtain ow where ow: "owned ow (mr_arrived w) (mr_manager w)"
      "\<forall>(k, p)\<in>set (mr_waiting w). p < m_nextPtr (mr_manager w) \<and> ow p = queueKey (mr_manager w) k"
      "\<forall>(k, c)\<in>set (mr_taken w). \<exists>k'. (k', c) \<in> set (mr_arrived w) \<and> queueKey (mr_manager w) k' = queueKey (mr_manager w) k"
    using assms(1) by (auto simp: run_ok_def)
  obtain ow' where ow': "owned ow' (mr_arrived w) m" "\<forall>q<m_nextPtr (mr_manager w). ow' q = ow q"
      "m_nextPtr (mr_manager w) \<le> m_nextPtr m" "m_settings m = m_settings (mr_manager w)"
    using assms(2) ow(1) by (auto simp: evolves_def)
  have "queueKey m = queueKey (mr_manager w)" by (rule queueKey_settings [OF ow'(4)])
  moreover have "m_settings (mr_manager w) = st" using assms(1) by (simp add: run_ok_def)
  ultimately show ?thesis using ow ow' unfolding run_ok_def by (intro conjI exI [of _ ow']) fastforce+
qed

lemma run_ok_take:
  assumes "run_ok st w" "takePoll order p (mr_manager w) = r"
    and "\<exists>ow. owned ow (mr_arrived w) (mr_manager w) \<and> p < m_nextPtr (mr_manager w) \<and> ow p = queueKey (mr_manager w) k"
  shows "run_ok st (take_result k r w)"
proof -
  obtain m c where r: "r = (m, c)" by force
  have "run_ok st (w\<lparr>mr_manager := m\<rparr>)" using run_ok_evolves [OF assms(1) evolves_poll] assms(2) r by blast
  moreover have "\<exists>k'. (k', d) \<in> set (mr_arrived w) \<and> queueKey (mr_manager w) k' = queueKey (mr_manager w) k" if "c = Some d" for d
  proof -
    note d = that
    obtain q where "cq_Poll order (contractQueues (mr_manager w) p) = (q, Some d)"
      using assms(2) r d by (auto simp: takePoll_def split: prod.splits)
    then obtain i where "(i, d) \<in> set (cq_contracts (contractQueues (mr_manager w) p))" by (auto dest: cq_Poll_taken)
    then show ?thesis using assms(3) by (fastforce simp: owned_def)
  qed
  moreover have "queueKey m = queueKey (mr_manager w)"
    using evolves_poll [of order p "mr_manager w" m c "[]"] assms(2) r by (auto simp: evolves_def intro: queueKey_settings)
  ultimately show ?thesis unfolding run_ok_def r take_result_def
    by (cases c) auto
qed

lemma manager_run_eta [simp]: "w\<lparr>mr_manager := mr_manager w\<rparr> = w"
  by simp

lemma TakeContract_unfold:
  "openContractQueue k m = (n, p) \<Longrightarrow> takePoll order p n = (l, c) \<Longrightarrow> TakeContract order k m = (closeContractQueue k l, c)"
  by (simp add: TakeContract_def)

lemma take_result_more:
  "take_result k (m', c) w = (take_result k (m, c) w)\<lparr>mr_manager := m'\<rparr>"
  by (simp add: take_result_def)

lemma manager_step_ok:
  assumes "run_ok st w"
  shows "run_ok st (manager_step env call w)"
proof -
  let ?m = "mr_manager w"
  obtain ow where ow: "owned ow (mr_arrived w) ?m" "\<forall>(k, p)\<in>set (mr_waiting w). p < m_nextPtr ?m \<and> ow p = queueKey ?m k"
      "\<forall>(k, c)\<in>set (mr_taken w). \<exists>k'. (k', c) \<in> set (mr_arrived w) \<and> queueKey ?m k' = queueKey ?m k"
    using assms by (auto simp: run_ok_def)
  have st: "m_settings ?m = st" using assms by (simp add: run_ok_def)
  show ?thesis
  proof (cases call)
    case (CallTake k order)
    obtain n p where n: "openContractQueue k ?m = (n, p)" by force
    obtain l c where l: "takePoll order p n = (l, c)" by force
    have wn: "run_ok st (w\<lparr>mr_manager := n\<rparr>)" by (rule run_ok_evolves [OF assms evolves_open [OF n]])
    have "\<exists>ow. owned ow (mr_arrived w) n \<and> p < m_nextPtr n \<and> ow p = queueKey n k"
      by (rule openContractQueue_owned [OF ow(1) n]) (use queueKey_settings in metis)
    then have "run_ok st (take_result k (l, c) (w\<lparr>mr_manager := n\<rparr>))"
      using run_ok_take [OF wn, of order p "(l, c)" k] l by simp
    from run_ok_evolves [OF this, of "closeContractQueue k l"]
    have "run_ok st (take_result k (closeContractQueue k l, c) (w\<lparr>mr_manager := n\<rparr>))"
      using evolves_close unfolding take_result_more [of k "closeContractQueue k l" c _ l]
      by (simp add: take_result_def closeContractQueue_def)
    then show ?thesis using CallTake TakeContract_unfold [OF n l] by (simp add: manager_step_def Let_def take_result_def)
  next
    case (CallWait k)
    obtain n p where n: "openContractQueue k ?m = (n, p)" by force
    obtain ow' where o': "owned ow' (mr_arrived w) n" "ow' p = queueKey ?m k" "p < m_nextPtr n" "\<forall>q<m_nextPtr ?m. ow' q = ow q"
        "m_nextPtr ?m \<le> m_nextPtr n" "m_settings n = m_settings ?m"
      by (rule openContractQueue_owned [OF ow(1) n])
    have "queueKey n = queueKey ?m" by (rule queueKey_settings [OF o'(6)])
    then show ?thesis using CallWait n ow(2,3) o' st unfolding run_ok_def
      by (intro conjI exI [of _ ow']) (fastforce simp: manager_step_def)+
  next
    case (CallPoll i order)
    show ?thesis
    proof (cases "i < length (mr_waiting w)")
      case True
      obtain k p where kp: "mr_waiting w ! i = (k, p)" by force
      then have "(k, p) \<in> set (mr_waiting w)" using True by (metis nth_mem)
      then have "p < m_nextPtr ?m" "ow p = queueKey ?m k" using ow(2) by auto
      then have "run_ok st (take_result k (takePoll order p ?m) w)" using run_ok_take [OF assms] ow(1) by blast
      then show ?thesis using CallPoll True kp by (simp add: manager_step_def Let_def)
    qed (use assms CallPoll in \<open>simp add: manager_step_def Let_def\<close>)
  next
    case (CallLeave i)
    have "run_ok st (w\<lparr>mr_manager := closeContractQueue (fst (mr_waiting w ! i)) ?m\<rparr>)"
      using run_ok_evolves [OF assms] evolves_close by (simp add: closeContractQueue_def)
    moreover have "set (take i (mr_waiting w) @ drop (Suc i) (mr_waiting w)) \<subseteq> set (mr_waiting w)"
      using set_take_subset set_drop_subset by fastforce
    ultimately show ?thesis using assms CallLeave unfolding run_ok_def manager_step_def Let_def
      by (auto, fastforce)
  next
    case (CallArrive k c)
    obtain m e where m: "addContract env k c ?m = (m, e)" by force
    obtain ow' where o': "owned ow' (mr_arrived w @ (if e = None then [(k, c)] else [])) m" "m_settings m = m_settings ?m"
        "m_nextPtr ?m \<le> m_nextPtr m" "\<forall>q<m_nextPtr ?m. ow' q = ow q"
      by (rule addContract_evolves [OF m ow(1)])
    have "queueKey m = queueKey ?m" by (rule queueKey_settings [OF o'(2)])
    then show ?thesis using CallArrive m ow(2,3) o' st unfolding run_ok_def
      by (intro conjI exI [of _ ow']) (fastforce simp: manager_step_def)+
  qed (simp_all add: manager_step_def Let_def run_ok_evolves [OF assms] evolves_CreateContract evolves_CloseContract
      evolves_contractClosed evolves_Flush evolves_FlushContractQueue)
qed

lemma manager_calls_ok: "run_ok st w \<Longrightarrow> run_ok st (manager_calls env calls w)"
  unfolding manager_calls_def by (induction calls arbitrary: w) (simp_all add: manager_step_ok)

lemma manager_start_ok: "run_ok st (manager_start clientId st)"
  by (simp add: run_ok_def manager_start_def NewContractManager_def owned_def)

section \<open>The example of the witnesses\<close>

text \<open>The bytes of a contract are its id; the destination is always the same client.\<close>

definition example_manager_env :: contract_manager_env where
  "example_manager_env = \<lparr>m_unmarshalStored = \<lambda>bs. Some \<lparr>s_ContractId = bs, s_TransferByteCount = 1000,
       s_SourceId = Some example_id, s_DestinationId = Some (replicate 16 2), s_StreamId = None, s_Priority = None\<rparr>,
     m_unmarshalCreateContractResult = \<lambda>_. None, m_marshal = example_marshal, m_hmac = \<lambda>key b. key @ b\<rparr>"

definition example_key :: ContractKey where
  "example_key = emptyContractKey\<lparr>ck_Destination := DestinationId (replicate 16 2)\<rparr>"

definition example_offer :: Contract where
  "example_offer = \<lparr>StoredContractBytes = replicate 16 9, StoredContractHmac = [], c_ProvideMode = 1\<rparr>"

definition example_manager_settings :: ContractManagerSettings where
  "example_manager_settings = (DefaultContractManagerSettings 2)\<lparr>cs_LegacyCreateContract := False\<rparr>"

definition example_provider :: ContractManager where
  "example_provider = fst (SetProvideModes example_manager_env (\<lambda>mode. [of_int mode]) [(3, True), (4, True)]
     (NewContractManager example_id example_manager_settings))"

section \<open>Properties\<close>

text \<open>
  C11: Contracts reach only those they were made for: whatever requests, arrivals, waiting callers, closes and
  flushes come in whatever order, a contract that a caller took arrived for the same destination, and for
  exactly the caller's key unless the legacy setting merges the keys of a destination.
\<close>

theorem contract_reaches_its_key:
  assumes "(k, c) \<in> set (mr_taken (manager_calls env calls (manager_start clientId st)))"
  shows "\<exists>k'. (k', c) \<in> set (mr_arrived (manager_calls env calls (manager_start clientId st))) \<and>
    ck_Destination k' = ck_Destination k \<and> (\<not> cs_LegacyCreateContract st \<longrightarrow> k' = k)"
proof -
  let ?w = "manager_calls env calls (manager_start clientId st)"
  have ok: "run_ok st ?w" by (rule manager_calls_ok [OF manager_start_ok])
  then obtain k' where "(k', c) \<in> set (mr_arrived ?w)" "queueKey (mr_manager ?w) k' = queueKey (mr_manager ?w) k"
    using assms by (auto simp: run_ok_def)
  moreover have "m_settings (mr_manager ?w) = st" using ok by (simp add: run_ok_def)
  ultimately show ?thesis
    by (auto simp: queueKey_def ContractKey_Legacy_def emptyContractKey_def split: if_splits)
qed

theorem contract_reaches_its_key_witness:
  "\<exists>k'. (k', example_offer) \<in> set (mr_arrived (manager_calls example_manager_env
      [CallWait example_key, CallArrive example_key example_offer, CallPoll 0 (\<lambda>is. is)]
      (manager_start example_id example_manager_settings))) \<and> k' = example_key"
proof -
  have "(example_key, example_offer) \<in> set (mr_taken (manager_calls example_manager_env
      [CallWait example_key, CallArrive example_key example_offer, CallPoll 0 (\<lambda>is. is)]
      (manager_start example_id example_manager_settings)))"
    by code_simp
  moreover have "\<not> cs_LegacyCreateContract example_manager_settings" by (simp add: example_manager_settings_def)
  ultimately show ?thesis using contract_reaches_its_key by blast
qed



text \<open>
  C15: The key of a request is recovered from its echo: when the platform answers the request for a destination with
  an error, the error is reported for exactly the key that the contract was requested for.
\<close>

theorem request_key_roundtrip:
  assumes "path_ok (ck_Destination k)" "IsDestinationMask (ck_Destination k)" "multihop_ok (ck_IntermediaryIds k)"
  shows "addResult env \<lparr>cr_Error = Some e, cr_Contract = c,
      cr_CreateContract = Some (createContractMessage st k i n used)\<rparr> = Some (ContractErrorFor k e)"
proof -
  have "TransferPathFromBytes None (Some (Id_Bytes (destinationId (ck_Destination k)))) (Some (Id_Bytes (streamId (ck_Destination k))))
      = Inr (ck_Destination k)"
    using assms(1,2) by (auto simp: TransferPathFromBytes_def optionalId_def Let_def path_defs)
  moreover have ids: "MultiHopIdFromBytes (MultiHop_Bytes (ck_IntermediaryIds k)) = Inr (ck_IntermediaryIds k)"
  proof -
    let ?m = "ck_IntermediaryIds k"
    have ok: "\<forall>i\<in>set (MultiHop_Ids ?m). id_ok i" "length (MultiHop_Ids ?m) = mh_len ?m" "mh_len ?m \<le> MaxMultihopLength"
      using assms(3) by (auto simp: multihop_ok_def MultiHop_Ids_def dest: in_set_takeD)
    then obtain m' where m': "NewMultiHopId (MultiHop_Ids ?m) = Inr m'" by (simp add: NewMultiHopId_def)
    have "MultiHop_Ids m' = MultiHop_Ids ?m" using m' by (auto simp: NewMultiHopId_def MultiHop_Ids_def min_def split: if_splits)
    then have "m' = ?m" using multihop_eqI [OF multihop_ok_New [OF m' ok(1)] assms(3)] by simp
    then show ?thesis using m' ok(1) by (simp add: MultiHop_Bytes_eq [OF assms(3)] MultiHopIdFromBytes_def id_ok_def)
  qed
  ultimately show ?thesis
    by (simp add: addResult_def createContractMessage_def requestKey_def emptyContractKey_def)
qed

theorem request_key_roundtrip_witness:
  "addResult example_manager_env \<lparr>cr_Error = Some 1, cr_Contract = None,
     cr_CreateContract = Some (createContractMessage example_manager_settings example_key 0 0 [])\<rparr> =
   Some (ContractErrorFor example_key 1)"
  by (rule request_key_roundtrip) (simp_all add: example_key_def emptyContractKey_def path_defs DestinationId_def
      id_ok_def zeroId_def multihop_ok_def emptyMultiHopId_def MaxMultihopLength_def)

text \<open>The requested size without wrap-around.\<close>

lemma contractByteCount_eq:
  assumes "0 \<le> cs_InitialContractTransferByteCount st"
    "cs_InitialContractTransferByteCount st \<le> cs_StandardContractTransferByteCount st"
    "unat (cs_ContractTransferByteSeqScale st) * nat (cs_StandardContractTransferByteCount st) < 2 ^ 63"
    "\<not> cs_ContractTransferByteSeqScale st \<le> i"
  shows "contractByteCount st i n = max (cs_InitialContractTransferByteCount st +
    int (unat i * nat (cs_StandardContractTransferByteCount st - cs_InitialContractTransferByteCount st) div
      unat (cs_ContractTransferByteSeqScale st))) n \<and>
    unat i * nat (cs_StandardContractTransferByteCount st - cs_InitialContractTransferByteCount st) div
      unat (cs_ContractTransferByteSeqScale st) \<le> nat (cs_StandardContractTransferByteCount st - cs_InitialContractTransferByteCount st)"
proof -
  define a b s where d: "a = cs_InitialContractTransferByteCount st" "b = cs_StandardContractTransferByteCount st"
    "s = cs_ContractTransferByteSeqScale st"
  have i: "unat i < unat s" using assms(4) by (simp add: d word_le_nat_alt)
  have "1 * nat b \<le> unat s * nat b" using i by (intro mult_right_mono) auto
  then have b: "nat b < 2 ^ 63" using assms(3) unfolding d by linarith
  define e where "e = nat (b - a)"
  have e: "b - a = int e" "e \<le> nat b" using assms(1,2) by (auto simp: e_def d)
  have "unat i * e \<le> unat s * nat b" using i e(2) by (intro mult_mono) auto
  then have prod: "unat i * e < 2 ^ 63" using assms(3) by (simp add: d)
  have quot: "unat i * e div unat s \<le> e"
    using i by (metis div_le_mono div_mult_self1_is_m less_imp_le mult.commute mult_le_mono1 not_less0 zero_less_iff_neq_zero)
  have int_e: "int64 (b - a) = int e" using e b by (simp add: int64_id)
  have ue: "unat (word_of_int (int e) :: u64) = e" using e(2) b by (simp add: unsigned_of_nat take_bit_nat_eq_self flip: of_nat_of_int_iff)
  have "unat (i * word_of_int (int e)) = unat i * e" using prod ue by (simp add: unat_mult_lem [THEN iffD1])
  then have q: "unat ((i * word_of_int (int e)) div s) = unat i * e div unat s" by (simp add: unat_div)
  let ?w = "(i * word_of_int (int e)) div s"
  have w: "uint ?w = int (unat i * e div unat s)" unfolding q [symmetric] by simp
  have "unat i * e div unat s < 2 ^ 63" using quot e(2) b by linarith
  then have "uint ?w < 2 ^ 63" unfolding w by (simp only: of_nat_less_numeral_power_cancel_iff)
  then have "sint ?w = uint ?w" 
    using signed_take_bit_int_eq_self [of 63 "uint ?w"] order_trans [of "- (2 ^ 63)" 0 "uint ?w"] by (simp add: sint_uint)
  then have "sint ?w = int (unat i * e div unat s)" using w by simp
  then have "contractByteCount st i n = max (int64 (a + int (unat i * e div unat s))) n"
    using assms(4) int_e by (simp add: contractByteCount_def flip: d)
  moreover have "a + int (unat i * e div unat s) \<le> b" using quot e(1) by simp
  moreover have "b < 2 ^ 63" using b by simp
  ultimately show ?thesis using assms(1) quot by (simp add: d [symmetric] e_def [symmetric] int64_id)
qed

text \<open>
  The size of a requested contract grows with the index of the contract in its sequence, from the initial to the
  standard size, and is never below what the message needs; no product or sum wraps.
\<close>

theorem contract_size_grows:
  assumes "0 \<le> cs_InitialContractTransferByteCount st"
    "cs_InitialContractTransferByteCount st \<le> cs_StandardContractTransferByteCount st"
    "unat (cs_ContractTransferByteSeqScale st) * nat (cs_StandardContractTransferByteCount st) < 2 ^ 63"
    and "i \<le> j"
  shows "contractByteCount st i n \<le> contractByteCount st j n \<and> n \<le> contractByteCount st i n \<and>
    cs_InitialContractTransferByteCount st \<le> contractByteCount st i n \<and>
    contractByteCount st i n \<le> max n (cs_StandardContractTransferByteCount st)"
proof -
  define a b s where d: "a = cs_InitialContractTransferByteCount st" "b = cs_StandardContractTransferByteCount st"
    "s = cs_ContractTransferByteSeqScale st"
  have past: "contractByteCount st l n = max b n" if "s \<le> l" for l
    using that by (simp add: contractByteCount_def d)
  note eq = contractByteCount_eq [OF assms(1-3), folded d]
  have bounds: "a \<le> contractByteCount st l n \<and> contractByteCount st l n \<le> max n b \<and> n \<le> contractByteCount st l n" for l
    using eq [of l n] past [of l] assms(2) by (cases "s \<le> l") (auto simp: d)
  moreover have "contractByteCount st i n \<le> contractByteCount st j n"
  proof (cases "s \<le> j")
    case True
    then show ?thesis using bounds [of i] past by auto
  next
    case False
    then have "\<not> s \<le> i" using assms(4) by auto
    moreover have "unat i * nat (b - a) div unat s \<le> unat j * nat (b - a) div unat s"
      using assms(4) by (intro div_le_mono mult_right_mono) (auto simp: word_le_nat_alt)
    ultimately show ?thesis using eq [of i n] eq [of j n] False by auto
  qed
  ultimately show ?thesis by (simp add: d)
qed

theorem contract_size_grows_witness:
  "contractByteCount (DefaultContractManagerSettings 2) 1 0 \<le> contractByteCount (DefaultContractManagerSettings 2) 3 0 \<and>
   kib 16 \<le> contractByteCount (DefaultContractManagerSettings 2) 1 0"
  using contract_size_grows [of "DefaultContractManagerSettings 2" 1 3 0]
  by (simp add: DefaultContractManagerSettings_def kib_def mib_def int64_def)

lemma provideKeys_mem:
  "(mode, key) \<in> set (provideKeys m) \<longleftrightarrow> (mode, True) \<in> set (provideModes m) \<and>
     (providePaused m \<longrightarrow> mode = ProvideMode_Stream) \<and> map_of (provideSecretKeys m) mode = Some key"
proof -
  have "(mode, key) \<in> set (List.map_filter f xs) \<longleftrightarrow> (\<exists>x\<in>set xs. f x = Some (mode, key))" for f :: "int \<times> bool \<Rightarrow> _" and xs
    by (induction xs) (auto simp: map_filter_def)
  then show ?thesis by (auto simp: provideKeys_def split: if_splits intro!: bexI [of _ "(mode, True)"])
qed

text \<open>
  C13: The provide keys that are sent to the platform are exactly those with which a contract can be verified: a mode
  has its key in the message if and only if \<open>Verify\<close> accepts something for the mode, and the key is the one that
  \<open>GetProvideSecretKey\<close> returns; while providing is paused this is the mode of the return traffic only.
\<close>

theorem provide_keys_verify:
  assumes "distinct (map fst (provideModes m))"
  shows "((mode, key) \<in> set (provideKeys m)) \<longleftrightarrow>
    (\<exists>h b. Verify env h b mode m) \<and> GetProvideSecretKey mode m = Some key"
proof -
  have "(\<exists>h b. Verify env h b mode m) \<longleftrightarrow> (providePaused m \<longrightarrow> mode = ProvideMode_Stream) \<and>
      map_of (provideModes m) mode = Some True \<and> map_of (provideSecretKeys m) mode \<noteq> None"
    by (cases "map_of (provideSecretKeys m) mode") (auto simp: Verify_def Let_def)
  then show ?thesis using assms
    by (auto simp: provideKeys_mem GetProvideSecretKey_def)
qed

theorem provide_keys_verify_witness:
  "\<exists>h b. Verify example_manager_env h b 3 example_provider"
proof -
  have "distinct (map fst (provideModes example_provider))" "(3, [3]) \<in> set (provideKeys example_provider)"
    by code_simp+
  then show ?thesis using provide_keys_verify by blast
qed

text \<open>
  C14: The signature of a contract does not depend on the contract: \<open>Sum\<close> appends the digest of nothing, so whoever
  has seen one contract that \<open>Verify\<close> accepts can put its last bytes behind any other contract, for instance one
  with more bytes, and \<open>Verify\<close> accepts that too.
\<close>

theorem verify_forgeable:
  assumes "Verify env h b mode m"
  shows "\<exists>t. h = b @ t \<and> (\<forall>b'. Verify env (b' @ t) b' mode m)"
  using assms by (auto simp: Verify_def hash_Sum_def hmac_New_def Let_def split: option.splits if_splits)

theorem verify_forgeable_witness:
  "\<exists>t. Verify example_manager_env ([1] @ t) [1] 3 example_provider \<and> Verify example_manager_env ([2, 2] @ t) [2, 2] 3 example_provider"
proof -
  have "Verify example_manager_env [1, 3] [1] 3 example_provider" by code_simp
  from verify_forgeable [OF this] show ?thesis by blast
qed

text \<open>
  A flush of one sequence detaches a caller that waits for the same key: the contract that arrives later goes to a
  new queue, and the waiting caller polls the old one.
\<close>

lemma flush_detaches_waiter:
  "let w = manager_calls example_manager_env
       [CallWait example_key, CallFlushQueue example_key False, CallArrive example_key example_offer, CallPoll 0 (\<lambda>is. is)]
       (manager_start example_id example_manager_settings)
   in mr_arrived w = [(example_key, example_offer)] \<and> mr_taken w = [] \<and>
      snd (TakeContract (\<lambda>is. is) example_key (mr_manager w)) = Some example_offer"
  by code_simp

text \<open>A contract that is rejected is not reported, though its status with the error is made.\<close>

lemma rejected_contract_unreported:
  "addContract env k c m = (m', Some e) \<Longrightarrow> m_log (receiveContract env k c m) = m_log m"
  by (auto simp: receiveContract_def addContract_def Let_def split: option.splits sum.splits if_splits prod.splits)

end
