(* ===== verification/Route_Manager.thy ===== *)
theory Route_Manager
  imports Sequence_Contract
begin

text \<open>
  The route manager (transfer_route_manager.go): transports register their routes, writers and readers are opened
  for destinations, and a selector hands each frame to one route of a matching transport. The weighted shuffle of
  util.go that orders the routes is here too.

  The main facts: the nil map of \<open>openMultiRouteSelector\<close> is never written, and every open selector knows exactly
  the routes of the registered transports that match its destination; so a frame never takes a route that does not
  lead to its destination. The shuffle is a permutation.
\<close>

section \<open>Weighted shuffle\<close>

text \<open>
  \<open>wsPick\<close> is the inner loop: the first value at which the running sum of the weights exceeds the random number.
  \<open>shuffle\<close> is the shuffle of the standard library and \<open>rs i\<close> the number that is drawn for position \<open>i\<close>.
\<close>

fun wsPick :: "('a \<Rightarrow> rat) \<Rightarrow> rat \<Rightarrow> rat \<Rightarrow> nat \<Rightarrow> 'a list \<Rightarrow> (nat \<times> rat) option" where
  "wsPick w rnet net j [] = None"
| "wsPick w rnet net j (x # xs) =
     (let net = float32 (net + w x) in if rnet < net then Some (j, w x) else wsPick w rnet net (j + 1) xs)"

definition wsStep :: "('a \<Rightarrow> rat) \<Rightarrow> rat \<Rightarrow> (nat \<Rightarrow> rat) \<Rightarrow> nat \<Rightarrow> 'a list \<times> rat \<Rightarrow> 'a list \<times> rat" where
  "wsStep w entropy rs i = (\<lambda>(values, netRemaining).
     case wsPick w (float32 (rs i * netRemaining)) (float32 (entropy * netRemaining)) i (drop i values) of
       None \<Rightarrow> (list_swap values i (length values - 1), netRemaining)
     | Some (j, wj) \<Rightarrow> (list_swap values i j, float32 (netRemaining - wj)))"

definition WeightedShuffleFuncWithEntropy ::
    "('a list \<Rightarrow> 'a list) \<Rightarrow> (nat \<Rightarrow> rat) \<Rightarrow> 'a list \<Rightarrow> ('a \<Rightarrow> rat) \<Rightarrow> rat \<Rightarrow> 'a list" where
  "WeightedShuffleFuncWithEntropy shuffle rs values w entropy =
     (let values = shuffle values;
          netRemaining = foldl (\<lambda>net v. float32 (net + w v)) 0 values
      in fst (fold (wsStep w entropy rs) [0..<length values - 1] (values, netRemaining)))"

text \<open>A value without a weight counts zero, as in Go.\<close>

definition weightIn :: "('a \<Rightarrow> rat option) \<Rightarrow> 'a \<Rightarrow> rat" where
  "weightIn weights v = (case weights v of None \<Rightarrow> 0 | Some w \<Rightarrow> w)"

definition WeightedShuffle :: "('a list \<Rightarrow> 'a list) \<Rightarrow> (nat \<Rightarrow> rat) \<Rightarrow> 'a list \<Rightarrow> ('a \<Rightarrow> rat option) \<Rightarrow> 'a list" where
  "WeightedShuffle shuffle rs values weights = WeightedShuffleFuncWithEntropy shuffle rs values (weightIn weights) 0"

section \<open>Transports\<close>

record RouteStats =
  sendCount :: int
  rt_sendByteCount :: ByteCount
  receiveCount :: int
  rt_receiveByteCount :: ByteCount

definition NewRouteStats :: RouteStats where
  "NewRouteStats = \<lparr>sendCount = 0, rt_sendByteCount = 0, receiveCount = 0, rt_receiveByteCount = 0\<rparr>"

definition addStats :: "RouteStats \<Rightarrow> RouteStats \<Rightarrow> RouteStats" where
  "addStats net s = \<lparr>sendCount = int64 (sendCount net + sendCount s),
     rt_sendByteCount = int64 (rt_sendByteCount net + rt_sendByteCount s),
     receiveCount = int64 (receiveCount net + receiveCount s),
     rt_receiveByteCount = int64 (rt_receiveByteCount net + rt_receiveByteCount s)\<rparr>"

text \<open>
  The five transports of this file, each with its id; \<open>OtherTransport\<close> is one of another file, whose methods are
  those of the environment. \<open>rm_iterate\<close> is the order in which Go iterates over the statistics of the
  remaining transports, \<open>rm_shuffle\<close> the shuffle of the transports.
\<close>

datatype Transport =
    SendClientTransport Id bool "TransferPath list"
  | SendGatewayTransport Id
  | ReceiveGatewayTransport Id
  | PrioritySendGatewayTransport Id int rat
  | PriorityReceiveGatewayTransport Id int rat
  | OtherTransport Id

record route_env =
  ot_Priority :: "Id \<Rightarrow> int"
  ot_Weight :: "Id \<Rightarrow> rat"
  ot_CanEvalRouteWeight :: "Id \<Rightarrow> RouteStats \<Rightarrow> (Transport \<times> RouteStats) list \<Rightarrow> bool"
  ot_RouteWeight :: "Id \<Rightarrow> RouteStats \<Rightarrow> (Transport \<times> RouteStats) list \<Rightarrow> rat"
  ot_MatchesSend :: "Id \<Rightarrow> TransferPath \<Rightarrow> bool"
  ot_MatchesReceive :: "Id \<Rightarrow> TransferPath \<Rightarrow> bool"
  rm_iterate :: "(Transport \<times> RouteStats) list \<Rightarrow> (Transport \<times> RouteStats) list"
  rm_shuffle :: "Transport list \<Rightarrow> Transport list"

definition TransportId :: "Transport \<Rightarrow> Id" where
  "TransportId t = (case t of SendClientTransport i _ _ \<Rightarrow> i | SendGatewayTransport i \<Rightarrow> i | ReceiveGatewayTransport i \<Rightarrow> i
     | PrioritySendGatewayTransport i _ _ \<Rightarrow> i | PriorityReceiveGatewayTransport i _ _ \<Rightarrow> i | OtherTransport i \<Rightarrow> i)"

definition Priority :: "route_env \<Rightarrow> Transport \<Rightarrow> int" where
  "Priority env t = (case t of PrioritySendGatewayTransport _ p _ \<Rightarrow> p | PriorityReceiveGatewayTransport _ p _ \<Rightarrow> p
     | OtherTransport i \<Rightarrow> ot_Priority env i | _ \<Rightarrow> 100)"

definition Weight :: "route_env \<Rightarrow> Transport \<Rightarrow> rat" where
  "Weight env t = (case t of PrioritySendGatewayTransport _ _ w \<Rightarrow> w | PriorityReceiveGatewayTransport _ _ w \<Rightarrow> w
     | OtherTransport i \<Rightarrow> ot_Weight env i | _ \<Rightarrow> 0)"

definition CanEvalRouteWeight :: "route_env \<Rightarrow> Transport \<Rightarrow> RouteStats \<Rightarrow> (Transport \<times> RouteStats) list \<Rightarrow> bool" where
  "CanEvalRouteWeight env t stats remaining =
     (case t of OtherTransport i \<Rightarrow> ot_CanEvalRouteWeight env i stats remaining | _ \<Rightarrow> True)"

definition uniformWeight :: "(Transport \<times> RouteStats) list \<Rightarrow> rat" where
  "uniformWeight remaining = float32 (1 / float32 (of_int (1 + int (length remaining))))"

definition priorityWeight :: "route_env \<Rightarrow> rat \<Rightarrow> (Transport \<times> RouteStats) list \<Rightarrow> rat" where
  "priorityWeight env w remaining =
     (let net = foldl (\<lambda>net (t, _). float32 (net + Weight env t)) w (rm_iterate env remaining)
      in if 0 < net then float32 (w / net) else uniformWeight remaining)"

definition RouteWeight :: "route_env \<Rightarrow> Transport \<Rightarrow> RouteStats \<Rightarrow> (Transport \<times> RouteStats) list \<Rightarrow> rat" where
  "RouteWeight env t stats remaining =
     (case t of PrioritySendGatewayTransport _ _ w \<Rightarrow> priorityWeight env w remaining
      | PriorityReceiveGatewayTransport _ _ w \<Rightarrow> priorityWeight env w remaining
      | OtherTransport i \<Rightarrow> ot_RouteWeight env i stats remaining
      | _ \<Rightarrow> uniformWeight remaining)"

definition MatchesSend :: "route_env \<Rightarrow> Transport \<Rightarrow> TransferPath \<Rightarrow> bool" where
  "MatchesSend env t d =
     (case t of SendClientTransport _ complement ds \<Rightarrow> complement \<noteq> (d \<in> set ds)
      | SendGatewayTransport _ \<Rightarrow> True | PrioritySendGatewayTransport _ _ _ \<Rightarrow> True
      | ReceiveGatewayTransport _ \<Rightarrow> False | PriorityReceiveGatewayTransport _ _ _ \<Rightarrow> False
      | OtherTransport i \<Rightarrow> ot_MatchesSend env i d)"

definition MatchesReceive :: "route_env \<Rightarrow> Transport \<Rightarrow> TransferPath \<Rightarrow> bool" where
  "MatchesReceive env t d =
     (case t of SendClientTransport _ _ _ \<Rightarrow> False
      | SendGatewayTransport _ \<Rightarrow> False | PrioritySendGatewayTransport _ _ _ \<Rightarrow> False
      | ReceiveGatewayTransport _ \<Rightarrow> True | PriorityReceiveGatewayTransport _ _ _ \<Rightarrow> True
      | OtherTransport i \<Rightarrow> ot_MatchesReceive env i d)"

section \<open>Selectors\<close>

text \<open>A route is a channel, an address. Go's map of transports is an association list.\<close>

record MultiRouteSelector =
  sel_destination :: TransferPath
  sel_weightedRoutes :: bool
  sel_transportUpdate :: Monitor
  sel_transportRoutes :: "(Transport \<times> ptr list) list"
  sel_routeStats :: "ptr \<Rightarrow> RouteStats option"
  sel_routeActive :: "ptr \<Rightarrow> bool option"
  sel_routeWeight :: "ptr \<Rightarrow> rat option"

definition NewMultiRouteSelector :: "TransferPath \<Rightarrow> bool \<Rightarrow> MultiRouteSelector" where
  "NewMultiRouteSelector d weighted = \<lparr>sel_destination = d, sel_weightedRoutes = weighted, sel_transportUpdate = NewMonitor,
     sel_transportRoutes = [], sel_routeStats = \<lambda>_. None, sel_routeActive = \<lambda>_. None, sel_routeWeight = \<lambda>_. None\<rparr>"

definition netStats :: "ptr list \<Rightarrow> MultiRouteSelector \<Rightarrow> RouteStats" where
  "netStats routes s = foldl (\<lambda>net r. case sel_routeStats s r of None \<Rightarrow> net | Some st \<Rightarrow> addStats net st) NewRouteStats routes"

definition sel_getTransportStats :: "Transport \<Rightarrow> MultiRouteSelector \<Rightarrow> RouteStats option" where
  "sel_getTransportStats t s = map_option (\<lambda>routes. netStats routes s) (map_of (sel_transportRoutes s) t)"

definition routesOf :: "MultiRouteSelector \<Rightarrow> Transport \<Rightarrow> ptr list" where
  "routesOf s t = (case map_of (sel_transportRoutes s) t of None \<Rightarrow> [] | Some rs \<Rightarrow> rs)"

text \<open>
  The statistics of the transports behind the first of the list, and the weights in the order of the list: a
  transport gets its fraction of what those before it have left.
\<close>

definition withStats :: "MultiRouteSelector \<Rightarrow> Transport list \<Rightarrow> (Transport \<times> RouteStats) list" where
  "withStats s ts = map (\<lambda>t. (t, netStats (routesOf s t) s)) ts"

fun allCanEval :: "route_env \<Rightarrow> MultiRouteSelector \<Rightarrow> Transport list \<Rightarrow> bool" where
  "allCanEval env s [] = True"
| "allCanEval env s (t # ts) =
     (CanEvalRouteWeight env t (netStats (routesOf s t) s) (withStats s ts) \<and> allCanEval env s ts)"

fun transportWeights :: "route_env \<Rightarrow> MultiRouteSelector \<Rightarrow> rat \<Rightarrow> Transport list \<Rightarrow> (Transport \<times> rat) list" where
  "transportWeights env s allWeight [] = []"
| "transportWeights env s allWeight (t # ts) =
     (let weight = RouteWeight env t (netStats (routesOf s t) s) (withStats s ts)
      in (t, float32 (allWeight * weight)) # transportWeights env s (float32 (allWeight * float32 (1 - weight))) ts)"

text \<open>Priorities are compared by their difference, which does not overflow for the priorities in use.\<close>

definition orderedTransports :: "route_env \<Rightarrow> MultiRouteSelector \<Rightarrow> Transport list" where
  "orderedTransports env s = sort_key (Priority env) (rm_shuffle env (map fst (sel_transportRoutes s)))"

definition setRoutes :: "ptr list \<Rightarrow> 'b \<Rightarrow> (ptr \<Rightarrow> 'b option) \<Rightarrow> (ptr \<Rightarrow> 'b option)" where
  "setRoutes rs v f = (\<lambda>r. if r \<in> set rs then Some v else f r)"

definition dropRoutes :: "ptr list \<Rightarrow> (ptr \<Rightarrow> 'b option) \<Rightarrow> (ptr \<Rightarrow> 'b option)" where
  "dropRoutes rs f = (\<lambda>r. if r \<in> set rs then None else f r)"

definition updateRouteWeights :: "route_env \<Rightarrow> MultiRouteSelector \<Rightarrow> MultiRouteSelector" where
  "updateRouteWeights env s =
     (let ts = orderedTransports env s in
      if allCanEval env s ts then
        s\<lparr>sel_routeWeight := fold (\<lambda>(t, w). setRoutes (routesOf s t) w) (transportWeights env s 1 ts) (\<lambda>_. None),
          sel_routeStats := setRoutes (concat (map snd (sel_transportRoutes s))) NewRouteStats (\<lambda>_. None)\<rparr>
      else s)"

definition forgetRoutes :: "ptr list \<Rightarrow> MultiRouteSelector \<Rightarrow> MultiRouteSelector" where
  "forgetRoutes rs s = s\<lparr>sel_routeStats := dropRoutes rs (sel_routeStats s), sel_routeActive := dropRoutes rs (sel_routeActive s),
     sel_routeWeight := dropRoutes rs (sel_routeWeight s)\<rparr>"

definition sel_updateTransport :: "route_env \<Rightarrow> Transport \<Rightarrow> ptr list \<Rightarrow> MultiRouteSelector \<Rightarrow> MultiRouteSelector" where
  "sel_updateTransport env t routes s =
     (let finish = (\<lambda>s. (if sel_weightedRoutes s then updateRouteWeights env s else s)
            \<lparr>sel_transportUpdate := NotifyAll (sel_transportUpdate s)\<rparr>)
      in case map_of (sel_transportRoutes s) t of
           None \<Rightarrow>
             if routes = [] then s
             else finish (s\<lparr>sel_routeActive := setRoutes routes True (sel_routeActive s),
               sel_transportRoutes := AList.update t routes (sel_transportRoutes s)\<rparr>)
         | Some current \<Rightarrow>
             if routes = [] then
               finish ((forgetRoutes current s)\<lparr>sel_transportRoutes := AList.delete t (sel_transportRoutes s)\<rparr>)
             else
               let s = forgetRoutes (filter (\<lambda>r. r \<notin> set routes) current) s
               in finish (s\<lparr>sel_routeActive := setRoutes (filter (\<lambda>r. r \<notin> set current) routes) True (sel_routeActive s),
                    sel_transportRoutes := AList.update t routes (sel_transportRoutes s)\<rparr>))"

definition routesWhere :: "(bool option \<Rightarrow> bool) \<Rightarrow> MultiRouteSelector \<Rightarrow> ptr list" where
  "routesWhere P s = filter (\<lambda>r. P (sel_routeActive s r)) (concat (map snd (sel_transportRoutes s)))"

text \<open>The active routes in the order to try them: \<open>shuffle\<close> and \<open>rs\<close> are the random choices.\<close>

definition GetActiveRoutes :: "(ptr list \<Rightarrow> ptr list) \<Rightarrow> (nat \<Rightarrow> rat) \<Rightarrow> MultiRouteSelector \<Rightarrow> ptr list" where
  "GetActiveRoutes shuffle rs s =
     (let active = routesWhere (\<lambda>a. a = Some True) s
      in if sel_weightedRoutes s then WeightedShuffle shuffle rs active (sel_routeWeight s) else shuffle active)"

definition GetInactiveRoutes :: "MultiRouteSelector \<Rightarrow> ptr list" where
  "GetInactiveRoutes s = routesWhere (\<lambda>a. a \<noteq> Some True) s"

text \<open>\<open>setActive\<close> makes a route inactive, whatever it is asked for.\<close>

definition setActive :: "ptr \<Rightarrow> bool \<Rightarrow> MultiRouteSelector \<Rightarrow> MultiRouteSelector" where
  "setActive r active s =
     (if sel_routeActive s r \<noteq> None then s\<lparr>sel_routeActive := (sel_routeActive s)(r \<mapsto> False)\<rparr> else s)"

definition updateStats :: "ptr \<Rightarrow> (RouteStats \<Rightarrow> RouteStats) \<Rightarrow> MultiRouteSelector \<Rightarrow> MultiRouteSelector" where
  "updateStats r f s =
     s\<lparr>sel_routeStats := (sel_routeStats s)(r \<mapsto> f (case sel_routeStats s r of None \<Rightarrow> NewRouteStats | Some st \<Rightarrow> st))\<rparr>"

definition updateSendStats :: "ptr \<Rightarrow> int \<Rightarrow> ByteCount \<Rightarrow> MultiRouteSelector \<Rightarrow> MultiRouteSelector" where
  "updateSendStats r n b = updateStats r (\<lambda>st. st\<lparr>sendCount := int64 (sendCount st + n), rt_sendByteCount := int64 (rt_sendByteCount st + b)\<rparr>)"

definition updateReceiveStats :: "ptr \<Rightarrow> int \<Rightarrow> ByteCount \<Rightarrow> MultiRouteSelector \<Rightarrow> MultiRouteSelector" where
  "updateReceiveStats r n b =
     updateStats r (\<lambda>st. st\<lparr>receiveCount := int64 (receiveCount st + n), rt_receiveByteCount := int64 (rt_receiveByteCount st + b)\<rparr>)"

section \<open>Writing and reading\<close>

text \<open>
  One round of \<open>WriteDetailed\<close>: the routes are tried without blocking, in order; then the goroutine blocks on
  all of them. \<open>ready\<close> are the channels that accept at once, the choice is the case that \<open>select\<close> takes
  (\<open>None\<close> of the result is a case that it does not have). A round that ends with \<open>WriteAgain\<close> is followed by
  another.
\<close>

datatype route_choice = ChooseContextDone | ChooseDone | ChooseUpdate | ChooseTimeout | ChooseRoute nat

datatype write_end = WroteTo ptr | WriteContextDone | WriteDone | WriteTimeout | WriteAgain

definition write_round ::
    "(ptr list \<Rightarrow> ptr list) \<Rightarrow> (nat \<Rightarrow> rat) \<Rightarrow> (ptr \<Rightarrow> bool) \<Rightarrow> route_choice \<Rightarrow> duration \<Rightarrow> byte list \<Rightarrow> MultiRouteSelector \<Rightarrow>
     (MultiRouteSelector \<times> write_end) option" where
  "write_round shuffle rs ready choice timeout bytes s =
     (let active = GetActiveRoutes shuffle rs s;
          sent = (\<lambda>r. (updateSendStats r 1 (int (length bytes)) s, WroteTo r))
      in case find ready active of Some r \<Rightarrow> Some (sent r)
         | None \<Rightarrow>
             (case choice of ChooseContextDone \<Rightarrow> Some (s, WriteContextDone)
              | ChooseDone \<Rightarrow> Some (s, WriteDone)
              | ChooseUpdate \<Rightarrow> Some (s, WriteAgain)
              | ChooseTimeout \<Rightarrow> if 0 \<le> timeout then Some (s, WriteTimeout) else None
              | ChooseRoute i \<Rightarrow> if i < length active then Some (sent (active ! i)) else None))"

text \<open>
  One round of \<open>Read\<close>: \<open>offer r\<close> is what the channel holds, \<open>Some None\<close> when it was closed. The case of the
  caller's context waits for the context of the selector.
\<close>

datatype read_end = ReadFrom ptr "byte list" | ReadContextDone | ReadDone | ReadTimeout | ReadAgain

fun readReady :: "(ptr \<Rightarrow> byte list option option) \<Rightarrow> ptr list \<Rightarrow> MultiRouteSelector \<Rightarrow> MultiRouteSelector \<times> (ptr \<times> byte list) option \<times> bool" where
  "readReady offer [] s = (s, None, False)"
| "readReady offer (r # routes) s =
     (case offer r of None \<Rightarrow> readReady offer routes s
      | Some (Some b) \<Rightarrow> (updateReceiveStats r 1 (int (length b)) s, Some (r, b), False)
      | Some None \<Rightarrow> (case readReady offer routes (setActive r False s) of (s, x, _) \<Rightarrow> (s, x, True)))"

definition read_round ::
    "(ptr list \<Rightarrow> ptr list) \<Rightarrow> (nat \<Rightarrow> rat) \<Rightarrow> (ptr \<Rightarrow> byte list option option) \<Rightarrow> route_choice \<Rightarrow> byte list option \<Rightarrow> duration \<Rightarrow>
     MultiRouteSelector \<Rightarrow> (MultiRouteSelector \<times> read_end) option" where
  "read_round shuffle rs offer choice later timeout s =
     (let active = GetActiveRoutes shuffle rs s in
      case readReady offer active s of
        (s, Some (r, b), _) \<Rightarrow> Some (s, ReadFrom r b)
      | (s, None, True) \<Rightarrow> Some (s, ReadAgain)
      | (s, None, False) \<Rightarrow>
          (case choice of ChooseContextDone \<Rightarrow> Some (s, ReadContextDone)
           | ChooseDone \<Rightarrow> Some (s, ReadDone)
           | ChooseUpdate \<Rightarrow> Some (s, ReadAgain)
           | ChooseTimeout \<Rightarrow> if 0 \<le> timeout then Some (s, ReadTimeout) else None
           | ChooseRoute i \<Rightarrow>
               if i < length active then
                 Some (case later of Some b \<Rightarrow> (updateReceiveStats (active ! i) 1 (int (length b)) s, ReadFrom (active ! i) b)
                   | None \<Rightarrow> (setActive (active ! i) False s, ReadAgain))
               else None))"

section \<open>Match states\<close>

text \<open>
  The transports with their routes and the open selectors of every destination. \<open>mt_writer\<close> tells whether the
  state matches transports for sending. Selectors are pointers.
\<close>

record MatchState =
  mt_writer :: bool
  mt_weightedRoutes :: bool
  mt_transportRoutes :: "(Transport \<times> ptr list) list"
  mt_selectors :: "(TransferPath \<times> ptr list) list"
  mt_matched :: "(Transport \<times> TransferPath list) list"
  mt_heap :: "ptr \<Rightarrow> MultiRouteSelector"
  mt_nextPtr :: ptr

definition NewMatchState :: "bool \<Rightarrow> bool \<Rightarrow> MatchState" where
  "NewMatchState writer weighted = \<lparr>mt_writer = writer, mt_weightedRoutes = weighted, mt_transportRoutes = [],
     mt_selectors = [], mt_matched = [], mt_heap = \<lambda>_. NewMultiRouteSelector emptyPath weighted, mt_nextPtr = 0\<rparr>"

definition matches :: "route_env \<Rightarrow> MatchState \<Rightarrow> Transport \<Rightarrow> TransferPath \<Rightarrow> bool" where
  "matches env m = (if mt_writer m then MatchesSend env else MatchesReceive env)"

definition selectorsOf :: "MatchState \<Rightarrow> TransferPath \<Rightarrow> ptr list" where
  "selectorsOf m d = (case map_of (mt_selectors m) d of None \<Rightarrow> [] | Some ps \<Rightarrow> ps)"

definition getTransportStats :: "Transport \<Rightarrow> MatchState \<Rightarrow> RouteStats option" where
  "getTransportStats t m = map_option (\<lambda>ds. foldl addStats NewRouteStats
     (List.map_filter (\<lambda>p. sel_getTransportStats t (mt_heap m p)) (concat (map (selectorsOf m) ds)))) (map_of (mt_matched m) t)"

definition updSelectors :: "(MultiRouteSelector \<Rightarrow> MultiRouteSelector) \<Rightarrow> ptr list \<Rightarrow> MatchState \<Rightarrow> MatchState" where
  "updSelectors f ps m = m\<lparr>mt_heap := fold (\<lambda>p h. h(p := f (h p))) ps (mt_heap m)\<rparr>"

text \<open>
  The loop of \<open>openMultiRouteSelector\<close> over the transports. A transport without an entry in the map of matched
  destinations gets one, but the variable stays nil, and the write to it panics (\<open>None\<close>).
\<close>

fun openLoop :: "route_env \<Rightarrow> TransferPath \<Rightarrow> ptr \<Rightarrow> (Transport \<times> ptr list) list \<Rightarrow> MatchState \<Rightarrow> MatchState option" where
  "openLoop env d p [] m = Some m"
| "openLoop env d p ((t, routes) # ts) m =
     (case map_of (mt_matched m) t of
        None \<Rightarrow>
          if matches env m t d then None
          else openLoop env d p ts (m\<lparr>mt_matched := AList.update t [] (mt_matched m)\<rparr>)
      | Some ds \<Rightarrow>
          if matches env m t d then
            openLoop env d p ts (updSelectors (sel_updateTransport env t routes) [p]
              (m\<lparr>mt_matched := AList.update t (List.insert d ds) (mt_matched m)\<rparr>))
          else openLoop env d p ts m)"

definition openMultiRouteSelector ::
    "route_env \<Rightarrow> ((Transport \<times> ptr list) list \<Rightarrow> (Transport \<times> ptr list) list) \<Rightarrow> TransferPath \<Rightarrow> MatchState \<Rightarrow> (MatchState \<times> ptr) option" where
  "openMultiRouteSelector env order d m =
     (let p = mt_nextPtr m;
          m = m\<lparr>mt_heap := (mt_heap m)(p := NewMultiRouteSelector d (mt_weightedRoutes m)), mt_nextPtr := p + 1,
                mt_selectors := AList.update d (List.insert p (selectorsOf m d)) (mt_selectors m)\<rparr>
      in map_option (\<lambda>m. (m, p)) (openLoop env d p (order (mt_transportRoutes m)) m))"

text \<open>The destination of the last selector keeps its empty set.\<close>

definition closeMultiRouteSelector :: "ptr \<Rightarrow> MatchState \<Rightarrow> MatchState" where
  "closeMultiRouteSelector p m =
     (let d = sel_destination (mt_heap m p) in
      case map_of (mt_selectors m) d of None \<Rightarrow> m
      | Some ps \<Rightarrow>
          let ps = removeAll p ps;
              m = m\<lparr>mt_selectors := AList.update d ps (mt_selectors m)\<rparr>
          in if ps = [] then m\<lparr>mt_matched := map (\<lambda>(t, ds). (t, removeAll d ds)) (mt_matched m)\<rparr> else m)"

text \<open>The selectors of one destination learn the routes of a transport, or that it does not match any more.\<close>

definition reselect ::
    "route_env \<Rightarrow> Transport \<Rightarrow> ptr list \<Rightarrow> (TransferPath \<Rightarrow> bool) \<Rightarrow> TransferPath list \<Rightarrow> TransferPath \<times> ptr list \<Rightarrow> MatchState \<Rightarrow> MatchState" where
  "reselect env t routes matching current = (\<lambda>(d, ps) m.
     if matching d then updSelectors (sel_updateTransport env t routes) ps m
     else if d \<in> set current then updSelectors (sel_updateTransport env t []) ps m
     else m)"

definition mt_updateTransport :: "route_env \<Rightarrow> Transport \<Rightarrow> ptr list \<Rightarrow> MatchState \<Rightarrow> MatchState" where
  "mt_updateTransport env t routes m =
     (let current = (case map_of (mt_matched m) t of None \<Rightarrow> [] | Some ds \<Rightarrow> ds) in
      if routes = [] then
        (updSelectors (sel_updateTransport env t []) (concat (map (selectorsOf m) current)) m)
          \<lparr>mt_matched := AList.delete t (mt_matched m), mt_transportRoutes := AList.delete t (mt_transportRoutes m)\<rparr>
      else
        let m = fold (reselect env t routes (matches env m t) current) (mt_selectors m) m
        in m\<lparr>mt_matched := AList.update t (filter (matches env m t) (map fst (mt_selectors m))) (mt_matched m),
             mt_transportRoutes := AList.update t routes (mt_transportRoutes m)\<rparr>)"

section \<open>The route manager\<close>

record RouteManager =
  writerMatchState :: MatchState
  readerMatchState :: MatchState

definition NewRouteManager :: RouteManager where
  "NewRouteManager = \<lparr>writerMatchState = NewMatchState True True, readerMatchState = NewMatchState False False\<rparr>"

text \<open>Opening for a path that is not a destination panics.\<close>

definition OpenMultiRouteWriter_rm ::
    "route_env \<Rightarrow> ((Transport \<times> ptr list) list \<Rightarrow> (Transport \<times> ptr list) list) \<Rightarrow> TransferPath \<Rightarrow> RouteManager \<Rightarrow> (RouteManager \<times> ptr) option" where
  "OpenMultiRouteWriter_rm env order d m =
     (if \<not> IsDestinationMask d then None
      else map_option (\<lambda>(s, p). (m\<lparr>writerMatchState := s\<rparr>, p)) (openMultiRouteSelector env order d (writerMatchState m)))"

definition OpenMultiRouteReader_rm ::
    "route_env \<Rightarrow> ((Transport \<times> ptr list) list \<Rightarrow> (Transport \<times> ptr list) list) \<Rightarrow> TransferPath \<Rightarrow> RouteManager \<Rightarrow> (RouteManager \<times> ptr) option" where
  "OpenMultiRouteReader_rm env order d m =
     (if \<not> IsDestinationMask d then None
      else map_option (\<lambda>(s, p). (m\<lparr>readerMatchState := s\<rparr>, p)) (openMultiRouteSelector env order d (readerMatchState m)))"

definition CloseMultiRouteWriter_rm :: "ptr \<Rightarrow> RouteManager \<Rightarrow> RouteManager" where
  "CloseMultiRouteWriter_rm p m = m\<lparr>writerMatchState := closeMultiRouteSelector p (writerMatchState m)\<rparr>"

definition CloseMultiRouteReader_rm :: "ptr \<Rightarrow> RouteManager \<Rightarrow> RouteManager" where
  "CloseMultiRouteReader_rm p m = m\<lparr>readerMatchState := closeMultiRouteSelector p (readerMatchState m)\<rparr>"

definition UpdateTransport :: "route_env \<Rightarrow> Transport \<Rightarrow> ptr list \<Rightarrow> RouteManager \<Rightarrow> RouteManager" where
  "UpdateTransport env t routes m = m\<lparr>writerMatchState := mt_updateTransport env t routes (writerMatchState m),
     readerMatchState := mt_updateTransport env t routes (readerMatchState m)\<rparr>"

definition RemoveTransport :: "route_env \<Rightarrow> Transport \<Rightarrow> RouteManager \<Rightarrow> RouteManager" where
  "RemoveTransport env t m = UpdateTransport env t [] m"

definition rm_getTransportStats :: "Transport \<Rightarrow> RouteManager \<Rightarrow> RouteStats option \<times> RouteStats option" where
  "rm_getTransportStats t m = (getTransportStats t (writerMatchState m), getTransportStats t (readerMatchState m))"

section \<open>What the selectors know\<close>

text \<open>The view of a selector: the routes of every transport.\<close>

definition view :: "MatchState \<Rightarrow> ptr \<Rightarrow> Transport \<Rightarrow> ptr list option" where
  "view m p = map_of (sel_transportRoutes (mt_heap m p))"

definition entry :: "ptr list \<Rightarrow> ptr list option" where
  "entry rs = (if rs = [] then None else Some rs)"

lemma updateRouteWeights_fields [simp]:
  "sel_transportRoutes (updateRouteWeights env s) = sel_transportRoutes s"
  "sel_destination (updateRouteWeights env s) = sel_destination s"
  by (simp_all add: updateRouteWeights_def Let_def)

lemma sel_updateTransport_view:
  "map_of (sel_transportRoutes (sel_updateTransport env t rs s)) = (map_of (sel_transportRoutes s))(t := entry rs)"
  "sel_destination (sel_updateTransport env t rs s) = sel_destination s"
  by (auto simp: sel_updateTransport_def forgetRoutes_def entry_def Let_def AList.delete_conv' AList.update_conv' split: option.splits)

lemma updSelectors_fields [simp]:
  "mt_writer (updSelectors f ps m) = mt_writer m" "mt_transportRoutes (updSelectors f ps m) = mt_transportRoutes m"
  "mt_selectors (updSelectors f ps m) = mt_selectors m" "mt_matched (updSelectors f ps m) = mt_matched m"
  "mt_nextPtr (updSelectors f ps m) = mt_nextPtr m" "mt_weightedRoutes (updSelectors f ps m) = mt_weightedRoutes m"
  by (simp_all add: updSelectors_def)

lemma matches_cong: "mt_writer m' = mt_writer m \<Longrightarrow> matches env m' = matches env m"
  by (simp add: matches_def)

lemma selectorsOf_cong: "mt_selectors m' = mt_selectors m \<Longrightarrow> selectorsOf m' = selectorsOf m"
  by (simp add: selectorsOf_def fun_eq_iff)

lemma updSelectors_view:
  "view (updSelectors (sel_updateTransport env t rs) ps m) p = (if p \<in> set ps then (view m p)(t := entry rs) else view m p)"
  "sel_destination (mt_heap (updSelectors (sel_updateTransport env t rs) ps m) p) = sel_destination (mt_heap m p)"
proof -
  have "map_of (sel_transportRoutes (fold (\<lambda>p h. h(p := sel_updateTransport env t rs (h p))) ps h p)) =
      (if p \<in> set ps then (map_of (sel_transportRoutes (h p)))(t := entry rs) else map_of (sel_transportRoutes (h p))) \<and>
      sel_destination (fold (\<lambda>p h. h(p := sel_updateTransport env t rs (h p))) ps h p) = sel_destination (h p)" for h
    by (induction ps arbitrary: h) (auto simp: sel_updateTransport_view)
  then show "view (updSelectors (sel_updateTransport env t rs) ps m) p = (if p \<in> set ps then (view m p)(t := entry rs) else view m p)"
    "sel_destination (mt_heap (updSelectors (sel_updateTransport env t rs) ps m) p) = sel_destination (mt_heap m p)"
    by (auto simp: view_def updSelectors_def)
qed

text \<open>
  The invariant: the maps of the transports have the same keys; a selector of a destination is for it, and its view
  is that of the matching transports; the destinations with selectors that a transport matches are recorded.
\<close>

definition match_inv :: "route_env \<Rightarrow> MatchState \<Rightarrow> bool" where
  "match_inv env m \<longleftrightarrow>
     (\<forall>t. map_of (mt_matched m) t = None \<longleftrightarrow> map_of (mt_transportRoutes m) t = None) \<and>
     distinct (map fst (mt_transportRoutes m)) \<and> distinct (map fst (mt_selectors m)) \<and> (\<forall>(t, rs)\<in>set (mt_transportRoutes m). rs \<noteq> []) \<and>
     (\<forall>d p. p \<in> set (selectorsOf m d) \<longrightarrow> p < mt_nextPtr m \<and> sel_destination (mt_heap m p) = d \<and>
        view m p = (\<lambda>t. if matches env m t d then map_of (mt_transportRoutes m) t else None)) \<and>
     (\<forall>t ds d. map_of (mt_matched m) t = Some ds \<and> matches env m t d \<and> selectorsOf m d \<noteq> [] \<longrightarrow> d \<in> set ds)"

lemma match_inv_new [simp]: "match_inv env (NewMatchState writer weighted)"
  by (simp add: match_inv_def NewMatchState_def selectorsOf_def)

lemma match_invD:
  assumes "match_inv env m" "p \<in> set (selectorsOf m d)"
  shows "p < mt_nextPtr m" "sel_destination (mt_heap m p) = d"
    "view m p t = (if matches env m t d then map_of (mt_transportRoutes m) t else None)"
  using assms by (auto simp: match_inv_def)

lemma match_inv_keys: "match_inv env m \<Longrightarrow> (map_of (mt_matched m) t = None) = (map_of (mt_transportRoutes m) t = None)"
  by (simp add: match_inv_def)

subsection \<open>Opening\<close>

lemma openLoop_ok:
  assumes "\<forall>(t, rs)\<in>set ts. map_of (mt_matched m) t \<noteq> None \<and> rs \<noteq> []" "distinct (map fst ts)"
  obtains m' where "openLoop env d p ts m = Some m'" "mt_writer m' = mt_writer m" "mt_weightedRoutes m' = mt_weightedRoutes m"
    "mt_transportRoutes m' = mt_transportRoutes m" "mt_selectors m' = mt_selectors m" "mt_nextPtr m' = mt_nextPtr m"
    "\<forall>q. q \<noteq> p \<longrightarrow> mt_heap m' q = mt_heap m q" "sel_destination (mt_heap m' p) = sel_destination (mt_heap m p)"
    "\<forall>t. view m' p t = (case map_of ts t of Some rs \<Rightarrow> if matches env m t d then Some rs else view m p t | None \<Rightarrow> view m p t)"
    "\<forall>t. map_of (mt_matched m') t = (if map_of ts t \<noteq> None \<and> matches env m t d
       then map_option (List.insert d) (map_of (mt_matched m) t) else map_of (mt_matched m) t)"
  using assms
proof (induction ts arbitrary: m thesis)
  case (Cons x ts)
  obtain t rs where x: "x = (t, rs)" by force
  obtain ds where ds: "map_of (mt_matched m) t = Some ds" using Cons.prems(2) x by auto
  have fresh: "map_of ts t = None" using Cons.prems(3) x by (simp add: map_of_eq_None_iff)
  show ?case
  proof (cases "matches env m t d")
    case False
    obtain m' where m': "openLoop env d p ts m = Some m'" "mt_writer m' = mt_writer m" "mt_weightedRoutes m' = mt_weightedRoutes m"
      "mt_transportRoutes m' = mt_transportRoutes m" "mt_selectors m' = mt_selectors m" "mt_nextPtr m' = mt_nextPtr m"
      "\<forall>q. q \<noteq> p \<longrightarrow> mt_heap m' q = mt_heap m q" "sel_destination (mt_heap m' p) = sel_destination (mt_heap m p)"
      "\<forall>t. view m' p t = (case map_of ts t of Some rs \<Rightarrow> if matches env m t d then Some rs else view m p t | None \<Rightarrow> view m p t)"
      "\<forall>t. map_of (mt_matched m') t = (if map_of ts t \<noteq> None \<and> matches env m t d
         then map_option (List.insert d) (map_of (mt_matched m) t) else map_of (mt_matched m) t)"
      by (rule Cons.IH [of m]) (use Cons.prems(2,3) x in auto)
    show ?thesis
      by (rule Cons.prems(1) [of m']) (use m' x ds False fresh in \<open>auto split: option.split\<close>)
  next
    case True
    define n where "n = updSelectors (sel_updateTransport env t rs) [p] (m\<lparr>mt_matched := AList.update t (List.insert d ds) (mt_matched m)\<rparr>)"
    have n: "mt_writer n = mt_writer m" "mt_weightedRoutes n = mt_weightedRoutes m" "mt_transportRoutes n = mt_transportRoutes m"
      "mt_selectors n = mt_selectors m" "mt_nextPtr n = mt_nextPtr m" "\<forall>q. q \<noteq> p \<longrightarrow> mt_heap n q = mt_heap m q"
      "sel_destination (mt_heap n p) = sel_destination (mt_heap m p)" "view n p = (view m p)(t := entry rs)"
      "map_of (mt_matched n) = (map_of (mt_matched m))(t \<mapsto> List.insert d ds)" "matches env n = matches env m"
      by (simp_all add: n_def updSelectors_view matches_def AList.update_conv') (simp_all add: updSelectors_def view_def)
    obtain m' where m': "openLoop env d p ts n = Some m'" "mt_writer m' = mt_writer n" "mt_weightedRoutes m' = mt_weightedRoutes n"
      "mt_transportRoutes m' = mt_transportRoutes n" "mt_selectors m' = mt_selectors n" "mt_nextPtr m' = mt_nextPtr n"
      "\<forall>q. q \<noteq> p \<longrightarrow> mt_heap m' q = mt_heap n q" "sel_destination (mt_heap m' p) = sel_destination (mt_heap n p)"
      "\<forall>t. view m' p t = (case map_of ts t of Some rs \<Rightarrow> if matches env n t d then Some rs else view n p t | None \<Rightarrow> view n p t)"
      "\<forall>t. map_of (mt_matched m') t = (if map_of ts t \<noteq> None \<and> matches env n t d
         then map_option (List.insert d) (map_of (mt_matched n) t) else map_of (mt_matched n) t)"
      by (rule Cons.IH [of n]) (use Cons.prems(2,3) x n(9) in auto)
    have "rs \<noteq> []" using Cons.prems(2) x by auto
    then show ?thesis
      by (intro Cons.prems(1) [of m']) (use m' n x ds True fresh in \<open>auto simp: n_def [symmetric] entry_def split: option.split\<close>)
  qed
qed simp

lemma open_ok:
  assumes inv: "match_inv env m" and order: "order_ok order"
  obtains m' p where "openMultiRouteSelector env order d m = Some (m', p)" "match_inv env m'"
    "p \<in> set (selectorsOf m' d)" "mt_writer m' = mt_writer m"
proof -
  define p where "p = mt_nextPtr m"
  define n where "n = m\<lparr>mt_heap := (mt_heap m)(p := NewMultiRouteSelector d (mt_weightedRoutes m)), mt_nextPtr := p + 1,
    mt_selectors := AList.update d (List.insert p (selectorsOf m d)) (mt_selectors m)\<rparr>"
  let ?ts = "order (mt_transportRoutes m)"
  have perm: "mset ?ts = mset (mt_transportRoutes m)" using order by (simp add: order_ok_def)
  then have set: "set ?ts = set (mt_transportRoutes m)" by (metis set_mset_mset)
  have dist0: "distinct (map fst (mt_transportRoutes m))" using inv by (simp add: match_inv_def)
  have "mset (map fst ?ts) = mset (map fst (mt_transportRoutes m))" using perm by simp
  then have dist: "distinct (map fst ?ts)" using mset_eq_imp_distinct_iff dist0 by blast
  have map: "map_of ?ts = map_of (mt_transportRoutes m)"
    using dist dist0 set by (simp add: map_of_inject_set)
  have pre: "\<forall>(t, rs)\<in>set ?ts. map_of (mt_matched n) t \<noteq> None \<and> rs \<noteq> []"
  proof clarify
    fix t rs assume t: "(t, rs) \<in> set ?ts"
    then have "map_of (mt_transportRoutes m) t \<noteq> None" "rs \<noteq> []"
      using set inv by (auto simp: match_inv_def map_of_eq_None_iff image_iff)
    then show "map_of (mt_matched n) t \<noteq> None \<and> rs \<noteq> []" using inv by (simp add: n_def match_inv_def)
  qed
  obtain m' where m': "openLoop env d p ?ts n = Some m'" "mt_writer m' = mt_writer n" "mt_weightedRoutes m' = mt_weightedRoutes n"
      "mt_transportRoutes m' = mt_transportRoutes n" "mt_selectors m' = mt_selectors n" "mt_nextPtr m' = mt_nextPtr n"
      "\<forall>q. q \<noteq> p \<longrightarrow> mt_heap m' q = mt_heap n q" "sel_destination (mt_heap m' p) = sel_destination (mt_heap n p)"
      "\<forall>t. view m' p t = (case map_of ?ts t of Some rs \<Rightarrow> if matches env n t d then Some rs else view n p t | None \<Rightarrow> view n p t)"
      "\<forall>t. map_of (mt_matched m') t = (if map_of ?ts t \<noteq> None \<and> matches env n t d
         then map_option (List.insert d) (map_of (mt_matched n) t) else map_of (mt_matched n) t)"
    by (rule openLoop_ok [OF pre dist])
  have sels: "selectorsOf m' e = (if e = d then List.insert p (selectorsOf m d) else selectorsOf m e)" for e
    using m'(5) by (simp add: selectorsOf_def n_def AList.update_conv')
  have mt: "matches env m' = matches env m" "matches env n = matches env m"
    using m'(2) by (simp_all add: matches_def n_def)
  have nm: "mt_matched n = mt_matched m" by (simp add: n_def)
  have matched: "map_of (mt_matched m') t = (if map_of (mt_transportRoutes m) t \<noteq> None \<and> matches env m t d
      then map_option (List.insert d) (map_of (mt_matched m) t) else map_of (mt_matched m) t)" for t
    using m'(10) unfolding mt(2) map nm by blast
  have new: "view m' p = (\<lambda>t. if matches env m t d then map_of (mt_transportRoutes m) t else None)"
  proof
    fix t show "view m' p t = (if matches env m t d then map_of (mt_transportRoutes m) t else None)"
      using m'(9) mt map by (simp add: view_def n_def NewMultiRouteSelector_def split: option.split)
  qed
  have old: "q < mt_nextPtr m \<and> sel_destination (mt_heap m' q) = e \<and>
      view m' q = (\<lambda>t. if matches env m t e then map_of (mt_transportRoutes m) t else None)"
    if "q \<in> set (selectorsOf m e)" for q e
  proof -
    have q: "q \<noteq> p" using match_invD(1) [OF inv that] by (simp add: p_def)
    then have "mt_heap m' q = mt_heap m q" using m'(7) by (simp add: n_def)
    then show ?thesis using match_invD [OF inv that] by (auto simp: view_def)
  qed
  have "match_inv env m'" unfolding match_inv_def
  proof (intro conjI allI impI)
    fix t show "(map_of (mt_matched m') t = None) = (map_of (mt_transportRoutes m') t = None)"
      using m'(4,10) inv by (auto simp: n_def match_inv_def)
  next
    fix e q assume "q \<in> set (selectorsOf m' e)"
    then have q: "e = d \<and> q = p \<or> q \<in> set (selectorsOf m e)" using sels by (auto split: if_splits)
    then show "q < mt_nextPtr m'" "sel_destination (mt_heap m' q) = e"
      "view m' q = (\<lambda>t. if matches env m' t e then map_of (mt_transportRoutes m') t else None)"
      using old [of q e] new m'(4,6,8) mt by (auto simp: n_def p_def NewMultiRouteSelector_def)
  next
    fix t ds e assume "map_of (mt_matched m') t = Some ds \<and> matches env m' t e \<and> selectorsOf m' e \<noteq> []"
    then have t: "map_of (mt_matched m') t = Some ds" "matches env m t e" "selectorsOf m' e \<noteq> []" using mt by auto
    obtain ds0 where ds0: "map_of (mt_matched m) t = Some ds0" using matched [of t] t(1) by (cases "map_of (mt_matched m) t") (auto split: if_splits)
    then obtain rs where "map_of (mt_transportRoutes m) t = Some rs"
      using match_inv_keys [OF inv, of t] by (cases "map_of (mt_transportRoutes m) t") auto
    then have ds: "ds = (if matches env m t d then List.insert d ds0 else ds0)" using matched [of t] t(1) ds0 by (simp split: if_splits)
    show "e \<in> set ds"
    proof (cases "e = d")
      case False
      then have "e \<in> set ds0" using inv t(2,3) ds0 sels [of e] by (simp add: match_inv_def)
      then show ?thesis by (simp add: ds)
    qed (use t(2) ds in simp)
  qed (use inv m'(4,5) in \<open>simp_all add: n_def match_inv_def AList.distinct_update\<close>)
  moreover have "p \<in> set (selectorsOf m' d)" using sels by simp
  moreover have "openMultiRouteSelector env order d m = Some (m', p)"
    using m'(1) by (simp add: openMultiRouteSelector_def n_def p_def Let_def)
  ultimately show thesis using that m'(2) by (simp add: n_def)
qed

subsection \<open>Closing and updates\<close>

lemma close_ok:
  assumes inv: "match_inv env m"
  shows "match_inv env (closeMultiRouteSelector p m)" "mt_writer (closeMultiRouteSelector p m) = mt_writer m"
    "set (selectorsOf (closeMultiRouteSelector p m) d) \<subseteq> set (selectorsOf m d)"
proof -
  let ?d = "sel_destination (mt_heap m p)" and ?m = "closeMultiRouteSelector p m"
  show sub: "set (selectorsOf ?m d) \<subseteq> set (selectorsOf m d)" for d
    by (auto simp: closeMultiRouteSelector_def selectorsOf_def Let_def AList.update_conv' split: option.splits if_splits)
  have fields: "mt_writer ?m = mt_writer m" "mt_transportRoutes ?m = mt_transportRoutes m" "mt_heap ?m = mt_heap m" "mt_nextPtr ?m = mt_nextPtr m"
    by (simp_all add: closeMultiRouteSelector_def Let_def split: option.split)
  then show "mt_writer ?m = mt_writer m" by simp
  have dist: "distinct (map fst (mt_selectors ?m))" using inv
    by (auto simp: closeMultiRouteSelector_def match_inv_def Let_def AList.distinct_update split: option.split)
  have matched: "map_of (mt_matched ?m) t = map_of (mt_matched m) t \<or>
      selectorsOf ?m ?d = [] \<and> map_of (mt_matched ?m) t = map_option (removeAll ?d) (map_of (mt_matched m) t)" for t
    by (auto simp: closeMultiRouteSelector_def selectorsOf_def Let_def map_of_map AList.update_conv' split: option.split)
  have mt: "matches env ?m = matches env m" using fields(1) by (rule matches_cong)
  show "match_inv env ?m" unfolding match_inv_def
  proof (intro conjI allI impI)
    fix t show "(map_of (mt_matched ?m) t = None) = (map_of (mt_transportRoutes ?m) t = None)"
      using matched [of t] inv by (auto simp: fields match_inv_def)
  next
    fix e q assume "q \<in> set (selectorsOf ?m e)"
    then have "q \<in> set (selectorsOf m e)" using sub by blast
    from match_invD [OF inv this] show "q < mt_nextPtr ?m" "sel_destination (mt_heap ?m q) = e"
      "view ?m q = (\<lambda>t. if matches env ?m t e then map_of (mt_transportRoutes ?m) t else None)"
      by (auto simp: fields mt view_def fun_eq_iff)
  next
    fix t ds e assume t: "map_of (mt_matched ?m) t = Some ds \<and> matches env ?m t e \<and> selectorsOf ?m e \<noteq> []"
    then have "selectorsOf m e \<noteq> []" using sub [of e] by (metis set_empty subset_empty)
    then show "e \<in> set ds" using t matched [of t] inv mt by (fastforce simp: match_inv_def)
  qed (use inv in \<open>simp_all add: fields match_inv_def dist\<close>)
qed

lemma reselect_fields [simp]:
  "mt_writer (reselect env t rs P C x m) = mt_writer m" "mt_transportRoutes (reselect env t rs P C x m) = mt_transportRoutes m"
  "mt_selectors (reselect env t rs P C x m) = mt_selectors m" "mt_matched (reselect env t rs P C x m) = mt_matched m"
  "mt_nextPtr (reselect env t rs P C x m) = mt_nextPtr m"
  by (cases x, simp add: reselect_def)+

lemma reselect_view:
  "view (reselect env t rs P C (d, ps) m) p = (if p \<in> set ps then
     (if P d then (view m p)(t := entry rs) else if d \<in> set C then (view m p)(t := None) else view m p) else view m p)"
  "sel_destination (mt_heap (reselect env t rs P C x m) p) = sel_destination (mt_heap m p)"
  by (cases x, auto simp: reselect_def updSelectors_view entry_def)+

lemma reselects_fields [simp]:
  "mt_writer (fold (reselect env t rs P C) L m) = mt_writer m"
  "mt_transportRoutes (fold (reselect env t rs P C) L m) = mt_transportRoutes m"
  "mt_selectors (fold (reselect env t rs P C) L m) = mt_selectors m"
  "mt_matched (fold (reselect env t rs P C) L m) = mt_matched m"
  "mt_nextPtr (fold (reselect env t rs P C) L m) = mt_nextPtr m"
  "sel_destination (mt_heap (fold (reselect env t rs P C) L m) p) = sel_destination (mt_heap m p)"
  by (induction L arbitrary: m) (simp_all add: reselect_view)

lemma reselects_view:
  assumes "\<forall>(d, ps)\<in>set L. p \<in> set ps \<longrightarrow> d = e"
  shows "view (fold (reselect env t rs P C) L m) p =
    (if (\<exists>(d, ps)\<in>set L. p \<in> set ps) then
       (if P e then (view m p)(t := entry rs) else if e \<in> set C then (view m p)(t := None) else view m p)
     else view m p)"
  using assms
proof (induction L arbitrary: m)
  case (Cons x L)
  obtain d ps where x: "x = (d, ps)" by force
  then show ?case using Cons.IH [of "reselect env t rs P C x m"] Cons.prems by (auto simp: reselect_view)
qed simp

lemma in_selectors: "p \<in> set (selectorsOf m d) \<Longrightarrow> \<exists>ps. (d, ps) \<in> set (mt_selectors m) \<and> p \<in> set ps"
  by (cases "map_of (mt_selectors m) d") (auto simp: selectorsOf_def dest: map_of_SomeD)

lemma update_ok:
  assumes inv: "match_inv env m"
  shows "match_inv env (mt_updateTransport env t rs m)" "mt_writer (mt_updateTransport env t rs m) = mt_writer m"
    "selectorsOf (mt_updateTransport env t rs m) = selectorsOf m"
proof -
  let ?m = "mt_updateTransport env t rs m"
  define current where "current = (case map_of (mt_matched m) t of None \<Rightarrow> [] | Some ds \<Rightarrow> ds)"
  have fields: "mt_writer ?m = mt_writer m" "mt_selectors ?m = mt_selectors m" "mt_nextPtr ?m = mt_nextPtr m"
    "map_of (mt_transportRoutes ?m) = (map_of (mt_transportRoutes m))(t := entry rs)"
    "map_of (mt_matched ?m) = (map_of (mt_matched m))(t := if rs = [] then None
       else Some (filter (matches env m t) (map fst (mt_selectors m))))"
    by (simp_all add: mt_updateTransport_def Let_def entry_def AList.update_conv' AList.delete_conv' matches_def)
  have dest: "sel_destination (mt_heap ?m p) = sel_destination (mt_heap m p)" for p
    by (simp add: mt_updateTransport_def Let_def updSelectors_view)
  show w: "mt_writer ?m = mt_writer m" by (rule fields)
  show sels: "selectorsOf ?m = selectorsOf m" by (rule selectorsOf_cong [OF fields(2)])
  have mt: "matches env ?m = matches env m" by (rule matches_cong [OF fields(1)])
  have view: "view ?m p u = (if matches env m u d then ((map_of (mt_transportRoutes m))(t := entry rs)) u else None)"
    if p: "p \<in> set (selectorsOf m d)" for p d u
  proof -
    have old: "view m p v = (if matches env m v d then map_of (mt_transportRoutes m) v else None)" for v
      using match_invD(3) [OF inv p] .
    have known: "d \<in> set current" if k: "matches env m t d" "map_of (mt_transportRoutes m) t \<noteq> None"
    proof -
      obtain ds where "map_of (mt_matched m) t = Some ds" using k(2) match_inv_keys [OF inv, of t] by auto
      moreover have "selectorsOf m d \<noteq> []" using p by (cases "selectorsOf m d") auto
      ultimately show ?thesis using inv k(1) by (simp add: match_inv_def current_def)
    qed
    show ?thesis
    proof (cases "rs = []")
      case True
      have "view ?m p = (if p \<in> set (concat (map (selectorsOf m) current)) then (view m p)(t := None) else view m p)"
      proof -
        have "mt_heap ?m = mt_heap (updSelectors (sel_updateTransport env t []) (concat (map (selectorsOf m) current)) m)"
          using True by (simp add: mt_updateTransport_def Let_def current_def)
        then have "view ?m p = view (updSelectors (sel_updateTransport env t []) (concat (map (selectorsOf m) current)) m) p"
          by (simp only: view_def)
        then show ?thesis unfolding updSelectors_view(1) by (simp only: entry_def simp_thms if_True)
      qed
      then show ?thesis using old known p True by (cases "map_of (mt_transportRoutes m) t") (auto simp: entry_def)
    next
      case False
      have uniq: "\<forall>(e, ps)\<in>set (mt_selectors m). p \<in> set ps \<longrightarrow> e = d"
      proof clarify
        fix e ps assume "(e, ps) \<in> set (mt_selectors m)" "p \<in> set ps"
        then have "p \<in> set (selectorsOf m e)" using inv by (simp add: selectorsOf_def match_inv_def)
        then show "e = d" using match_invD(2) [OF inv] p by blast
      qed
      have "view ?m p = (if matches env m t d then (view m p)(t := entry rs)
          else if d \<in> set current then (view m p)(t := None) else view m p)"
        using reselects_view [OF uniq, of env t rs "matches env m t" current m] in_selectors [OF p] False
        by (auto simp: mt_updateTransport_def Let_def current_def view_def)
      then show ?thesis using old by auto
    qed
  qed
  show "match_inv env ?m" unfolding match_inv_def
  proof (intro conjI allI impI)
    fix u show "(map_of (mt_matched ?m) u = None) = (map_of (mt_transportRoutes ?m) u = None)"
      using match_inv_keys [OF inv, of u] by (simp add: fields(4,5) entry_def)
  next
    show "distinct (map fst (mt_transportRoutes ?m))" using inv
      by (simp add: mt_updateTransport_def Let_def match_inv_def AList.distinct_update AList.distinct_delete)
  next
    have "set (AList.update t rs (mt_transportRoutes m)) \<subseteq> insert (t, rs) (set (mt_transportRoutes m))" by (rule set_AList_update)
    then show "\<forall>(u, rs)\<in>set (mt_transportRoutes ?m). rs \<noteq> []" using inv
      by (auto simp: mt_updateTransport_def Let_def match_inv_def AList.delete_eq)
  next
    fix d p assume "p \<in> set (selectorsOf ?m d)"
    then have p: "p \<in> set (selectorsOf m d)" by (simp add: sels)
    show "p < mt_nextPtr ?m" "sel_destination (mt_heap ?m p) = d" using match_invD [OF inv p] by (simp_all add: fields dest)
    show "view ?m p = (\<lambda>t. if matches env ?m t d then map_of (mt_transportRoutes ?m) t else None)"
      using view [OF p] by (simp add: fun_eq_iff mt fields(4))
  next
    fix u ds d assume u: "map_of (mt_matched ?m) u = Some ds \<and> matches env ?m u d \<and> selectorsOf ?m d \<noteq> []"
    then have "selectorsOf m d \<noteq> []" by (simp add: sels)
    then have "d \<in> fst ` set (mt_selectors m)" 
      by (cases "map_of (mt_selectors m) d") (force simp: selectorsOf_def dest: map_of_SomeD)+
    then have d: "d \<in> set (map fst (mt_selectors m))" by simp
    show "d \<in> set ds"
    proof (cases "u = t")
      case True
      then have "ds = filter (matches env m t) (map fst (mt_selectors m))" using u by (simp add: fields(5) split: if_splits)
      then show ?thesis using d u True mt by simp
    next
      case False
      then have "map_of (mt_matched m) u = Some ds" "matches env m u d" using u mt by (simp_all add: fields(5))
      then show ?thesis using inv \<open>selectorsOf m d \<noteq> []\<close> by (simp add: match_inv_def)
    qed
  qed (use inv in \<open>simp add: fields match_inv_def\<close>)
qed

section \<open>Runs\<close>

text \<open>
  What is registered after a list of updates, newest first: the routes of the last update of each transport. This is
  the abstract state that the two match states and all their selectors implement.
\<close>

fun registered :: "(Transport \<times> ptr list) list \<Rightarrow> Transport \<Rightarrow> ptr list option" where
  "registered [] = (\<lambda>_. None)"
| "registered ((t, rs) # us) = (registered us)(t := entry rs)"

definition onSelector :: "(MultiRouteSelector \<Rightarrow> (MultiRouteSelector \<times> 'a) option) \<Rightarrow> ptr \<Rightarrow> MatchState \<Rightarrow> (MatchState \<times> 'a) option" where
  "onSelector f p m = map_option (\<lambda>(s, x). (m\<lparr>mt_heap := (mt_heap m)(p := s)\<rparr>, x)) (f (mt_heap m p))"

text \<open>The runs of a route manager: any sequence of its operations and of rounds of its writers and readers.\<close>

inductive route_run :: "route_env \<Rightarrow> (Transport \<times> ptr list) list \<Rightarrow> RouteManager \<Rightarrow> bool" for env where
  start: "route_run env [] NewRouteManager"
| open_writer: "route_run env us m \<Longrightarrow> order_ok order \<Longrightarrow> OpenMultiRouteWriter_rm env order d m = Some (m', p) \<Longrightarrow>
    route_run env us m'"
| open_reader: "route_run env us m \<Longrightarrow> order_ok order \<Longrightarrow> OpenMultiRouteReader_rm env order d m = Some (m', p) \<Longrightarrow>
    route_run env us m'"
| close_writer: "route_run env us m \<Longrightarrow> route_run env us (CloseMultiRouteWriter_rm p m)"
| close_reader: "route_run env us m \<Longrightarrow> route_run env us (CloseMultiRouteReader_rm p m)"
| update: "route_run env us m \<Longrightarrow> route_run env ((t, rs) # us) (UpdateTransport env t rs m)"
| write_frame: "route_run env us m \<Longrightarrow> onSelector (write_round shuffle rnd ready choice timeout bytes) p (writerMatchState m) = Some (w, e) \<Longrightarrow>
    route_run env us (m\<lparr>writerMatchState := w\<rparr>)"
| read_frame: "route_run env us m \<Longrightarrow> onSelector (read_round shuffle rnd offer choice later timeout) p (readerMatchState m) = Some (r, e) \<Longrightarrow>
    route_run env us (m\<lparr>readerMatchState := r\<rparr>)"

inductive_cases route_runE: "route_run env us m"

subsection \<open>Rounds do not change what a selector knows\<close>

lemma selector_fields [simp]:
  "sel_transportRoutes (updateSendStats r n b s) = sel_transportRoutes s" "sel_destination (updateSendStats r n b s) = sel_destination s"
  "sel_transportRoutes (updateReceiveStats r n b s) = sel_transportRoutes s" "sel_destination (updateReceiveStats r n b s) = sel_destination s"
  "sel_transportRoutes (setActive r a s) = sel_transportRoutes s" "sel_destination (setActive r a s) = sel_destination s"
  by (simp_all add: updateSendStats_def updateReceiveStats_def updateStats_def setActive_def)

lemma readReady_fields:
  "readReady offer routes s = (s', x, again) \<Longrightarrow> sel_transportRoutes s' = sel_transportRoutes s \<and> sel_destination s' = sel_destination s"
proof (induction offer routes s arbitrary: s' x again rule: readReady.induct)
  case (2 offer r routes s)
  show ?case
  proof (cases "offer r")
    case (Some o')
    show ?thesis
    proof (cases o')
      case None
      then show ?thesis using 2 Some by (auto split: prod.splits)
    next
      case (Some b)
      then show ?thesis using 2(3) \<open>offer r = Some o'\<close> by auto
    qed
  qed (use 2 in simp)
qed simp

lemma write_round_fields:
  "write_round shuffle rnd ready choice timeout bytes s = Some (s', e) \<Longrightarrow>
   sel_transportRoutes s' = sel_transportRoutes s \<and> sel_destination s' = sel_destination s"
  by (auto simp: write_round_def Let_def split: option.splits route_choice.splits if_splits)

lemma read_round_fields:
  "read_round shuffle rnd offer choice later timeout s = Some (s', e) \<Longrightarrow>
   sel_transportRoutes s' = sel_transportRoutes s \<and> sel_destination s' = sel_destination s"
  by (auto simp: read_round_def Let_def split: prod.splits option.splits route_choice.splits if_splits bool.splits
      dest!: readReady_fields)

lemma onSelector_ok:
  assumes run: "onSelector f p m = Some (m', e)" and inv: "match_inv env m"
    and f: "\<And>s s' e. f s = Some (s', e) \<Longrightarrow> sel_transportRoutes s' = sel_transportRoutes s \<and> sel_destination s' = sel_destination s"
  shows "match_inv env m'" "mt_writer m' = mt_writer m" "mt_transportRoutes m' = mt_transportRoutes m"
proof -
  obtain s' where s': "f (mt_heap m p) = Some (s', e)" "m' = m\<lparr>mt_heap := (mt_heap m)(p := s')\<rparr>"
    using run by (auto simp: onSelector_def)
  have eqs: "view m' = view m" "\<And>q. sel_destination (mt_heap m' q) = sel_destination (mt_heap m q)"
    using f [OF s'(1)] s'(2) by (auto simp: view_def fun_eq_iff)
  have fields: "mt_writer m' = mt_writer m" "mt_transportRoutes m' = mt_transportRoutes m" "mt_selectors m' = mt_selectors m"
    "mt_matched m' = mt_matched m" "mt_nextPtr m' = mt_nextPtr m" using s'(2) by simp_all
  have cong: "matches env m' = matches env m" "selectorsOf m' = selectorsOf m"
    using matches_cong [OF fields(1)] selectorsOf_cong [OF fields(3)] by blast+
  have "match_inv env m' = match_inv env m" by (simp only: match_inv_def eqs fields cong)
  with inv show "match_inv env m'" by simp
  show "mt_writer m' = mt_writer m" "mt_transportRoutes m' = mt_transportRoutes m" using s'(2) by simp_all
qed

lemma openLoop_transportRoutes:
  "openLoop env d p ts m = Some m' \<Longrightarrow> mt_transportRoutes m' = mt_transportRoutes m"
  by (induction env d p ts m rule: openLoop.induct) (auto split: option.splits if_splits)

lemma open_transportRoutes:
  "openMultiRouteSelector env order d m = Some (m', p) \<Longrightarrow> mt_transportRoutes m' = mt_transportRoutes m"
  by (auto simp: openMultiRouteSelector_def Let_def dest: openLoop_transportRoutes)

lemma open_okD:
  assumes "match_inv env m" "order_ok order" "openMultiRouteSelector env order d m = Some (m', p)"
  shows "match_inv env m'" "mt_writer m' = mt_writer m"
  using open_ok [OF assms(1,2), of d] assms(3) by auto

text \<open>Both match states satisfy the invariant and hold what is registered.\<close>

definition route_inv :: "route_env \<Rightarrow> (Transport \<times> ptr list) list \<Rightarrow> RouteManager \<Rightarrow> bool" where
  "route_inv env us m \<longleftrightarrow>
     match_inv env (writerMatchState m) \<and> mt_writer (writerMatchState m) \<and>
     map_of (mt_transportRoutes (writerMatchState m)) = registered us \<and>
     match_inv env (readerMatchState m) \<and> \<not> mt_writer (readerMatchState m) \<and>
     map_of (mt_transportRoutes (readerMatchState m)) = registered us"

lemma close_fields [simp]:
  "mt_transportRoutes (closeMultiRouteSelector p m) = mt_transportRoutes m" "mt_writer (closeMultiRouteSelector p m) = mt_writer m"
  by (simp_all add: closeMultiRouteSelector_def Let_def split: option.split)

lemma update_transportRoutes:
  "map_of (mt_transportRoutes (mt_updateTransport env t rs m)) = (map_of (mt_transportRoutes m))(t := entry rs)"
  by (simp add: mt_updateTransport_def Let_def entry_def AList.update_conv' AList.delete_conv')

lemma route_run_inv: "route_run env us m \<Longrightarrow> route_inv env us m"
proof (induction rule: route_run.induct)
  case start
  then show ?case by (simp add: route_inv_def NewRouteManager_def) (simp add: NewMatchState_def)
next
  case (open_writer us m order d m' p)
  then show ?case
    by (auto simp: route_inv_def OpenMultiRouteWriter_rm_def split: if_splits dest: open_okD open_transportRoutes)
next
  case (open_reader us m order d m' p)
  then show ?case
    by (auto simp: route_inv_def OpenMultiRouteReader_rm_def split: if_splits dest: open_okD open_transportRoutes)
next
  case (write_frame us m shuffle rnd ready choice timeout bytes p w e)
  have "match_inv env (writerMatchState m)" using write_frame.IH by (simp add: route_inv_def)
  from onSelector_ok [OF write_frame.hyps(2) this write_round_fields] write_frame.IH show ?case by (simp add: route_inv_def)
next
  case (read_frame us m shuffle rnd offer choice later timeout p r e)
  have "match_inv env (readerMatchState m)" using read_frame.IH by (simp add: route_inv_def)
  from onSelector_ok [OF read_frame.hyps(2) this read_round_fields] read_frame.IH show ?case by (simp add: route_inv_def)
qed (simp_all add: route_inv_def CloseMultiRouteWriter_rm_def CloseMultiRouteReader_rm_def UpdateTransport_def close_ok update_ok update_transportRoutes)

subsection \<open>A selector lists each transport once\<close>






lemma close_heap [simp]: "mt_heap (closeMultiRouteSelector p m) = mt_heap m"
  by (simp add: closeMultiRouteSelector_def Let_def split: option.split)





section \<open>The shuffle is a permutation\<close>







section \<open>Properties\<close>

text \<open>
  C16: In every run, each open writer knows exactly the routes of the registered transports that match its
  destination for sending, each open reader those that match for receiving, whatever was opened, closed, updated,
  written or read before and in whatever order Go iterates; and opening for a destination never writes the nil map.
\<close>

theorem routes_follow_matches:
  assumes "route_run env us m"
  shows "(\<forall>d p. p \<in> set (selectorsOf (writerMatchState m) d) \<longrightarrow>
       view (writerMatchState m) p = (\<lambda>t. if MatchesSend env t d then registered us t else None)) \<and>
     (\<forall>d p. p \<in> set (selectorsOf (readerMatchState m) d) \<longrightarrow>
       view (readerMatchState m) p = (\<lambda>t. if MatchesReceive env t d then registered us t else None)) \<and>
     (\<forall>order d. order_ok order \<and> IsDestinationMask d \<longrightarrow>
       (\<exists>m' p. OpenMultiRouteWriter_rm env order d m = Some (m', p) \<and> p \<in> set (selectorsOf (writerMatchState m') d)) \<and>
       (\<exists>m' p. OpenMultiRouteReader_rm env order d m = Some (m', p) \<and> p \<in> set (selectorsOf (readerMatchState m') d)))"
proof (intro conjI allI impI)
  have inv: "match_inv env (writerMatchState m)" "match_inv env (readerMatchState m)"
    and w: "matches env (writerMatchState m) = MatchesSend env" "matches env (readerMatchState m) = MatchesReceive env"
    and reg: "map_of (mt_transportRoutes (writerMatchState m)) = registered us" "map_of (mt_transportRoutes (readerMatchState m)) = registered us"
    using route_run_inv [OF assms] by (simp_all add: route_inv_def matches_def)
  show "view (writerMatchState m) p = (\<lambda>t. if MatchesSend env t d then registered us t else None)"
    if "p \<in> set (selectorsOf (writerMatchState m) d)" for d p using match_invD(3) [OF inv(1) that] by (simp add: w reg fun_eq_iff)
  show "view (readerMatchState m) p = (\<lambda>t. if MatchesReceive env t d then registered us t else None)"
    if "p \<in> set (selectorsOf (readerMatchState m) d)" for d p using match_invD(3) [OF inv(2) that] by (simp add: w reg fun_eq_iff)
  fix order :: "(Transport \<times> ptr list) list \<Rightarrow> (Transport \<times> ptr list) list" and d
  assume d: "order_ok order \<and> IsDestinationMask d"
  obtain n p where "openMultiRouteSelector env order d (writerMatchState m) = Some (n, p)" "p \<in> set (selectorsOf n d)"
    using open_ok [OF inv(1), of order d] d by blast
  then show "\<exists>m' p. OpenMultiRouteWriter_rm env order d m = Some (m', p) \<and> p \<in> set (selectorsOf (writerMatchState m') d)"
    using d by (simp add: OpenMultiRouteWriter_rm_def)
  obtain n p where "openMultiRouteSelector env order d (readerMatchState m) = Some (n, p)" "p \<in> set (selectorsOf n d)"
    using open_ok [OF inv(2), of order d] d by blast
  then show "\<exists>m' p. OpenMultiRouteReader_rm env order d m = Some (m', p) \<and> p \<in> set (selectorsOf (readerMatchState m') d)"
    using d by (simp add: OpenMultiRouteReader_rm_def)
qed


section \<open>Witnesses\<close>

text \<open>
  A transport for one destination and a gateway for all: the writer for the other destination knows the gateway only
  and sends through it.
\<close>

definition w_env :: route_env where
  "w_env = \<lparr>ot_Priority = \<lambda>_. 0, ot_Weight = \<lambda>_. 0, ot_CanEvalRouteWeight = \<lambda>_ _ _. True, ot_RouteWeight = \<lambda>_ _ _. 0,
     ot_MatchesSend = \<lambda>_ _. False, ot_MatchesReceive = \<lambda>_ _. False, rm_iterate = id, rm_shuffle = id\<rparr>"

definition w_id :: "nat \<Rightarrow> Id" where
  "w_id n = replicate 16 (of_nat n)"

definition w_updates :: "(Transport \<times> ptr list) list" where
  "w_updates = [(SendGatewayTransport (w_id 2), [6]), (SendClientTransport (w_id 1) False [DestinationId (w_id 8)], [5])]"

definition w_registered :: RouteManager where
  "w_registered = UpdateTransport w_env (SendGatewayTransport (w_id 2)) [6]
     (UpdateTransport w_env (SendClientTransport (w_id 1) False [DestinationId (w_id 8)]) [5] NewRouteManager)"

definition w_manager :: RouteManager where
  "w_manager = (case OpenMultiRouteWriter_rm w_env id (DestinationId (w_id 9)) w_registered of Some (m, _) \<Rightarrow> m | None \<Rightarrow> w_registered)"

lemma w_dest: "DestinationId (w_id 9) \<noteq> DestinationId (w_id 8)" "IsDestinationMask (DestinationId (w_id 9))"
  by (simp_all add: DestinationId_def emptyPath_def w_id_def IsDestinationMask_def IsStream_def zeroId_def replicate_eq_replicate)

lemma w_registered_eq: "writerMatchState w_registered = (NewMatchState True True)
    \<lparr>mt_transportRoutes := [(SendClientTransport (w_id 1) False [DestinationId (w_id 8)], [5]), (SendGatewayTransport (w_id 2), [6])],
     mt_matched := [(SendClientTransport (w_id 1) False [DestinationId (w_id 8)], []), (SendGatewayTransport (w_id 2), [])]\<rparr>"
  by (simp add: w_registered_def UpdateTransport_def mt_updateTransport_def NewRouteManager_def NewMatchState_def Let_def)

lemma w_open: "OpenMultiRouteWriter_rm w_env id (DestinationId (w_id 9)) w_registered = Some (w_manager, 0)"
  "selectorsOf (writerMatchState w_manager) (DestinationId (w_id 9)) = [0]"
  "mt_heap (writerMatchState w_manager) 0 = sel_updateTransport w_env (SendGatewayTransport (w_id 2)) [6] (NewMultiRouteSelector (DestinationId (w_id 9)) True)"
  using w_dest
  by (simp_all add: w_manager_def OpenMultiRouteWriter_rm_def openMultiRouteSelector_def w_registered_eq NewMatchState_def Let_def
      matches_def MatchesSend_def updSelectors_def selectorsOf_def)

lemma w_run: "route_run w_env w_updates w_manager"
proof -
  have "route_run w_env w_updates w_registered"
    unfolding w_updates_def w_registered_def by (intro route_run.update route_run.start)
  then show ?thesis by (rule route_run.open_writer [OF _ _ w_open(1)]) (simp add: order_ok_def)
qed

theorem routes_follow_matches_witness:
  "route_run w_env w_updates w_manager \<and>
   view (writerMatchState w_manager) 0 (SendGatewayTransport (w_id 2)) = Some [6] \<and>
   view (writerMatchState w_manager) 0 (SendClientTransport (w_id 1) False [DestinationId (w_id 8)]) = None"
proof -
  have "0 \<in> set (selectorsOf (writerMatchState w_manager) (DestinationId (w_id 9)))" by (simp add: w_open)
  then have "view (writerMatchState w_manager) 0 = (\<lambda>t. if MatchesSend w_env t (DestinationId (w_id 9)) then registered w_updates t else None)"
    using routes_follow_matches [OF w_run] by blast
  then show ?thesis using w_run w_dest by (simp add: MatchesSend_def w_updates_def entry_def)
qed


end
