(* ===== verification/Stream_Manager.thy ===== *)
theory Stream_Manager
  imports Connect_Util Frame_Codec
begin

text \<open>
  The stream manager (transfer_stream_manager.go): the control messages that open and close streams, the registry of
  stream sequences, and what a stream sequence runs: the peer to peer transports of its ends and, for an
  intermediary, the two forwarding loops.

  The main facts: there is never more than one live sequence of a stream, every live sequence is registered under its
  stream id, and so a close from the control reaches it; a source that is not the control changes nothing. The
  forwarding loop is shown never to forward.
\<close>

section \<open>Stream sequences\<close>

record streamSequenceId =
  k_SourceId :: Id
  k_HasSource :: bool
  k_DestinationId :: Id
  k_HasDestination :: bool
  k_StreamId :: Id

definition newStreamSequenceId :: "Id option \<Rightarrow> Id option \<Rightarrow> Id \<Rightarrow> streamSequenceId" where
  "newStreamSequenceId source dest stream =
     \<lparr>k_SourceId = (case source of None \<Rightarrow> zeroId | Some i \<Rightarrow> i), k_HasSource = (source \<noteq> None),
      k_DestinationId = (case dest of None \<Rightarrow> zeroId | Some i \<Rightarrow> i), k_HasDestination = (dest \<noteq> None), k_StreamId = stream\<rparr>"

text \<open>\<open>ss_done\<close>: the context of the sequence is cancelled.\<close>

record StreamSequence =
  ss_sourceId :: "Id option"
  ss_destinationId :: "Id option"
  ss_streamId :: Id
  ss_idleCondition :: IdleCondition
  ss_done :: bool

definition NewStreamSequence :: "Id option \<Rightarrow> Id option \<Rightarrow> Id \<Rightarrow> StreamSequence" where
  "NewStreamSequence source dest stream = \<lparr>ss_sourceId = source, ss_destinationId = dest, ss_streamId = stream,
     ss_idleCondition = NewIdleCondition, ss_done = False\<rparr>"

definition keyOf :: "StreamSequence \<Rightarrow> streamSequenceId" where
  "keyOf s = newStreamSequenceId (ss_sourceId s) (ss_destinationId s) (ss_streamId s)"

text \<open>\<open>Open\<close> succeeds or fails with the error "Done."; the update is closed when it returns.\<close>

definition StreamSequence_Open :: "StreamSequence \<Rightarrow> StreamSequence \<times> (unit + bool)" where
  "StreamSequence_Open s =
     (if ss_done s then (s, Inl ())
      else case UpdateOpen (ss_idleCondition s) of
        (c, False) \<Rightarrow> (s\<lparr>ss_idleCondition := c\<rparr>, Inl ())
      | (c, True) \<Rightarrow> (s\<lparr>ss_idleCondition := UpdateClose c\<rparr>, Inr True))"

definition StreamSequence_Cancel :: "StreamSequence \<Rightarrow> StreamSequence" where
  "StreamSequence_Cancel s = s\<lparr>ss_done := True\<rparr>"

text \<open>
  The transports that \<open>Run\<close> starts: the peer, the end of the stream it is, and the route managers and ready channels
  for sending and receiving. An end of the stream uses the routes of the client, and its receive side is ready at
  once. An intermediary joins the two peers crosswise.
\<close>

datatype PeerType = PeerTypeSource | PeerTypeDestination
datatype stream_routes = ClientRoutes | ToDestinationRoutes | ToSourceRoutes
datatype stream_ready = SendReady | ReceiveReady | ToDestinationReady | ToSourceReady

record P2pStart =
  p2p_peerId :: Id
  p2p_streamId :: Id
  p2p_peerType :: PeerType
  p2p_send :: stream_routes
  p2p_receive :: stream_routes
  p2p_sendReady :: stream_ready
  p2p_receiveReady :: stream_ready

definition sequenceTransports :: "StreamSequence \<Rightarrow> P2pStart list" where
  "sequenceTransports s =
     (case (ss_sourceId s, ss_destinationId s) of
        (Some source, Some dest) \<Rightarrow>
          [\<lparr>p2p_peerId = dest, p2p_streamId = ss_streamId s, p2p_peerType = PeerTypeDestination,
            p2p_send = ToDestinationRoutes, p2p_receive = ToSourceRoutes,
            p2p_sendReady = ToDestinationReady, p2p_receiveReady = ToSourceReady\<rparr>,
           \<lparr>p2p_peerId = source, p2p_streamId = ss_streamId s, p2p_peerType = PeerTypeSource,
            p2p_send = ToSourceRoutes, p2p_receive = ToDestinationRoutes,
            p2p_sendReady = ToSourceReady, p2p_receiveReady = ToDestinationReady\<rparr>]
      | (Some peer, None) \<Rightarrow>
          [\<lparr>p2p_peerId = peer, p2p_streamId = ss_streamId s, p2p_peerType = PeerTypeSource, p2p_send = ClientRoutes,
            p2p_receive = ClientRoutes, p2p_sendReady = SendReady, p2p_receiveReady = ReceiveReady\<rparr>]
      | (None, Some peer) \<Rightarrow>
          [\<lparr>p2p_peerId = peer, p2p_streamId = ss_streamId s, p2p_peerType = PeerTypeDestination, p2p_send = ClientRoutes,
            p2p_receive = ClientRoutes, p2p_sendReady = SendReady, p2p_receiveReady = ReceiveReady\<rparr>]
      | (None, None) \<Rightarrow> [])"

text \<open>
  A \<open>select\<close>: it takes a ready case, or the default when there is one, or it blocks. One round of the forwarding loop
  begins with a \<open>select\<close> that has the done case and no default. \<open>read\<close> and \<open>write\<close> are the results of the selectors:
  a read yields a frame, a timeout (\<open>None\<close>) or an error, a write tells whether it succeeded.
\<close>

datatype select_result = TakeCase nat | TakeDefault | Blocks

definition go_select :: "bool list \<Rightarrow> bool \<Rightarrow> select_result" where
  "go_select ready hasDefault =
     (case find (\<lambda>i. ready ! i) [0..<length ready] of Some i \<Rightarrow> TakeCase i
      | None \<Rightarrow> if hasDefault then TakeDefault else Blocks)"

datatype forward_end = ForwardBlocks | ForwardReturns | ForwardContinues

definition forward_loop_round ::
    "(unit + byte list option) \<Rightarrow> (unit + bool) \<Rightarrow> StreamSequence \<Rightarrow> StreamSequence \<times> byte list list \<times> forward_end" where
  "forward_loop_round read write s =
     (case go_select [ss_done s] False of
        TakeCase _ \<Rightarrow> (StreamSequence_Cancel s, [], ForwardReturns)
      | Blocks \<Rightarrow> (s, [], ForwardBlocks)
      | TakeDefault \<Rightarrow>
          (case read of
             Inr None \<Rightarrow>
               (case Idle_Close (ss_idleCondition s) (Checkpoint (ss_idleCondition s)) of
                  (c, True) \<Rightarrow> (StreamSequence_Cancel (s\<lparr>ss_idleCondition := c\<rparr>), [], ForwardReturns)
                | (c, False) \<Rightarrow> (s\<lparr>ss_idleCondition := c\<rparr>, [], ForwardContinues))
           | Inr (Some b) \<Rightarrow> (case write of Inl _ \<Rightarrow> (StreamSequence_Cancel s, [], ForwardReturns)
               | Inr success \<Rightarrow> (s, if success then [b] else [], ForwardContinues))
           | Inl _ \<Rightarrow> (case write of Inl _ \<Rightarrow> (StreamSequence_Cancel s, [], ForwardReturns)
               | Inr success \<Rightarrow> (s, if success then [[]] else [], ForwardContinues))))"

text \<open>
  The first \<open>select\<close> of the round waits for the end of the sequence: nothing is ever written, and the loop does not
  come to a second round.
\<close>

lemma forward_never_writes:
  "fst (snd (forward_loop_round read write s)) = [] \<and>
   snd (snd (forward_loop_round read write s)) \<noteq> ForwardContinues"
  by (cases "ss_done s") (simp_all add: forward_loop_round_def go_select_def)

section \<open>The registry\<close>

record StreamBuffer =
  streamSequences :: "streamSequenceId \<Rightarrow> ptr option"
  streamSequencesByStreamId :: "Id \<Rightarrow> ptr option"
  st_heap :: "ptr \<Rightarrow> StreamSequence"
  st_nextPtr :: ptr

definition NewStreamBuffer :: StreamBuffer where
  "NewStreamBuffer = \<lparr>streamSequences = \<lambda>_. None, streamSequencesByStreamId = \<lambda>_. None,
     st_heap = \<lambda>_. NewStreamSequence None None zeroId, st_nextPtr = 0\<rparr>"

definition cancelStream :: "ptr \<Rightarrow> StreamBuffer \<Rightarrow> StreamBuffer" where
  "cancelStream p b = b\<lparr>st_heap := (st_heap b)(p := StreamSequence_Cancel (st_heap b p))\<rparr>"

definition startStreamSequence :: "Id option \<Rightarrow> Id option \<Rightarrow> Id \<Rightarrow> StreamBuffer \<Rightarrow> StreamBuffer \<times> ptr" where
  "startStreamSequence source dest stream b =
     (let p = st_nextPtr b;
          b = (case streamSequencesByStreamId b stream of None \<Rightarrow> b
             | Some q \<Rightarrow> (cancelStream q b)\<lparr>streamSequencesByStreamId := (streamSequencesByStreamId b)(stream := None)\<rparr>)
      in (b\<lparr>st_heap := (st_heap b)(p := NewStreamSequence source dest stream), st_nextPtr := p + 1,
            streamSequences := (streamSequences b)(newStreamSequenceId source dest stream \<mapsto> p),
            streamSequencesByStreamId := (streamSequencesByStreamId b)(stream \<mapsto> p)\<rparr>, p))"

definition initStreamSequence :: "Id option \<Rightarrow> Id option \<Rightarrow> Id \<Rightarrow> ptr option \<Rightarrow> StreamBuffer \<Rightarrow> StreamBuffer \<times> ptr" where
  "initStreamSequence source dest stream skip b =
     (let k = newStreamSequenceId source dest stream in
      case streamSequences b k of
        None \<Rightarrow> startStreamSequence source dest stream b
      | Some p \<Rightarrow>
          if skip \<noteq> Some p then (b, p)
          else startStreamSequence source dest stream ((cancelStream p b)\<lparr>streamSequences := (streamSequences b)(k := None)\<rparr>))"

definition openStreamSequence :: "ptr \<Rightarrow> StreamBuffer \<Rightarrow> StreamBuffer \<times> (unit + bool)" where
  "openStreamSequence p b = (case StreamSequence_Open (st_heap b p) of (s, r) \<Rightarrow> (b\<lparr>st_heap := (st_heap b)(p := s)\<rparr>, r))"

text \<open>
  \<open>OpenStream\<close> without other goroutines in between; \<open>done\<close> is the context of the buffer. The steps of the two
  attempts are separate steps of the runs below.
\<close>

definition OpenStream :: "bool \<Rightarrow> Id option \<Rightarrow> Id option \<Rightarrow> Id \<Rightarrow> StreamBuffer \<Rightarrow> StreamBuffer \<times> (unit + bool)" where
  "OpenStream done source dest stream b =
     (if done then (b, Inl ())
      else case initStreamSequence source dest stream None b of (b, p) \<Rightarrow>
        (case openStreamSequence p b of
           (b, Inr success) \<Rightarrow> (b, Inr success)
         | (b, Inl _) \<Rightarrow>
             (case initStreamSequence source dest stream (Some p) b of (b, q) \<Rightarrow> openStreamSequence q b)))"

definition CloseStream :: "Id \<Rightarrow> StreamBuffer \<Rightarrow> StreamBuffer" where
  "CloseStream stream b = (case streamSequencesByStreamId b stream of None \<Rightarrow> b | Some p \<Rightarrow> cancelStream p b)"

definition IsStreamOpen :: "Id \<Rightarrow> StreamBuffer \<Rightarrow> bool" where
  "IsStreamOpen stream b = (streamSequencesByStreamId b stream \<noteq> None)"

text \<open>What the goroutine of a sequence does when \<open>Run\<close> has returned.\<close>

definition cleanupStreamSequence :: "ptr \<Rightarrow> StreamBuffer \<Rightarrow> StreamBuffer" where
  "cleanupStreamSequence p b =
     (let s = st_heap b p;
          b = cancelStream p b;
          b = (if streamSequences b (keyOf s) = Some p then b\<lparr>streamSequences := (streamSequences b)(keyOf s := None)\<rparr> else b)
      in if streamSequencesByStreamId b (ss_streamId s) = Some p
         then b\<lparr>streamSequencesByStreamId := (streamSequencesByStreamId b)(ss_streamId s := None)\<rparr> else b)"

section \<open>Control messages\<close>

text \<open>Ids of the wrong length end the handling of the frame with an error, which is dropped.\<close>

definition optionalStreamId :: "byte list option \<Rightarrow> id_error + Id option" where
  "optionalStreamId bs = (case bs of None \<Rightarrow> Inr None
     | Some bs \<Rightarrow> (case IdFromBytes bs of Inl e \<Rightarrow> Inl e | Inr i \<Rightarrow> Inr (Some i)))"

definition handleControlFrame :: "(int \<Rightarrow> byte list \<Rightarrow> message option) \<Rightarrow> bool \<Rightarrow> Frame \<Rightarrow> StreamBuffer \<Rightarrow> StreamBuffer" where
  "handleControlFrame unmarshal done f b =
     (case FromFrame unmarshal f of
        Inr (Msg_StreamOpen v) \<Rightarrow>
          (case optionalStreamId (so_SourceId v) of Inl _ \<Rightarrow> b
           | Inr source \<Rightarrow> (case optionalStreamId (so_DestinationId v) of Inl _ \<Rightarrow> b
               | Inr dest \<Rightarrow> (case IdFromBytes (so_StreamId v) of Inl _ \<Rightarrow> b
                   | Inr stream \<Rightarrow> fst (OpenStream done source dest stream b))))
      | Inr (Msg_StreamClose v) \<Rightarrow> (case IdFromBytes v of Inl _ \<Rightarrow> b | Inr stream \<Rightarrow> CloseStream stream b)
      | _ \<Rightarrow> b)"

definition StreamManager_Receive ::
    "(int \<Rightarrow> byte list \<Rightarrow> message option) \<Rightarrow> bool \<Rightarrow> TransferPath \<Rightarrow> Frame list \<Rightarrow> StreamBuffer \<Rightarrow> StreamBuffer" where
  "StreamManager_Receive unmarshal done source frames b =
     (if IsControlSource source then fold (handleControlFrame unmarshal done) frames b else b)"

section \<open>Runs\<close>

text \<open>The steps of the goroutines that use the registry, in any order.\<close>

inductive stream_run :: "StreamBuffer \<Rightarrow> bool" where
  start: "stream_run NewStreamBuffer"
| lookup: "stream_run b \<Longrightarrow> stream_run (fst (initStreamSequence source dest stream skip b))"
| opened: "stream_run b \<Longrightarrow> stream_run (fst (openStreamSequence p b))"
| close_stream: "stream_run b \<Longrightarrow> stream_run (CloseStream stream b)"
| exit: "stream_run b \<Longrightarrow> p < st_nextPtr b \<Longrightarrow> stream_run (cleanupStreamSequence p b)"

definition live :: "StreamBuffer \<Rightarrow> ptr \<Rightarrow> bool" where
  "live b p \<longleftrightarrow> p < st_nextPtr b \<and> \<not> ss_done (st_heap b p)"

text \<open>The maps hold sequences under their own keys, and hold every live one.\<close>

definition stream_inv :: "StreamBuffer \<Rightarrow> bool" where
  "stream_inv b \<longleftrightarrow>
     (\<forall>k p. streamSequences b k = Some p \<longrightarrow> p < st_nextPtr b \<and> keyOf (st_heap b p) = k) \<and>
     (\<forall>i p. streamSequencesByStreamId b i = Some p \<longrightarrow> p < st_nextPtr b \<and> ss_streamId (st_heap b p) = i) \<and>
     (\<forall>p. live b p \<longrightarrow> streamSequences b (keyOf (st_heap b p)) = Some p \<and>
        streamSequencesByStreamId b (ss_streamId (st_heap b p)) = Some p)"

lemma stream_invD:
  assumes "stream_inv b"
  shows "streamSequences b k = Some p \<Longrightarrow> p < st_nextPtr b" "streamSequences b k = Some p \<Longrightarrow> keyOf (st_heap b p) = k"
    "streamSequencesByStreamId b i = Some p \<Longrightarrow> p < st_nextPtr b"
    "streamSequencesByStreamId b i = Some p \<Longrightarrow> ss_streamId (st_heap b p) = i"
    "live b p \<Longrightarrow> streamSequences b (keyOf (st_heap b p)) = Some p"
    "live b p \<Longrightarrow> streamSequencesByStreamId b (ss_streamId (st_heap b p)) = Some p"
  using assms unfolding stream_inv_def by blast+

text \<open>Changes of a sequence that keep its name and never revive it.\<close>

definition ages :: "StreamSequence \<Rightarrow> StreamSequence \<Rightarrow> bool" where
  "ages s s' \<longleftrightarrow> ss_sourceId s' = ss_sourceId s \<and> ss_destinationId s' = ss_destinationId s \<and> ss_streamId s' = ss_streamId s \<and>
     (ss_done s \<longrightarrow> ss_done s')"

lemma ages_key: "ages s s' \<Longrightarrow> keyOf s' = keyOf s"
  by (simp add: ages_def keyOf_def)

lemma ages_Cancel [simp]: "ages s (StreamSequence_Cancel s)" "ss_done (StreamSequence_Cancel s)"
  "keyOf (StreamSequence_Cancel s) = keyOf s" "ss_streamId (StreamSequence_Cancel s) = ss_streamId s"
  by (simp_all add: ages_def StreamSequence_Cancel_def keyOf_def)

lemma ages_Open: "ages s (fst (StreamSequence_Open s))"
  by (simp add: ages_def StreamSequence_Open_def split: prod.split bool.split)

lemma stream_inv_age:
  assumes "stream_inv b" "ages (st_heap b p) s"
  shows "stream_inv (b\<lparr>st_heap := (st_heap b)(p := s)\<rparr>)"
  using assms ages_key [OF assms(2)] by (auto simp: stream_inv_def live_def ages_def)

lemma cancelStream_inv: "stream_inv b \<Longrightarrow> stream_inv (cancelStream p b)"
  by (simp add: cancelStream_def stream_inv_age)

lemma live_cancelStream [simp]: "live (cancelStream p b) q = (live b q \<and> q \<noteq> p)"
  by (simp add: live_def cancelStream_def)

lemma cancelStream_fields [simp]:
  "streamSequences (cancelStream p b) = streamSequences b" "streamSequencesByStreamId (cancelStream p b) = streamSequencesByStreamId b"
  "st_nextPtr (cancelStream p b) = st_nextPtr b" "keyOf (st_heap (cancelStream p b) q) = keyOf (st_heap b q)"
  "ss_streamId (st_heap (cancelStream p b) q) = ss_streamId (st_heap b q)"
  by (simp_all add: cancelStream_def)

lemma startStreamSequence_inv:
  assumes inv: "stream_inv b" and free: "\<forall>p. live b p \<longrightarrow> keyOf (st_heap b p) \<noteq> newStreamSequenceId source dest stream"
    and none: "streamSequences b (newStreamSequenceId source dest stream) = None"
  shows "stream_inv (fst (startStreamSequence source dest stream b))"
proof -
  define b1 where "b1 = (case streamSequencesByStreamId b stream of None \<Rightarrow> b
             | Some q \<Rightarrow> (cancelStream q b)\<lparr>streamSequencesByStreamId := (streamSequencesByStreamId b)(stream := None)\<rparr>)"
  have fields: "st_nextPtr b1 = st_nextPtr b" "streamSequences b1 = streamSequences b"
    "streamSequencesByStreamId b1 = (streamSequencesByStreamId b)(stream := None)"
    "\<And>q. keyOf (st_heap b1 q) = keyOf (st_heap b q)" "\<And>q. ss_streamId (st_heap b1 q) = ss_streamId (st_heap b q)"
    by (auto simp: b1_def split: option.split)
  have live: "live b q \<and> ss_streamId (st_heap b q) \<noteq> stream" if "live b1 q" for q
    using that inv by (auto simp: b1_def stream_inv_def live_def cancelStream_def split: option.splits if_splits)
  have key: "keyOf (NewStreamSequence source dest stream) = newStreamSequenceId source dest stream" "ss_streamId (NewStreamSequence source dest stream) = stream"
    by (simp_all add: keyOf_def NewStreamSequence_def)
  define b2 where "b2 = b1\<lparr>st_heap := (st_heap b1)(st_nextPtr b := NewStreamSequence source dest stream), st_nextPtr := st_nextPtr b + 1,
         streamSequences := (streamSequences b1)(newStreamSequenceId source dest stream \<mapsto> st_nextPtr b),
         streamSequencesByStreamId := (streamSequencesByStreamId b1)(stream \<mapsto> st_nextPtr b)\<rparr>"
  have b2: "st_nextPtr b2 = st_nextPtr b + 1"
    "streamSequences b2 = (streamSequences b)(newStreamSequenceId source dest stream \<mapsto> st_nextPtr b)"
    "streamSequencesByStreamId b2 = (streamSequencesByStreamId b)(stream \<mapsto> st_nextPtr b)"
    "\<And>q. st_heap b2 q = (if q = st_nextPtr b then NewStreamSequence source dest stream else st_heap b1 q)"
    by (simp_all add: b2_def fields)
  have start: "fst (startStreamSequence source dest stream b) = b2"
    by (simp add: startStreamSequence_def b1_def b2_def Let_def)
  show ?thesis unfolding start stream_inv_def
  proof (intro conjI allI impI)
    fix q assume l: "live b2 q"
    have old: "live b1 q" if "q \<noteq> st_nextPtr b" using l that by (simp add: live_def fields b2)
    show "streamSequences b2 (keyOf (st_heap b2 q)) = Some q" "streamSequencesByStreamId b2 (ss_streamId (st_heap b2 q)) = Some q"
      using live old free inv by (cases "q = st_nextPtr b", auto simp: fields key stream_inv_def b2)+
  next
    fix k q assume "streamSequences b2 k = Some q"
    then show "q < st_nextPtr b2" "keyOf (st_heap b2 q) = k"
      using stream_invD(1,2) [OF inv, of k q] by (auto simp: fields key b2 split: if_splits)
  next
    fix i q assume "streamSequencesByStreamId b2 i = Some q"
    then show "q < st_nextPtr b2" "ss_streamId (st_heap b2 q) = i"
      using stream_invD(3,4) [OF inv, of i q] by (auto simp: fields key b2 split: if_splits)
  qed
qed

lemma initStreamSequence_inv:
  assumes inv: "stream_inv b"
  shows "stream_inv (fst (initStreamSequence source dest stream skip b))"
proof (cases "streamSequences b (newStreamSequenceId source dest stream)")
  case None
  have "\<forall>p. live b p \<longrightarrow> keyOf (st_heap b p) \<noteq> newStreamSequenceId source dest stream"
    using stream_invD(5) [OF inv] None by (metis option.distinct(1))
  from startStreamSequence_inv [OF inv this None] show ?thesis using None by (simp add: initStreamSequence_def)
next
  case (Some p)
  let ?b = "(cancelStream p b)\<lparr>streamSequences := (streamSequences b)(newStreamSequenceId source dest stream := None)\<rparr>"
  have live: "live ?b q = (live b q \<and> q \<noteq> p)" for q by (simp add: live_def cancelStream_def)
  have uniq: "keyOf (st_heap b q) \<noteq> newStreamSequenceId source dest stream" if "live b q" "q \<noteq> p" for q
    using stream_invD(5) [OF inv that(1)] that(2) Some by (metis option.inject)
  have "stream_inv ?b" unfolding stream_inv_def live
  proof (intro conjI allI impI)
    fix k q assume "streamSequences ?b k = Some q"
    then have "streamSequences b k = Some q" by (simp split: if_splits)
    from stream_invD(1,2) [OF inv this] show "q < st_nextPtr ?b" "keyOf (st_heap ?b q) = k" by simp_all
  next
    fix i q assume "streamSequencesByStreamId ?b i = Some q"
    then have "streamSequencesByStreamId b i = Some q" by simp
    from stream_invD(3,4) [OF inv this] show "q < st_nextPtr ?b" "ss_streamId (st_heap ?b q) = i" by simp_all
  next
    fix q assume q: "live b q \<and> q \<noteq> p"
    then have "live b q" "q \<noteq> p" by blast+
    from stream_invD(5,6) [OF inv this(1)] uniq [OF this]
    show "streamSequences ?b (keyOf (st_heap ?b q)) = Some q" "streamSequencesByStreamId ?b (ss_streamId (st_heap ?b q)) = Some q"
      by simp_all
  qed
  moreover have "\<forall>q. live ?b q \<longrightarrow> keyOf (st_heap ?b q) \<noteq> newStreamSequenceId source dest stream" unfolding live using uniq by simp
  ultimately show ?thesis using inv Some startStreamSequence_inv [of ?b source dest stream] by (simp add: initStreamSequence_def Let_def)
qed

lemma openStreamSequence_inv: "stream_inv b \<Longrightarrow> stream_inv (fst (openStreamSequence p b))"
  using stream_inv_age [of b p "fst (StreamSequence_Open (st_heap b p))"] ages_Open [of "st_heap b p"]
  by (cases "StreamSequence_Open (st_heap b p)") (simp add: openStreamSequence_def)

lemma CloseStream_inv: "stream_inv b \<Longrightarrow> stream_inv (CloseStream stream b)"
  by (simp add: CloseStream_def cancelStream_inv split: option.split)

lemma cleanup_fields:
  "st_nextPtr (cleanupStreamSequence p b) = st_nextPtr b" "st_heap (cleanupStreamSequence p b) = st_heap (cancelStream p b)"
  "streamSequences (cleanupStreamSequence p b) = (if streamSequences b (keyOf (st_heap b p)) = Some p
     then (streamSequences b)(keyOf (st_heap b p) := None) else streamSequences b)"
  "streamSequencesByStreamId (cleanupStreamSequence p b) = (if streamSequencesByStreamId b (ss_streamId (st_heap b p)) = Some p
     then (streamSequencesByStreamId b)(ss_streamId (st_heap b p) := None) else streamSequencesByStreamId b)"
  by (simp_all add: cleanupStreamSequence_def Let_def)

lemma cleanup_inv: "stream_inv b \<Longrightarrow> stream_inv (cleanupStreamSequence p b)"
proof -
  assume inv: "stream_inv b"
  let ?c = "cleanupStreamSequence p b"
  have live: "live ?c q = (live b q \<and> q \<noteq> p)" for q by (simp add: live_def cleanup_fields cancelStream_def)
  have key: "keyOf (st_heap ?c q) = keyOf (st_heap b q)" "ss_streamId (st_heap ?c q) = ss_streamId (st_heap b q)" for q
    by (simp_all add: cleanup_fields)
  have sub: "streamSequences ?c k = Some q \<Longrightarrow> streamSequences b k = Some q"
    "streamSequencesByStreamId ?c i = Some q \<Longrightarrow> streamSequencesByStreamId b i = Some q" for k i q
    by (simp_all add: cleanup_fields split: if_splits)
  have kept: "streamSequences ?c k = Some q" if "streamSequences b k = Some q" "q \<noteq> p" for k q
    using that by (auto simp: cleanup_fields)
  have kept': "streamSequencesByStreamId ?c i = Some q" if "streamSequencesByStreamId b i = Some q" "q \<noteq> p" for i q
    using that by (auto simp: cleanup_fields)
  have next_eq: "st_nextPtr ?c = st_nextPtr b" by (simp add: cleanup_fields)
  show ?thesis using inv sub kept kept' unfolding stream_inv_def live key next_eq by blast
qed

lemma stream_run_inv: "stream_run b \<Longrightarrow> stream_inv b"
proof (induction rule: stream_run.induct)
  case start
  then show ?case by (simp add: stream_inv_def NewStreamBuffer_def live_def)
qed (simp_all add: initStreamSequence_inv openStreamSequence_inv CloseStream_inv cleanup_inv)

section \<open>Properties\<close>

text \<open>
  C30: However opens, closes, retries and exits interleave, a stream never has two live sequences, and a close message
  of the control ends the live sequence of its stream, if there is one, and no other; a message from anyone else
  changes nothing.
\<close>

theorem stream_close_reaches:
  assumes "stream_run b" "IsControlSource source" "unmarshal 9 bytes = Some (Msg_StreamClose bytes')" "IdFromBytes bytes' = Inr stream"
  shows "(\<forall>p q. live b p \<and> live b q \<and> ss_streamId (st_heap b p) = ss_streamId (st_heap b q) \<longrightarrow> p = q) \<and>
    (\<forall>p. live (StreamManager_Receive unmarshal done source [\<lparr>f_MessageType = 9, f_MessageBytes = bytes, f_Raw = raw\<rparr>] b) p \<longleftrightarrow>
       live b p \<and> ss_streamId (st_heap b p) \<noteq> stream) \<and>
    (\<forall>frames other. \<not> IsControlSource other \<longrightarrow> StreamManager_Receive unmarshal done other frames b = b)"
proof (intro conjI allI impI)
  have inv: "stream_inv b" by (rule stream_run_inv [OF assms(1)])
  show "p = q" if "live b p \<and> live b q \<and> ss_streamId (st_heap b p) = ss_streamId (st_heap b q)" for p q
    using inv that unfolding stream_inv_def by (metis option.inject)
  have "StreamManager_Receive unmarshal done source [\<lparr>f_MessageType = 9, f_MessageBytes = bytes, f_Raw = raw\<rparr>] b = CloseStream stream b"
    using assms(2-4) by (simp add: StreamManager_Receive_def handleControlFrame_def FromFrame_def)
  moreover have "live (CloseStream stream b) p \<longleftrightarrow> live b p \<and> ss_streamId (st_heap b p) \<noteq> stream" for p
    using inv by (auto simp: CloseStream_def stream_inv_def split: option.split)
  ultimately show "live (StreamManager_Receive unmarshal done source [\<lparr>f_MessageType = 9, f_MessageBytes = bytes, f_Raw = raw\<rparr>] b) p \<longleftrightarrow>
       live b p \<and> ss_streamId (st_heap b p) \<noteq> stream" for p by simp
  show "StreamManager_Receive unmarshal done other frames b = b" if "\<not> IsControlSource other" for frames other
    using that by (simp add: StreamManager_Receive_def)
qed

text \<open>A stream is opened twice with different peers, and closed.\<close>

definition stream_example :: StreamBuffer where
  "stream_example = fst (initStreamSequence (Some (replicate 16 2)) None (replicate 16 7) None
     (fst (initStreamSequence (Some (replicate 16 1)) None (replicate 16 7) None NewStreamBuffer)))"

theorem stream_close_reaches_witness:
  "live stream_example 1 \<and> \<not> live stream_example 0 \<and>
   \<not> live (StreamManager_Receive (\<lambda>t b. Some (Msg_StreamClose b)) False (SourceId ControlId)
     [\<lparr>f_MessageType = 9, f_MessageBytes = replicate 16 7, f_Raw = False\<rparr>] stream_example) 1"
proof -
  have run: "stream_run stream_example" unfolding stream_example_def by (intro stream_run.lookup stream_run.start)
  have live: "live stream_example 1" "\<not> live stream_example 0" "ss_streamId (st_heap stream_example 1) = replicate 16 7"
    by (simp_all add: live_def stream_example_def initStreamSequence_def startStreamSequence_def NewStreamBuffer_def Let_def
        newStreamSequenceId_def NewStreamSequence_def cancelStream_def StreamSequence_Cancel_def replicate_eq_replicate)
  have "IsControlSource (SourceId ControlId)" by code_simp
  moreover have "IdFromBytes (replicate 16 7) = Inr (replicate 16 7)" by (simp add: IdFromBytes_def)
  ultimately show ?thesis
    using stream_close_reaches [OF run, of "SourceId ControlId" "\<lambda>t b. Some (Msg_StreamClose b)" "replicate 16 7" "replicate 16 7" "replicate 16 7" False] live
    by blast
qed

end
