(* ===== verification/Message_Pool.thy ===== *)
theory Message_Pool
  imports Connect_Prelude
begin

text \<open>
  The pools of message buffers (message_pool.go): two pools of buffers of 2048 and 4096 bytes with a reference count in
  the last bytes of each buffer, the functions that take, share and return a message, and \<open>MessagePoolReadAll\<close>.

  The main facts: when every owner returns what it took or shared, taking never panics, and a message that is handed
  out is held by nobody else until its last owner has returned it; reading to the end collects what the reader gives,
  but a failing reader counts as an ending one.
\<close>

section \<open>Buffers and pools\<close>

text \<open>
  A buffer is an address; \<open>b_size\<close> is what is left of its bytes for the message, and the other fields are the meta
  bytes behind them. A message is a slice of a buffer: an offset and a length. Buffers that no pool made have no meta
  bytes that count (\<open>b_pooled\<close> is false), but they have the same room for them.
\<close>

record buffer =
  b_size :: nat
  b_pooled :: bool
  b_id :: u64
  b_tag :: byte
  b_shared :: bool
  b_count :: u16

record messagePool =
  mp_size :: nat
  mp_max :: nat
  mp_pool :: "ptr list"
  mp_nextId :: u64
  takenTags :: "byte \<Rightarrow> u64"
  returnedTags :: "byte \<Rightarrow> u64"
  createdTags :: "byte \<Rightarrow> u64"

record pools =
  orderedMessagePools :: "messagePool list"
  buffers :: "ptr \<Rightarrow> buffer"
  nextBuffer :: ptr

record message_slice =
  m_buffer :: ptr
  m_offset :: nat
  m_length :: nat

definition MessagePoolMetaByteCount :: nat where
  "MessagePoolMetaByteCount = 12"

definition newMessagePool :: "nat \<Rightarrow> nat \<Rightarrow> messagePool" where
  "newMessagePool room maxCount = \<lparr>mp_size = room, mp_max = maxCount, mp_pool = [], mp_nextId = 0,
     takenTags = \<lambda>_. 0, returnedTags = \<lambda>_. 0, createdTags = \<lambda>_. 0\<rparr>"

definition pool_Resize :: "nat \<Rightarrow> messagePool \<Rightarrow> messagePool" where
  "pool_Resize maxCount mp = mp\<lparr>mp_max := maxCount, mp_pool := take maxCount (mp_pool mp)\<rparr>"

definition pool_Clear :: "messagePool \<Rightarrow> messagePool" where
  "pool_Clear mp = mp\<lparr>mp_pool := []\<rparr>"

text \<open>The pools of 1 MiB each with which the program starts.\<close>

definition initialPools :: pools where
  "initialPools = \<lparr>orderedMessagePools = [newMessagePool 2048 512, newMessagePool 4096 256],
     buffers = \<lambda>_. \<lparr>b_size = 0, b_pooled = False, b_id = 0, b_tag = 0, b_shared = False, b_count = 0\<rparr>, nextBuffer = 0\<rparr>"

text \<open>The updates of one pool and of one buffer.\<close>

definition updPool :: "nat \<Rightarrow> (messagePool \<Rightarrow> messagePool) \<Rightarrow> pools \<Rightarrow> pools" where
  "updPool i f s = s\<lparr>orderedMessagePools := (orderedMessagePools s)[i := f (orderedMessagePools s ! i)]\<rparr>"

definition updBuffer :: "ptr \<Rightarrow> (buffer \<Rightarrow> buffer) \<Rightarrow> pools \<Rightarrow> pools" where
  "updBuffer p f s = s\<lparr>buffers := (buffers s)(p := f (buffers s p))\<rparr>"

text \<open>\<open>Get\<close> takes the newest buffer of the pool or makes one, whose tag 255 marks it as new.\<close>

definition pool_Get :: "nat \<Rightarrow> pools \<Rightarrow> pools \<times> ptr" where
  "pool_Get i s =
     (let mp = orderedMessagePools s ! i in
      if mp_pool mp \<noteq> [] then (updPool i (\<lambda>mp. mp\<lparr>mp_pool := butlast (mp_pool mp)\<rparr>) s, last (mp_pool mp))
      else
        let p = nextBuffer s;
            s = updPool i (\<lambda>mp. mp\<lparr>mp_nextId := mp_nextId mp + 1\<rparr>) s
        in (s\<lparr>buffers := (buffers s)(p := \<lparr>b_size = mp_size mp, b_pooled = True, b_id = mp_nextId mp + 1, b_tag = 255,
               b_shared = False, b_count = 0\<rparr>), nextBuffer := p + 1\<rparr>, p))"

definition pool_Put :: "nat \<Rightarrow> ptr \<Rightarrow> pools \<Rightarrow> pools" where
  "pool_Put i p s = updPool i (\<lambda>mp. if length (mp_pool mp) < mp_max mp then mp\<lparr>mp_pool := mp_pool mp @ [p]\<rparr> else mp) s"

text \<open>The first pool whose buffers are large enough, and the pool that a capacity belongs to.\<close>

definition poolFor :: "nat \<Rightarrow> pools \<Rightarrow> nat option" where
  "poolFor n s = find (\<lambda>i. n \<le> mp_size (orderedMessagePools s ! i)) [0..<length (orderedMessagePools s)]"

definition slice_cap :: "message_slice \<Rightarrow> pools \<Rightarrow> nat" where
  "slice_cap m s = b_size (buffers s (m_buffer m)) + MessagePoolMetaByteCount - m_offset m"

definition poolOf :: "message_slice \<Rightarrow> pools \<Rightarrow> nat option" where
  "poolOf m s = find (\<lambda>i. slice_cap m s = mp_size (orderedMessagePools s ! i) + MessagePoolMetaByteCount) [0..<length (orderedMessagePools s)]"

section \<open>Taking, sharing and returning\<close>

text \<open>\<open>None\<close> is the panic "already taken".\<close>

definition MessagePoolGetDetailedWithTag :: "nat \<Rightarrow> byte \<Rightarrow> pools \<Rightarrow> (pools \<times> message_slice \<times> bool) option" where
  "MessagePoolGetDetailedWithTag n tag s =
     (case poolFor n s of
        Some i \<Rightarrow>
          (case pool_Get i s of (s, p) \<Rightarrow>
             let c = (b_tag (buffers s p) = 255);
                 s = updBuffer p (\<lambda>b. b\<lparr>b_tag := tag\<rparr>) s;
                 s = updPool i (\<lambda>mp. mp\<lparr>createdTags := (if c then (createdTags mp)(tag := createdTags mp tag + 1) else createdTags mp),
                       takenTags := (takenTags mp)(tag := takenTags mp tag + 1)\<rparr>) s
             in if b_count (buffers s p) \<noteq> 0 then None
                else Some (updBuffer p (\<lambda>b. b\<lparr>b_count := 1\<rparr>) s, \<lparr>m_buffer = p, m_offset = 0, m_length = n\<rparr>, True))
      | None \<Rightarrow>
          let p = nextBuffer s in
          Some (s\<lparr>buffers := (buffers s)(p := \<lparr>b_size = n, b_pooled = False, b_id = 0, b_tag = 0, b_shared = False, b_count = 0\<rparr>),
                  nextBuffer := p + 1\<rparr>, \<lparr>m_buffer = p, m_offset = 0, m_length = n\<rparr>, False))"

definition MessagePoolGet :: "nat \<Rightarrow> pools \<Rightarrow> (pools \<times> message_slice) option" where
  "MessagePoolGet n s = map_option (\<lambda>(s, m, _). (s, m)) (MessagePoolGetDetailedWithTag n 0 s)"

text \<open>The message is recognised by its capacity.\<close>

definition MessagePoolReturn :: "message_slice \<Rightarrow> pools \<Rightarrow> pools \<times> bool" where
  "MessagePoolReturn m s =
     (case poolOf m s of None \<Rightarrow> (s, False)
      | Some i \<Rightarrow>
          let p = m_buffer m; count = b_count (buffers s p); tag = b_tag (buffers s p)
          in if count = 0 then (s, False)
             else if count = 1 then
               let s = updPool i (\<lambda>mp. mp\<lparr>returnedTags := (returnedTags mp)(tag := returnedTags mp tag + 1)\<rparr>) s;
                   s = updBuffer p (\<lambda>b. b\<lparr>b_tag := 0, b_shared := False, b_count := 0\<rparr>) s
               in (pool_Put i p s, True)
             else (updBuffer p (\<lambda>b. b\<lparr>b_count := count - 1\<rparr>) s, False))"

definition MessagePoolShareReadOnly :: "message_slice \<Rightarrow> pools \<Rightarrow> pools" where
  "MessagePoolShareReadOnly m s =
     (case poolOf m s of None \<Rightarrow> s
      | Some i \<Rightarrow>
          let p = m_buffer m in
          if b_count (buffers s p) = 0 then s
          else updBuffer p (\<lambda>b. b\<lparr>b_count := b_count b + 1, b_shared := True\<rparr>) s)"

definition MessagePoolCheck :: "message_slice \<Rightarrow> pools \<Rightarrow> bool \<times> bool" where
  "MessagePoolCheck m s =
     (case poolOf m s of None \<Rightarrow> (False, False)
      | Some i \<Rightarrow>
          let b = buffers s (m_buffer m) in if b_count b = 0 then (False, False) else (True, b_shared b))"

definition ResizeMessagePools :: "ByteCount \<Rightarrow> pools \<Rightarrow> pools" where
  "ResizeMessagePools maxByteCount s =
     s\<lparr>orderedMessagePools := map (\<lambda>mp. pool_Resize (nat (maxByteCount div int (mp_size mp))) mp) (orderedMessagePools s)\<rparr>"

definition ClearMessagePools :: "pools \<Rightarrow> pools" where
  "ClearMessagePools s = s\<lparr>orderedMessagePools := map pool_Clear (orderedMessagePools s)\<rparr>"

definition ResetMessagePoolStats :: "pools \<Rightarrow> pools" where
  "ResetMessagePoolStats s = s\<lparr>orderedMessagePools :=
     map (\<lambda>mp. mp\<lparr>takenTags := \<lambda>_. 0, returnedTags := \<lambda>_. 0, createdTags := \<lambda>_. 0\<rparr>) (orderedMessagePools s)\<rparr>"

section \<open>Reading to the end\<close>

text \<open>
  A reader gives chunks, each with a flag for an error (the end of the data is one) that comes with it; a chunk that
  is larger than the buffer is given in parts. After the last chunk it gives nothing and the error.
\<close>

type_synonym reader = "(byte list \<times> bool) list"

fun rd_Read :: "nat \<Rightarrow> reader \<Rightarrow> byte list \<times> bool \<times> reader" where
  "rd_Read k [] = ([], True, [])"
| "rd_Read k ((b, e) # r) = (if length b \<le> k then (b, e, r) else (take k b, False, (drop k b, e) # r))"

text \<open>
  \<open>MessagePoolReadAll\<close>: first the buffer of each pool is filled, in the order of their sizes, and then the output grows.
  \<open>Inl\<close> is the error; nothing read means the end, with or without an error.
\<close>

datatype fill_result = FillDone "byte list" | FillError | FillFull "byte list"

lemma rd_Read_smaller:
  "rd_Read k r = (b, e, r') \<Longrightarrow> b \<noteq> [] \<Longrightarrow>
   sum_list (map (Suc \<circ> length \<circ> fst) r') < sum_list (map (Suc \<circ> length \<circ> fst) r)"
  by (cases "(k, r)" rule: rd_Read.cases) (auto split: if_splits)

function fillBuffer :: "nat \<Rightarrow> byte list \<Rightarrow> reader \<Rightarrow> fill_result \<times> reader" where
  "fillBuffer room acc r =
     (if length acc < room then
        (case rd_Read (room - length acc) r of (b, e, r') \<Rightarrow>
           if b = [] then (FillDone acc, r') else if e then (FillError, r') else fillBuffer room (acc @ b) r')
      else (FillFull acc, r))"
  by pat_completeness auto
termination
  by (relation "measure (\<lambda>(_, _, r). sum_list (map (Suc \<circ> length \<circ> fst) r))") (auto dest!: rd_Read_smaller [OF sym] simp: comp_def)

fun fillBuffers :: "nat list \<Rightarrow> byte list \<Rightarrow> reader \<Rightarrow> fill_result \<times> reader" where
  "fillBuffers [] acc r = (FillFull acc, r)"
| "fillBuffers (room # rooms) acc r = (case fillBuffer room acc r of (FillFull acc, r) \<Rightarrow> fillBuffers rooms acc r | x \<Rightarrow> x)"

function readRest :: "nat \<Rightarrow> byte list \<Rightarrow> reader \<Rightarrow> unit + byte list" where
  "readRest room out r =
     (case rd_Read room r of (b, e, r') \<Rightarrow> if b = [] then Inr out else if e then Inl () else readRest room (out @ b) r')"
  by pat_completeness auto
termination
  by (relation "measure (\<lambda>(_, _, r). sum_list (map (Suc \<circ> length \<circ> fst) r))") (auto dest!: rd_Read_smaller [OF sym] simp: comp_def)

definition MessagePoolReadAll :: "nat list \<Rightarrow> reader \<Rightarrow> unit + byte list" where
  "MessagePoolReadAll rooms r =
     (case fillBuffers rooms [] r of (FillDone out, _) \<Rightarrow> Inr out | (FillError, _) \<Rightarrow> Inl ()
      | (FillFull acc, r) \<Rightarrow> readRest (last rooms) acc r)"

section \<open>Owners\<close>

text \<open>
  The runs of owners that keep the rules: a message is shared or returned only by somebody who holds it. \<open>held p\<close> counts
  the owners of the buffer \<open>p\<close>; the count in the buffer has 16 bits.
\<close>

definition whole :: "ptr \<Rightarrow> nat \<Rightarrow> message_slice" where
  "whole p n = \<lparr>m_buffer = p, m_offset = 0, m_length = n\<rparr>"

inductive pool_run :: "pools \<Rightarrow> (ptr \<Rightarrow> nat) \<Rightarrow> bool" where
  start: "pool_run initialPools (\<lambda>_. 0)"
| take: "pool_run s held \<Longrightarrow> MessagePoolGetDetailedWithTag n tag s = Some (s', m, pooled) \<Longrightarrow>
    pool_run s' (if pooled then held(m_buffer m := held (m_buffer m) + 1) else held)"
| share: "pool_run s held \<Longrightarrow> 0 < held p \<Longrightarrow> held p < 65535 \<Longrightarrow>
    pool_run (MessagePoolShareReadOnly (whole p n) s) (held(p := held p + 1))"
| return: "pool_run s held \<Longrightarrow> 0 < held p \<Longrightarrow> pool_run (fst (MessagePoolReturn (whole p n) s)) (held(p := held p - 1))"
| resize: "pool_run s held \<Longrightarrow> pool_run (ResizeMessagePools maxByteCount s) held"
| clear: "pool_run s held \<Longrightarrow> pool_run (ClearMessagePools s) held"
| reset: "pool_run s held \<Longrightarrow> pool_run (ResetMessagePoolStats s) held"

text \<open>
  The counts of the pooled buffers are the numbers of owners, and the buffers in a pool are of its size, each there
  once and without an owner.
\<close>

definition buffers_ok :: "pools \<Rightarrow> (ptr \<Rightarrow> nat) \<Rightarrow> bool" where
  "buffers_ok s held \<longleftrightarrow>
     (\<forall>p. p < nextBuffer s \<and> b_pooled (buffers s p) \<longrightarrow> unat (b_count (buffers s p)) = held p) \<and>
     (\<forall>p. p < nextBuffer s \<and> b_pooled (buffers s p) \<longrightarrow> b_size (buffers s p) = 2048 \<or> b_size (buffers s p) = 4096) \<and>
     (\<forall>p. 0 < held p \<longrightarrow> p < nextBuffer s \<and> b_pooled (buffers s p))"

definition pool_ok :: "pools \<Rightarrow> (ptr \<Rightarrow> nat) \<Rightarrow> messagePool \<Rightarrow> bool" where
  "pool_ok s held mp \<longleftrightarrow> distinct (mp_pool mp) \<and>
     (\<forall>p\<in>set (mp_pool mp). p < nextBuffer s \<and> b_pooled (buffers s p) \<and> b_size (buffers s p) = mp_size mp \<and> held p = 0)"

definition pools_ok :: "pools \<Rightarrow> (ptr \<Rightarrow> nat) \<Rightarrow> bool" where
  "pools_ok s held \<longleftrightarrow> buffers_ok s held \<and>
     (\<exists>a b. orderedMessagePools s = [a, b] \<and> mp_size a = 2048 \<and> mp_size b = 4096 \<and> pool_ok s held a \<and> pool_ok s held b)"

lemma pools_okE:
  assumes "pools_ok s held"
  obtains a b where "orderedMessagePools s = [a, b]" "mp_size a = 2048" "mp_size b = 4096" "pool_ok s held a" "pool_ok s held b" "buffers_ok s held"
  using assms by (auto simp: pools_ok_def)

lemma poolFor_two:
  "orderedMessagePools s = [a, b] \<Longrightarrow> poolFor n s = (if n \<le> mp_size a then Some 0 else if n \<le> mp_size b then Some 1 else None)"
  by (simp add: poolFor_def)

lemma poolOf_two:
  "orderedMessagePools s = [a, b] \<Longrightarrow> poolOf (whole p n) s =
     (if b_size (buffers s p) = mp_size a then Some 0 else if b_size (buffers s p) = mp_size b then Some 1 else None)"
  by (simp add: poolOf_def slice_cap_def whole_def MessagePoolMetaByteCount_def)

lemma pool_ok_mono:
  assumes "pool_ok s held mp" "nextBuffer s \<le> nextBuffer s'"
    "\<And>p. p \<in> set (mp_pool mp) \<Longrightarrow> b_pooled (buffers s' p) = b_pooled (buffers s p) \<and> b_size (buffers s' p) = b_size (buffers s p) \<and> held' p = held p"
    "mp_size mp' = mp_size mp" "distinct (mp_pool mp')" "set (mp_pool mp') \<subseteq> set (mp_pool mp)"
  shows "pool_ok s' held' mp'"
  unfolding pool_ok_def
proof (intro conjI ballI)
  fix p assume "p \<in> set (mp_pool mp')"
  then have p: "p \<in> set (mp_pool mp)" using assms(6) by blast
  then have old: "p < nextBuffer s" "b_pooled (buffers s p)" "b_size (buffers s p) = mp_size mp" "held p = 0"
    using assms(1) by (simp_all add: pool_ok_def)
  show "p < nextBuffer s'" using old(1) assms(2) by simp
  show "b_pooled (buffers s' p)" "b_size (buffers s' p) = mp_size mp'" "held' p = 0"
    using old assms(3) [OF p] assms(4) by simp_all
qed (rule assms(5))

lemma buffers_okD:
  assumes "buffers_ok s held"
  shows "p < nextBuffer s \<Longrightarrow> b_pooled (buffers s p) \<Longrightarrow> unat (b_count (buffers s p)) = held p"
    "p < nextBuffer s \<Longrightarrow> b_pooled (buffers s p) \<Longrightarrow> b_size (buffers s p) = 2048 \<or> b_size (buffers s p) = 4096"
    "0 < held p \<Longrightarrow> p < nextBuffer s" "0 < held p \<Longrightarrow> b_pooled (buffers s p)"
  using assms unfolding buffers_ok_def by blast+

lemma updPool_fields [simp]:
  "buffers (updPool i f s) = buffers s" "nextBuffer (updPool i f s) = nextBuffer s"
  by (simp_all add: updPool_def)

lemma pool_ok_updPool [simp]: "pool_ok (updPool i f s) held mp = pool_ok s held mp" "buffers_ok (updPool i f s) held = buffers_ok s held"
  by (simp_all add: pool_ok_def buffers_ok_def)

lemma pools_ok_updPool:
  assumes ok: "pools_ok s held"
    and f: "\<And>mp. pool_ok s held mp \<Longrightarrow> mp = orderedMessagePools s ! i \<Longrightarrow> pool_ok s held (f mp) \<and> mp_size (f mp) = mp_size mp"
  shows "pools_ok (updPool i f s) held"
proof -
  obtain a b where ab: "orderedMessagePools s = [a, b]" "mp_size a = 2048" "mp_size b = 4096" "pool_ok s held a" "pool_ok s held b" "buffers_ok s held"
    using ok by (rule pools_okE)
  consider "i = 0" | "i = 1" | "2 \<le> i" by linarith
  then show ?thesis
  proof cases
    case 1
    have "pool_ok s held (f a) \<and> mp_size (f a) = mp_size a" by (rule f) (use ab(1,4,5) 1 in simp_all)
    moreover have "orderedMessagePools (updPool i f s) = [f a, b]" using ab(1) 1 by (simp add: updPool_def)
    ultimately show ?thesis using ab(2-6) by (simp add: pools_ok_def)
  next
    case 2
    have "pool_ok s held (f b) \<and> mp_size (f b) = mp_size b" by (rule f) (use ab(1,4,5) 2 in simp_all)
    moreover have "orderedMessagePools (updPool i f s) = [a, f b]" using ab(1) 2 by (simp add: updPool_def)
    ultimately show ?thesis using ab(2-6) by (simp add: pools_ok_def)
  next
    case 3
    then have "length (orderedMessagePools s) \<le> i" using ab by simp
    then have "orderedMessagePools (updPool i f s) = [a, b]" using ab(1) by (simp add: updPool_def list_update_beyond del: list_update.simps)
    then show ?thesis using ab by (simp add: pools_ok_def)
  qed
qed

lemma pools_ok_nth: "pools_ok s held \<Longrightarrow> i < 2 \<Longrightarrow> pool_ok s held (orderedMessagePools s ! i) \<and> mp_size (orderedMessagePools s ! i) = (if i = 0 then 2048 else 4096)"
  by (elim pools_okE) (auto simp: less_2_cases_iff)

text \<open>A buffer can be in the pool of its size only.\<close>

lemma pools_ok_notin:
  assumes "pools_ok s held" "i < 2" "b_size (buffers s p) = mp_size (orderedMessagePools s ! i)" "p \<notin> set (mp_pool (orderedMessagePools s ! i))"
  shows "\<forall>mp\<in>set (orderedMessagePools s). p \<notin> set (mp_pool mp)"
  using assms by (elim pools_okE) (auto simp: less_2_cases_iff pool_ok_def)

lemma pools_ok_held_notin: "pools_ok s held \<Longrightarrow> 0 < held p \<Longrightarrow> \<forall>mp\<in>set (orderedMessagePools s). p \<notin> set (mp_pool mp)"
  by (elim pools_okE) (auto simp: pool_ok_def)

lemma free_updPool:
  assumes "pools_ok s held" "i < 2" "\<forall>mp\<in>set (orderedMessagePools s). p \<notin> set (mp_pool mp)" "\<And>mp. mp_pool (f mp) = mp_pool mp"
  shows "\<forall>mp\<in>set (orderedMessagePools (updPool i f s)). p \<notin> set (mp_pool mp)"
  using assms by (elim pools_okE) (auto simp: updPool_def less_2_cases_iff)

lemma last_notin_butlast: "distinct xs \<Longrightarrow> xs \<noteq> [] \<Longrightarrow> last xs \<notin> set (butlast xs)"
  by (induction xs rule: rev_induct) auto

text \<open>Taking from the pool \<open>i\<close>.\<close>

lemma pool_Get_ok:
  assumes ok: "pools_ok s held" and i: "i < 2" and get: "pool_Get i s = (s', p)"
  shows "held p = 0 \<and> b_pooled (buffers s' p) \<and> b_size (buffers s' p) = mp_size (orderedMessagePools s ! i) \<and> p < nextBuffer s' \<and>
    b_count (buffers s' p) = 0 \<and> pools_ok s' held \<and> (\<forall>mp\<in>set (orderedMessagePools s'). p \<notin> set (mp_pool mp))"
proof -
  define mp where "mp = orderedMessagePools s ! i"
  have mp: "pool_ok s held mp" "mp_size mp = (if i = 0 then 2048 else 4096)" using pools_ok_nth [OF ok i] by (simp_all add: mp_def)
  have bufs: "buffers_ok s held" using ok by (rule pools_okE)
  have len: "length (orderedMessagePools s) = 2" using ok by (elim pools_okE) simp
  show ?thesis
  proof (cases "mp_pool mp = []")
    case False
    let ?f = "\<lambda>mp. mp\<lparr>mp_pool := butlast (mp_pool mp)\<rparr>"
    have p: "p = last (mp_pool mp)" and s': "s' = updPool i ?f s"
      using get False by (auto simp: pool_Get_def mp_def Let_def)
    have in_mp: "p \<in> set (mp_pool mp)" using False p by simp
    then have pp: "p < nextBuffer s" "b_pooled (buffers s p)" "b_size (buffers s p) = mp_size mp" "held p = 0" "distinct (mp_pool mp)"
      using mp(1) by (auto simp: pool_ok_def)
    have "unat (b_count (buffers s p)) = 0" using buffers_okD(1) [OF bufs pp(1,2)] pp(4) by simp
    then have count: "b_count (buffers s p) = 0" by (simp add: unsigned_eq_0_iff)
    have ok': "pools_ok s' held" unfolding s'
      by (rule pools_ok_updPool [OF ok]) (auto simp: pool_ok_def distinct_butlast dest: in_set_butlastD)
    have nth: "orderedMessagePools s' ! i = ?f mp" using i len by (simp add: s' updPool_def mp_def)
    have "p \<notin> set (mp_pool (orderedMessagePools s' ! i))" unfolding nth using last_notin_butlast [OF pp(5) False] p by simp
    then have "\<forall>mp\<in>set (orderedMessagePools s'). p \<notin> set (mp_pool mp)"
      by (rule pools_ok_notin [OF ok' i, rotated]) (simp only: nth, simp add: s' pp)
    then show ?thesis using pp count ok' by (simp add: mp_def s')
  next
    case True
    define n where "n = updPool i (\<lambda>mp. mp\<lparr>mp_nextId := mp_nextId mp + 1\<rparr>) s"
    have p: "p = nextBuffer s" and s': "s' = n\<lparr>buffers := (buffers s)(p := \<lparr>b_size = mp_size mp, b_pooled = True,
          b_id = mp_nextId mp + 1, b_tag = 255, b_shared = False, b_count = 0\<rparr>), nextBuffer := p + 1\<rparr>"
      using get True by (auto simp: pool_Get_def mp_def Let_def n_def)
    have held: "held p = 0" using buffers_okD(3) [OF bufs, of p] p by (cases "held p") auto
    have n: "pools_ok n held" unfolding n_def by (rule pools_ok_updPool [OF ok]) (simp add: pool_ok_def)
    have fields: "nextBuffer n = nextBuffer s" "buffers n = buffers s" by (simp_all add: n_def)
    have fresh: "\<forall>mp\<in>set (orderedMessagePools n). p \<notin> set (mp_pool mp)" using n p fields by (elim pools_okE) (auto simp: pool_ok_def)
    have "pool_ok s' held mp'" if "pool_ok n held mp'" "p \<notin> set (mp_pool mp')" for mp'
      using that unfolding pool_ok_def s' by (auto simp: fields p)
    moreover have "buffers_ok s' held" using bufs held mp(2) unfolding s' p buffers_ok_def
      by (auto simp: less_Suc_eq)
    ultimately have "pools_ok s' held" using n fresh by (elim pools_okE) (simp add: pools_ok_def s')
    then show ?thesis using held fresh p by (simp add: s' mp_def)
  qed
qed

lemma poolFor_ok:
  assumes "pools_ok s held"
  shows "poolFor n s = (if n \<le> 2048 then Some 0 else if n \<le> 4096 then Some 1 else None)"
  using assms by (elim pools_okE) (simp add: poolFor_two)

text \<open>A change of the count of one buffer with its number of owners, which is in no pool.\<close>

lemma pools_ok_count:
  assumes ok: "pools_ok s held" and p: "p < nextBuffer s" "b_pooled (buffers s p)"
    and free: "\<forall>mp\<in>set (orderedMessagePools s). p \<notin> set (mp_pool mp)"
    and f: "\<And>b. b_pooled (f b) = b_pooled b \<and> b_size (f b) = b_size b" "unat (b_count (f (buffers s p))) = k"
  shows "pools_ok (updBuffer p f s) (held(p := k))"
proof -
  have "pool_ok (updBuffer p f s) (held(p := k)) mp = pool_ok s held mp" if "mp \<in> set (orderedMessagePools s)" for mp
  proof -
    have "p \<notin> set (mp_pool mp)" using free that by blast
    then show ?thesis using f(1) by (auto simp: pool_ok_def updBuffer_def)
  qed
  moreover have "buffers_ok (updBuffer p f s) (held(p := k))"
    using ok f p by (elim pools_okE) (auto simp: buffers_ok_def updBuffer_def)
  ultimately show ?thesis using ok by (elim pools_okE) (simp add: pools_ok_def updBuffer_def)
qed

lemma pool_Put_ok:
  assumes ok: "pools_ok s held" and i: "i < 2" and p: "p < nextBuffer s" "b_pooled (buffers s p)"
      "b_size (buffers s p) = mp_size (orderedMessagePools s ! i)" "held p = 0" "p \<notin> set (mp_pool (orderedMessagePools s ! i))"
  shows "pools_ok (pool_Put i p s) held"
  unfolding pool_Put_def using p by (intro pools_ok_updPool [OF ok]) (auto simp: pool_ok_def)

lemma pools_ok_map:
  assumes "pools_ok s held" "\<And>mp. pool_ok s held mp \<Longrightarrow> pool_ok s held (f mp) \<and> mp_size (f mp) = mp_size mp"
  shows "pools_ok (s\<lparr>orderedMessagePools := map f (orderedMessagePools s)\<rparr>) held"
proof -
  have "pool_ok (s\<lparr>orderedMessagePools := x\<rparr>) held mp = pool_ok s held mp" "buffers_ok (s\<lparr>orderedMessagePools := x\<rparr>) held = buffers_ok s held" for x mp
    by (simp_all add: pool_ok_def buffers_ok_def)
  then show ?thesis using assms by (elim pools_okE) (simp add: pools_ok_def)
qed

lemma Get_ok:
  assumes ok: "pools_ok s held" and n: "n \<le> 4096"
  shows "\<exists>s' p. MessagePoolGetDetailedWithTag n tag s = Some (s', whole p n, True) \<and> held p = 0 \<and> n \<le> b_size (buffers s' p) \<and>
    pools_ok s' (held(p := 1))"
proof -
  define i :: nat where "i = (if n \<le> 2048 then 0 else 1)"
  have i: "poolFor n s = Some i" "i < 2" "n \<le> mp_size (orderedMessagePools s ! i)"
    using poolFor_ok [OF ok] pools_ok_nth [OF ok, of i] n by (auto simp: i_def)
  obtain s1 p where get: "pool_Get i s = (s1, p)" by force
  note g = pool_Get_ok [OF ok i(2) get]
  define c where "c = (b_tag (buffers s1 p) = 255)"
  define s2 where "s2 = updBuffer p (\<lambda>b. b\<lparr>b_tag := tag\<rparr>) s1"
  define f :: "messagePool \<Rightarrow> messagePool" where "f = (\<lambda>mp. mp\<lparr>createdTags := (if c then (createdTags mp)(tag := createdTags mp tag + 1) else createdTags mp),
                       takenTags := (takenTags mp)(tag := takenTags mp tag + 1)\<rparr>)"
  define s3 where "s3 = updPool i f s2"
  have "pools_ok s2 (held(p := 0))" unfolding s2_def by (rule pools_ok_count) (use g in auto)
  moreover have "held(p := 0) = held" using g by auto
  ultimately have ok2: "pools_ok s2 held" by simp
  have ok3: "pools_ok s3 held" unfolding s3_def by (rule pools_ok_updPool [OF ok2]) (simp add: f_def pool_ok_def)
  have b3: "b_count (buffers s3 p) = 0" "p < nextBuffer s3" "b_pooled (buffers s3 p)" "b_size (buffers s3 p) = mp_size (orderedMessagePools s ! i)"
    using g by (simp_all add: s3_def s2_def updBuffer_def)
  have b2: "b_count (buffers s2 p) = 0" using b3(1) by (simp add: s3_def)
  have free: "\<forall>mp\<in>set (orderedMessagePools s3). p \<notin> set (mp_pool mp)" unfolding s3_def
    by (rule free_updPool [OF ok2 i(2)]) (use g in \<open>simp_all add: f_def s2_def updBuffer_def\<close>)
  define s4 where "s4 = updBuffer p (\<lambda>b. b\<lparr>b_count := 1\<rparr>) s3"
  have "pools_ok s4 (held(p := 1))" unfolding s4_def by (rule pools_ok_count [OF ok3 b3(2,3) free]) simp_all
  moreover have "MessagePoolGetDetailedWithTag n tag s = Some (s4, whole p n, True)"
    using b2 by (simp add: MessagePoolGetDetailedWithTag_def i(1) get Let_def c_def [symmetric] s2_def [symmetric] f_def [symmetric]
        s3_def [symmetric] s4_def whole_def)
  moreover have "n \<le> b_size (buffers s4 p)" using b3(4) i(3) by (simp add: s4_def updBuffer_def)
  ultimately show ?thesis using g by blast
qed

lemma Get_large:
  assumes ok: "pools_ok s held" and n: "4096 < n"
  shows "\<exists>s'. MessagePoolGetDetailedWithTag n tag s = Some (s', whole (nextBuffer s) n, False) \<and> pools_ok s' held \<and>
    held (nextBuffer s) = 0 \<and> b_size (buffers s' (nextBuffer s)) = n"
proof -
  let ?s = "s\<lparr>buffers := (buffers s)(nextBuffer s := \<lparr>b_size = n, b_pooled = False, b_id = 0, b_tag = 0, b_shared = False, b_count = 0\<rparr>),
    nextBuffer := nextBuffer s + 1\<rparr>"
  have bufs: "buffers_ok s held" using ok by (rule pools_okE)
  have held: "held (nextBuffer s) = 0" using buffers_okD(3) [OF bufs, of "nextBuffer s"] by (cases "held (nextBuffer s)") auto
  have "pool_ok ?s held mp = pool_ok s held mp" if "pool_ok s held mp" for mp
    using that by (auto simp: pool_ok_def)
  moreover have "buffers_ok ?s held" using bufs held by (auto simp: buffers_ok_def less_Suc_eq)
  ultimately have "pools_ok ?s held" using ok by (elim pools_okE) (simp add: pools_ok_def)
  moreover have "poolFor n s = None" using poolFor_ok [OF ok] n by simp
  ultimately show ?thesis using held by (simp add: MessagePoolGetDetailedWithTag_def whole_def Let_def)
qed

lemma poolOf_held:
  assumes ok: "pools_ok s held" and p: "0 < held p"
  obtains i where "poolOf (whole p n) s = Some i" "i < 2" "b_size (buffers s p) = mp_size (orderedMessagePools s ! i)"
proof -
  obtain a b where ab: "orderedMessagePools s = [a, b]" "mp_size a = 2048" "mp_size b = 4096" "buffers_ok s held"
    using ok by (elim pools_okE) blast
  show thesis using buffers_okD(2) [OF ab(4) buffers_okD(3,4) [OF ab(4) p]]
    that [of 0] that [of 1] ab poolOf_two [OF ab(1), of p n] by auto
qed

lemma Share_ok:
  assumes ok: "pools_ok s held" and p: "0 < held p" "held p < 65535"
  shows "pools_ok (MessagePoolShareReadOnly (whole p n) s) (held(p := held p + 1))"
proof -
  obtain i where i: "poolOf (whole p n) s = Some i" using poolOf_held [OF ok p(1)] by blast
  have bufs: "buffers_ok s held" using ok by (rule pools_okE)
  note b = buffers_okD(3,4) [OF bufs p(1)]
  have c: "unat (b_count (buffers s p)) = held p" by (rule buffers_okD(1) [OF bufs b])
  then have nz: "b_count (buffers s p) \<noteq> 0" using p(1) by auto
  have "unat (b_count (buffers s p) + 1) = held p + 1"
    using c p(2) by (simp add: unat_word_ariths)
  then have "pools_ok (updBuffer p (\<lambda>b. b\<lparr>b_count := b_count b + 1, b_shared := True\<rparr>) s) (held(p := held p + 1))"
    by (intro pools_ok_count [OF ok b pools_ok_held_notin [OF ok p(1)]]) simp_all
  then show ?thesis using i nz by (simp add: MessagePoolShareReadOnly_def whole_def)
qed

lemma Return_ok:
  assumes ok: "pools_ok s held" and p: "0 < held p"
  shows "pools_ok (fst (MessagePoolReturn (whole p n) s)) (held(p := held p - 1)) \<and>
    (snd (MessagePoolReturn (whole p n) s) \<longleftrightarrow> held p = 1)"
proof -
  obtain i where i: "poolOf (whole p n) s = Some i" "i < 2" "b_size (buffers s p) = mp_size (orderedMessagePools s ! i)"
    by (rule poolOf_held [OF ok p])
  have bufs: "buffers_ok s held" using ok by (rule pools_okE)
  note b = buffers_okD(3,4) [OF bufs p]
  have c: "unat (b_count (buffers s p)) = held p" by (rule buffers_okD(1) [OF bufs b])
  then have nz: "b_count (buffers s p) \<noteq> 0" using p by auto
  note free = pools_ok_held_notin [OF ok p]
  show ?thesis
  proof (cases "held p = 1")
    case True
    then have one: "b_count (buffers s p) = 1" using c by (metis unat_1 unsigned_word_eqI)
    define tag where "tag = b_tag (buffers s p)"
    define f :: "messagePool \<Rightarrow> messagePool" where "f = (\<lambda>mp. mp\<lparr>returnedTags := (returnedTags mp)(tag := returnedTags mp tag + 1)\<rparr>)"
    define s1 where "s1 = updPool i f s"
    have ok1: "pools_ok s1 held" unfolding s1_def by (rule pools_ok_updPool [OF ok]) (simp add: f_def pool_ok_def)
    have free1: "\<forall>mp\<in>set (orderedMessagePools s1). p \<notin> set (mp_pool mp)" unfolding s1_def
      by (rule free_updPool [OF ok i(2) free]) (simp add: f_def)
    define s2 where "s2 = updBuffer p (\<lambda>b. b\<lparr>b_tag := 0, b_shared := False, b_count := 0\<rparr>) s1"
    have ok2: "pools_ok s2 (held(p := 0))" unfolding s2_def
      by (rule pools_ok_count [OF ok1 _ _ free1]) (use b in \<open>simp_all add: s1_def\<close>)
    have fields: "orderedMessagePools s2 = orderedMessagePools s1" "nextBuffer s2 = nextBuffer s" "b_pooled (buffers s2 p)"
      "b_size (buffers s2 p) = b_size (buffers s p)" using b by (simp_all add: s2_def s1_def updBuffer_def)
    have nth: "mp_size (orderedMessagePools s2 ! i) = mp_size (orderedMessagePools s ! i)" "p \<notin> set (mp_pool (orderedMessagePools s2 ! i))"
      using pools_ok_nth [OF ok i(2)] pools_ok_nth [OF ok2 i(2)] fields(1) free1 ok1 i(2) by (auto elim!: pools_okE simp: less_2_cases_iff)
    have "pools_ok (pool_Put i p s2) (held(p := 0))"
      by (rule pool_Put_ok [OF ok2 i(2)]) (use b fields nth i(3) in simp_all)
    moreover have "MessagePoolReturn (whole p n) s = (pool_Put i p s2, True)"
      using i(1) one by (simp add: MessagePoolReturn_def s2_def s1_def f_def tag_def whole_def Let_def)
    ultimately show ?thesis using True by simp
  next
    case False
    then have two: "b_count (buffers s p) \<noteq> 1" using c by auto
    have "unat (b_count (buffers s p) - 1) = held p - 1" using c nz by (simp add: unat_minus_one)
    then have "pools_ok (updBuffer p (\<lambda>b'. b'\<lparr>b_count := b_count (buffers s p) - 1\<rparr>) s) (held(p := held p - 1))"
      by (intro pools_ok_count [OF ok b free]) simp_all
    then show ?thesis using i(1) nz two False by (simp add: MessagePoolReturn_def whole_def Let_def)
  qed
qed

lemma pool_run_ok: "pool_run s held \<Longrightarrow> pools_ok s held"
proof (induction rule: pool_run.induct)
  case start
  then show ?case by (simp add: pools_ok_def initialPools_def buffers_ok_def pool_ok_def newMessagePool_def)
next
  case (take s held n tag s' m pooled)
  show ?case
  proof (cases "n \<le> 4096")
    case True
    from Get_ok [OF take.IH this, of tag] take.hyps(2) show ?thesis by (auto simp: whole_def)
  next
    case False
    then have "4096 < n" by simp
    from Get_large [OF take.IH this, of tag] take.hyps(2) show ?thesis by auto
  qed
next
  case (share s held p n)
  show ?case by (rule Share_ok [OF share.IH share.hyps(2,3)])
next
  case (return s held p n)
  show ?case using Return_ok [OF return.IH return.hyps(2)] by blast
next
  case (resize s held maxByteCount)
  then show ?case unfolding ResizeMessagePools_def
    by (intro pools_ok_map) (auto simp: pool_ok_def pool_Resize_def dest: in_set_takeD)
next
  case (clear s held)
  then show ?case unfolding ClearMessagePools_def by (intro pools_ok_map) (auto simp: pool_ok_def pool_Clear_def)
next
  case (reset s held)
  then show ?case unfolding ResetMessagePoolStats_def by (intro pools_ok_map) (auto simp: pool_ok_def)
qed

section \<open>What reading to the end collects\<close>

declare fillBuffer.simps [simp del] readRest.simps [simp del]

definition clean :: "reader \<Rightarrow> bool" where
  "clean r \<longleftrightarrow> (\<forall>(b, e)\<in>set r. b \<noteq> [] \<and> \<not> e)"

definition content :: "reader \<Rightarrow> byte list" where
  "content r = concat (map fst r)"

lemma rd_Read_clean:
  assumes "clean r" "0 < k" "rd_Read k r = (b, e, r')"
  shows "clean r' \<and> content r = b @ content r' \<and> (b = [] \<longleftrightarrow> r = []) \<and> length b \<le> k \<and> (r \<noteq> [] \<longrightarrow> \<not> e)"
  using assms by (cases "(k, r)" rule: rd_Read.cases)
    (auto simp: clean_def content_def split: if_splits simp flip: append_assoc)

lemma fillBuffer_clean:
  assumes "clean r" "length acc \<le> room"
  shows "(fillBuffer room acc r = (FillDone (acc @ content r), []) \<and> length acc + length (content r) < room) \<or>
    (\<exists>acc' r'. fillBuffer room acc r = (FillFull acc', r') \<and> clean r' \<and> acc' @ content r' = acc @ content r \<and> length acc' = room)"
  using assms
proof (induction room acc r rule: fillBuffer.induct)
  case (1 room acc r)
  show ?case
  proof (cases "length acc < room")
    case False
    then show ?thesis using 1(2,3) by (subst (1 2) fillBuffer.simps) simp
  next
    case True
    obtain b e r' where r: "rd_Read (room - length acc) r = (b, e, r')" using prod_cases3 by blast
    have c: "clean r'" "content r = b @ content r'" "b = [] \<longleftrightarrow> r = []" "length b \<le> room - length acc" "r \<noteq> [] \<longrightarrow> \<not> e"
      using rd_Read_clean [OF 1(2) _ r] True by auto
    show ?thesis
    proof (cases "b = []")
      case True
      then have "r = []" using c(3) by simp
      then have "r' = []" using r by simp
      then show ?thesis using True \<open>r = []\<close> \<open>length acc < room\<close> by (subst (1 2) fillBuffer.simps) (simp add: content_def)
    next
      case False
      then have e: "\<not> e" using c(3,5) by simp
      have step: "fillBuffer room acc r = fillBuffer room (acc @ b) r'"
        using True r False e by (subst fillBuffer.simps) simp
      have "length (acc @ b) \<le> room" using c(4) True by simp
      from 1(1) [OF True r [symmetric] refl False e c(1) this] show ?thesis unfolding step using c(2) by (simp add: add.assoc)
    qed
  qed
qed

lemma fillBuffers_clean:
  assumes "clean r" "sorted_wrt (<) (length acc # rooms)"
  shows "(\<exists>r'. fillBuffers rooms acc r = (FillDone (acc @ content r), r')) \<or>
    (\<exists>acc' r'. fillBuffers rooms acc r = (FillFull acc', r') \<and> clean r' \<and> acc' @ content r' = acc @ content r)"
  using assms
proof (induction rooms acc r rule: fillBuffers.induct)
  case (2 room rooms acc r)
  have "length acc \<le> room" using 2(3) by simp
  from fillBuffer_clean [OF 2(2) this] show ?case
  proof (elim disjE exE conjE)
    fix acc' r' assume f: "fillBuffer room acc r = (FillFull acc', r')" "clean r'" "acc' @ content r' = acc @ content r" "length acc' = room"
    have "sorted_wrt (<) (length acc' # rooms)" using 2(3) f(4) by simp
    from 2(1) [OF f(1) [symmetric] refl f(2) this] show ?thesis using f by auto
  qed simp
qed simp

lemma readRest_clean: "clean r \<Longrightarrow> 0 < room \<Longrightarrow> readRest room out r = Inr (out @ content r)"
proof (induction room out r rule: readRest.induct)
  case (1 room out r)
  obtain b e r' where r: "rd_Read room r = (b, e, r')" using prod_cases3 by blast
  note c = rd_Read_clean [OF 1(2,3) r]
  show ?case
  proof (cases "b = []")
    case True
    then show ?thesis using c r by (subst readRest.simps) (simp add: content_def)
  next
    case False
    then have "\<not> e" using c by auto
    from 1(1) [OF r [symmetric] refl False this] c 1(3) show ?thesis using r False \<open>\<not> e\<close> by (subst readRest.simps) simp
  qed
qed

section \<open>Properties\<close>

text \<open>
  C28: When messages are shared and returned by their owners only, taking a message never panics, what is taken is
  large enough, nobody holds it, and no buffer that somebody holds is in a pool; returning puts a message back exactly
  when its last owner returns it.
\<close>

theorem messages_exclusive:
  assumes "pool_run s held"
  shows "(\<forall>n tag. \<exists>s' p pooled. MessagePoolGetDetailedWithTag n tag s = Some (s', whole p n, pooled) \<and> held p = 0 \<and> n \<le> b_size (buffers s' p)) \<and>
    (\<forall>mp\<in>set (orderedMessagePools s). \<forall>p\<in>set (mp_pool mp). held p = 0) \<and>
    (\<forall>p n. 0 < held p \<longrightarrow> (snd (MessagePoolReturn (whole p n) s) \<longleftrightarrow> held p = 1))"
proof (intro conjI allI ballI impI)
  have ok: "pools_ok s held" by (rule pool_run_ok [OF assms])
  fix n tag show "\<exists>s' p pooled. MessagePoolGetDetailedWithTag n tag s = Some (s', whole p n, pooled) \<and> held p = 0 \<and> n \<le> b_size (buffers s' p)"
  proof (cases "n \<le> 4096")
    case False
    then have "4096 < n" by simp
    from Get_large [OF ok this, of tag] show ?thesis by auto
  qed (use Get_ok [OF ok, of n tag] in auto)
next
  fix mp p assume "mp \<in> set (orderedMessagePools s)" "p \<in> set (mp_pool mp)"
  then show "held p = 0" using pool_run_ok [OF assms] by (elim pools_okE) (auto simp: pool_ok_def)
next
  fix p n assume "0 < held p"
  then show "snd (MessagePoolReturn (whole p n) s) \<longleftrightarrow> held p = 1" using Return_ok [OF pool_run_ok [OF assms]] by blast
qed

text \<open>A message is taken and shared, so the first return keeps it.\<close>

definition pool_example :: pools where
  "pool_example = (case MessagePoolGetDetailedWithTag 100 0 initialPools of Some (s, m, _) \<Rightarrow> MessagePoolShareReadOnly m s | None \<Rightarrow> initialPools)"

theorem messages_exclusive_witness:
  "\<not> snd (MessagePoolReturn (whole 0 100) pool_example) \<and>
   (\<exists>s' p pooled. MessagePoolGetDetailedWithTag 3000 7 pool_example = Some (s', whole p 3000, pooled) \<and> p \<noteq> 0)"
proof -
  obtain s m pooled where get: "MessagePoolGetDetailedWithTag 100 0 initialPools = Some (s, m, pooled)" "m = whole 0 100" "pooled"
    by (simp add: MessagePoolGetDetailedWithTag_def initialPools_def poolFor_def newMessagePool_def pool_Get_def updPool_def updBuffer_def
        whole_def Let_def)
  have "pool_run s ((\<lambda>_. 0)(0 := 1))" using pool_run.take [OF pool_run.start get(1)] get(2,3) by (simp add: whole_def)
  from pool_run.share [OF this, of 0 100] have "pool_run (MessagePoolShareReadOnly (whole 0 100) s) ((\<lambda>_. 0)(0 := 2))" by (simp add: numeral_2_eq_2)
  then have run: "pool_run pool_example ((\<lambda>_. 0)(0 := 2))" using get by (simp add: pool_example_def)
  note e = messages_exclusive [OF run]
  obtain s' p pooled' where t: "MessagePoolGetDetailedWithTag 3000 7 pool_example = Some (s', whole p 3000, pooled')" "((\<lambda>_. 0)(0 := 2)) p = (0 :: nat)"
    using e by blast
  then have "p \<noteq> 0" by (simp split: if_splits)
  then show ?thesis using e t by (metis fun_upd_same numeral_One numeral_eq_iff semiring_norm(85) zero_less_numeral)
qed

text \<open>
  C31: \<open>MessagePoolReadAll\<close> returns everything that a reader gives in non-empty chunks without an error, however large
  and however cut.
\<close>

theorem read_all_complete:
  assumes "clean r"
  shows "MessagePoolReadAll [2048, 4096] r = Inr (content r)"
proof -
  have "sorted_wrt (<) (length ([] :: byte list) # [2048, 4096])" by simp
  from fillBuffers_clean [OF assms this] show ?thesis
    by (auto simp: MessagePoolReadAll_def readRest_clean split: fill_result.split)
qed

theorem read_all_complete_witness:
  "MessagePoolReadAll [2048, 4096] [(replicate 3000 1, False), (replicate 3000 2, False)] = Inr (replicate 3000 1 @ replicate 3000 2)"
proof -
  have "clean [(replicate 3000 1, False), (replicate 3000 2, False)]" by (simp add: clean_def)
  from read_all_complete [OF this] show ?thesis by (simp add: content_def)
qed

text \<open>
  A reader that fails without data counts as one that ended, and the data that comes together with the end of the
  input is lost with an error.
\<close>

lemma read_all_hides_failure:
  "MessagePoolReadAll [2048, 4096] [([1, 2], False), ([], True), ([3], False)] = Inr [1, 2]"
  "MessagePoolReadAll [2048, 4096] [([1, 2], True)] = Inl ()"
  by (simp_all add: MessagePoolReadAll_def fillBuffer.simps)

text \<open>A slice that does not begin at the start of its buffer has another capacity: returning it does nothing.\<close>

lemma return_of_inner_slice:
  assumes "pool_run s held" "b_size (buffers s p) = 2048" "0 < k" "k \<le> 2048"
  shows "MessagePoolReturn \<lparr>m_buffer = p, m_offset = k, m_length = n\<rparr> s = (s, False)"
proof -
  have "2060 - k \<noteq> 4108" "2060 - k \<noteq> 2060" using assms(3,4) by auto
  then show ?thesis using pool_run_ok [OF assms(1)] assms(2)
    by (elim pools_okE) (simp add: MessagePoolReturn_def poolOf_def slice_cap_def MessagePoolMetaByteCount_def)
qed

end
