(* ===== verification/Message_Framer.thy ===== *)
theory Message_Framer
  imports Message_Pool
begin

text \<open>
  The message framer (message_framer.go): messages are written to a connection behind a header of four bytes, in one
  write or, from a minimum length on, in two, and read back from a stream or from packets. The buffers come from the
  message pool; here they are their bytes.

  The main facts: what was written is read back in order, from a stream however it is cut as long as a header arrives
  in one piece, and from packets; a message that is too long is refused on both sides.
\<close>

section \<open>Settings\<close>

record FramerSettings =
  MaxMessageLen :: nat
  MaxPacketMessageLen :: nat
  SplitMinimumLen :: nat

definition DefaultFramerSettings :: FramerSettings where
  "DefaultFramerSettings = \<lparr>MaxMessageLen = 2048 - 4, MaxPacketMessageLen = 2048 - 4, SplitMinimumLen = 256\<rparr>"

text \<open>The two buffers of a framer are made and checked, and not used; \<open>None\<close> is the panic.\<close>

definition NewFramer :: "FramerSettings \<Rightarrow> FramerSettings option" where
  "NewFramer st = (if MaxMessageLen st < SplitMinimumLen st + 4 then None else Some st)"

datatype framer_error = MaxExceeded | NoHeader | ReadError | WriteError

section \<open>Writing\<close>

definition putUint16 :: "nat \<Rightarrow> byte list" where
  "putUint16 n = [of_nat (n div 256), of_nat n]"

definition uint16 :: "byte list \<Rightarrow> nat" where
  "uint16 h = 256 * unat (h ! 0) + unat (h ! 1)"

text \<open>\<open>fails i\<close>: the i-th write to the connection fails. The writes that were made are returned too.\<close>

definition Framer_Write :: "(nat \<Rightarrow> bool) \<Rightarrow> FramerSettings \<Rightarrow> byte list \<Rightarrow> byte list list \<times> framer_error option" where
  "Framer_Write fails st m =
     (let n = length m in
      if MaxMessageLen st < n then ([], Some MaxExceeded)
      else if 65535 < n then ([], Some MaxExceeded)
      else if n < max 16 (SplitMinimumLen st) then
        (let w = putUint16 n @ putUint16 0 @ m in if fails 0 then ([], Some WriteError) else ([w], None))
      else
        let splitIndex = n div 2;
            w = putUint16 n @ putUint16 splitIndex @ take splitIndex m
        in if fails 0 then ([], Some WriteError)
           else if fails 1 then ([w], Some WriteError)
           else ([w, drop splitIndex m], None))"

section \<open>Reading\<close>

text \<open>
  A stream keeps what did not fit into the buffer of a read, a packet reader drops it. \<open>readFull\<close> is \<open>io.ReadFull\<close>:
  an error that comes with the last byte is ignored.
\<close>

fun fr_Read :: "bool \<Rightarrow> nat \<Rightarrow> reader \<Rightarrow> byte list \<times> bool \<times> reader" where
  "fr_Read packets k [] = ([], True, [])"
| "fr_Read packets k ((b, e) # r) =
     (if length b \<le> k then (b, e, r) else if packets then (take k b, e, r) else (take k b, False, (drop k b, e) # r))"

lemma fr_Read_smaller:
  "fr_Read packets k r = (b, e, r') \<Longrightarrow> 0 < k \<Longrightarrow> \<not> e \<Longrightarrow>
   sum_list (map (Suc \<circ> length \<circ> fst) r') < sum_list (map (Suc \<circ> length \<circ> fst) r)"
  by (cases "(packets, k, r)" rule: fr_Read.cases) (auto split: if_splits)

function readFull :: "bool \<Rightarrow> nat \<Rightarrow> byte list \<Rightarrow> reader \<Rightarrow> framer_error + byte list \<times> reader" where
  "readFull packets n acc r =
     (if n \<le> length acc then Inr (acc, r)
      else case fr_Read packets (n - length acc) r of (b, e, r') \<Rightarrow>
        if n \<le> length (acc @ b) then Inr (acc @ b, r')
        else if e then Inl ReadError else readFull packets n (acc @ b) r')"
  by pat_completeness auto
termination
  by (relation "measure (\<lambda>(_, _, _, r). sum_list (map (Suc \<circ> length \<circ> fst) r))")
    (auto dest!: fr_Read_smaller [OF sym] simp: comp_def)

declare readFull.simps [simp del]

definition Framer_Read :: "FramerSettings \<Rightarrow> reader \<Rightarrow> framer_error + byte list \<times> reader" where
  "Framer_Read st r =
     (case fr_Read False 4 r of (h, e, r) \<Rightarrow>
        if e then Inl ReadError
        else if length h < 4 then Inl NoHeader
        else let messageLen = uint16 h in
          if MaxMessageLen st < messageLen then Inl MaxExceeded else readFull False messageLen [] r)"

text \<open>
  A packet is read into a buffer of the pool; \<open>poolCap\<close> is the capacity of the buffer that the pool gives. The slice
  for the message may exceed it: \<open>None\<close> is that panic.
\<close>

definition poolCap :: "nat \<Rightarrow> nat" where
  "poolCap n = (if n \<le> 2048 then 2048 else if n \<le> 4096 then 4096 else n) + MessagePoolMetaByteCount"

definition Framer_ReadPacket :: "FramerSettings \<Rightarrow> reader \<Rightarrow> (framer_error + byte list \<times> reader) option" where
  "Framer_ReadPacket st r =
     (let k = MaxPacketMessageLen st + 4 in
      case fr_Read True k r of (h, e, r) \<Rightarrow>
        if e then Some (Inl ReadError)
        else if length h < 4 then Some (Inl NoHeader)
        else let messageLen = uint16 h in
          if MaxMessageLen st < messageLen then Some (Inl MaxExceeded)
          else if poolCap k < messageLen + 4 then None
          else Some (readFull True messageLen (take messageLen (drop 4 h)) r))"

section \<open>What a read gives\<close>

lemma length_putUint16 [simp]: "length (putUint16 n) = 2"
  by (simp add: putUint16_def)

lemma uint16_put [simp]: "n \<le> 65535 \<Longrightarrow> uint16 (putUint16 n @ xs) = n"
  by (simp add: uint16_def putUint16_def unat_of_nat take_bit_eq_mod)

lemma fr_Read_stream: "fr_Read False k r = rd_Read k r"
  by (cases "(k, r)" rule: rd_Read.cases) auto

lemma readFull_clean:
  assumes "clean r" "content r = b @ rest" "length (acc @ b) = n"
  shows "\<exists>r'. readFull False n acc r = Inr (acc @ b, r') \<and> clean r' \<and> content r' = rest"
  using assms
proof (induction "False" n acc r arbitrary: b rule: readFull.induct)
  case (1 n acc r)
  show ?case
  proof (cases "n \<le> length acc")
    case True
    then have "b = []" using 1(4) by (cases b) auto
    then show ?thesis using True 1(2-4) by (subst readFull.simps) simp
  next
    case False
    obtain c e r' where r: "fr_Read False (n - length acc) r = (c, e, r')" using prod_cases3 by blast
    have r2: "rd_Read (n - length acc) r = (c, e, r')" using r by (simp add: fr_Read_stream)
    have c: "clean r'" "content r = c @ content r'" "c = [] \<longleftrightarrow> r = []" "length c \<le> n - length acc" "r \<noteq> [] \<longrightarrow> \<not> e"
      using rd_Read_clean [OF 1(2) _ r2] False by auto
    have "r \<noteq> []" using 1(3,4) False by (auto simp: content_def)
    then have "c \<noteq> []" "\<not> e" using c by auto
    have len: "length c \<le> length b" using c(4) 1(4) False by auto
    then obtain b' where b: "b = c @ b'" "content r' = b' @ rest"
      using c(2) 1(3) by (metis append_eq_append_conv_if append_take_drop_id append_eq_conv_conj)
    show ?thesis
    proof (cases "n \<le> length (acc @ c)")
      case True
      then have "b' = []" using 1(4) b by (cases b') auto
      then show ?thesis using False True r b c(1) by (subst readFull.simps) simp
    next
      case more: False
      have "length ((acc @ c) @ b') = n" using 1(4) b by simp
      from 1(1) [OF False r [symmetric] refl more \<open>\<not> e\<close> c(1) b(2) this]
      show ?thesis using False more r \<open>\<not> e\<close> b by (subst readFull.simps) simp
    qed
  qed
qed

text \<open>The frame of a message in the stream, and reading it from any cut that leaves the header whole.\<close>

definition frame_of :: "FramerSettings \<Rightarrow> byte list \<Rightarrow> byte list" where
  "frame_of st m = concat (fst (Framer_Write (\<lambda>_. False) st m))"

lemma frame_of_eq:
  assumes "length m \<le> MaxMessageLen st" "length m \<le> 65535"
  shows "frame_of st m = putUint16 (length m) @ putUint16 (if length m < max 16 (SplitMinimumLen st) then 0 else length m div 2) @ m"
  using assms by (simp add: frame_of_def Framer_Write_def Let_def)

lemma Framer_Read_frame:
  assumes "length m \<le> MaxMessageLen st" "length m \<le> 65535" "clean r" "content r = frame_of st m @ rest" "4 \<le> length (fst (hd r))"
  shows "\<exists>r'. Framer_Read st r = Inr (m, r') \<and> clean r' \<and> content r' = rest"
proof -
  obtain k where f: "content r = putUint16 (length m) @ putUint16 k @ m @ rest" using frame_of_eq [OF assms(1,2)] assms(4) by auto
  then obtain b e r0 where r: "r = (b, e) # r0" by (cases r) (auto simp: content_def putUint16_def)
  have e: "\<not> e" "b \<noteq> []" "clean r0" using assms(3) r by (auto simp: clean_def)
  define h where "h = take 4 b"
  have "take 4 (content r) = h" using assms(5) r by (simp add: h_def content_def)
  then have h: "h = putUint16 (length m) @ putUint16 k" by (simp add: f)
  obtain r1 where r1: "fr_Read False 4 r = (h, False, r1)" "clean r1" "content r = h @ content r1"
  proof (cases "length b = 4")
    case True
    then show thesis using r e that [of r0] by (simp add: h_def content_def)
  next
    case False
    then have "clean ((drop 4 b, False) # r0)" using e(3) assms(5) r by (simp add: clean_def)
    then show thesis using False r e(1) assms(5) that [of "(drop 4 b, False) # r0"]
      by (simp add: h_def content_def flip: append_assoc)
  qed
  have "content r1 = m @ rest" using r1(3) f h by simp
  from readFull_clean [OF r1(2) this, of "[]"] show ?thesis
    using r1(1) assms(1,2) h by (simp add: Framer_Read_def)
qed

section \<open>Properties\<close>

fun framer_reads :: "FramerSettings \<Rightarrow> nat \<Rightarrow> reader \<Rightarrow> (framer_error + byte list) list" where
  "framer_reads st 0 r = []"
| "framer_reads st (Suc n) r = (case Framer_Read st r of Inl e \<Rightarrow> [Inl e] | Inr (m, r) \<Rightarrow> Inr m # framer_reads st n r)"

text \<open>The reads of the other side when every write arrives as one chunk.\<close>

definition written :: "FramerSettings \<Rightarrow> byte list list \<Rightarrow> reader" where
  "written st ms = map (\<lambda>b. (b, False)) (concat (map (\<lambda>m. fst (Framer_Write (\<lambda>_. False) st m)) ms))"

lemma written_Cons: "written st (m # ms) = map (\<lambda>b. (b, False)) (fst (Framer_Write (\<lambda>_. False) st m)) @ written st ms"
  by (simp add: written_def)

lemma write_chunks:
  assumes "length m \<le> MaxMessageLen st" "length m \<le> 65535"
  obtains b bs where "fst (Framer_Write (\<lambda>_. False) st m) = b # bs" "4 \<le> length b" "\<forall>b\<in>set bs. b \<noteq> []"
proof (cases "length m < max 16 (SplitMinimumLen st)")
  case True
  then show thesis using assms
    by (intro that [of "putUint16 (length m) @ putUint16 0 @ m" "[]"]) (simp_all add: Framer_Write_def Let_def)
next
  case False
  then have "length m div 2 < length m" by (intro div_less_dividend) auto
  then show thesis using False assms
    by (intro that [of "putUint16 (length m) @ putUint16 (length m div 2) @ take (length m div 2) m" "[drop (length m div 2) m]"])
      (simp_all add: Framer_Write_def Let_def)
qed

lemma clean_written: "\<forall>m\<in>set ms. length m \<le> MaxMessageLen st \<and> length m \<le> 65535 \<Longrightarrow> clean (written st ms)"
proof (induction ms)
  case (Cons m ms)
  obtain b bs where w: "fst (Framer_Write (\<lambda>_. False) st m) = b # bs" "4 \<le> length b" "\<forall>b\<in>set bs. b \<noteq> []"
    by (rule write_chunks [of m st]) (use Cons.prems in auto)
  then show ?case using Cons by (auto simp: written_Cons clean_def)
qed (simp add: written_def clean_def)

lemma content_written: "content (written st (m # ms)) = frame_of st m @ content (written st ms)"
  by (simp add: written_Cons content_def frame_of_def comp_def)

text \<open>After a frame that came in its own chunks, the reader is exactly at the next chunk.\<close>

lemma readFull_chunks:
  assumes "\<forall>b\<in>set bs. b \<noteq> []" "length (acc @ concat bs) = n"
  shows "readFull packets n acc (map (\<lambda>b. (b, False)) bs @ r) = Inr (acc @ concat bs, r)"
  using assms
proof (induction bs arbitrary: acc)
  case Nil
  then show ?case by (subst readFull.simps) simp
next
  case (Cons b bs)
  have read: "fr_Read packets (n - length acc) (map (\<lambda>b. (b, False)) (b # bs) @ r) = (b, False, map (\<lambda>b. (b, False)) bs @ r)"
    using Cons.prems by auto
  have more: "\<not> n \<le> length acc" using Cons.prems by (cases b) auto
  show ?case
  proof (cases "bs = []")
    case True
    then show ?thesis using more read Cons.prems(2) by (subst readFull.simps) simp
  next
    case False
    then have "concat bs \<noteq> []" using Cons.prems(1) by (cases bs) auto
    then have "\<not> n \<le> length (acc @ b)" using Cons.prems(2) by (cases "concat bs") auto
    moreover have "readFull packets n (acc @ b) (map (\<lambda>b. (b, False)) bs @ r) = Inr ((acc @ b) @ concat bs, r)"
      by (rule Cons.IH) (use Cons.prems in auto)
    ultimately show ?thesis using more read by (subst readFull.simps) simp
  qed
qed

lemma header_of:
  assumes "length m \<le> MaxMessageLen st" "length m \<le> 65535" "fst (Framer_Write (\<lambda>_. False) st m) = b # bs"
  shows "uint16 (take 4 b) = length m" "drop 4 b @ concat bs = m" "length (take 4 b) = 4"
  using assms by (auto simp: Framer_Write_def Let_def split: if_splits)

lemma Framer_Read_chunks:
  assumes "length m \<le> MaxMessageLen st" "length m \<le> 65535"
  shows "Framer_Read st (written st (m # ms)) = Inr (m, written st ms)"
proof -
  obtain b bs where w: "fst (Framer_Write (\<lambda>_. False) st m) = b # bs" "4 \<le> length b" "\<forall>b\<in>set bs. b \<noteq> []"
    by (rule write_chunks [OF assms])
  note h = header_of [OF assms w(1)]
  define bs' where "bs' = (if length b = 4 then bs else drop 4 b # bs)"
  have read: "fr_Read False 4 (written st (m # ms)) = (take 4 b, False, map (\<lambda>b. (b, False)) bs' @ written st ms)"
    using w by (auto simp: written_Cons bs'_def)
  have bs': "concat bs' = m" "\<forall>b\<in>set bs'. b \<noteq> []" using h(2) w(2,3) by (auto simp: bs'_def)
  have "readFull False (length m) [] (map (\<lambda>b. (b, False)) bs' @ written st ms) = Inr (m, written st ms)"
    using readFull_chunks [OF bs'(2), of "[]" "length m" False "written st ms"] bs'(1) by simp
  then show ?thesis using read h assms(1) by (simp add: Framer_Read_def)
qed

lemma framer_reads_written:
  "\<forall>m\<in>set ms. length m \<le> MaxMessageLen st \<and> length m \<le> 65535 \<Longrightarrow>
   framer_reads st (length ms) (written st ms) = map Inr ms"
  by (induction ms) (simp_all add: Framer_Read_chunks)

lemma Framer_ReadPacket_chunks:
  assumes "length m \<le> MaxMessageLen st" "length m \<le> 65535" "length m \<le> MaxPacketMessageLen st"
  shows "Framer_ReadPacket st (written st (m # ms)) = Some (Inr (m, written st ms))"
proof -
  obtain b bs where w: "fst (Framer_Write (\<lambda>_. False) st m) = b # bs" "4 \<le> length b" "\<forall>b\<in>set bs. b \<noteq> []"
    by (rule write_chunks [OF assms(1,2)])
  note h = header_of [OF assms(1,2) w(1)]
  have "length (drop 4 b @ concat bs) = length m" using h(2) by simp
  then have len: "length b \<le> MaxPacketMessageLen st + 4" using assms(3) by simp
  then have read: "fr_Read True (MaxPacketMessageLen st + 4) (written st (m # ms)) = (b, False, map (\<lambda>b. (b, False)) bs @ written st ms)"
    using w by (simp add: written_Cons)
  have "uint16 b = length m" using h(1) w(2) by (simp add: uint16_def)
  moreover have "take (length m) (drop 4 b) = drop 4 b" using h(2) by (metis append_eq_conv_conj length_append le_add1 take_all)
  moreover have "readFull True (length m) (drop 4 b) (map (\<lambda>b. (b, False)) bs @ written st ms) = Inr (m, written st ms)"
    using readFull_chunks [OF w(3), of "drop 4 b" "length m" True "written st ms"] h(2) by simp
  moreover have "\<not> poolCap (MaxPacketMessageLen st + 4) < length m + 4" using assms(3) by (simp add: poolCap_def)
  ultimately show ?thesis using read w(2) assms(1) by (simp add: Framer_ReadPacket_def Let_def)
qed

text \<open>
  C29: The messages that were written are read back in order, each whole, when every write arrives in one piece; a
  single message is read back from any cut of the stream that leaves its header whole; and the same for packets.
  Messages above the maximum are refused without a write.
\<close>

theorem framer_roundtrip:
  assumes "\<forall>m\<in>set ms. length m \<le> MaxMessageLen st \<and> length m \<le> 65535"
  shows "framer_reads st (length ms) (written st ms) = map Inr ms \<and>
    (\<forall>m rest r. m \<in> set ms \<and> clean r \<and> content r = frame_of st m @ rest \<and> 4 \<le> length (fst (hd r)) \<longrightarrow>
       (\<exists>r'. Framer_Read st r = Inr (m, r') \<and> content r' = rest)) \<and>
    (ms \<noteq> [] \<and> length (hd ms) \<le> MaxPacketMessageLen st \<longrightarrow> Framer_ReadPacket st (written st ms) = Some (Inr (hd ms, written st (tl ms)))) \<and>
    (\<forall>m fails. MaxMessageLen st < length m \<longrightarrow> Framer_Write fails st m = ([], Some MaxExceeded))"
proof (intro conjI allI impI)
  show "framer_reads st (length ms) (written st ms) = map Inr ms" by (rule framer_reads_written [OF assms])
  show "\<exists>r'. Framer_Read st r = Inr (m, r') \<and> content r' = rest"
    if "m \<in> set ms \<and> clean r \<and> content r = frame_of st m @ rest \<and> 4 \<le> length (fst (hd r))" for m rest r
    using Framer_Read_frame [of m st r rest] that assms by auto
  show "Framer_ReadPacket st (written st ms) = Some (Inr (hd ms, written st (tl ms)))"
    if "ms \<noteq> [] \<and> length (hd ms) \<le> MaxPacketMessageLen st"
    using that assms Framer_ReadPacket_chunks [of "hd ms" st "tl ms"] by (cases ms) auto
qed (simp add: Framer_Write_def)

theorem framer_roundtrip_witness:
  "framer_reads DefaultFramerSettings 2 (written DefaultFramerSettings [replicate 300 5, [1]]) = [Inr (replicate 300 5), Inr [1]]"
proof -
  let ?ms = "[replicate 300 5, [1]] :: byte list list"
  have "\<forall>m\<in>set ?ms. length m \<le> MaxMessageLen DefaultFramerSettings \<and> length m \<le> 65535" by (simp add: DefaultFramerSettings_def)
  from framer_roundtrip [OF this] have "framer_reads DefaultFramerSettings (length ?ms) (written DefaultFramerSettings ?ms) = map Inr ?ms" by blast
  then show ?thesis by (simp add: numeral_2_eq_2)
qed

text \<open>A stream that delivers the header in two pieces is taken for an error.\<close>

lemma split_header_fails: "Framer_Read DefaultFramerSettings [([0, 1], False), ([0, 0, 7], False)] = Inl NoHeader"
  by (simp add: Framer_Read_def)

text \<open>
  A message from \<open>ReadPacket\<close> begins behind the header of its buffer, so its capacity is not that of a buffer, and
  returning it does not give the buffer back.
\<close>

lemma read_packet_not_returned:
  assumes "pool_run s held" "b_size (buffers s p) = 2048"
  shows "MessagePoolReturn \<lparr>m_buffer = p, m_offset = 4, m_length = n\<rparr> s = (s, False)"
  by (rule return_of_inner_slice [OF assms]) simp_all

end
