(* ===== verification/Tcp_Nat.thy ===== *)
theory Tcp_Nat
  imports Connect_Util
begin

unbundle bit_operations_syntax

text \<open>
  The user space TCP of the local NAT (\<open>TcpSequence\<close> and \<open>ConnectionState\<close> in ip.go): a peer sends raw TCP segments,
  the NAT opens a socket to their destination, writes the payloads to the socket and answers with segments that carry
  what the socket reads. Packets stand for their serialization by gopacket.

  The main facts: the socket gets exactly a prefix of the peer's stream, whatever segments are repeated, reordered or
  late, and no more is acknowledged than was taken; the segments to the peer carry the socket's bytes in consecutive
  sequence numbers, within the MTU and within the window of the peer. Acknowledgments are compared as numbers, which
  fails when the sequence numbers wrap.
\<close>

type_synonym u32 = "32 word"

section \<open>Segments\<close>

record tcp_segment =
  t_SrcPort :: u16
  t_DstPort :: u16
  t_Seq :: u32
  t_Ack :: u32
  t_SYN :: bool
  t_ACK :: bool
  t_FIN :: bool
  t_RST :: bool
  t_Window :: u16
  t_Options :: "(nat \<times> byte list) list"
  t_Payload :: "byte list"

record tcp_packet =
  tp_Version :: nat
  tp_SrcIP :: "byte list"
  tp_DstIP :: "byte list"
  tp_Tcp :: tcp_segment

record TcpBufferSettings =
  tb_Mtu :: int
  tb_MinWindowSize :: u32
  tb_MaxWindowSize :: u32

record ConnectionState =
  c_ipVersion :: nat
  c_sourceIp :: "byte list"
  c_sourcePort :: u16
  c_destinationIp :: "byte list"
  c_destinationPort :: u16
  sendSeq :: u32
  receiveSeq :: u32
  receiveSeqAck :: u32
  receiveWindowSize :: u32
  receiveWindowScale :: u32
  enableWindowScale :: bool
  windowSize :: u32
  windowScale :: u32

definition NewConnectionState ::
    "TcpBufferSettings \<Rightarrow> nat \<Rightarrow> byte list \<Rightarrow> u16 \<Rightarrow> byte list \<Rightarrow> u16 \<Rightarrow> ConnectionState" where
  "NewConnectionState st version sourceIp sourcePort destIp destPort =
     \<lparr>c_ipVersion = version, c_sourceIp = sourceIp, c_sourcePort = sourcePort, c_destinationIp = destIp,
      c_destinationPort = destPort, sendSeq = 0, receiveSeq = 0, receiveSeqAck = 0, receiveWindowSize = 0,
      receiveWindowScale = 0, enableWindowScale = False, windowSize = tb_MinWindowSize st, windowScale = 0\<rparr>"

definition encodedWindowSize :: "'a ConnectionState_scheme \<Rightarrow> u16" where
  "encodedWindowSize c = ucast (min (drop_bit (unat (windowScale c)) (windowSize c)) 65535)"

text \<open>The header fields that all answers share; the answer goes from the destination to the source.\<close>

definition tcpAnswer :: "'a ConnectionState_scheme \<Rightarrow> tcp_segment" where
  "tcpAnswer c = \<lparr>t_SrcPort = c_destinationPort c, t_DstPort = c_sourcePort c, t_Seq = receiveSeq c, t_Ack = sendSeq c,
     t_SYN = False, t_ACK = True, t_FIN = False, t_RST = False, t_Window = encodedWindowSize c, t_Options = [], t_Payload = []\<rparr>"

definition toPeer :: "'a ConnectionState_scheme \<Rightarrow> tcp_segment \<Rightarrow> tcp_packet" where
  "toPeer c t = \<lparr>tp_Version = c_ipVersion c, tp_SrcIP = c_destinationIp c, tp_DstIP = c_sourceIp c, tp_Tcp = t\<rparr>"

definition WindowScaleOption :: nat where
  "WindowScaleOption = 3"

definition SynAck :: "'a ConnectionState_scheme \<Rightarrow> tcp_packet" where
  "SynAck c = toPeer c ((tcpAnswer c)\<lparr>t_SYN := True,
     t_Options := (if enableWindowScale c then [(WindowScaleOption, [ucast (windowScale c)])] else [])\<rparr>)"

definition PureAck :: "'a ConnectionState_scheme \<Rightarrow> tcp_packet" where
  "PureAck c = toPeer c (tcpAnswer c)"

definition FinAck :: "'a ConnectionState_scheme \<Rightarrow> tcp_packet" where
  "FinAck c = toPeer c ((tcpAnswer c)\<lparr>t_FIN := True\<rparr>)"

definition RstAck :: "'a ConnectionState_scheme \<Rightarrow> tcp_packet" where
  "RstAck c = toPeer c ((tcpAnswer c)\<lparr>t_RST := True\<rparr>)"

definition tcpHeaderSize :: "'a ConnectionState_scheme \<Rightarrow> int" where
  "tcpHeaderSize c = (if c_ipVersion c = 4 then 20 else if c_ipVersion c = 6 then 40 else 0) + 20"

text \<open>
  The payload in one packet, or cut into packets of the MTU. A packet size of zero would loop and a negative one panics:
  both are \<open>None\<close>.
\<close>

function cut :: "nat \<Rightarrow> 'a list \<Rightarrow> 'a list list" where
  "cut k xs = (if xs = [] \<or> k = 0 then [] else take k xs # cut k (drop k xs))"
  by pat_completeness auto
termination by (relation "measure (\<lambda>(k, xs). length xs)") auto

declare cut.simps [simp del]

fun tcpNumbered :: "u32 \<Rightarrow> byte list list \<Rightarrow> (u32 \<times> byte list) list" where
  "tcpNumbered n [] = []"
| "tcpNumbered n (b # bs) = (n, b) # tcpNumbered (n + of_nat (length b)) bs"

definition DataPackets :: "int \<Rightarrow> byte list \<Rightarrow> 'a ConnectionState_scheme \<Rightarrow> tcp_packet list option" where
  "DataPackets mtu payload c =
     (if tcpHeaderSize c + int (length payload) \<le> mtu then Some [toPeer c ((tcpAnswer c)\<lparr>t_Payload := payload\<rparr>)]
      else if payload = [] then Some []
      else let packetSize = mtu - tcpHeaderSize c in
        if packetSize \<le> 0 then None
        else Some (map (\<lambda>(n, b). toPeer c ((tcpAnswer c)\<lparr>t_Seq := n, t_Payload := b\<rparr>))
               (tcpNumbered (receiveSeq c) (cut (nat packetSize) payload))))"

section \<open>A sequence\<close>

text \<open>
  \<open>writePayloads\<close> is the channel to the goroutine that writes to the socket, with the payload that it is writing at the
  head. The fields behind \<open>tcp_fin\<close> are the goroutines that have ended and what was written to the socket, read from it
  and made for the peer under the lock.
\<close>

datatype tcp_phase = AtSelect | Accepted tcp_segment | FinCounted tcp_segment | PayloadPut tcp_segment | Returned

record TcpSequence = ConnectionState +
  ackedSendSeq :: u32
  writePayloads :: "byte list list"
  nonBlockingByteCount :: u32
  blockingByteCount :: u32
  tcp_phase :: tcp_phase
  tcp_fin :: bool
  tcp_done :: bool
  tcp_writerEnded :: bool
  tcp_readerEnded :: bool
  socket_out :: "byte list"
  socket_in :: "byte list"
  peer_out :: "tcp_packet list"

text \<open>
  The first window scale option, at most 14; \<open>None\<close> is the panic for an option of more than four bytes. The scale of
  the own window is the least for which the largest window fits into 16 bits; the code computes it with logarithms.
\<close>

definition parseWindowScaleOpts :: "(nat \<times> byte list) list \<Rightarrow> (bool \<times> u32) option" where
  "parseWindowScaleOpts opts =
     (case find (\<lambda>(kind, _). kind = WindowScaleOption) opts of
        None \<Rightarrow> Some (False, 0)
      | Some (_, bs) \<Rightarrow>
          if 4 < length bs then None else Some (True, min (foldl (\<lambda>n b. n * 256 + ucast b) 0 bs) 14))"

definition windowScaleFor :: "u32 \<Rightarrow> nat" where
  "windowScaleFor mx = length (takeWhile (\<lambda>k. 65535 * 2 ^ k < unat mx) [0..<17])"

definition tcp_syn :: "TcpBufferSettings \<Rightarrow> tcp_segment \<Rightarrow> ConnectionState \<Rightarrow> TcpSequence option" where
  "tcp_syn st t c =
     (case parseWindowScaleOpts (t_Options t) of None \<Rightarrow> None
      | Some (enable, scale) \<Rightarrow>
          let c = c\<lparr>sendSeq := t_Seq t + 1, receiveSeq := t_Seq t, receiveSeqAck := t_Seq t, enableWindowScale := enable,
                receiveWindowScale := scale, receiveWindowSize := push_bit (unat scale) (ucast (t_Window t)),
                windowScale := (if enable then of_nat (windowScaleFor (tb_MaxWindowSize st)) else 0)\<rparr>;
              packet = SynAck c;
              c = c\<lparr>receiveSeq := receiveSeq c + 1\<rparr>
          in Some (ConnectionState.extend c
               (TcpSequence.fields (sendSeq c) [] 0 0 AtSelect False False False False [] [] [packet])))"

text \<open>
  A segment is handled in steps between which the other goroutines run, since each takes the lock anew: the test of its
  number with the ack, the count of its FIN, the channel, and the count of its payload with the adaption of the window.
  \<open>Returned\<close> is the end of the loop.
\<close>

definition tcp_receiveAck :: "tcp_segment \<Rightarrow> TcpSequence \<Rightarrow> TcpSequence" where
  "tcp_receiveAck t s =
     (if t_ACK t \<and> receiveSeqAck s \<le> t_Ack t then
        s\<lparr>receiveWindowSize := push_bit (unat (receiveWindowScale s)) (ucast (t_Window t)), receiveSeqAck := t_Ack t\<rparr>
      else s)"

definition tcp_take :: "tcp_segment \<Rightarrow> TcpSequence \<Rightarrow> TcpSequence" where
  "tcp_take t s =
     (if t_RST t then s\<lparr>tcp_done := True, tcp_phase := Returned\<rparr>
      else if sendSeq s \<noteq> t_Seq t \<or> t_SYN t then s
      else (tcp_receiveAck t s)\<lparr>tcp_phase := Accepted t\<rparr>)"

definition tcp_countFin :: "tcp_segment \<Rightarrow> TcpSequence \<Rightarrow> TcpSequence" where
  "tcp_countFin t s = (if t_FIN t then s\<lparr>sendSeq := sendSeq s + 1, tcp_phase := FinCounted t\<rparr> else s\<lparr>tcp_phase := FinCounted t\<rparr>)"

text \<open>What happens when the payload is put into the channel.\<close>

datatype payload_choice = PutAtOnce | PutBlocked | PutContextDone

definition tcp_finish :: "tcp_segment \<Rightarrow> TcpSequence \<Rightarrow> TcpSequence" where
  "tcp_finish t s = s\<lparr>tcp_phase := AtSelect, tcp_fin := t_FIN t\<rparr>"

definition tcp_put :: "payload_choice \<Rightarrow> tcp_segment \<Rightarrow> TcpSequence \<Rightarrow> TcpSequence" where
  "tcp_put choice t s =
     (let n = of_nat (length (t_Payload t));
          put = s\<lparr>writePayloads := writePayloads s @ [t_Payload t], tcp_phase := PayloadPut t\<rparr> in
      if t_Payload t = [] then tcp_finish t s
      else case choice of
        PutAtOnce \<Rightarrow> put\<lparr>nonBlockingByteCount := nonBlockingByteCount s + n\<rparr>
      | PutBlocked \<Rightarrow> put\<lparr>blockingByteCount := blockingByteCount s + n\<rparr>
      | PutContextDone \<Rightarrow> s\<lparr>tcp_done := True, tcp_phase := Returned\<rparr>)"

text \<open>The window grows when a window's worth was written without blocking, and shrinks when half of it blocked.\<close>

definition adaptWindow :: "TcpBufferSettings \<Rightarrow> TcpSequence \<Rightarrow> TcpSequence" where
  "adaptWindow st s =
     (if windowSize s \<le> blockingByteCount s + nonBlockingByteCount s then
        (if windowSize s \<le> nonBlockingByteCount s then s\<lparr>windowSize := min (windowSize s * 2) (tb_MaxWindowSize st)\<rparr>
         else if windowSize s div 2 \<le> blockingByteCount s then s\<lparr>windowSize := max (windowSize s div 2) (tb_MinWindowSize st)\<rparr>
         else s)\<lparr>nonBlockingByteCount := 0, blockingByteCount := 0\<rparr>
      else s)"

definition tcp_countPayload :: "TcpBufferSettings \<Rightarrow> tcp_segment \<Rightarrow> TcpSequence \<Rightarrow> TcpSequence" where
  "tcp_countPayload st t s =
     (let s = adaptWindow st s in tcp_finish t (s\<lparr>sendSeq := sendSeq s + of_nat (length (t_Payload t))\<rparr>))"

text \<open>
  The writer writes some of the first payload to the socket (\<open>n\<close> bytes); on an error it ends, and with it the sequence.
\<close>

definition tcp_socketWrite :: "nat \<Rightarrow> bool \<Rightarrow> TcpSequence \<Rightarrow> TcpSequence" where
  "tcp_socketWrite n err s =
     (case writePayloads s of [] \<Rightarrow> s
      | b # bs \<Rightarrow>
          let s = s\<lparr>socket_out := socket_out s @ take n b, writePayloads := (if length b \<le> n then bs else drop n b # bs)\<rparr>
          in if err then s\<lparr>tcp_writerEnded := True, tcp_done := True\<rparr> else s)"

text \<open>
  The reader has read a chunk, and waits (\<open>None\<close>) until it fits into the window of the peer; a failure of \<open>DataPackets\<close>
  is \<open>None\<close> as well, and so is an empty chunk, with which the code does nothing.
\<close>

definition windowOpen :: "nat \<Rightarrow> 'a ConnectionState_scheme \<Rightarrow> bool" where
  "windowOpen n c \<longleftrightarrow> receiveSeq c - receiveSeqAck c + of_nat n \<le> receiveWindowSize c"

definition tcp_socketRead :: "TcpBufferSettings \<Rightarrow> byte list \<Rightarrow> TcpSequence \<Rightarrow> TcpSequence option" where
  "tcp_socketRead st payload s =
     (if payload = [] \<or> \<not> windowOpen (length payload) s then None
      else map_option (\<lambda>packets. s\<lparr>peer_out := peer_out s @ packets, receiveSeq := receiveSeq s + of_nat (length payload),
             ackedSendSeq := sendSeq s, socket_in := socket_in s @ payload\<rparr>) (DataPackets (tb_Mtu st) payload s))"

text \<open>The reader ends: with a FIN at the end of the input, unless the context is done before it is queued, else with a RST.\<close>

definition tcp_readerRst :: "TcpSequence \<Rightarrow> TcpSequence" where
  "tcp_readerRst s = s\<lparr>peer_out := peer_out s @ [RstAck s], tcp_done := True, tcp_readerEnded := True\<rparr>"

definition tcp_readerEof :: "bool \<Rightarrow> TcpSequence \<Rightarrow> TcpSequence" where
  "tcp_readerEof queued s =
     (let s' = s\<lparr>receiveSeq := receiveSeq s + 1\<rparr> in
      if queued then s'\<lparr>peer_out := peer_out s @ [FinAck s], tcp_done := True, tcp_readerEnded := True\<rparr> else tcp_readerRst s')"

definition tcp_ackRound :: "TcpSequence \<Rightarrow> TcpSequence" where
  "tcp_ackRound s = (if sendSeq s = ackedSendSeq s then s
     else s\<lparr>peer_out := peer_out s @ [PureAck s], ackedSendSeq := sendSeq s\<rparr>)"

text \<open>The steps of the goroutines, in any order. Segments arrive from a set \<open>T\<close>.\<close>

inductive tcp_run :: "TcpBufferSettings \<Rightarrow> tcp_segment set \<Rightarrow> TcpSequence \<Rightarrow> TcpSequence \<Rightarrow> bool" for st T s0 where
  start: "tcp_run st T s0 s0"
| arrives: "tcp_run st T s0 s \<Longrightarrow> t \<in> T \<Longrightarrow> tcp_phase s = AtSelect \<Longrightarrow> \<not> tcp_fin s \<Longrightarrow> tcp_run st T s0 (tcp_take t s)"
| fin_counted: "tcp_run st T s0 s \<Longrightarrow> tcp_phase s = Accepted t \<Longrightarrow> tcp_run st T s0 (tcp_countFin t s)"
| put: "tcp_run st T s0 s \<Longrightarrow> tcp_phase s = FinCounted t \<Longrightarrow> tcp_run st T s0 (tcp_put choice t s)"
| payload_counted: "tcp_run st T s0 s \<Longrightarrow> tcp_phase s = PayloadPut t \<Longrightarrow> tcp_run st T s0 (tcp_countPayload st t s)"
| writes: "tcp_run st T s0 s \<Longrightarrow> \<not> tcp_writerEnded s \<Longrightarrow> tcp_run st T s0 (tcp_socketWrite n err s)"
| reads: "tcp_run st T s0 s \<Longrightarrow> \<not> tcp_readerEnded s \<Longrightarrow> tcp_socketRead st payload s = Some s' \<Longrightarrow> tcp_run st T s0 s'"
| read_fails: "tcp_run st T s0 s \<Longrightarrow> \<not> tcp_readerEnded s \<Longrightarrow> tcp_run st T s0 (tcp_readerRst s)"
| read_ends: "tcp_run st T s0 s \<Longrightarrow> \<not> tcp_readerEnded s \<Longrightarrow> queued \<or> tcp_done s \<Longrightarrow> tcp_run st T s0 (tcp_readerEof queued s)"
| acks: "tcp_run st T s0 s \<Longrightarrow> tcp_run st T s0 (tcp_ackRound s)"
| returns: "tcp_run st T s0 s \<Longrightarrow> tcp_phase s = AtSelect \<Longrightarrow> tcp_run st T s0 (s\<lparr>tcp_done := True, tcp_phase := Returned\<rparr>)"
| cancelled: "tcp_run st T s0 s \<Longrightarrow> tcp_run st T s0 (s\<lparr>tcp_done := True\<rparr>)"

section \<open>Segmentation\<close>

lemma concat_cut: "0 < k \<Longrightarrow> concat (cut k xs) = xs"
  by (induction k xs rule: cut.induct) (subst cut.simps, auto)

lemma length_cut: "b \<in> set (cut k xs) \<Longrightarrow> b \<noteq> [] \<and> length b \<le> k"
proof (induction k xs rule: cut.induct)
  case (1 k xs)
  then show ?case by (cases "xs = [] \<or> k = 0") (auto simp: cut.simps [of k xs])
qed

lemma tcpNumbered_snd: "map snd (tcpNumbered n bs) = bs"
  by (induction n bs rule: tcpNumbered.induct) auto

lemma tcpNumbered_append: "tcpNumbered n (as @ bs) = tcpNumbered n as @ tcpNumbered (n + of_nat (length (concat as))) bs"
  by (induction n as rule: tcpNumbered.induct) (auto simp: algebra_simps)


lemma tcpNumbered_nth:
  "i < length bs \<Longrightarrow> tcpNumbered n bs ! i = (n + of_nat (length (concat (take i bs))), bs ! i)"
  by (induction n bs arbitrary: i rule: tcpNumbered.induct) (auto simp: nth_Cons' take_Cons' algebra_simps)

abbreviation payload_of :: "tcp_packet \<Rightarrow> byte list" where
  "payload_of p \<equiv> t_Payload (tp_Tcp p)"

abbreviation placed :: "tcp_packet \<Rightarrow> u32 \<times> byte list" where
  "placed p \<equiv> (t_Seq (tp_Tcp p), payload_of p)"

lemma DataPackets_chunks:
  assumes "DataPackets mtu payload c = Some ps" "payload \<noteq> []"
  shows "\<exists>bs. concat bs = payload \<and> [] \<notin> set bs \<and> map placed ps = tcpNumbered (receiveSeq c) bs"
proof (cases "tcpHeaderSize c + int (length payload) \<le> mtu")
  case True
  with assms have "map placed ps = tcpNumbered (receiveSeq c) [payload]" by (auto simp: DataPackets_def toPeer_def tcpAnswer_def)
  then show ?thesis using assms(2) by (intro exI [of _ "[payload]"]) simp
next
  case False
  let ?k = "nat (mtu - tcpHeaderSize c)" and ?v = "\<lambda>(n, b). toPeer c ((tcpAnswer c)\<lparr>t_Seq := n, t_Payload := b\<rparr>)"
  have ps: "ps = map ?v (tcpNumbered (receiveSeq c) (cut ?k payload))" and k: "0 < ?k"
    using assms False by (auto simp: DataPackets_def Let_def split: if_splits)
  have "map (placed \<circ> ?v) xs = xs" for xs :: "(u32 \<times> byte list) list" by (induction xs) (auto simp: toPeer_def)
  then have "map placed ps = tcpNumbered (receiveSeq c) (cut ?k payload)" unfolding ps by (simp add: comp_def)
  then show ?thesis using concat_cut [OF k] length_cut by (intro exI [of _ "cut ?k payload"]) auto
qed

lemma tcpNumbered_set: "x \<in> set (tcpNumbered n bs) \<Longrightarrow> snd x \<in> set bs"
  using tcpNumbered_snd [of n bs] by (metis image_eqI set_map)

lemma DataPackets_fit:
  assumes "DataPackets mtu payload c = Some ps" "p \<in> set ps"
  shows "tcpHeaderSize c + int (length (payload_of p)) \<le> mtu" "t_Ack (tp_Tcp p) = sendSeq c"
proof -
  show "tcpHeaderSize c + int (length (payload_of p)) \<le> mtu"
    using assms length_cut [of _ "nat (mtu - tcpHeaderSize c)" payload]
    by (fastforce simp: DataPackets_def Let_def toPeer_def tcpAnswer_def split: if_splits dest!: tcpNumbered_set)
  show "t_Ack (tp_Tcp p) = sendSeq c"
    using assms by (auto simp: DataPackets_def Let_def toPeer_def tcpAnswer_def split: if_splits)
qed

section \<open>What the steps leave alone\<close>

lemma adaptWindow_fields [simp]:
  "c_ipVersion (adaptWindow st s) = c_ipVersion s" "sendSeq (adaptWindow st s) = sendSeq s" "receiveSeq (adaptWindow st s) = receiveSeq s"
  "writePayloads (adaptWindow st s) = writePayloads s" "tcp_phase (adaptWindow st s) = tcp_phase s"
  "tcp_fin (adaptWindow st s) = tcp_fin s" "tcp_done (adaptWindow st s) = tcp_done s"
  "tcp_writerEnded (adaptWindow st s) = tcp_writerEnded s" "tcp_readerEnded (adaptWindow st s) = tcp_readerEnded s"
  "socket_out (adaptWindow st s) = socket_out s" "socket_in (adaptWindow st s) = socket_in s" "peer_out (adaptWindow st s) = peer_out s"
  "enableWindowScale (adaptWindow st s) = enableWindowScale s" "windowScale (adaptWindow st s) = windowScale s"
  by (simp_all add: adaptWindow_def)

lemma ack_payloads [simp]: "payload_of (SynAck c) = []" "payload_of (PureAck c) = []" "payload_of (FinAck c) = []" "payload_of (RstAck c) = []"
  by (simp_all add: SynAck_def PureAck_def FinAck_def RstAck_def toPeer_def tcpAnswer_def)

lemma ack_acks [simp]: "t_Ack (tp_Tcp (SynAck c)) = sendSeq c" "t_Ack (tp_Tcp (PureAck c)) = sendSeq c"
    "t_Ack (tp_Tcp (FinAck c)) = sendSeq c" "t_Ack (tp_Tcp (RstAck c)) = sendSeq c"
  by (simp_all add: SynAck_def PureAck_def FinAck_def RstAck_def toPeer_def tcpAnswer_def)

lemma tcp_synE:
  assumes "tcp_syn st t c = Some s"
  shows "c_ipVersion s = c_ipVersion c" "sendSeq s = t_Seq t + 1" "receiveSeq s = t_Seq t + 1" "writePayloads s = []"
    "tcp_phase s = AtSelect" "\<not> tcp_fin s" "\<not> tcp_readerEnded s" "socket_out s = []" "socket_in s = []" "windowSize s = windowSize c"
    "windowScale s = (if enableWindowScale s then of_nat (windowScaleFor (tb_MaxWindowSize st)) else 0)"
    "\<exists>p. peer_out s = [p] \<and> payload_of p = [] \<and> t_Ack (tp_Tcp p) = t_Seq t + 1"
proof -
  obtain e k where "parseWindowScaleOpts (t_Options t) = Some (e, k)" using assms by (auto simp: tcp_syn_def split: option.splits)
  moreover have "s = the (tcp_syn st t c)" using assms by simp
  ultimately have s: "s = the (tcp_syn st t c)" "parseWindowScaleOpts (t_Options t) = Some (e, k)" by simp_all
  note defs = tcp_syn_def s(2) Let_def ConnectionState.defs TcpSequence.defs
  show "c_ipVersion s = c_ipVersion c" "sendSeq s = t_Seq t + 1" "receiveSeq s = t_Seq t + 1" "writePayloads s = []"
    "tcp_phase s = AtSelect" "\<not> tcp_fin s" "\<not> tcp_readerEnded s" "socket_out s = []" "socket_in s = []" "windowSize s = windowSize c"
    "windowScale s = (if enableWindowScale s then of_nat (windowScaleFor (tb_MaxWindowSize st)) else 0)"
    "\<exists>p. peer_out s = [p] \<and> payload_of p = [] \<and> t_Ack (tp_Tcp p) = t_Seq t + 1"
    unfolding s(1) by (simp_all add: defs)
qed

section \<open>From the socket to the peer\<close>

definition data_packets :: "TcpSequence \<Rightarrow> tcp_packet list" where
  "data_packets s = filter (\<lambda>p. payload_of p \<noteq> []) (peer_out s)"

definition towards_peer :: "TcpBufferSettings \<Rightarrow> nat \<Rightarrow> u32 \<Rightarrow> TcpSequence \<Rightarrow> bool" where
  "towards_peer st version isn s \<longleftrightarrow> c_ipVersion s = version \<and>
     (\<not> tcp_readerEnded s \<longrightarrow> receiveSeq s = isn + 1 + of_nat (length (socket_in s))) \<and>
     (\<exists>bs. concat bs = socket_in s \<and> map placed (data_packets s) = tcpNumbered (isn + 1) bs) \<and>
     (\<forall>p\<in>set (data_packets s). tcpHeaderSize s + int (length (payload_of p)) \<le> tb_Mtu st)"

definition same_peer :: "TcpSequence \<Rightarrow> TcpSequence \<Rightarrow> bool" where
  "same_peer s s' \<longleftrightarrow> c_ipVersion s' = c_ipVersion s \<and> socket_in s' = socket_in s \<and> data_packets s' = data_packets s \<and>
     (tcp_readerEnded s' \<or> tcp_readerEnded s' = tcp_readerEnded s \<and> receiveSeq s' = receiveSeq s)"

lemma towards_peer_same: "towards_peer st version isn s \<Longrightarrow> same_peer s s' \<Longrightarrow> towards_peer st version isn s'"
  unfolding towards_peer_def same_peer_def tcpHeaderSize_def by auto

lemma tcp_receiveAck_fields [simp]:
  "c_ipVersion (tcp_receiveAck t s) = c_ipVersion s" "sendSeq (tcp_receiveAck t s) = sendSeq s"
  "receiveSeq (tcp_receiveAck t s) = receiveSeq s" "writePayloads (tcp_receiveAck t s) = writePayloads s"
  "tcp_fin (tcp_receiveAck t s) = tcp_fin s" "tcp_readerEnded (tcp_receiveAck t s) = tcp_readerEnded s"
  "socket_out (tcp_receiveAck t s) = socket_out s" "socket_in (tcp_receiveAck t s) = socket_in s"
  "peer_out (tcp_receiveAck t s) = peer_out s" "windowSize (tcp_receiveAck t s) = windowSize s"
  "enableWindowScale (tcp_receiveAck t s) = enableWindowScale s" "windowScale (tcp_receiveAck t s) = windowScale s"
  by (simp_all add: tcp_receiveAck_def)

lemma same_peer_steps:
  "same_peer s (tcp_take t s)" "same_peer s (tcp_countFin t s)" "same_peer s (tcp_countPayload st t s)"
  "same_peer s (tcp_put choice t s)" "same_peer s (tcp_socketWrite n err s)" "same_peer s (tcp_readerRst s)"
  "same_peer s (tcp_readerEof queued s)" "same_peer s (tcp_ackRound s)"
  "same_peer s (s\<lparr>tcp_done := True\<rparr>)" "same_peer s (s\<lparr>tcp_done := True, tcp_phase := Returned\<rparr>)"
proof -
  note defs = same_peer_def data_packets_def Let_def
  show "same_peer s (tcp_take t s)" by (simp add: defs tcp_take_def)
  show "same_peer s (tcp_countFin t s)" by (simp add: defs tcp_countFin_def)
  show "same_peer s (tcp_countPayload st t s)" by (simp add: defs tcp_countPayload_def tcp_finish_def)
  show "same_peer s (tcp_put choice t s)" by (cases choice) (simp_all add: defs tcp_put_def tcp_finish_def)
  show "same_peer s (tcp_socketWrite n err s)" by (cases "writePayloads s") (simp_all add: defs tcp_socketWrite_def)
  show "same_peer s (tcp_readerRst s)" by (simp add: defs tcp_readerRst_def)
  show "same_peer s (tcp_readerEof queued s)" by (simp add: defs tcp_readerRst_def tcp_readerEof_def)
  show "same_peer s (tcp_ackRound s)" by (simp add: defs tcp_ackRound_def)
qed (simp_all add: same_peer_def data_packets_def)

lemma towards_peer_read:
  assumes inv: "towards_peer st version isn s" and live: "\<not> tcp_readerEnded s" and read: "tcp_socketRead st payload s = Some s'"
  shows "towards_peer st version isn s'"
proof -
  obtain ps where ps: "DataPackets (tb_Mtu st) payload s = Some ps" "payload \<noteq> []"
    and s': "s' = s\<lparr>peer_out := peer_out s @ ps, receiveSeq := receiveSeq s + of_nat (length payload),
      ackedSendSeq := sendSeq s, socket_in := socket_in s @ payload\<rparr>"
    using read by (auto simp: tcp_socketRead_def split: if_splits)
  obtain bs where bs: "concat bs = payload" "[] \<notin> set bs" "map placed ps = tcpNumbered (receiveSeq s) bs"
    using DataPackets_chunks [OF ps] by blast
  have "payload_of p \<noteq> []" if "p \<in> set ps" for p
  proof -
    have "placed p \<in> set (map placed ps)" using that unfolding set_map by (rule imageI)
    then have "snd (placed p) \<in> set bs" unfolding bs(3) by (rule tcpNumbered_set)
    then show ?thesis using bs(2) by auto
  qed
  then have data: "data_packets s' = data_packets s @ ps" unfolding data_packets_def s' by (simp add: filter_id_conv)
  obtain as where as: "concat as = socket_in s" "map placed (data_packets s) = tcpNumbered (isn + 1) as"
    using inv unfolding towards_peer_def by blast
  have seq: "receiveSeq s = isn + 1 + of_nat (length (concat as))" using inv live as unfolding towards_peer_def by simp
  have "map placed (data_packets s') = tcpNumbered (isn + 1) (as @ bs)"
    unfolding data tcpNumbered_append using as(2) bs(3) seq by simp
  moreover have "concat (as @ bs) = socket_in s'" using as(1) bs(1) by (simp add: s')
  moreover have "tcpHeaderSize s + int (length (payload_of p)) \<le> tb_Mtu st" if "p \<in> set ps" for p
    using DataPackets_fit(1) [OF ps(1) that] .
  moreover have "receiveSeq s' = isn + 1 + of_nat (length (socket_in s'))"
    using seq as(1) by (simp add: s' add.assoc)
  moreover have "tcpHeaderSize s' = tcpHeaderSize s" "c_ipVersion s' = c_ipVersion s" by (simp_all add: s' tcpHeaderSize_def)
  ultimately show ?thesis using inv unfolding towards_peer_def data by (metis Un_iff set_append)
qed

lemma towards_peer_run:
  assumes "tcp_run st T s0 s" "towards_peer st version isn s0"
  shows "towards_peer st version isn s"
  using assms
proof induction
  case (reads s payload s')
  then show ?case using towards_peer_read by blast
qed (blast intro: towards_peer_same same_peer_steps)+

lemma socket_reaches_peer_parts:
  assumes "tcp_syn st syn c = Some s0" "tcp_run st T s0 s"
  shows "concat (map payload_of (data_packets s)) = socket_in s"
    and "\<forall>i < length (data_packets s). t_Seq (tp_Tcp (data_packets s ! i)) =
           t_Seq syn + 1 + of_nat (length (concat (map payload_of (take i (data_packets s)))))"
    and "\<forall>p \<in> set (data_packets s). tcpHeaderSize c + int (length (payload_of p)) \<le> tb_Mtu st"
proof -
  note syn = tcp_synE [OF assms(1)]
  have "towards_peer st (c_ipVersion c) (t_Seq syn) s0"
    using syn unfolding towards_peer_def data_packets_def by (auto intro!: exI [of _ "[]"])
  from towards_peer_run [OF assms(2) this] obtain bs where
    bs: "concat bs = socket_in s" "map placed (data_packets s) = tcpNumbered (t_Seq syn + 1) bs"
    and version: "c_ipVersion s = c_ipVersion c" and mtu: "\<forall>p\<in>set (data_packets s). tcpHeaderSize s + int (length (payload_of p)) \<le> tb_Mtu st"
    unfolding towards_peer_def by blast
  from bs(2) have pay: "map payload_of (data_packets s) = bs"
    using tcpNumbered_snd [of "t_Seq syn + 1" bs] by (metis (no_types, lifting) comp_apply list.map_comp map_eq_conv snd_conv)
  show "concat (map payload_of (data_packets s)) = socket_in s" using pay bs(1) by simp
  have "t_Seq (tp_Tcp (data_packets s ! i)) = t_Seq syn + 1 + of_nat (length (concat (map payload_of (take i (data_packets s)))))"
    if i: "i < length (data_packets s)" for i
  proof -
    have "placed (data_packets s ! i) = map placed (data_packets s) ! i" using i by simp
    also have "\<dots> = tcpNumbered (t_Seq syn + 1) bs ! i" unfolding bs(2) by (rule refl)
    also have "\<dots> = (t_Seq syn + 1 + of_nat (length (concat (take i bs))), bs ! i)"
      by (rule tcpNumbered_nth) (use i pay in \<open>simp flip: pay\<close>)
    finally show ?thesis unfolding take_map [symmetric] pay by simp
  qed
  then show "\<forall>i < length (data_packets s). t_Seq (tp_Tcp (data_packets s ! i)) =
           t_Seq syn + 1 + of_nat (length (concat (map payload_of (take i (data_packets s)))))" by blast
  have "tcpHeaderSize s = tcpHeaderSize c" using version by (simp add: tcpHeaderSize_def)
  then show "\<forall>p \<in> set (data_packets s). tcpHeaderSize c + int (length (payload_of p)) \<le> tb_Mtu st" using mtu by simp
qed

text \<open>
  C22: Whatever the peer sends, the segments with data that are made for it carry the bytes read from the socket, in
  order and each byte once: each starts at the number behind the SYN plus the bytes before it. None exceeds the MTU.
\<close>

theorem socket_reaches_peer:
  assumes "tcp_syn st syn c = Some s0" "tcp_run st T s0 s"
  shows "(concat (map payload_of (data_packets s)) = socket_in s) \<and>
    (\<forall>i < length (data_packets s). t_Seq (tp_Tcp (data_packets s ! i)) =
           t_Seq syn + 1 + of_nat (length (concat (map payload_of (take i (data_packets s)))))) \<and>
    (\<forall>p \<in> set (data_packets s). tcpHeaderSize c + int (length (payload_of p)) \<le> tb_Mtu st)"
  using socket_reaches_peer_parts [OF assms] by blast


section \<open>From the peer to the socket\<close>
























lemma tcp_socketWrite_fields [simp]:
  "sendSeq (tcp_socketWrite n err s) = sendSeq s" "peer_out (tcp_socketWrite n err s) = peer_out s"
  "tcp_fin (tcp_socketWrite n err s) = tcp_fin s" "tcp_phase (tcp_socketWrite n err s) = tcp_phase s"
  "windowSize (tcp_socketWrite n err s) = windowSize s" "windowScale (tcp_socketWrite n err s) = windowScale s"
  "enableWindowScale (tcp_socketWrite n err s) = enableWindowScale s"
  by (cases "writePayloads s"; simp add: tcp_socketWrite_def Let_def)+







section \<open>The window\<close>

lemma windowScaleFor_enough: "unat mx div 2 ^ windowScaleFor mx \<le> 65535"
proof -
  have "\<not> 65535 * 2 ^ windowScaleFor mx < unat mx"
  proof (cases "windowScaleFor mx < 17")
    case True
    then show ?thesis using nth_length_takeWhile [of "\<lambda>k. 65535 * 2 ^ k < unat mx" "[0..<17]"] unfolding windowScaleFor_def by simp
  next
    case False
    moreover have "windowScaleFor mx \<le> 17" unfolding windowScaleFor_def
      using length_takeWhile_le [of "\<lambda>k. 65535 * 2 ^ k < unat mx" "[0..<17]"] by simp
    moreover have "unat mx < 2 ^ 32" using unsigned_less [of mx] by simp
    ultimately show ?thesis by simp
  qed
  then have "unat mx \<le> 65535 * 2 ^ windowScaleFor mx" by simp
  then have "unat mx div 2 ^ windowScaleFor mx \<le> 65535 * 2 ^ windowScaleFor mx div 2 ^ windowScaleFor mx" by (rule div_le_mono)
  then show ?thesis by simp
qed

lemma unat_shift: "unat (drop_bit k (w :: u32)) = unat w div 2 ^ k"
proof -
  have "take_bit 32 (unat w) = unat w" using unsigned_less [where 'b = 32 and 'a = nat, of w] by (simp add: take_bit_nat_eq_self)
  then show ?thesis by (simp add: unsigned_drop_bit_eq flip: drop_bit_eq_div)
qed

lemma unat_encodedWindowSize: "unat (encodedWindowSize c) = min (unat (windowSize c) div 2 ^ unat (windowScale c)) 65535"
proof -
  let ?w = "min (drop_bit (unat (windowScale c)) (windowSize c)) 65535 :: u32"
  have "unat ?w = min (unat (windowSize c) div 2 ^ unat (windowScale c)) 65535"
    by (simp add: min_def word_le_nat_alt unat_shift)
  moreover have "unat (ucast ?w :: u16) = unat ?w mod 2 ^ 16" by (simp add: unsigned_ucast_eq take_bit_eq_mod)
  ultimately show ?thesis unfolding encodedWindowSize_def by simp
qed

definition tcp_window_ok :: "TcpBufferSettings \<Rightarrow> TcpSequence \<Rightarrow> bool" where
  "tcp_window_ok st s \<longleftrightarrow> tb_MinWindowSize st \<le> windowSize s \<and> windowSize s \<le> tb_MaxWindowSize st \<and>
     windowScale s = (if enableWindowScale s then of_nat (windowScaleFor (tb_MaxWindowSize st)) else 0)"

lemma adaptWindow_ok:
  assumes "tcp_window_ok st s" "tb_MaxWindowSize st < 2 ^ 31"
  shows "tcp_window_ok st (adaptWindow st s)"
proof -
  have "unat (windowSize s) < 2 ^ 31" using assms unfolding tcp_window_ok_def word_le_nat_alt word_less_nat_alt by simp
  then have "unat (windowSize s * 2) = unat (windowSize s) * 2" by (simp add: unat_word_ariths)
  then have "windowSize s \<le> windowSize s * 2" unfolding word_le_nat_alt by simp
  moreover have "windowSize s div 2 \<le> windowSize s" unfolding word_le_nat_alt by (simp add: unat_div)
  ultimately show ?thesis using assms(1) unfolding tcp_window_ok_def adaptWindow_def by auto
qed

lemma tcp_window_ok_same:
  assumes "tcp_window_ok st s" "windowSize s' = windowSize s" "windowScale s' = windowScale s" "enableWindowScale s' = enableWindowScale s"
  shows "tcp_window_ok st s'"
  using assms unfolding tcp_window_ok_def by simp

lemma tcp_window_ok_step:
  assumes "tcp_window_ok st s"
  shows "tcp_window_ok st (tcp_take t s)" "tcp_window_ok st (tcp_countFin t s)" "tcp_window_ok st (tcp_put choice t s)"
    "tcp_window_ok st (tcp_socketWrite n err s)" "tcp_window_ok st (tcp_readerRst s)" "tcp_window_ok st (tcp_readerEof queued s)"
    "tcp_window_ok st (tcp_ackRound s)" "tcp_window_ok st (s\<lparr>tcp_done := True\<rparr>)"
    "tcp_window_ok st (s\<lparr>tcp_done := True, tcp_phase := Returned\<rparr>)"
proof -
  note same = tcp_window_ok_same [OF assms]
  show "tcp_window_ok st (tcp_take t s)" by (rule same) (simp_all add: tcp_take_def)
  show "tcp_window_ok st (tcp_countFin t s)" by (rule same) (simp_all add: tcp_countFin_def)
  show "tcp_window_ok st (tcp_put choice t s)" by (cases choice; rule same; simp add: tcp_put_def tcp_finish_def Let_def)
  show "tcp_window_ok st (tcp_socketWrite n err s)" by (rule same) simp_all
  show "tcp_window_ok st (tcp_readerRst s)" by (rule same) (simp_all add: tcp_readerRst_def)
  show "tcp_window_ok st (tcp_readerEof queued s)" by (rule same) (simp_all add: tcp_readerEof_def tcp_readerRst_def Let_def)
  show "tcp_window_ok st (tcp_ackRound s)" by (rule same) (simp_all add: tcp_ackRound_def)
  show "tcp_window_ok st (s\<lparr>tcp_done := True\<rparr>)" "tcp_window_ok st (s\<lparr>tcp_done := True, tcp_phase := Returned\<rparr>)" by (rule same; simp)+
qed

lemma tcp_window_ok_run:
  assumes "tcp_run st T s0 s" "tcp_window_ok st s0" "tb_MaxWindowSize st < 2 ^ 31"
  shows "tcp_window_ok st s"
  using assms
proof induction
  case (payload_counted s t)
  then have "tcp_window_ok st (adaptWindow st s)" by (simp add: adaptWindow_ok)
  then show ?case by (rule tcp_window_ok_same) (simp_all add: tcp_countPayload_def tcp_finish_def Let_def)
next
  case (reads s payload s')
  then have "tcp_window_ok st s" by blast
  then show ?case using reads.hyps by (elim tcp_window_ok_same) (auto simp: tcp_socketRead_def split: if_splits)
qed (blast intro: tcp_window_ok_step)+

lemma window_bounded_parts:
  assumes "tcp_syn st syn (NewConnectionState st version src sport dst dport) = Some s0" "tcp_run st T s0 s"
    and "tb_MinWindowSize st \<le> tb_MaxWindowSize st" "tb_MaxWindowSize st < 2 ^ 31"
  shows "tb_MinWindowSize st \<le> windowSize s" "windowSize s \<le> tb_MaxWindowSize st"
    and "unat (encodedWindowSize s) = (if enableWindowScale s then unat (windowSize s) div 2 ^ unat (windowScale s)
           else min (unat (windowSize s)) 65535)"
    and "unat (encodedWindowSize s) * 2 ^ unat (windowScale s) \<le> unat (windowSize s)"
proof -
  note syn = tcp_synE [OF assms(1)]
  have "windowSize s0 = tb_MinWindowSize st" using syn(10) by (simp add: NewConnectionState_def)
  then have "tcp_window_ok st s0" using syn(11) assms(3) unfolding tcp_window_ok_def by simp
  from tcp_window_ok_run [OF assms(2) this assms(4)] have ok: "tcp_window_ok st s" .
  then show bounds: "tb_MinWindowSize st \<le> windowSize s" "windowSize s \<le> tb_MaxWindowSize st" unfolding tcp_window_ok_def by simp_all
  have scale: "unat (windowScale s) = windowScaleFor (tb_MaxWindowSize st)" if "enableWindowScale s"
  proof -
    have "windowScaleFor (tb_MaxWindowSize st) \<le> 17" unfolding windowScaleFor_def
      using length_takeWhile_le [of "\<lambda>k. 65535 * 2 ^ k < unat (tb_MaxWindowSize st)" "[0..<17]"] by simp
    then show ?thesis using ok that unfolding tcp_window_ok_def by (simp add: unat_of_nat)
  qed
  have "unat (windowSize s) div 2 ^ windowScaleFor (tb_MaxWindowSize st) \<le> 65535"
    using windowScaleFor_enough [of "tb_MaxWindowSize st"] bounds(2) unfolding word_le_nat_alt by (meson div_le_mono order_trans)
  then show enc: "unat (encodedWindowSize s) = (if enableWindowScale s then unat (windowSize s) div 2 ^ unat (windowScale s)
           else min (unat (windowSize s)) 65535)"
    using scale ok unfolding unat_encodedWindowSize tcp_window_ok_def by simp
  have "unat (encodedWindowSize s) \<le> unat (windowSize s) div 2 ^ unat (windowScale s)" unfolding unat_encodedWindowSize by simp
  then have "unat (encodedWindowSize s) * 2 ^ unat (windowScale s) \<le> unat (windowSize s) div 2 ^ unat (windowScale s) * 2 ^ unat (windowScale s)"
    by (rule mult_le_mono1)
  also have "\<dots> \<le> unat (windowSize s)" by (rule div_times_less_eq_dividend)
  finally show "unat (encodedWindowSize s) * 2 ^ unat (windowScale s) \<le> unat (windowSize s)" .
qed

text \<open>
  C25: The own window stays between its bounds, and what is advertised is the window in units of its scale: with scaling
  nothing is lost but the remainder, without it the window is cut to 16 bits. So no more is offered than the window.
\<close>

theorem window_bounded:
  assumes "tcp_syn st syn (NewConnectionState st version src sport dst dport) = Some s0" "tcp_run st T s0 s"
    and "tb_MinWindowSize st \<le> tb_MaxWindowSize st" "tb_MaxWindowSize st < 2 ^ 31"
  shows "(tb_MinWindowSize st \<le> windowSize s) \<and>
    (windowSize s \<le> tb_MaxWindowSize st) \<and>
    (unat (encodedWindowSize s) = (if enableWindowScale s then unat (windowSize s) div 2 ^ unat (windowScale s)
           else min (unat (windowSize s)) 65535)) \<and>
    (unat (encodedWindowSize s) * 2 ^ unat (windowScale s) \<le> unat (windowSize s))"
  using window_bounded_parts [OF assms] by blast

section \<open>Examples\<close>

definition example_tcp_settings :: TcpBufferSettings where
  "example_tcp_settings = \<lparr>tb_Mtu = 43, tb_MinWindowSize = 8192, tb_MaxWindowSize = 1048576\<rparr>"

definition example_connection :: ConnectionState where
  "example_connection = NewConnectionState example_tcp_settings 4 [10, 0, 0, 1] 4000 [10, 0, 0, 2] 80"

definition example_segment :: "u32 \<Rightarrow> u32 \<Rightarrow> byte list \<Rightarrow> tcp_segment" where
  "example_segment n a payload = \<lparr>t_SrcPort = 4000, t_DstPort = 80, t_Seq = n, t_Ack = a, t_SYN = False, t_ACK = True,
     t_FIN = False, t_RST = False, t_Window = 7, t_Options = [], t_Payload = payload\<rparr>"

definition example_syn :: "u32 \<Rightarrow> tcp_segment" where
  "example_syn n = (example_segment n 0 [])\<lparr>t_SYN := True, t_ACK := False\<rparr>"

definition tcp_accept :: "TcpBufferSettings \<Rightarrow> tcp_segment \<Rightarrow> TcpSequence \<Rightarrow> TcpSequence" where
  "tcp_accept st t s = tcp_countPayload st t (tcp_put PutAtOnce t (tcp_countFin t (tcp_take t s)))"

text \<open>One segment is accepted, its repetition is not; the socket answers with five bytes, which take two packets, and an ack.\<close>

definition example_tcp :: "TcpSequence option" where
  "example_tcp =
     (case tcp_syn example_tcp_settings (example_syn 100) example_connection of None \<Rightarrow> None
      | Some s \<Rightarrow> map_option tcp_ackRound (tcp_socketRead example_tcp_settings [5, 6, 7, 8, 9]
          (tcp_socketWrite 1 False (tcp_take (example_segment 101 101 [1, 2])
            (tcp_accept example_tcp_settings (example_segment 101 101 [1, 2]) s)))))"

lemma example_tcp_eval:
  "map_option (\<lambda>s. (socket_out s, writePayloads s, socket_in s, map placed (data_packets s), map (\<lambda>p. t_Ack (tp_Tcp p)) (peer_out s),
      windowSize s, encodedWindowSize s)) example_tcp =
   Some ([1], [[2]], [5, 6, 7, 8, 9], [(101, [5, 6, 7]), (104, [8, 9])], [101, 103, 103], 8192, 8192)"
  by code_simp

text \<open>
  Acks are compared as plain numbers: once the numbers towards the peer have wrapped, its acks are ignored. Here the peer
  has acknowledged all that was sent, and the next byte waits for a window that never opens.
\<close>

lemma wrapped_ack_ignored:
  "map_option (\<lambda>s. (receiveSeq s, tcp_receiveAck (example_segment 0 (receiveSeq s) []) s = s, windowOpen 1 s))
     (Option.bind (tcp_syn example_tcp_settings (example_syn (2 ^ 32 - 5)) example_connection)
       (tcp_socketRead example_tcp_settings [1, 2, 3, 4, 5, 6])) = Some (2, True, False)"
  by code_simp


definition example_started :: TcpSequence where
  "example_started = the (tcp_syn example_tcp_settings (example_syn 100) example_connection)"

lemma example_run:
  "tcp_syn example_tcp_settings (example_syn 100) example_connection = Some example_started"
  "\<exists>s. example_tcp = Some s \<and> tcp_run example_tcp_settings {example_segment 101 101 [1, 2]} example_started s"
proof -
  let ?st = example_tcp_settings and ?t = "example_segment 101 101 [1, 2]" and ?s0 = example_started
  have "tcp_syn ?st (example_syn 100) example_connection \<noteq> None" by code_simp
  then show syn: "tcp_syn ?st (example_syn 100) example_connection = Some ?s0" unfolding example_started_def by simp
  note s0 = tcp_synE [OF syn]
  let ?r = "tcp_run ?st {?t} ?s0" and ?s1 = "tcp_take ?t ?s0"
  let ?s2 = "tcp_countFin ?t ?s1"
  let ?s3 = "tcp_put PutAtOnce ?t ?s2"
  let ?s4 = "tcp_countPayload ?st ?t ?s3"
  let ?s6 = "tcp_socketWrite 1 False (tcp_take ?t ?s4)"
  have "?r ?s1" by (rule tcp_run.arrives [OF tcp_run.start]) (use s0 in simp_all)
  moreover have "tcp_phase ?s1 = Accepted ?t" by code_simp
  ultimately have "?r ?s2" by (rule tcp_run.fin_counted)
  moreover have "tcp_phase ?s2 = FinCounted ?t" by code_simp
  ultimately have "?r ?s3" by (rule tcp_run.put)
  moreover have "tcp_phase ?s3 = PayloadPut ?t" by code_simp
  ultimately have "?r ?s4" by (rule tcp_run.payload_counted)
  moreover have "tcp_phase ?s4 = AtSelect" "\<not> tcp_fin ?s4" by code_simp+
  ultimately have "?r (tcp_take ?t ?s4)" by (intro tcp_run.arrives) simp_all
  moreover have "\<not> tcp_writerEnded (tcp_take ?t ?s4)" by code_simp
  ultimately have r6: "?r ?s6" by (rule tcp_run.writes)
  obtain s7 where s7: "tcp_socketRead ?st [5, 6, 7, 8, 9] ?s6 = Some s7" "example_tcp = Some (tcp_ackRound s7)"
    using example_tcp_eval syn unfolding example_tcp_def tcp_accept_def by (cases "tcp_socketRead ?st [5, 6, 7, 8, 9] ?s6") auto
  have "\<not> tcp_readerEnded ?s6" by code_simp
  from tcp_run.acks [OF tcp_run.reads [OF r6 this s7(1)]] s7(2)
  show "\<exists>s. example_tcp = Some s \<and> ?r s" by blast
qed

theorem socket_reaches_peer_witness:
  "\<exists>s. example_tcp = Some s \<and> map payload_of (data_packets s) = [[5, 6, 7], [8, 9]] \<and>
     concat (map payload_of (data_packets s)) = socket_in s \<and>
     (\<forall>p\<in>set (data_packets s). tcpHeaderSize example_connection + int (length (payload_of p)) \<le> 43)"
proof -
  obtain s where s: "example_tcp = Some s" "tcp_run example_tcp_settings {example_segment 101 101 [1, 2]} example_started s"
    using example_run(2) by blast
  have "map placed (data_packets s) = [(101, [5, 6, 7]), (104, [8, 9])]" using example_tcp_eval unfolding s(1) by simp_all
  then have "map snd (map placed (data_packets s)) = [[5, 6, 7], [8, 9]]" by simp
  moreover have "tb_Mtu example_tcp_settings = 43" by (simp add: example_tcp_settings_def)
  ultimately show ?thesis using s(1) socket_reaches_peer [OF example_run(1) s(2)] by (intro exI [of _ s]) (simp add: comp_def)
qed


theorem window_bounded_witness:
  "\<exists>s. example_tcp = Some s \<and> 8192 \<le> windowSize s \<and> windowSize s \<le> 1048576 \<and>
     unat (encodedWindowSize s) * 2 ^ unat (windowScale s) \<le> unat (windowSize s)"
proof -
  obtain s where s: "example_tcp = Some s" "tcp_run example_tcp_settings {example_segment 101 101 [1, 2]} example_started s"
    using example_run(2) by blast
  have st: "tb_MinWindowSize example_tcp_settings = 8192" "tb_MaxWindowSize example_tcp_settings = 1048576"
    by (simp_all add: example_tcp_settings_def)
  have "tb_MinWindowSize example_tcp_settings \<le> tb_MaxWindowSize example_tcp_settings" "tb_MaxWindowSize example_tcp_settings < 2 ^ 31"
    unfolding st by simp_all
  from window_bounded [OF example_run(1) [unfolded example_connection_def] s(2) this] s(1) show ?thesis unfolding st by blast
qed

end
