(* ===== verification/Net_Addresses.thy ===== *)
theory Net_Addresses
  imports Connect_Prelude
begin

unbundle bit_operations_syntax

text \<open>
  The enumeration of the addresses of a network (net_util.go): the iterators \<open>IpsInNet\<close> and \<open>AddrsInPrefix\<close> and the
  generator that pulls from the second. An address is its list of bytes, big endian.

  The main fact: the carry loop is addition of one to the address as a number, so the k-th address of a network
  with n addresses is its base plus k + 1, for k below n; the base itself is not among them.
\<close>

section \<open>Counting\<close>

text \<open>The loop over the bytes from the last: the carry goes up while a byte became zero.\<close>

fun incLow :: "byte list \<Rightarrow> byte list" where
  "incLow [] = []"
| "incLow (b # bs) = (if b + 1 = 0 \<and> bs \<noteq> [] then (b + 1) # incLow bs else (b + 1) # bs)"

definition ipInc :: "byte list \<Rightarrow> byte list" where
  "ipInc ip = rev (incLow (rev ip))"

fun ipsFrom :: "nat \<Rightarrow> byte list \<Rightarrow> byte list list" where
  "ipsFrom 0 ip = []"
| "ipsFrom (Suc k) ip = ipInc ip # ipsFrom k (ipInc ip)"

text \<open>\<open>0x01 << k\<close> is an \<open>int\<close> of 64 bits: it is negative for 63 and zero above.\<close>

definition shiftOne :: "nat \<Rightarrow> int" where
  "shiftOne k = int64 (2 ^ k)"

text \<open>
  Masking, with the two conversions between 4 and 16 bytes of the standard library; a mask that does not fit gives
  nil, for which the first step of the iterator panics.
\<close>

definition v4InV6Prefix :: "byte list" where
  "v4InV6Prefix = replicate 10 0 @ [255, 255]"

definition IP_Mask :: "byte list \<Rightarrow> byte list \<Rightarrow> byte list" where
  "IP_Mask ip netmask =
     (let netmask = (if length netmask = 16 \<and> length ip = 4 \<and> take 12 netmask = replicate 12 255 then drop 12 netmask else netmask);
          ip = (if length netmask = 4 \<and> length ip = 16 \<and> take 12 ip = v4InV6Prefix then drop 12 ip else ip)
      in if length ip \<noteq> length netmask then [] else map2 (AND) ip netmask)"

text \<open>The ones in front of a netmask; a netmask that is not canonical counts zero of zero.\<close>

fun byteOnes :: "nat \<Rightarrow> byte \<Rightarrow> nat" where
  "byteOnes 0 b = 0"
| "byteOnes (Suc k) b = (if bit b 7 then Suc (byteOnes k (push_bit 1 b)) else 0)"

fun simpleMaskLength :: "byte list \<Rightarrow> nat option" where
  "simpleMaskLength [] = Some 0"
| "simpleMaskLength (b # bs) =
     (if b = 255 then map_option (\<lambda>n. n + 8) (simpleMaskLength bs)
      else if push_bit (byteOnes 8 b) b = 0 \<and> (\<forall>c\<in>set bs. c = 0) then Some (byteOnes 8 b) else None)"

definition Mask_Size :: "byte list \<Rightarrow> nat \<times> nat" where
  "Mask_Size netmask = (case simpleMaskLength netmask of None \<Rightarrow> (0, 0) | Some ones \<Rightarrow> (ones, length netmask * 8))"

definition IpsInNet :: "byte list \<Rightarrow> byte list \<Rightarrow> byte list list option" where
  "IpsInNet netIP netmask =
     (let ip = IP_Mask netIP netmask;
          (ones, bits) = Mask_Size netmask;
          n = shiftOne (bits - ones)
      in if 0 < n \<and> ip = [] then None else Some (ipsFrom (nat n) ip))"

text \<open>
  A prefix of \<open>netip\<close> is an address with a number of bits; masking clears the bits behind them. The prefix is valid
  when the number is at most the length of the address in bits.
\<close>

definition clearBits :: "nat \<Rightarrow> byte list \<Rightarrow> byte list" where
  "clearBits n ip = map (\<lambda>(i, b). if 8 * (i + 1) \<le> n then b else if n \<le> 8 * i then 0
     else push_bit (8 - (n - 8 * i)) (drop_bit (8 - (n - 8 * i)) b)) (zip [0..<length ip] ip)"

definition AddrsInPrefix :: "byte list \<Rightarrow> nat \<Rightarrow> byte list list" where
  "AddrsInPrefix addr bits = (let ip = clearBits bits addr in ipsFrom (nat (shiftOne (8 * length ip - bits))) ip)"

text \<open>A generator holds what its iterator has left; after the end, or after \<open>Close\<close>, there is nothing.\<close>

type_synonym AddrGenerator = "byte list list"

definition NewAddrGenerator :: "byte list \<Rightarrow> nat \<Rightarrow> AddrGenerator" where
  "NewAddrGenerator addr bits = AddrsInPrefix addr bits"

definition ag_Next :: "AddrGenerator \<Rightarrow> byte list option \<times> AddrGenerator" where
  "ag_Next g = (case g of [] \<Rightarrow> (None, []) | a # g \<Rightarrow> (Some a, g))"

definition ag_Close :: "AddrGenerator \<Rightarrow> AddrGenerator" where
  "ag_Close g = []"

section \<open>Addresses as numbers\<close>

fun lowVal :: "byte list \<Rightarrow> nat" where
  "lowVal [] = 0"
| "lowVal (b # bs) = unat b + 256 * lowVal bs"

definition ipVal :: "byte list \<Rightarrow> nat" where
  "ipVal ip = lowVal (rev ip)"

lemma length_incLow [simp]: "length (incLow bs) = length bs"
  by (induction bs) auto

lemma length_ipInc [simp]: "length (ipInc ip) = length ip"
  by (simp add: ipInc_def)

lemma lowVal_less: "lowVal bs < 256 ^ length bs"
proof (induction bs)
  case (Cons b bs)
  have "unat b < 256" by (rule unat_byte_less)
  then show ?case using Cons by simp
qed simp

lemma ipVal_less: "ipVal ip < 256 ^ length ip"
  using lowVal_less [of "rev ip"] by (simp add: ipVal_def)

lemma unat_inc_byte: "unat (b + 1 :: byte) = (if b + 1 = 0 then 0 else unat b + 1)" "b + 1 = 0 \<Longrightarrow> unat b = 255"
proof -
  show "unat (b + 1) = (if b + 1 = 0 then 0 else unat b + 1)" by (simp add: unatSuc add.commute)
  assume "b + 1 = 0"
  then have "b = - 1" by (simp add: eq_neg_iff_add_eq_0)
  then show "unat b = 255" by (simp add: unsigned_minus_1_eq_mask mask_eq_exp_minus_1)
qed

lemma lowVal_incLow: "bs \<noteq> [] \<Longrightarrow> lowVal (incLow bs) = (lowVal bs + 1) mod 256 ^ length bs"
proof (induction bs)
  case (Cons b bs)
  show ?case
  proof (cases "b + 1 = 0")
    case True
    then have b: "unat b = 255" by (rule unat_inc_byte)
    show ?thesis
    proof (cases "bs = []")
      case False
      have "lowVal (incLow (b # bs)) = 256 * ((lowVal bs + 1) mod 256 ^ length bs)" using True False Cons.IH by simp
      also have "\<dots> = (256 * (lowVal bs + 1)) mod (256 * 256 ^ length bs)" by (simp add: mult_mod_right)
      finally show ?thesis using b by (simp add: algebra_simps)
    qed (use True b in simp)
  next
    case False
    have "unat b + 1 < 256" using unat_inc_byte(1) [of b] unat_byte_less [of "b + 1"] False by simp
    moreover have "unat (b + 1) = unat b + 1" using unat_inc_byte(1) [of b] False by simp
    ultimately show ?thesis using lowVal_less [of bs] False by (auto simp: mod_less)
  qed
qed simp

lemma ipVal_inc: "ip \<noteq> [] \<Longrightarrow> ipVal (ipInc ip) = (ipVal ip + 1) mod 256 ^ length ip"
  using lowVal_incLow [of "rev ip"] by (simp add: ipVal_def ipInc_def)

lemma length_ipsFrom [simp]: "length (ipsFrom n ip) = n"
  by (induction n arbitrary: ip) auto

lemma ipsFrom_nth:
  assumes "ip \<noteq> []" "k < n"
  shows "ipVal (ipsFrom n ip ! k) = (ipVal ip + k + 1) mod 256 ^ length ip \<and> length (ipsFrom n ip ! k) = length ip"
  using assms
proof (induction n arbitrary: ip k)
  case (Suc n)
  show ?case
  proof (cases k)
    case 0
    then show ?thesis using Suc.prems ipVal_inc by simp
  next
    case (Suc j)
    have "ipInc ip \<noteq> []" using Suc.prems(1) by (metis length_ipInc length_0_conv)
    then have "ipVal (ipsFrom n (ipInc ip) ! j) = (ipVal (ipInc ip) + j + 1) mod 256 ^ length ip \<and>
        length (ipsFrom n (ipInc ip) ! j) = length ip"
      using Suc.IH [of "ipInc ip" j] Suc.prems Suc by simp
    moreover have "((ipVal ip + 1) mod 256 ^ length ip + j + 1) mod 256 ^ length ip = (ipVal ip + k + 1) mod 256 ^ length ip"
      using mod_add_left_eq [of "ipVal ip + 1" "256 ^ length ip" "j + 1"] Suc by (simp add: add_ac)
    ultimately show ?thesis using Suc Suc.prems(1) ipVal_inc by simp
  qed
qed simp

section \<open>Properties\<close>

lemma shiftOne_small: "k < 63 \<Longrightarrow> shiftOne k = 2 ^ k"
proof -
  assume k: "k < 63"
  have "(2 :: int) ^ k < 2 ^ 63" using k by (intro power_strict_increasing) auto
  then show ?thesis unfolding shiftOne_def by (intro int64_id) (auto intro: order_trans [of _ 0])
qed

text \<open>
  The addresses of a network are the numbers behind its base address, in order: with z host bits there are
  \<open>2 ^ z\<close> of them, the k-th is the base plus k + 1 (wrapping at the end of the address space), and all have the length
  of the base. So the first is base + 1, and the last is the first address behind the network.
\<close>

theorem addresses_consecutive:
  assumes "bits \<le> 8 * length addr" "8 * length addr - bits < 63" "addr \<noteq> []"
  shows "length (AddrsInPrefix addr bits) = 2 ^ (8 * length addr - bits) \<and>
    (\<forall>k<2 ^ (8 * length addr - bits). length (AddrsInPrefix addr bits ! k) = length addr \<and>
       ipVal (AddrsInPrefix addr bits ! k) = (ipVal (clearBits bits addr) + k + 1) mod 256 ^ length addr)"
proof -
  have len: "length (clearBits bits addr) = length addr" by (simp add: clearBits_def)
  then have "clearBits bits addr \<noteq> []" using assms(3) by auto
  moreover have "nat (shiftOne (8 * length addr - bits)) = 2 ^ (8 * length addr - bits)"
    using assms(2) by (simp add: shiftOne_small nat_power_eq)
  then have "AddrsInPrefix addr bits = ipsFrom (2 ^ (8 * length addr - bits)) (clearBits bits addr)"
    by (simp only: AddrsInPrefix_def Let_def len)
  ultimately show ?thesis using ipsFrom_nth [of "clearBits bits addr"] len by simp
qed

theorem addresses_consecutive_witness:
  "AddrsInPrefix [192, 168, 1, 2] 30 = [[192, 168, 1, 1], [192, 168, 1, 2], [192, 168, 1, 3], [192, 168, 1, 4]] \<and>
   ipVal (AddrsInPrefix [10, 0, 255, 255] 32 ! 0) = ipVal [10, 1, 0, 0]"
proof -
  have "AddrsInPrefix [192, 168, 1, 2] 30 = [[192, 168, 1, 1], [192, 168, 1, 2], [192, 168, 1, 3], [192, 168, 1, 4]]" by code_simp
  moreover have "ipVal (AddrsInPrefix [10, 0, 255, 255] 32 ! 0) = (ipVal (clearBits 32 [10, 0, 255, 255]) + 0 + 1) mod 256 ^ 4"
    using addresses_consecutive [of 32 "[10, 0, 255, 255]"] by simp
  moreover have "clearBits 32 [10, 0, 255, 255] = [10, 0, 255, 255]" by code_simp
  ultimately show ?thesis by (simp add: ipVal_def)
qed

lemma ips_in_net_example:
  "IpsInNet [192, 168, 1, 0] [255, 255, 255, 252] = Some [[192, 168, 1, 1], [192, 168, 1, 2], [192, 168, 1, 3], [192, 168, 1, 4]]"
  by code_simp

end
