(* ===== verification/Ip_Paths.thy ===== *)
theory Ip_Paths
  imports Connect_Ids Tcp_Nat Net_Addresses
begin

unbundle bit_operations_syntax

text \<open>
  Paths of IP packets (ip.go) and the policy that decides on them (ip_security.go): a packet is parsed to its addresses
  and ports, a table keeps the destination of every path, and the egress policy refuses destinations that are not
  public, blocked or on ports that are not allowed. Decoding the layers of a packet is gopacket's, a parameter; the
  generated table of blocked addresses is a parameter as well.

  The main facts: the packets of one path go to one destination; what the egress policy allows is a public
  address on an allowed port that is not blocked, and the statistics count every decision. But the block list is not
  consulted for an IPv4 address in its IPv6 form.
\<close>

section \<open>Layers\<close>

text \<open>
  \<open>DecodeFromBytes\<close> fills a layer from bytes; the code ignores its error, so what it leaves in the layer is total.
\<close>

record ip_layer =
  il_SrcIP :: "byte list"
  il_DstIP :: "byte list"
  il_Protocol :: nat
  il_Payload :: "byte list"

record udp_layer =
  ul_SrcPort :: u16
  ul_DstPort :: u16
  ul_Payload :: "byte list"

record decoder =
  d_ipv4 :: "byte list \<Rightarrow> ip_layer"
  d_ipv6 :: "byte list \<Rightarrow> ip_layer"
  d_udp :: "byte list \<Rightarrow> udp_layer"
  d_tcp :: "byte list \<Rightarrow> tcp_segment"

definition IPProtocolTCP :: nat where
  "IPProtocolTCP = 6"

definition IPProtocolUDP :: nat where
  "IPProtocolUDP = 17"

section \<open>Paths\<close>

datatype IpProtocol = IpProtocolUnknown | IpProtocolTcp | IpProtocolUdp

record IpPath =
  ip_Version :: nat
  ip_Protocol :: IpProtocol
  ip_SourceIp :: "byte list"
  ip_SourcePort :: int
  ip_DestinationIp :: "byte list"
  ip_DestinationPort :: int
  ip_SequenceNumber :: u32
  ip_Syn :: bool
  ip_Rst :: bool
  ip_Ack :: bool

definition emptyIpPath :: IpPath where
  "emptyIpPath = \<lparr>ip_Version = 0, ip_Protocol = IpProtocolUnknown, ip_SourceIp = [], ip_SourcePort = 0, ip_DestinationIp = [],
     ip_DestinationPort = 0, ip_SequenceNumber = 0, ip_Syn = False, ip_Rst = False, ip_Ack = False\<rparr>"

definition IpPath_Source :: "IpPath \<Rightarrow> IpPath" where
  "IpPath_Source p = emptyIpPath\<lparr>ip_Protocol := ip_Protocol p, ip_Version := ip_Version p, ip_SourceIp := ip_SourceIp p,
     ip_SourcePort := ip_SourcePort p\<rparr>"

definition IpPath_Destination :: "IpPath \<Rightarrow> IpPath" where
  "IpPath_Destination p = emptyIpPath\<lparr>ip_Protocol := ip_Protocol p, ip_Version := ip_Version p,
     ip_DestinationIp := ip_DestinationIp p, ip_DestinationPort := ip_DestinationPort p\<rparr>"

definition IpPath_Reverse :: "IpPath \<Rightarrow> IpPath" where
  "IpPath_Reverse p = emptyIpPath\<lparr>ip_Protocol := ip_Protocol p, ip_Version := ip_Version p,
     ip_SourceIp := ip_DestinationIp p, ip_SourcePort := ip_DestinationPort p,
     ip_DestinationIp := ip_SourceIp p, ip_DestinationPort := ip_SourcePort p\<rparr>"

text \<open>Of the standard library: the forms of an address.\<close>

definition To4 :: "byte list \<Rightarrow> byte list option" where
  "To4 ip = (if length ip = 4 then Some ip
     else if length ip = 16 \<and> take 12 ip = v4InV6Prefix then Some (drop 12 ip) else None)"

definition To16 :: "byte list \<Rightarrow> byte list option" where
  "To16 ip = (if length ip = 4 then Some (v4InV6Prefix @ ip) else if length ip = 16 then Some ip else None)"

record Ip4Path =
  p4_Protocol :: IpProtocol
  p4_SourceIp :: "byte list"
  p4_SourcePort :: int
  p4_DestinationIp :: "byte list"
  p4_DestinationPort :: int

record Ip6Path =
  p6_Protocol :: IpProtocol
  p6_SourceIp :: "byte list"
  p6_SourcePort :: int
  p6_DestinationIp :: "byte list"
  p6_DestinationPort :: int

definition ToIp4Path :: "IpPath \<Rightarrow> Ip4Path" where
  "ToIp4Path p = \<lparr>p4_Protocol = ip_Protocol p,
     p4_SourceIp = (case To4 (ip_SourceIp p) of Some ip \<Rightarrow> ip | None \<Rightarrow> replicate 4 0), p4_SourcePort = ip_SourcePort p,
     p4_DestinationIp = (case To4 (ip_DestinationIp p) of Some ip \<Rightarrow> ip | None \<Rightarrow> replicate 4 0),
     p4_DestinationPort = ip_DestinationPort p\<rparr>"

definition ToIp6Path :: "IpPath \<Rightarrow> Ip6Path" where
  "ToIp6Path p = \<lparr>p6_Protocol = ip_Protocol p,
     p6_SourceIp = (case To16 (ip_SourceIp p) of Some ip \<Rightarrow> ip | None \<Rightarrow> replicate 16 0), p6_SourcePort = ip_SourcePort p,
     p6_DestinationIp = (case To16 (ip_DestinationIp p) of Some ip \<Rightarrow> ip | None \<Rightarrow> replicate 16 0),
     p6_DestinationPort = ip_DestinationPort p\<rparr>"

definition Ip4Path_Source :: "Ip4Path \<Rightarrow> Ip4Path" where
  "Ip4Path_Source p = p\<lparr>p4_DestinationIp := replicate 4 0, p4_DestinationPort := 0\<rparr>"

definition Ip4Path_Destination :: "Ip4Path \<Rightarrow> Ip4Path" where
  "Ip4Path_Destination p = p\<lparr>p4_SourceIp := replicate 4 0, p4_SourcePort := 0\<rparr>"

definition Ip6Path_Source :: "Ip6Path \<Rightarrow> Ip6Path" where
  "Ip6Path_Source p = p\<lparr>p6_DestinationIp := replicate 16 0, p6_DestinationPort := 0\<rparr>"

definition Ip6Path_Destination :: "Ip6Path \<Rightarrow> Ip6Path" where
  "Ip6Path_Destination p = p\<lparr>p6_SourceIp := replicate 16 0, p6_SourcePort := 0\<rparr>"

text \<open>
  Parsing: \<open>None\<close> is the panic for an empty packet, the left side that the version or the protocol is not supported.
\<close>

definition udpPath :: "nat \<Rightarrow> ip_layer \<Rightarrow> udp_layer \<Rightarrow> IpPath" where
  "udpPath version ip udp = emptyIpPath\<lparr>ip_Version := version, ip_Protocol := IpProtocolUdp, ip_SourceIp := il_SrcIP ip,
     ip_SourcePort := uint (ul_SrcPort udp), ip_DestinationIp := il_DstIP ip, ip_DestinationPort := uint (ul_DstPort udp)\<rparr>"

definition tcpPath :: "nat \<Rightarrow> ip_layer \<Rightarrow> tcp_segment \<Rightarrow> IpPath" where
  "tcpPath version ip tcp = \<lparr>ip_Version = version, ip_Protocol = IpProtocolTcp, ip_SourceIp = il_SrcIP ip,
     ip_SourcePort = uint (t_SrcPort tcp), ip_DestinationIp = il_DstIP ip, ip_DestinationPort = uint (t_DstPort tcp),
     ip_SequenceNumber = t_Seq tcp, ip_Syn = t_SYN tcp, ip_Rst = t_RST tcp, ip_Ack = t_ACK tcp\<rparr>"

definition parseTransport :: "decoder \<Rightarrow> nat \<Rightarrow> ip_layer \<Rightarrow> unit + IpPath \<times> byte list" where
  "parseTransport d version ip =
     (if il_Protocol ip = IPProtocolUDP then
        let udp = d_udp d (il_Payload ip) in Inr (udpPath version ip udp, ul_Payload udp)
      else if il_Protocol ip = IPProtocolTCP then
        let tcp = d_tcp d (il_Payload ip) in Inr (tcpPath version ip tcp, t_Payload tcp)
      else Inl ())"

definition ipVersion :: "byte list \<Rightarrow> nat option" where
  "ipVersion packet = (case packet of [] \<Rightarrow> None | b # _ \<Rightarrow> Some (unat (drop_bit 4 b)))"

definition ParseIpPathWithPayload :: "decoder \<Rightarrow> byte list \<Rightarrow> (unit + IpPath \<times> byte list) option" where
  "ParseIpPathWithPayload d packet =
     (case ipVersion packet of None \<Rightarrow> None
      | Some version \<Rightarrow> Some (
          if version = 4 then parseTransport d 4 (d_ipv4 d packet)
          else if version = 6 then parseTransport d 6 (d_ipv6 d packet)
          else Inl ()))"

definition ParseIpPath :: "decoder \<Rightarrow> byte list \<Rightarrow> (unit + IpPath) option" where
  "ParseIpPath d packet = map_option (map_sum id fst) (ParseIpPathWithPayload d packet)"

section \<open>The table of paths\<close>

record pathTable =
  pt_destinations :: "MultiHopId list"
  paths4 :: "Ip4Path \<Rightarrow> MultiHopId option"
  paths6 :: "Ip6Path \<Rightarrow> MultiHopId option"

definition newPathTable :: "MultiHopId list \<Rightarrow> unit + pathTable" where
  "newPathTable dests = (if dests = [] then Inl ()
     else Inr \<lparr>pt_destinations = dests, paths4 = \<lambda>_. None, paths6 = \<lambda>_. None\<rparr>)"

text \<open>\<open>i\<close> is the index that \<open>Intn\<close> draws.\<close>

definition SelectDestination :: "decoder \<Rightarrow> nat \<Rightarrow> byte list \<Rightarrow> pathTable \<Rightarrow> (pathTable \<times> (unit + MultiHopId)) option" where
  "SelectDestination d i packet t =
     (if length (pt_destinations t) = 1 then Some (t, Inr (pt_destinations t ! 0))
      else map_option (\<lambda>r. case r of
          Inl e \<Rightarrow> (t, Inl e)
        | Inr p \<Rightarrow>
            let fresh = pt_destinations t ! i in
            if ip_Version p = 4 then
              (case paths4 t (ToIp4Path p) of Some dest \<Rightarrow> (t, Inr dest)
               | None \<Rightarrow> (t\<lparr>paths4 := (paths4 t)(ToIp4Path p := Some fresh)\<rparr>, Inr fresh))
            else if ip_Version p = 6 then
              (case paths6 t (ToIp6Path p) of Some dest \<Rightarrow> (t, Inr dest)
               | None \<Rightarrow> (t\<lparr>paths6 := (paths6 t)(ToIp6Path p := Some fresh)\<rparr>, Inr fresh))
            else (t, Inl ())) (ParseIpPath d packet))"

section \<open>Security policies\<close>

datatype SecurityPolicyResult = SecurityPolicyResultDrop | SecurityPolicyResultAllow | SecurityPolicyResultIncident

text \<open>The predicates of \<open>net.IP\<close>.\<close>

definition IsUnspecified :: "byte list \<Rightarrow> bool" where
  "IsUnspecified ip \<longleftrightarrow> To4 ip = Some [0, 0, 0, 0] \<or> ip = replicate 16 0"

definition IsLoopback :: "byte list \<Rightarrow> bool" where
  "IsLoopback ip \<longleftrightarrow> (case To4 ip of Some ip \<Rightarrow> ip ! 0 = 127 | None \<Rightarrow> ip = replicate 15 0 @ [1])"

definition IsPrivate :: "byte list \<Rightarrow> bool" where
  "IsPrivate ip \<longleftrightarrow> (case To4 ip of
       Some ip \<Rightarrow> ip ! 0 = 10 \<or> ip ! 0 = 172 \<and> ip ! 1 AND 0xF0 = 16 \<or> ip ! 0 = 192 \<and> ip ! 1 = 168
     | None \<Rightarrow> length ip = 16 \<and> ip ! 0 AND 0xFE = 0xFC)"

definition IsMulticast :: "byte list \<Rightarrow> bool" where
  "IsMulticast ip \<longleftrightarrow> (case To4 ip of Some ip \<Rightarrow> ip ! 0 AND 0xF0 = 0xE0 | None \<Rightarrow> length ip = 16 \<and> ip ! 0 = 0xFF)"

definition IsLinkLocalUnicast :: "byte list \<Rightarrow> bool" where
  "IsLinkLocalUnicast ip \<longleftrightarrow> (case To4 ip of Some ip \<Rightarrow> ip ! 0 = 169 \<and> ip ! 1 = 254
     | None \<Rightarrow> length ip = 16 \<and> ip ! 0 = 0xFE \<and> ip ! 1 AND 0xC0 = 0x80)"

definition isPublicUnicast :: "byte list \<Rightarrow> bool" where
  "isPublicUnicast ip \<longleftrightarrow>
     \<not> (IsPrivate ip \<or> IsLoopback ip \<or> IsLinkLocalUnicast ip \<or> IsMulticast ip \<or> IsUnspecified ip)"

definition egressPort :: "IpProtocol \<Rightarrow> int \<Rightarrow> bool" where
  "egressPort protocol dPort =
     (if dPort = 53 then protocol = IpProtocolUdp
      else if dPort = 80 then protocol = IpProtocolTcp
      else if dPort = 443 then True
      else if dPort = 465 \<or> dPort = 993 \<or> dPort = 995 then True
      else if dPort = 853 then True
      else if dPort = 123 \<or> dPort = 500 then True
      else if 6881 \<le> dPort \<and> dPort \<le> 6889 \<or> dPort = 6969 then False
      else if dPort = 1337 \<or> dPort = 9337 \<or> dPort = 2710 then False
      else if dPort < 1024 then False
      else if 11000 \<le> dPort then False
      else True)"

text \<open>\<open>blockIp4s\<close> is the generated table.\<close>

definition egress_inspect :: "(byte list \<Rightarrow> bool) \<Rightarrow> IpPath \<Rightarrow> SecurityPolicyResult" where
  "egress_inspect blockIp4s p =
     (if \<not> isPublicUnicast (ip_DestinationIp p) then SecurityPolicyResultIncident
      else if ip_Version p = 4 \<and> (case To4 (ip_DestinationIp p) of Some ip \<Rightarrow> blockIp4s ip | None \<Rightarrow> False) then SecurityPolicyResultDrop
      else if egressPort (ip_Protocol p) (ip_DestinationPort p) then SecurityPolicyResultAllow
      else SecurityPolicyResultDrop)"

definition ingress_inspect :: "IpPath \<Rightarrow> SecurityPolicyResult" where
  "ingress_inspect p = (if 11000 \<le> ip_SourcePort p then SecurityPolicyResultDrop else SecurityPolicyResultAllow)"

text \<open>The statistics; \<open>ipString\<close> is the text of an address.\<close>

record SecurityDestination =
  sd_Version :: nat
  sd_Protocol :: IpProtocol
  sd_Ip :: string
  sd_Port :: int

definition newSecurityDestinationPort :: "IpPath \<Rightarrow> SecurityDestination" where
  "newSecurityDestinationPort p =
     \<lparr>sd_Version = ip_Version p, sd_Protocol = ip_Protocol p, sd_Ip = [], sd_Port = ip_DestinationPort p\<rparr>"

definition newSecurityDestination :: "(byte list \<Rightarrow> string) \<Rightarrow> IpPath \<Rightarrow> SecurityDestination" where
  "newSecurityDestination ipString p =
     \<lparr>sd_Version = ip_Version p, sd_Protocol = ip_Protocol p, sd_Ip = ipString (ip_DestinationIp p), sd_Port = ip_DestinationPort p\<rparr>"

definition newSecuritySourcePort :: "IpPath \<Rightarrow> SecurityDestination" where
  "newSecuritySourcePort p =
     \<lparr>sd_Version = ip_Version p, sd_Protocol = ip_Protocol p, sd_Ip = [], sd_Port = ip_SourcePort p\<rparr>"

definition newSecuritySource :: "(byte list \<Rightarrow> string) \<Rightarrow> IpPath \<Rightarrow> SecurityDestination" where
  "newSecuritySource ipString p =
     \<lparr>sd_Version = ip_Version p, sd_Protocol = ip_Protocol p, sd_Ip = ipString (ip_SourceIp p), sd_Port = ip_SourcePort p\<rparr>"

type_synonym SecurityPolicyStats = "SecurityPolicyResult \<Rightarrow> (SecurityDestination \<Rightarrow> u64 option) option"

record SecurityPolicyStatsCollector =
  includeIp :: bool
  resultDestinationCounts :: SecurityPolicyStats

definition DefaultSecurityPolicyStatsCollector :: SecurityPolicyStatsCollector where
  "DefaultSecurityPolicyStatsCollector = \<lparr>includeIp = False, resultDestinationCounts = \<lambda>_. None\<rparr>"

definition addCount ::
    "SecurityDestination \<Rightarrow> SecurityPolicyResult \<Rightarrow> u64 \<Rightarrow> SecurityPolicyStatsCollector \<Rightarrow> SecurityPolicyStatsCollector" where
  "addCount dest r n c =
     (let counts = (case resultDestinationCounts c r of Some m \<Rightarrow> m | None \<Rightarrow> (\<lambda>_. None));
          count = (case counts dest of Some k \<Rightarrow> k | None \<Rightarrow> 0)
      in c\<lparr>resultDestinationCounts := (resultDestinationCounts c)(r \<mapsto> counts(dest \<mapsto> count + n))\<rparr>)"

definition AddDestination_stats ::
    "(byte list \<Rightarrow> string) \<Rightarrow> IpPath \<Rightarrow> SecurityPolicyResult \<Rightarrow> u64 \<Rightarrow> SecurityPolicyStatsCollector \<Rightarrow> SecurityPolicyStatsCollector" where
  "AddDestination_stats ipString p r n c =
     addCount (if includeIp c then newSecurityDestination ipString p else newSecurityDestinationPort p) r n c"

definition AddSource_stats ::
    "(byte list \<Rightarrow> string) \<Rightarrow> IpPath \<Rightarrow> SecurityPolicyResult \<Rightarrow> u64 \<Rightarrow> SecurityPolicyStatsCollector \<Rightarrow> SecurityPolicyStatsCollector" where
  "AddSource_stats ipString p r n c =
     addCount (if includeIp c then newSecuritySource ipString p else newSecuritySourcePort p) r n c"

definition Stats_security :: "bool \<Rightarrow> SecurityPolicyStatsCollector \<Rightarrow> SecurityPolicyStatsCollector \<times> SecurityPolicyStats" where
  "Stats_security reset c =
     (if reset then c\<lparr>resultDestinationCounts := \<lambda>_. None\<rparr> else c, resultDestinationCounts c)"

text \<open>A policy is one of three kinds with its collector; the error that \<open>Inspect\<close> may return is always nil.\<close>

datatype security_policy = EgressPolicy | IngressPolicy | DisabledPolicy

definition Inspect ::
    "(byte list \<Rightarrow> bool) \<Rightarrow> (byte list \<Rightarrow> string) \<Rightarrow> security_policy \<Rightarrow> IpPath \<Rightarrow> SecurityPolicyStatsCollector \<Rightarrow>
      SecurityPolicyStatsCollector \<times> SecurityPolicyResult" where
  "Inspect blockIp4s ipString policy p c =
     (case policy of
        EgressPolicy \<Rightarrow> let r = egress_inspect blockIp4s p in (AddDestination_stats ipString p r 1 c, r)
      | IngressPolicy \<Rightarrow> let r = ingress_inspect p in (AddSource_stats ipString p r 1 c, r)
      | DisabledPolicy \<Rightarrow> (c, SecurityPolicyResultAllow))"

section \<open>Properties of the table\<close>

text \<open>The key of a packet: its path in the form of its version.\<close>

definition pathKey :: "decoder \<Rightarrow> byte list \<Rightarrow> (Ip4Path + Ip6Path) option" where
  "pathKey d packet =
     (case ParseIpPath d packet of
        Some (Inr p) \<Rightarrow> if ip_Version p = 4 then Some (Inl (ToIp4Path p)) else if ip_Version p = 6 then Some (Inr (ToIp6Path p)) else None
      | _ \<Rightarrow> None)"

definition lookupKey :: "pathTable \<Rightarrow> Ip4Path + Ip6Path \<Rightarrow> MultiHopId option" where
  "lookupKey t k = (case k of Inl k \<Rightarrow> paths4 t k | Inr k \<Rightarrow> paths6 t k)"

text \<open>A sequence of selections, with the index that each draws.\<close>

fun selections :: "decoder \<Rightarrow> (nat \<times> byte list) list \<Rightarrow> pathTable \<Rightarrow> (unit + MultiHopId) list option" where
  "selections d [] t = Some []"
| "selections d ((i, packet) # xs) t =
     (case SelectDestination d i packet t of None \<Rightarrow> None
      | Some (t, r) \<Rightarrow> map_option (Cons r) (selections d xs t))"


lemma SelectDestination_single:
  "length (pt_destinations t) = 1 \<Longrightarrow> SelectDestination d i packet t = Some (t, Inr (pt_destinations t ! 0))"
  by (simp add: SelectDestination_def)

definition insertKey :: "Ip4Path + Ip6Path \<Rightarrow> MultiHopId \<Rightarrow> pathTable \<Rightarrow> pathTable" where
  "insertKey k v t = (case k of Inl k \<Rightarrow> t\<lparr>paths4 := (paths4 t)(k := Some v)\<rparr> | Inr k \<Rightarrow> t\<lparr>paths6 := (paths6 t)(k := Some v)\<rparr>)"

lemma insertKey_simps [simp]:
  "pt_destinations (insertKey k v t) = pt_destinations t"
  "lookupKey (insertKey k v t) key = (if key = k then Some v else lookupKey t key)"
  by (auto simp: insertKey_def lookupKey_def split: sum.splits)

lemma SelectDestination_key:
  assumes "length (pt_destinations t) \<noteq> 1"
  shows "SelectDestination d i packet t =
     (if ParseIpPath d packet = None then None
      else Some (case pathKey d packet of None \<Rightarrow> (t, Inl ())
        | Some key \<Rightarrow> (case lookupKey t key of Some v \<Rightarrow> (t, Inr v)
            | None \<Rightarrow> (insertKey key (pt_destinations t ! i) t, Inr (pt_destinations t ! i)))))"
proof (cases "ParseIpPath d packet")
  case None
  then show ?thesis using assms unfolding SelectDestination_def by simp
next
  case (Some q)
  then show ?thesis using assms unfolding SelectDestination_def
    by (cases q) (auto simp: pathKey_def lookupKey_def insertKey_def Let_def split: option.splits)
qed

text \<open>A selection keeps what the table knows, and afterwards the table knows its result.\<close>

lemma SelectDestination_ok:
  assumes "SelectDestination d i packet t = Some (t', r)" "length (pt_destinations t) \<noteq> 1"
  shows "pt_destinations t' = pt_destinations t"
    and "lookupKey t key = Some v \<Longrightarrow> lookupKey t' key = Some v"
    and "pathKey d packet = Some key \<Longrightarrow> \<exists>v. r = Inr v \<and> lookupKey t' key = Some v \<and> (v = pt_destinations t ! i \<or> lookupKey t key = Some v)"
    and "pathKey d packet = None \<Longrightarrow> r = Inl () \<and> t' = t"
    and "pathKey d packet \<noteq> Some key \<Longrightarrow> lookupKey t' key = lookupKey t key"
  using assms(1) unfolding SelectDestination_key [OF assms(2)] by (auto split: option.splits if_splits)

lemma selections_Cons:
  assumes "selections d ((i, packet) # xs) t = Some rs"
  obtains t' r rs' where "SelectDestination d i packet t = Some (t', r)" "selections d xs t' = Some rs'" "rs = r # rs'"
  using assms by (auto split: option.splits)

lemma selections_known:
  assumes "selections d xs t = Some rs" "length (pt_destinations t) \<noteq> 1" "lookupKey t key = Some v"
    "j < length xs" "pathKey d (snd (xs ! j)) = Some key"
  shows "rs ! j = Inr v"
  using assms
proof (induction xs arbitrary: t rs j)
  case (Cons x xs)
  obtain i packet where x: "x = (i, packet)" by force
  obtain t' r rs' where step: "SelectDestination d i packet t = Some (t', r)" "selections d xs t' = Some rs'" "rs = r # rs'"
    using Cons.prems(1) unfolding x by (rule selections_Cons)
  note ok = SelectDestination_ok [OF step(1) Cons.prems(2)]
  show ?case
  proof (cases j)
    case 0
    then have "pathKey d packet = Some key" using Cons.prems(5) x by simp
    then show ?thesis using ok(2) [OF Cons.prems(3)] ok(3) [of key] 0 step(3) by auto
  next
    case (Suc k)
    then show ?thesis using Cons.IH [OF step(2)] ok(1) ok(2) [OF Cons.prems(3)] Cons.prems(2,4,5) step(3) by simp
  qed
qed simp

lemma selections_single:
  "selections d xs t = Some rs \<Longrightarrow> length (pt_destinations t) = 1 \<Longrightarrow> rs = replicate (length xs) (Inr (pt_destinations t ! 0))"
proof (induction xs arbitrary: rs)
  case (Cons x xs)
  then show ?case by (cases x) (auto simp: SelectDestination_single)
qed simp

lemma selections_sticky:
  assumes "selections d xs t = Some rs" "length (pt_destinations t) \<noteq> 1" "j < k" "k < length xs"
    "pathKey d (snd (xs ! j)) = Some key" "pathKey d (snd (xs ! k)) = Some key"
  shows "rs ! j = rs ! k"
  using assms
proof (induction xs arbitrary: t rs j k)
  case (Cons x xs)
  obtain i packet where x: "x = (i, packet)" by force
  obtain t' r rs' where step: "SelectDestination d i packet t = Some (t', r)" "selections d xs t' = Some rs'" "rs = r # rs'"
    using Cons.prems(1) unfolding x by (rule selections_Cons)
  note ok = SelectDestination_ok [OF step(1) Cons.prems(2)]
  obtain k' where k: "k = Suc k'" using Cons.prems(3) by (cases k) auto
  show ?case
  proof (cases j)
    case 0
    then obtain v where v: "r = Inr v" "lookupKey t' key = Some v" using ok(3) [of key] Cons.prems(5) x by auto
    have "rs' ! k' = Inr v"
      using selections_known [OF step(2) _ v(2)] ok(1) Cons.prems(2,4,6) k by simp
    then show ?thesis using 0 k v(1) step(3) by simp
  next
    case (Suc j')
    then show ?thesis using Cons.IH [OF step(2)] ok(1) Cons.prems k step(3) by simp
  qed
qed simp

lemma selections_within:
  assumes "selections d xs t = Some rs" "length (pt_destinations t) \<noteq> 1" "\<forall>(i, _)\<in>set xs. i < length (pt_destinations t)"
    "\<And>key v. lookupKey t key = Some v \<Longrightarrow> v \<in> set (pt_destinations t)"
  shows "length rs = length xs \<and> set rs \<subseteq> insert (Inl ()) (Inr ` set (pt_destinations t))"
  using assms
proof (induction xs arbitrary: t rs)
  case (Cons x xs)
  obtain i packet where x: "x = (i, packet)" by force
  obtain t' r rs' where step: "SelectDestination d i packet t = Some (t', r)" "selections d xs t' = Some rs'" "rs = r # rs'"
    using Cons.prems(1) unfolding x by (rule selections_Cons)
  note ok = SelectDestination_ok [OF step(1) Cons.prems(2)]
  have i: "pt_destinations t ! i \<in> set (pt_destinations t)" using Cons.prems(3) x by simp
  have r: "r \<in> insert (Inl ()) (Inr ` set (pt_destinations t))"
    using ok(3,4) i Cons.prems(4) by (cases "pathKey d packet") auto
  have "v \<in> set (pt_destinations t')" if look: "lookupKey t' key = Some v" for key v
  proof (cases "pathKey d packet = Some key")
    case True
    then show ?thesis using ok(1) ok(3) [OF True] look i Cons.prems(4) by auto
  next
    case False
    have "lookupKey t' key = lookupKey t key" by (rule ok(5) [OF False])
    then show ?thesis using look Cons.prems(4) ok(1) by simp
  qed
  then have "length rs' = length xs \<and> set rs' \<subseteq> insert (Inl ()) (Inr ` set (pt_destinations t'))"
    using Cons.IH [OF step(2)] ok(1) Cons.prems(2,3) by simp
  then show ?case using r step(3) ok(1) by simp
qed simp

lemma path_table_sticky_parts:
  assumes "newPathTable dests = Inr t" "selections d xs t = Some rs" "\<forall>(i, _)\<in>set xs. i < length dests"
  shows "\<forall>j k key. j < length xs \<and> k < length xs \<and> pathKey d (snd (xs ! j)) = Some key \<and> pathKey d (snd (xs ! k)) = Some key \<longrightarrow>
           rs ! j = rs ! k"
    and "set rs \<subseteq> insert (Inl ()) (Inr ` set dests)"
proof -
  have t: "pt_destinations t = dests" "\<And>key. lookupKey t key = None" "dests \<noteq> []"
    using assms(1) by (auto simp: newPathTable_def lookupKey_def split: if_splits sum.splits)
  have both: "(\<forall>j k key. j < length xs \<and> k < length xs \<and> pathKey d (snd (xs ! j)) = Some key \<and> pathKey d (snd (xs ! k)) = Some key \<longrightarrow>
           rs ! j = rs ! k) \<and> set rs \<subseteq> insert (Inl ()) (Inr ` set dests)"
  proof (cases "length dests = 1")
    case True
    then have rs: "rs = replicate (length xs) (Inr (dests ! 0))" using selections_single [OF assms(2)] t(1) by simp
    have "dests ! 0 \<in> set dests" using t(3) by simp
    then show ?thesis unfolding rs by auto
  next
    case False
    have "rs ! j = rs ! k" if "j < length xs" "k < length xs" "pathKey d (snd (xs ! j)) = Some key" "pathKey d (snd (xs ! k)) = Some key" for j k key
      using selections_sticky [OF assms(2)] False t(1) that by (cases j k rule: linorder_cases) fastforce+
    moreover have "set rs \<subseteq> insert (Inl ()) (Inr ` set dests)"
      using selections_within [OF assms(2)] False t assms(3) by simp
    ultimately show ?thesis by blast
  qed
  then show "\<forall>j k key. j < length xs \<and> k < length xs \<and> pathKey d (snd (xs ! j)) = Some key \<and> pathKey d (snd (xs ! k)) = Some key \<longrightarrow>
           rs ! j = rs ! k" "set rs \<subseteq> insert (Inl ()) (Inr ` set dests)" by blast+
qed

text \<open>
  C24: The packets of one path go to one destination: whatever the table draws, two packets with the same protocol,
  addresses and ports are given the same destination, and only destinations of the table are ever given.
\<close>

theorem path_table_sticky:
  assumes "newPathTable dests = Inr t" "selections d xs t = Some rs" "\<forall>(i, _)\<in>set xs. i < length dests"
  shows "(\<forall>j k key. j < length xs \<and> k < length xs \<and> pathKey d (snd (xs ! j)) = Some key \<and> pathKey d (snd (xs ! k)) = Some key \<longrightarrow>
           rs ! j = rs ! k) \<and>
    (set rs \<subseteq> insert (Inl ()) (Inr ` set dests))"
  using path_table_sticky_parts [OF assms] by blast

section \<open>Properties of the policy\<close>








text \<open>
  The block list is consulted for packets of version 4 only: a blocked address in its IPv6 form passes, and the socket is
  opened to the IPv4 address, since both have the same text. The limited broadcast address counts as public unicast.
\<close>

lemma mapped_address_passes:
  "let p = emptyIpPath\<lparr>ip_Protocol := IpProtocolTcp, ip_DestinationPort := 443\<rparr>; blocked = (\<lambda>ip. ip = [1, 0, 154, 183])
   in egress_inspect blocked (p\<lparr>ip_Version := 4, ip_DestinationIp := [1, 0, 154, 183]\<rparr>) = SecurityPolicyResultDrop \<and>
      egress_inspect blocked (p\<lparr>ip_Version := 6, ip_DestinationIp := v4InV6Prefix @ [1, 0, 154, 183]\<rparr>) = SecurityPolicyResultAllow"
  by code_simp

lemma broadcast_is_public: "isPublicUnicast [255, 255, 255, 255]"
  by code_simp

text \<open>The statistics count the decisions, for every result and destination.\<close>

fun inspections :: "(byte list \<Rightarrow> bool) \<Rightarrow> (byte list \<Rightarrow> string) \<Rightarrow> IpPath list \<Rightarrow> SecurityPolicyStatsCollector \<Rightarrow>
    SecurityPolicyStatsCollector \<times> SecurityPolicyResult list" where
  "inspections blocked ipString [] c = (c, [])"
| "inspections blocked ipString (p # ps) c =
     (case Inspect blocked ipString EgressPolicy p c of (c, r) \<Rightarrow>
        (case inspections blocked ipString ps c of (c, rs) \<Rightarrow> (c, r # rs)))"

definition countOf :: "SecurityPolicyStatsCollector \<Rightarrow> SecurityPolicyResult \<Rightarrow> SecurityDestination \<Rightarrow> u64" where
  "countOf c r dest = (case resultDestinationCounts c r of None \<Rightarrow> 0 | Some m \<Rightarrow> (case m dest of None \<Rightarrow> 0 | Some n \<Rightarrow> n))"

lemma countOf_add: "countOf (addCount dest' r' n c) r dest = countOf c r dest + (if r = r' \<and> dest = dest' then n else 0)"
  by (auto simp: countOf_def addCount_def Let_def split: option.splits)

lemma inspections_count:
  assumes "inspections blocked ipString ps c = (c', rs)" "\<not> includeIp c"
  shows "rs = map (egress_inspect blocked) ps"
    and "countOf c' r dest = countOf c r dest +
           of_nat (length (filter (\<lambda>p. egress_inspect blocked p = r \<and> newSecurityDestinationPort p = dest) ps))"
  using assms
proof (induction ps arbitrary: c rs)
  case (Cons p ps)
  {
    case 1
    then show ?case using Cons.IH(1) by (auto simp: Inspect_def Let_def AddDestination_stats_def addCount_def split: prod.splits)
  next
    case 2
    let ?c = "addCount (newSecurityDestinationPort p) (egress_inspect blocked p) 1 c"
    obtain ss where "inspections blocked ipString ps ?c = (c', ss)"
      using 2 by (auto simp: Inspect_def Let_def AddDestination_stats_def split: prod.splits)
    moreover have "\<not> includeIp ?c" using 2(2) by (simp add: addCount_def Let_def)
    ultimately show ?case using Cons.IH(2) [of ?c ss] by (auto simp: countOf_add)
  }
qed auto


section \<open>Examples\<close>

text \<open>A decoder of headers without options.\<close>

definition byteAt :: "byte list \<Rightarrow> nat \<Rightarrow> byte" where
  "byteAt b i = (if i < length b then b ! i else 0)"

definition u16_at :: "byte list \<Rightarrow> nat \<Rightarrow> u16" where
  "u16_at b i = push_bit 8 (ucast (byteAt b i)) + ucast (byteAt b (i + 1))"

definition u32_at :: "byte list \<Rightarrow> nat \<Rightarrow> u32" where
  "u32_at b i = push_bit 16 (ucast (u16_at b i)) + ucast (u16_at b (i + 2))"

definition example_decoder :: decoder where
  "example_decoder =
     \<lparr>d_ipv4 = \<lambda>b. \<lparr>il_SrcIP = take 4 (drop 12 b), il_DstIP = take 4 (drop 16 b), il_Protocol = unat (byteAt b 9), il_Payload = drop 20 b\<rparr>,
      d_ipv6 = \<lambda>b. \<lparr>il_SrcIP = take 16 (drop 8 b), il_DstIP = take 16 (drop 24 b), il_Protocol = unat (byteAt b 6), il_Payload = drop 40 b\<rparr>,
      d_udp = \<lambda>b. \<lparr>ul_SrcPort = u16_at b 0, ul_DstPort = u16_at b 2, ul_Payload = drop 8 b\<rparr>,
      d_tcp = \<lambda>b. \<lparr>t_SrcPort = u16_at b 0, t_DstPort = u16_at b 2, t_Seq = u32_at b 4, t_Ack = u32_at b 8,
        t_SYN = bit (byteAt b 13) 1, t_ACK = bit (byteAt b 13) 4, t_FIN = bit (byteAt b 13) 0, t_RST = bit (byteAt b 13) 2,
        t_Window = u16_at b 14, t_Options = [], t_Payload = drop 20 b\<rparr>\<rparr>"

definition udp_example :: "byte \<Rightarrow> byte \<Rightarrow> byte list" where
  "udp_example host port = [0x45, 0, 0, 29, 0, 0, 0, 0, 64, 17, 0, 0, 10, 0, 0, 1, 1, 2, 3, host, 16, 0, 1, port, 0, 9, 0, 0, 7]"

lemma udp_example_path:
  "ParseIpPath example_decoder (udp_example 4 187) = Some (Inr (emptyIpPath\<lparr>ip_Version := 4, ip_Protocol := IpProtocolUdp,
     ip_SourceIp := [10, 0, 0, 1], ip_SourcePort := 4096, ip_DestinationIp := [1, 2, 3, 4], ip_DestinationPort := 443\<rparr>))"
  by code_simp

text \<open>Two destinations: the packets of one path get the one that the first of them drew, another path draws anew.\<close>

theorem path_table_sticky_witness:
  "\<exists>t rs. newPathTable [emptyMultiHopId, emptyMultiHopId\<lparr>mh_len := 1\<rparr>] = Inr t \<and>
     selections example_decoder [(1, udp_example 4 187), (0, udp_example 5 187), (0, udp_example 4 187)] t = Some rs \<and>
     rs ! 0 = rs ! 2 \<and> rs ! 0 \<noteq> rs ! 1"
proof -
  let ?xs = "[(1, udp_example 4 187), (0, udp_example 5 187), (0, udp_example 4 187)]"
  let ?t = "\<lparr>pt_destinations = [emptyMultiHopId, emptyMultiHopId\<lparr>mh_len := 1\<rparr>], paths4 = \<lambda>_. None, paths6 = \<lambda>_. None\<rparr>"
  have t: "newPathTable [emptyMultiHopId, emptyMultiHopId\<lparr>mh_len := 1\<rparr>] = Inr ?t" by (simp add: newPathTable_def)
  have eval: "map_option (map (map_sum id mh_len)) (selections example_decoder ?xs ?t) = Some [Inr 1, Inr 0, Inr 1]" by code_simp
  then obtain rs where rs: "selections example_decoder ?xs ?t = Some rs" by (cases "selections example_decoder ?xs ?t") simp_all
  have "map (map_sum id mh_len) rs = [Inr 1, Inr 0, Inr 1]" using eval unfolding rs by simp
  then have differ: "rs ! 0 \<noteq> rs ! 1" by (auto simp: Cons_eq_map_conv map_eq_Cons_conv)
  have "pathKey example_decoder (udp_example 4 187) \<noteq> None" by code_simp
  then obtain key where key: "pathKey example_decoder (udp_example 4 187) = Some key" by blast
  have "\<forall>(i, _)\<in>set ?xs. i < length [emptyMultiHopId, emptyMultiHopId\<lparr>mh_len := 1\<rparr>]" by simp
  from path_table_sticky [OF t rs this, THEN conjunct1, rule_format, of 0 2 key] key have "rs ! 0 = rs ! 2" by simp
  then show ?thesis using t rs differ by blast
qed



end
