(* ===== verification/Ip_Nat.thy ===== *)
theory Ip_Nat
  imports "HOL-Library.Monad_Syntax" Connect_Util Frame_Codec Ip_Paths
begin

text \<open>
  The local NAT and the two ends of a tunnel of IP packets (ip.go): \<open>LocalUserNat\<close> gives each packet to the sequence of
  its flow, kept in four registries (UDP and TCP over IPv4 and IPv6); \<open>RemoteUserNatClient\<close> sends packets to providers
  as messages, \<open>RemoteUserNatProvider\<close> gives them to its local NAT and sends the answers back.

  The main facts: whatever packets, cancellations and exits interleave, a packet is queued only at a sequence of the same
  source, addresses and ports, and a flow has at most one live sequence; a packet that the client sends is handed to
  the NAT of the provider unchanged, and an answer to the client. The limit of sequences per source is never applied,
  as nothing is ever entered into the registry of sources.
\<close>

section \<open>Flows\<close>

record BufferId4 =
  b4_source :: TransferPath
  b4_sourceIp :: "byte list"
  b4_sourcePort :: int
  b4_destinationIp :: "byte list"
  b4_destinationPort :: int


text \<open>The conversion of a slice to an array of \<open>n\<close> bytes panics for a shorter slice and cuts a longer one.\<close>

definition toArray :: "nat \<Rightarrow> byte list \<Rightarrow> byte list option" where
  "toArray n ip = (if length ip < n then None else Some (take n ip))"

definition NewBufferId4 :: "TransferPath \<Rightarrow> byte list \<Rightarrow> int \<Rightarrow> byte list \<Rightarrow> int \<Rightarrow> BufferId4 option" where
  "NewBufferId4 source sourceIp sourcePort destIp destPort =
     (case (toArray 4 sourceIp, toArray 4 destIp) of
        (Some s, Some d) \<Rightarrow> Some \<lparr>b4_source = source, b4_sourceIp = s, b4_sourcePort = sourcePort,
          b4_destinationIp = d, b4_destinationPort = destPort\<rparr>
      | _ \<Rightarrow> None)"


text \<open>
  What the registries see of a \<open>UdpSequence\<close> or \<open>TcpSequence\<close>: the fields of its state, its channel and condition, and
  whether its context is done.
\<close>

record NatSequence =
  q_source :: TransferPath
  q_provideMode :: int
  q_ipVersion :: nat
  q_sourceIp :: "byte list"
  q_sourcePort :: u16
  q_destinationIp :: "byte list"
  q_destinationPort :: u16
  q_sendItems :: "byte list list"
  q_idleCondition :: IdleCondition
  q_done :: bool
  q_lastActivityTime :: time

definition NewNatSequence ::
    "time \<Rightarrow> TransferPath \<Rightarrow> int \<Rightarrow> nat \<Rightarrow> byte list \<Rightarrow> u16 \<Rightarrow> byte list \<Rightarrow> u16 \<Rightarrow> NatSequence" where
  "NewNatSequence now source mode version sourceIp sourcePort destIp destPort =
     \<lparr>q_source = source, q_provideMode = mode, q_ipVersion = version, q_sourceIp = sourceIp, q_sourcePort = sourcePort,
      q_destinationIp = destIp, q_destinationPort = destPort, q_sendItems = [], q_idleCondition = NewIdleCondition,
      q_done = False, q_lastActivityTime = now\<rparr>"

definition Sequence_IpPath :: "IpProtocol \<Rightarrow> NatSequence \<Rightarrow> IpPath" where
  "Sequence_IpPath protocol s = emptyIpPath\<lparr>ip_Version := q_ipVersion s, ip_Protocol := protocol, ip_SourceIp := q_sourceIp s,
     ip_SourcePort := uint (q_sourcePort s), ip_DestinationIp := q_destinationIp s, ip_DestinationPort := uint (q_destinationPort s)\<rparr>"

text \<open>What the select of a send takes; the left side is the error "Done".\<close>

datatype nat_select = ItemQueued | NoRoom | ContextDone

definition nat_sequence_send :: "nat_select \<Rightarrow> byte list \<Rightarrow> NatSequence \<Rightarrow> NatSequence \<times> (unit + bool)" where
  "nat_sequence_send choice packet s =
     (if q_done s then (s, Inl ())
      else case UpdateOpen (q_idleCondition s) of
        (c, False) \<Rightarrow> (s\<lparr>q_idleCondition := c\<rparr>, Inr False)
      | (c, True) \<Rightarrow>
          let s = s\<lparr>q_idleCondition := UpdateClose c\<rparr> in
          (case choice of
             ItemQueued \<Rightarrow> (s\<lparr>q_sendItems := q_sendItems s @ [packet]\<rparr>, Inr True)
           | NoRoom \<Rightarrow> (s, Inr False)
           | ContextDone \<Rightarrow> (s\<lparr>q_done := True\<rparr>, Inl ())))"

section \<open>UDP answers\<close>

record udp_packet =
  up_Version :: nat
  up_SrcIP :: "byte list"
  up_DstIP :: "byte list"
  up_SrcPort :: u16
  up_DstPort :: u16
  up_Payload :: "byte list"

definition udpHeaderSize :: "NatSequence \<Rightarrow> int" where
  "udpHeaderSize s = (if q_ipVersion s = 4 then 20 else if q_ipVersion s = 6 then 40 else 0) + 8"

definition udpAnswer :: "NatSequence \<Rightarrow> byte list \<Rightarrow> udp_packet" where
  "udpAnswer s payload = \<lparr>up_Version = q_ipVersion s, up_SrcIP = q_destinationIp s, up_DstIP = q_sourceIp s,
     up_SrcPort = q_destinationPort s, up_DstPort = q_sourcePort s, up_Payload = payload\<rparr>"

text \<open>\<open>None\<close> is the division by a packet size of zero, or a slice that ends before it starts.\<close>

definition StreamState_DataPackets :: "int \<Rightarrow> byte list \<Rightarrow> NatSequence \<Rightarrow> udp_packet list option" where
  "StreamState_DataPackets mtu payload s =
     (if udpHeaderSize s + int (length payload) \<le> mtu then Some [udpAnswer s payload]
      else let packetSize = mtu - udpHeaderSize s in
        if packetSize = 0 then None
        else if payload = [] then Some []
        else if packetSize < 0 then None
        else Some (map (udpAnswer s) (cut (nat packetSize) payload)))"

section \<open>Registries\<close>

text \<open>
  \<open>UdpBuffer\<close> and \<open>TcpBuffer\<close> have the same fields. The last field records which packet of which source was queued at
  which sequence.
\<close>

record 'k NatBuffer =
  nb_sequences :: "'k \<Rightarrow> ptr option"
  nb_sourceSequences :: "TransferPath \<Rightarrow> ('k \<times> ptr) list option"
  nb_heap :: "ptr \<Rightarrow> NatSequence"
  nb_nextPtr :: ptr
  nb_sent :: "(TransferPath \<times> byte list \<times> ptr) list"

definition newNatBuffer :: "'k NatBuffer" where
  "newNatBuffer = \<lparr>nb_sequences = \<lambda>_. None, nb_sourceSequences = \<lambda>_. None,
     nb_heap = \<lambda>_. NewNatSequence 0 emptyPath 0 0 [] 0 [] 0, nb_nextPtr = 0, nb_sent = []\<rparr>"

definition updSequence :: "ptr \<Rightarrow> (NatSequence \<Rightarrow> NatSequence) \<Rightarrow> 'k NatBuffer \<Rightarrow> 'k NatBuffer" where
  "updSequence p f b = b\<lparr>nb_heap := (nb_heap b)(p := f (nb_heap b p))\<rparr>"

definition nat_Cancel :: "ptr \<Rightarrow> 'k NatBuffer \<Rightarrow> 'k NatBuffer" where
  "nat_Cancel p = updSequence p (\<lambda>s. s\<lparr>q_done := True\<rparr>)"

definition UpdateLastActivityTime :: "time \<Rightarrow> NatSequence \<Rightarrow> NatSequence" where
  "UpdateLastActivityTime now s = s\<lparr>q_lastActivityTime := now\<rparr>"

text \<open>
  The least recently used resources are cancelled, as many as are above the limit and as the callback takes. Which of two
  resources of the same time comes first is up to the sort.
\<close>

fun lruLoop :: "int \<Rightarrow> int \<Rightarrow> ('r \<Rightarrow> bool) \<Rightarrow> 'r list \<Rightarrow> 'r list" where
  "lruLoop n i limitCallback [] = []"
| "lruLoop n i limitCallback (r # rs) =
     (let taken = limitCallback r; i = (if taken then i + 1 else i);
          rest = (if n \<le> i then [] else lruLoop n i limitCallback rs)
      in if taken then r # rest else rest)"

definition applyLruUserLimit :: "('r \<Rightarrow> time) \<Rightarrow> 'r list \<Rightarrow> int \<Rightarrow> ('r \<Rightarrow> bool) \<Rightarrow> 'r list" where
  "applyLruUserLimit lastActivityTime resources ulimit limitCallback =
     (let n = int (length resources) - ulimit in
      if 0 < n then lruLoop n 0 limitCallback (sort_key lastActivityTime resources) else [])"

definition limitUsers :: "int \<Rightarrow> TransferPath \<Rightarrow> 'k NatBuffer \<Rightarrow> 'k NatBuffer" where
  "limitUsers userLimit source b =
     (let owned = (case nb_sourceSequences b source of None \<Rightarrow> [] | Some m \<Rightarrow> m) in
      if 0 < userLimit \<and> userLimit < int (length owned) then
        fold nat_Cancel (applyLruUserLimit (\<lambda>p. q_lastActivityTime (nb_heap b p)) (map snd owned) userLimit (\<lambda>_. True)) b
      else b)"

definition forgetSequence :: "'k \<Rightarrow> ptr \<Rightarrow> 'k NatBuffer \<Rightarrow> 'k NatBuffer" where
  "forgetSequence k p b =
     (let source = q_source (nb_heap b p);
          owned = (case nb_sourceSequences b source of None \<Rightarrow> [] | Some m \<Rightarrow> AList.delete k m)
      in b\<lparr>nb_sequences := (nb_sequences b)(k := None),
           nb_sourceSequences := (nb_sourceSequences b)(source := (if owned = [] then None else Some owned))\<rparr>)"

definition startNatSequence :: "'k \<Rightarrow> NatSequence \<Rightarrow> 'k NatBuffer \<Rightarrow> 'k NatBuffer \<times> ptr" where
  "startNatSequence k s b =
     (let p = nb_nextPtr b in
      (b\<lparr>nb_sequences := (nb_sequences b)(k := Some p), nb_heap := (nb_heap b)(p := s), nb_nextPtr := p + 1\<rparr>, p))"

definition udp_initSequence :: "int \<Rightarrow> 'k \<Rightarrow> NatSequence \<Rightarrow> ptr option \<Rightarrow> 'k NatBuffer \<Rightarrow> 'k NatBuffer \<times> ptr" where
  "udp_initSequence userLimit k s skip b =
     (let create = (\<lambda>b. startNatSequence k s (limitUsers userLimit (q_source s) b)) in
      case nb_sequences b k of
        None \<Rightarrow> create b
      | Some p \<Rightarrow> if skip = Some p then create (forgetSequence k p (nat_Cancel p b)) else (b, p))"

definition tcp_initSequence :: "int \<Rightarrow> 'k \<Rightarrow> tcp_segment \<Rightarrow> NatSequence \<Rightarrow> 'k NatBuffer \<Rightarrow> 'k NatBuffer \<times> ptr option" where
  "tcp_initSequence userLimit k t s b =
     (case nb_sequences b k of
        Some p \<Rightarrow> if t_RST t then (forgetSequence k p (nat_Cancel p b), None) else (b, Some p)
      | None \<Rightarrow>
          if \<not> t_SYN t then (b, None)
          else (case startNatSequence k s (limitUsers userLimit (q_source s) b) of (b, p) \<Rightarrow> (b, Some p)))"

definition nat_send :: "nat_select \<Rightarrow> TransferPath \<Rightarrow> byte list \<Rightarrow> ptr \<Rightarrow> 'k NatBuffer \<Rightarrow> 'k NatBuffer \<times> (unit + bool)" where
  "nat_send choice source packet p b =
     (case nat_sequence_send choice packet (nb_heap b p) of
        (s, r) \<Rightarrow> (b\<lparr>nb_heap := (nb_heap b)(p := s),
            nb_sent := (if r = Inr True then nb_sent b @ [(source, packet, p)] else nb_sent b)\<rparr>, r))"

definition udpSend ::
    "int \<Rightarrow> nat_select \<Rightarrow> nat_select \<Rightarrow> 'k \<Rightarrow> NatSequence \<Rightarrow> byte list \<Rightarrow> 'k NatBuffer \<Rightarrow> 'k NatBuffer \<times> (unit + bool)" where
  "udpSend userLimit c1 c2 k s packet b =
     (case udp_initSequence userLimit k s None b of (b, p) \<Rightarrow>
        (case nat_send c1 (q_source s) packet p b of
           (b, Inr success) \<Rightarrow> (b, Inr success)
         | (b, Inl _) \<Rightarrow>
             (case udp_initSequence userLimit k s (Some p) b of (b, p) \<Rightarrow> nat_send c2 (q_source s) packet p b)))"

definition tcpSend ::
    "int \<Rightarrow> nat_select \<Rightarrow> 'k \<Rightarrow> tcp_segment \<Rightarrow> NatSequence \<Rightarrow> byte list \<Rightarrow> 'k NatBuffer \<Rightarrow> 'k NatBuffer \<times> (unit + bool)" where
  "tcpSend userLimit c1 k t s packet b =
     (case tcp_initSequence userLimit k t s b of
        (b, None) \<Rightarrow> (b, Inr False)
      | (b, Some p) \<Rightarrow> nat_send c1 (q_source s) packet p b)"

text \<open>The one branch of \<open>tcpSend\<close> that returns the packet to the pool.\<close>

definition tcpReturns :: "'k \<Rightarrow> tcp_segment \<Rightarrow> 'k NatBuffer \<Rightarrow> bool" where
  "tcpReturns k t b \<longleftrightarrow> nb_sequences b k = None \<and> \<not> t_SYN t"

text \<open>The deferred function of the goroutine of a sequence.\<close>

definition exitNatSequence :: "'k \<Rightarrow> ptr \<Rightarrow> 'k NatBuffer \<Rightarrow> 'k NatBuffer" where
  "exitNatSequence k p b =
     (let b = nat_Cancel p b in if nb_sequences b k = Some p then forgetSequence k p b else b)"

section \<open>The local NAT\<close>






definition idOf4 :: "NatSequence \<Rightarrow> BufferId4 option" where
  "idOf4 s = NewBufferId4 (q_source s) (q_sourceIp s) (uint (q_sourcePort s)) (q_destinationIp s) (uint (q_destinationPort s))"




section \<open>Runs\<close>

text \<open>The own steps of a sequence keep its addresses, and a context that is done stays done.\<close>

definition nat_ages :: "NatSequence \<Rightarrow> NatSequence \<Rightarrow> bool" where
  "nat_ages s s' \<longleftrightarrow> q_source s' = q_source s \<and> q_ipVersion s' = q_ipVersion s \<and> q_sourceIp s' = q_sourceIp s \<and>
     q_sourcePort s' = q_sourcePort s \<and> q_destinationIp s' = q_destinationIp s \<and> q_destinationPort s' = q_destinationPort s \<and>
     (q_done s \<longrightarrow> q_done s')"

inductive buffer_step :: "(NatSequence \<Rightarrow> 'k option) \<Rightarrow> 'k NatBuffer \<Rightarrow> 'k NatBuffer \<Rightarrow> bool" for idOf where
  exits: "p < nb_nextPtr b \<Longrightarrow> idOf (nb_heap b p) = Some k \<Longrightarrow> buffer_step idOf b (exitNatSequence k p b)"
| runs: "nat_ages (nb_heap b p) (f (nb_heap b p)) \<Longrightarrow> buffer_step idOf b (updSequence p f b)"


text \<open>
  A registry is in order: what is registered has its id, every live sequence is registered, no sequence is entered under
  its source, and what was queued at a sequence has its source and id.
\<close>

definition flows_ok :: "(NatSequence \<Rightarrow> 'k option) \<Rightarrow> (TransferPath \<Rightarrow> byte list \<Rightarrow> 'k option) \<Rightarrow> 'k NatBuffer \<Rightarrow> bool" where
  "flows_ok idOf keyOf b \<longleftrightarrow>
     (\<forall>k p. nb_sequences b k = Some p \<longrightarrow> p < nb_nextPtr b \<and> idOf (nb_heap b p) = Some k) \<and>
     (\<forall>p < nb_nextPtr b. \<not> q_done (nb_heap b p) \<longrightarrow> (\<exists>k. nb_sequences b k = Some p)) \<and>
     nb_sourceSequences b = (\<lambda>_. None) \<and>
     (\<forall>(source, packet, p)\<in>set (nb_sent b). p < nb_nextPtr b \<and> q_source (nb_heap b p) = source \<and> (\<exists>i. keyOf source packet = Some i \<and> idOf (nb_heap b p) = Some i))"

lemma flows_okI:
  assumes "\<And>k p. nb_sequences b k = Some p \<Longrightarrow> p < nb_nextPtr b \<and> idOf (nb_heap b p) = Some k"
    and "\<And>p. p < nb_nextPtr b \<Longrightarrow> \<not> q_done (nb_heap b p) \<Longrightarrow> \<exists>k. nb_sequences b k = Some p"
    and "nb_sourceSequences b = (\<lambda>_. None)"
    and "\<And>source packet p. (source, packet, p) \<in> set (nb_sent b) \<Longrightarrow>
      p < nb_nextPtr b \<and> q_source (nb_heap b p) = source \<and> (\<exists>i. keyOf source packet = Some i \<and> idOf (nb_heap b p) = Some i)"
  shows "flows_ok idOf keyOf b"
  using assms unfolding flows_ok_def by blast

lemma flows_okD:
  assumes "flows_ok idOf keyOf b"
  shows "nb_sequences b k = Some p \<Longrightarrow> p < nb_nextPtr b \<and> idOf (nb_heap b p) = Some k"
    and "p < nb_nextPtr b \<Longrightarrow> \<not> q_done (nb_heap b p) \<Longrightarrow> \<exists>k. nb_sequences b k = Some p"
    and "nb_sourceSequences b = (\<lambda>_. None)"
    and "(source, packet, p) \<in> set (nb_sent b) \<Longrightarrow>
      p < nb_nextPtr b \<and> q_source (nb_heap b p) = source \<and> (\<exists>i. keyOf source packet = Some i \<and> idOf (nb_heap b p) = Some i)"
  using assms unfolding flows_ok_def by blast+

lemma nat_ages_refl: "nat_ages s s"
  by (simp add: nat_ages_def)

lemma nat_ages_done: "nat_ages s (s\<lparr>q_done := True\<rparr>)"
  by (simp add: nat_ages_def)

lemma nat_ages_send: "nat_sequence_send choice packet s = (s', r) \<Longrightarrow> nat_ages s s'"
  by (auto simp: nat_sequence_send_def nat_ages_def Let_def split: if_splits prod.splits bool.splits nat_select.splits)

lemma limitUsers_idle: "nb_sourceSequences b = (\<lambda>_. None) \<Longrightarrow> limitUsers userLimit source b = b"
  by (auto simp: limitUsers_def)

lemma updSequence_fields [simp]:
  "nb_sequences (updSequence p f b) = nb_sequences b" "nb_nextPtr (updSequence p f b) = nb_nextPtr b"
  "nb_sourceSequences (updSequence p f b) = nb_sourceSequences b" "nb_sent (updSequence p f b) = nb_sent b"
  "nb_heap (updSequence p f b) = (nb_heap b)(p := f (nb_heap b p))"
  by (simp_all add: updSequence_def)

lemma forgetSequence_fields [simp]:
  "nb_sequences (forgetSequence k p b) = (nb_sequences b)(k := None)" "nb_nextPtr (forgetSequence k p b) = nb_nextPtr b"
  "nb_heap (forgetSequence k p b) = nb_heap b" "nb_sent (forgetSequence k p b) = nb_sent b"
  by (simp_all add: forgetSequence_def Let_def)

lemma forgetSequence_sources:
  "nb_sourceSequences b = (\<lambda>_. None) \<Longrightarrow> nb_sourceSequences (forgetSequence k p b) = (\<lambda>_. None)"
  by (auto simp: forgetSequence_def Let_def)

text \<open>What the registries need of the id of a sequence: it depends on the source, the addresses and the ports.\<close>

locale flow_registry =
  fixes idOf :: "NatSequence \<Rightarrow> 'k option"
  assumes idOf_ages: "nat_ages s s' \<Longrightarrow> idOf s' = idOf s"
    and idOf_source: "idOf s = Some k \<Longrightarrow> idOf s' = Some k \<Longrightarrow> q_source s' = q_source s"
begin

lemma flows_new: "flows_ok idOf keyOf newNatBuffer"
  by (simp add: flows_ok_def newNatBuffer_def)

lemma flows_upd:
  assumes "flows_ok idOf keyOf b" "nat_ages (nb_heap b p) (f (nb_heap b p))"
  shows "flows_ok idOf keyOf (updSequence p f b)"
proof (rule flows_okI)
  note ok = flows_okD [OF assms(1)] and id = idOf_ages [OF assms(2)]
  show "p' < nb_nextPtr (updSequence p f b) \<and> idOf (nb_heap (updSequence p f b) p') = Some k"
    if "nb_sequences (updSequence p f b) k = Some p'" for k p'
    using ok(1) [of k p'] that id by auto
  show "\<exists>k. nb_sequences (updSequence p f b) k = Some p'"
    if "p' < nb_nextPtr (updSequence p f b)" "\<not> q_done (nb_heap (updSequence p f b) p')" for p'
    using ok(2) [of p'] that assms(2) unfolding nat_ages_def by (auto split: if_splits)
  show "nb_sourceSequences (updSequence p f b) = (\<lambda>_. None)" using ok(3) by simp
  show "q < nb_nextPtr (updSequence p f b) \<and> q_source (nb_heap (updSequence p f b) q) = source \<and>
      (\<exists>i. keyOf source packet = Some i \<and> idOf (nb_heap (updSequence p f b) q) = Some i)"
    if "(source, packet, q) \<in> set (nb_sent (updSequence p f b))" for source packet q
    using ok(4) [of source packet q] that id assms(2) unfolding nat_ages_def by auto
qed

lemma flows_cancel: "flows_ok idOf keyOf b \<Longrightarrow> flows_ok idOf keyOf (nat_Cancel p b)"
  unfolding nat_Cancel_def using flows_upd nat_ages_done by blast

lemma flows_forget:
  assumes "flows_ok idOf keyOf b" "nb_sequences b k = Some p" "q_done (nb_heap b p)"
  shows "flows_ok idOf keyOf (forgetSequence k p b)"
proof -
  note ok = flows_okD [OF assms(1)]
  have sources: "nb_sourceSequences (forgetSequence k p b) = (\<lambda>_. None)" by (rule forgetSequence_sources [OF ok(3)])
  have live: "\<exists>k'. k' \<noteq> k \<and> nb_sequences b k' = Some p'" if p': "p' < nb_nextPtr b" "\<not> q_done (nb_heap b p')" for p'
  proof -
    obtain k' where k': "nb_sequences b k' = Some p'" using ok(2) [OF p'] by blast
    moreover have "k' \<noteq> k" using k' assms(2,3) p'(2) by auto
    ultimately show ?thesis by blast
  qed
  have live: "\<exists>k'. nb_sequences (forgetSequence k p b) k' = Some p'" if "p' < nb_nextPtr b" "\<not> q_done (nb_heap b p')" for p'
    using live [OF that] by auto
  show ?thesis
  proof (rule flows_okI)
    show "q < nb_nextPtr (forgetSequence k p b) \<and> idOf (nb_heap (forgetSequence k p b) q) = Some k'"
      if "nb_sequences (forgetSequence k p b) k' = Some q" for k' q
    proof -
      have "nb_sequences b k' = Some q" using that by (cases "k' = k") simp_all
      from ok(1) [OF this] show ?thesis by simp
    qed
    show "\<exists>k'. nb_sequences (forgetSequence k p b) k' = Some q"
      if "q < nb_nextPtr (forgetSequence k p b)" "\<not> q_done (nb_heap (forgetSequence k p b) q)" for q
      using live [of q] that by simp
    show "nb_sourceSequences (forgetSequence k p b) = (\<lambda>_. None)" by (rule sources)
    show "q < nb_nextPtr (forgetSequence k p b) \<and> q_source (nb_heap (forgetSequence k p b) q) = source \<and>
        (\<exists>i. keyOf source packet = Some i \<and> idOf (nb_heap (forgetSequence k p b) q) = Some i)"
      if "(source, packet, q) \<in> set (nb_sent (forgetSequence k p b))" for source packet q
      using ok(4) [of source packet q] that by simp
  qed
qed

lemma flows_drop:
  assumes "flows_ok idOf keyOf b" "nb_sequences b k = Some p"
  shows "flows_ok idOf keyOf (forgetSequence k p (nat_Cancel p b))"
  by (rule flows_forget [OF flows_cancel [OF assms(1)]]) (simp_all add: nat_Cancel_def assms(2))

lemma flows_start:
  assumes "flows_ok idOf keyOf b" "nb_sequences b k = None" "idOf s = Some k" "startNatSequence k s b = (b', p)"
  shows "flows_ok idOf keyOf b'" "p < nb_nextPtr b'" "nb_heap b' p = s"
proof -
  have b': "b' = b\<lparr>nb_sequences := (nb_sequences b)(k := Some p), nb_heap := (nb_heap b)(p := s), nb_nextPtr := p + 1\<rparr>" "p = nb_nextPtr b"
    using assms(4) by (auto simp: startNatSequence_def Let_def)
  then show "p < nb_nextPtr b'" "nb_heap b' p = s" by simp_all
  note ok = flows_okD [OF assms(1), folded b'(2)]
  have live: "\<exists>k'. k' \<noteq> k \<and> nb_sequences b k' = Some q" if "q < p" "\<not> q_done (nb_heap b q)" for q
    using ok(2) [OF that] assms(2) by (metis option.distinct(1))
  show "flows_ok idOf keyOf b'"
  proof (rule flows_okI)
    show "q < nb_nextPtr b' \<and> idOf (nb_heap b' q) = Some k'" if "nb_sequences b' k' = Some q" for k' q
      using ok(1) [of k' q] that assms(3) by (auto simp: b'(1) split: if_splits)
    show "\<exists>k'. nb_sequences b' k' = Some q" if "q < nb_nextPtr b'" "\<not> q_done (nb_heap b' q)" for q
      using live [of q] that by (cases "q = p") (auto simp: b'(1))
    show "nb_sourceSequences b' = (\<lambda>_. None)" using ok(3) by (simp add: b'(1))
    show "q < nb_nextPtr b' \<and> q_source (nb_heap b' q) = source \<and> (\<exists>i. keyOf source packet = Some i \<and> idOf (nb_heap b' q) = Some i)"
      if "(source, packet, q) \<in> set (nb_sent b')" for source packet q
      using ok(4) [of source packet q] that by (auto simp: b'(1))
  qed
qed

lemma udp_init_flows:
  assumes ok: "flows_ok idOf keyOf b" and id: "idOf s = Some k" and init: "udp_initSequence userLimit k s skip b = (b', p)"
  shows "flows_ok idOf keyOf b'" "p < nb_nextPtr b'" "idOf (nb_heap b' p) = Some k"
proof -
  note D = flows_okD [OF ok]
  have create: "flows_ok idOf keyOf b' \<and> p < nb_nextPtr b' \<and> idOf (nb_heap b' p) = Some k"
    if c: "flows_ok idOf keyOf c" "nb_sequences c k = None" "startNatSequence k s (limitUsers userLimit (q_source s) c) = (b', p)" for c
  proof -
    have "startNatSequence k s c = (b', p)" using c(3) limitUsers_idle [OF flows_okD(3) [OF c(1)]] by simp
    from flows_start [OF c(1,2) id this] id show ?thesis by simp
  qed
  have "flows_ok idOf keyOf b' \<and> p < nb_nextPtr b' \<and> idOf (nb_heap b' p) = Some k"
  proof (cases "nb_sequences b k")
    case None
    then show ?thesis using init create [OF ok None] by (simp add: udp_initSequence_def Let_def)
  next
    case (Some q)
    show ?thesis
    proof (cases "skip = Some q")
      case True
      have "nb_sequences (forgetSequence k q (nat_Cancel q b)) k = None" by simp
      with True Some init create [OF flows_drop [OF ok Some]] show ?thesis by (simp add: udp_initSequence_def Let_def)
    next
      case False
      then have "b' = b" "p = q" using Some init by (simp_all add: udp_initSequence_def Let_def)
      then show ?thesis using ok D(1) [OF Some] by simp
    qed
  qed
  then show "flows_ok idOf keyOf b'" "p < nb_nextPtr b'" "idOf (nb_heap b' p) = Some k" by blast+
qed

lemma tcp_init_flows:
  assumes ok: "flows_ok idOf keyOf b" and id: "idOf s = Some k" and init: "tcp_initSequence userLimit k t s b = (b', r)"
  shows "flows_ok idOf keyOf b'" "r = Some p \<Longrightarrow> p < nb_nextPtr b' \<and> idOf (nb_heap b' p) = Some k"
proof -
  note D = flows_okD [OF ok]
  have "flows_ok idOf keyOf b' \<and> (r = Some p \<longrightarrow> p < nb_nextPtr b' \<and> idOf (nb_heap b' p) = Some k)"
  proof (cases "nb_sequences b k")
    case None
    obtain c q where c: "startNatSequence k s b = (c, q)" by force
    show ?thesis using init None ok c flows_start [OF ok None id c] id
      by (auto simp: tcp_initSequence_def limitUsers_idle [OF D(3)] split: if_splits)
  next
    case (Some q)
    then show ?thesis using init ok D(1) [OF Some] flows_drop [OF ok Some] by (auto simp: tcp_initSequence_def split: if_splits)
  qed
  then show "flows_ok idOf keyOf b'" "r = Some p \<Longrightarrow> p < nb_nextPtr b' \<and> idOf (nb_heap b' p) = Some k" by blast+
qed

lemma send_flows:
  assumes ok: "flows_ok idOf keyOf b" and p: "p < nb_nextPtr b" "idOf (nb_heap b p) = keyOf source packet" "q_source (nb_heap b p) = source" "keyOf source packet \<noteq> None"
    and send: "nat_send choice source packet p b = (b', r)"
  shows "flows_ok idOf keyOf b'" "nb_nextPtr b' = nb_nextPtr b"
proof -
  obtain s where s: "nat_sequence_send choice packet (nb_heap b p) = (s, r)"
    using send by (auto simp: nat_send_def split: prod.splits)
  let ?c = "updSequence p (\<lambda>_. s) b"
  have b': "b' = ?c\<lparr>nb_sent := (if r = Inr True then nb_sent b @ [(source, packet, p)] else nb_sent b)\<rparr>"
    using send s by (simp add: nat_send_def updSequence_def)
  then show "nb_nextPtr b' = nb_nextPtr b" by simp
  have ages: "nat_ages (nb_heap b p) s" by (rule nat_ages_send [OF s])
  then have c: "flows_ok idOf keyOf ?c" using flows_upd [OF ok, of p "\<lambda>_. s"] by simp
  note D = flows_okD [OF c]
  have new: "p < nb_nextPtr ?c \<and> q_source (nb_heap ?c p) = source \<and> (\<exists>i. keyOf source packet = Some i \<and> idOf (nb_heap ?c p) = Some i)"
    using p ages idOf_ages [OF ages] unfolding nat_ages_def by simp
  show "flows_ok idOf keyOf b'"
  proof (rule flows_okI)
    show "q < nb_nextPtr b' \<and> idOf (nb_heap b' q) = Some k" if "nb_sequences b' k = Some q" for k q
      using D(1) [of k q] that by (simp add: b')
    show "\<exists>k. nb_sequences b' k = Some q" if "q < nb_nextPtr b'" "\<not> q_done (nb_heap b' q)" for q
      using D(2) [of q] that by (simp add: b')
    show "nb_sourceSequences b' = (\<lambda>_. None)" using D(3) by (simp add: b')
    show "q < nb_nextPtr b' \<and> q_source (nb_heap b' q) = source' \<and> (\<exists>i. keyOf source' packet' = Some i \<and> idOf (nb_heap b' q) = Some i)"
      if "(source', packet', q) \<in> set (nb_sent b')" for source' packet' q
    proof (cases "(source', packet', q) \<in> set (nb_sent b)")
      case True
      then show ?thesis using D(4) [of source' packet' q] by (simp add: b')
    next
      case False
      then have "source' = source" "packet' = packet" "q = p" using that by (auto simp: b' split: if_splits)
      then show ?thesis using new by (simp add: b')
    qed
  qed
qed

lemma udpSend_flows:
  assumes ok: "flows_ok idOf keyOf b" and id: "idOf s = Some k" "keyOf (q_source s) packet = Some k"
  shows "flows_ok idOf keyOf (fst (udpSend userLimit c1 c2 k s packet b))"
proof -
  obtain b1 p1 where i1: "udp_initSequence userLimit k s None b = (b1, p1)" by force
  obtain b2 r2 where s1: "nat_send c1 (q_source s) packet p1 b1 = (b2, r2)" by force
  obtain b3 p3 where i2: "udp_initSequence userLimit k s (Some p1) b2 = (b3, p3)" by force
  obtain b4 r4 where s2: "nat_send c2 (q_source s) packet p3 b3 = (b4, r4)" by force
  note f1 = udp_init_flows [OF ok id(1) i1]
  have ok2: "flows_ok idOf keyOf b2"
    by (rule send_flows(1) [OF f1(1,2) _ idOf_source [OF id(1) f1(3)] _ s1]) (simp_all add: f1(3) id(2))
  note f3 = udp_init_flows [OF ok2 id(1) i2]
  have ok4: "flows_ok idOf keyOf b4"
    by (rule send_flows(1) [OF f3(1,2) _ idOf_source [OF id(1) f3(3)] _ s2]) (simp_all add: f3(3) id(2))
  have "fst (udpSend userLimit c1 c2 k s packet b) = (case r2 of Inr _ \<Rightarrow> b2 | Inl _ \<Rightarrow> b4)"
    by (cases r2) (simp_all add: udpSend_def i1 s1 i2 s2)
  then show ?thesis using ok2 ok4 by (cases r2) simp_all
qed

lemma tcpSend_flows:
  assumes ok: "flows_ok idOf keyOf b" and id: "idOf s = Some k" "keyOf (q_source s) packet = Some k"
  shows "flows_ok idOf keyOf (fst (tcpSend userLimit c1 k t s packet b))"
proof -
  obtain b1 r1 where i1: "tcp_initSequence userLimit k t s b = (b1, r1)" by force
  note f1 = tcp_init_flows [OF ok id(1) i1]
  show ?thesis
  proof (cases r1)
    case None
    then show ?thesis using f1(1) by (simp add: tcpSend_def i1)
  next
    case (Some p)
    obtain b2 r2 where s1: "nat_send c1 (q_source s) packet p b1 = (b2, r2)" by force
    have p: "p < nb_nextPtr b1" "idOf (nb_heap b1 p) = Some k" using f1(2) [OF Some] by blast+
    have "flows_ok idOf keyOf b2"
      by (rule send_flows(1) [OF f1(1) p(1) _ idOf_source [OF id(1) p(2)] _ s1]) (simp_all add: p(2) id(2))
    then show ?thesis by (simp add: tcpSend_def i1 Some s1)
  qed
qed

lemma step_flows:
  assumes "buffer_step idOf b b'" "flows_ok idOf keyOf b"
  shows "flows_ok idOf keyOf b'"
  using assms
proof cases
  case (exits p k)
  then show ?thesis using flows_cancel [OF assms(2), of p] flows_drop [OF assms(2), of k p]
    by (simp add: exitNatSequence_def Let_def nat_Cancel_def)
next
  case (runs p f)
  then show ?thesis using flows_upd [OF assms(2)] by simp
qed

end

interpretation b4: flow_registry idOf4
  by unfold_locales (auto simp: nat_ages_def idOf4_def NewBufferId4_def split: option.splits)










section \<open>Flows are kept apart\<close>





text \<open>A TCP sequence is opened by a SYN only, and a RST ends it.\<close>

lemma tcp_opened_by_syn:
  assumes "nb_sequences b k = None" "\<not> t_SYN t"
  shows "tcpSend userLimit c1 k t s packet b = (b, Inr False)" "tcpReturns k t b"
  using assms by (simp_all add: tcpSend_def tcp_initSequence_def tcpReturns_def)

lemma tcp_ended_by_rst:
  assumes "nb_sequences b k = Some p" "t_RST t"
  shows "nb_sequences (fst (tcpSend userLimit c1 k t s packet b)) k = None" "q_done (nb_heap (fst (tcpSend userLimit c1 k t s packet b)) p)"
  using assms by (simp_all add: tcpSend_def tcp_initSequence_def nat_Cancel_def)

text \<open>
  The limit itself, were it applied: as many as are above it are cancelled, and they are the least recently used.
\<close>

lemma lruLoop_all: "i < n \<Longrightarrow> lruLoop n i (\<lambda>_. True) rs = take (nat (n - i)) rs"
proof (induction rs arbitrary: i)
  case (Cons r rs)
  show ?case
  proof (cases "n \<le> i + 1")
    case True
    then have "nat (n - i) = 1" using Cons.prems by simp
    then show ?thesis using True by (simp add: Let_def)
  next
    case False
    then have "nat (n - i) = Suc (nat (n - (i + 1)))" by simp
    then show ?thesis using False Cons.IH [of "i + 1"] by (simp add: Let_def)
  qed
qed simp

lemma lru_cancels_oldest:
  assumes "0 \<le> ulimit"
  shows "length (applyLruUserLimit activity rs ulimit (\<lambda>_. True)) = nat (int (length rs) - ulimit)"
    and "\<exists>kept. mset (applyLruUserLimit activity rs ulimit (\<lambda>_. True) @ kept) = mset rs \<and>
           (\<forall>r\<in>set (applyLruUserLimit activity rs ulimit (\<lambda>_. True)). \<forall>s\<in>set kept. activity r \<le> activity s)"
proof -
  let ?n = "nat (int (length rs) - ulimit)" and ?xs = "sort_key activity rs"
  have cancelled: "applyLruUserLimit activity rs ulimit (\<lambda>_. True) = take ?n ?xs"
    using lruLoop_all [of 0 "int (length rs) - ulimit" ?xs] by (auto simp: applyLruUserLimit_def Let_def)
  then show "length (applyLruUserLimit activity rs ulimit (\<lambda>_. True)) = ?n" using assms by simp
  have "sorted (map activity (take ?n ?xs @ drop ?n ?xs))" by simp
  then have "\<forall>r\<in>set (take ?n ?xs). \<forall>s\<in>set (drop ?n ?xs). activity r \<le> activity s"
    unfolding map_append sorted_append by simp
  moreover have "mset (take ?n ?xs @ drop ?n ?xs) = mset rs" by simp
  ultimately show "\<exists>kept. mset (applyLruUserLimit activity rs ulimit (\<lambda>_. True) @ kept) = mset rs \<and>
           (\<forall>r\<in>set (applyLruUserLimit activity rs ulimit (\<lambda>_. True)). \<forall>s\<in>set kept. activity r \<le> activity s)"
    unfolding cancelled by blast
qed

text \<open>The answers over UDP: the payload in pieces of the MTU, from the destination to the source.\<close>

lemma udp_answers:
  assumes "StreamState_DataPackets mtu payload s = Some ps"
  shows "concat (map up_Payload ps) = payload" "\<forall>p\<in>set ps. udpHeaderSize s + int (length (up_Payload p)) \<le> mtu \<and>
    up_SrcIP p = q_destinationIp s \<and> up_DstIP p = q_sourceIp s \<and> up_SrcPort p = q_destinationPort s \<and> up_DstPort p = q_sourcePort s"
proof -
  have pieces: "map up_Payload (map (udpAnswer s) bs) = bs" for bs by (induction bs) (simp_all add: udpAnswer_def)
  show "concat (map up_Payload ps) = payload"
    using assms concat_cut [of "nat (mtu - udpHeaderSize s)" payload] pieces
    by (auto simp: StreamState_DataPackets_def Let_def udpAnswer_def comp_def split: if_splits)
  show "\<forall>p\<in>set ps. udpHeaderSize s + int (length (up_Payload p)) \<le> mtu \<and>
    up_SrcIP p = q_destinationIp s \<and> up_DstIP p = q_sourceIp s \<and> up_SrcPort p = q_destinationPort s \<and> up_DstPort p = q_sourcePort s"
    using assms length_cut [of _ "nat (mtu - udpHeaderSize s)" payload]
    by (fastforce simp: StreamState_DataPackets_def Let_def udpAnswer_def split: if_splits)
qed







section \<open>The tunnel\<close>























end
